(* ===== verification/Prelude.thy ===== *)
theory Prelude
  imports Main "HOL-Library.Char_ord" "HOL-Library.List_Lexorder" "HOL-Library.Word"
    "HOL-Library.Sublist" "HOL-Library.Product_Lexorder"
begin

text \<open>
  Shared vocabulary of the development: results of fallible Rust code as sums, ordered maps
  (\<open>BTreeMap\<close>) as strictly sorted association lists together with the interface every
  component uses them through, the byte-string functions of \<open>str\<close> that the sources call,
  saturating \<open>u64\<close> arithmetic, and the generic machine that lifts a one-step invariant to
  whole runs of a component.
\<close>

named_theorems res_simps \<open>unfolding of the result combinators\<close>
named_theorems str_simps \<open>string functions of the Rust standard library\<close>

section \<open>Results\<close>

text \<open>
  \<open>Result<T, E>\<close> is \<open>'e + 'a\<close>, the error on the left. \<open>anyhow::ensure!(c, e)\<close> followed
  by the rest of a function body is \<^term>\<open>ensure c e rest\<close>; the \<open>?\<close> operator is
  \<^term>\<open>res_bind\<close>.
\<close>

type_synonym ('e, 'a) result = "'e + 'a"

definition ensure :: "bool \<Rightarrow> 'e \<Rightarrow> ('e, 'a) result \<Rightarrow> ('e, 'a) result" where
  "ensure c e k = (if c then k else Inl e)"

fun res_bind :: "('e, 'a) result \<Rightarrow> ('a \<Rightarrow> ('e, 'b) result) \<Rightarrow> ('e, 'b) result" where
  "res_bind (Inl e) f = Inl e"
| "res_bind (Inr x) f = f x"

fun res_fold :: "('a \<Rightarrow> 's \<Rightarrow> ('e, 's) result) \<Rightarrow> 'a list \<Rightarrow> 's \<Rightarrow> ('e, 's) result" where
  "res_fold f [] s = Inr s"
| "res_fold f (x # xs) s = res_bind (f x s) (res_fold f xs)"

fun res_map :: "('a \<Rightarrow> ('e, 'b) result) \<Rightarrow> 'a list \<Rightarrow> ('e, 'b list) result" where
  "res_map f [] = Inr []"
| "res_map f (x # xs) = res_bind (f x) (\<lambda>y. res_bind (res_map f xs) (\<lambda>ys. Inr (y # ys)))"

abbreviation is_ok :: "('e, 'a) result \<Rightarrow> bool" where
  "is_ok r \<equiv> \<exists>x. r = Inr x"

lemma res_bind_cong [fundef_cong]:
  "r = r' \<Longrightarrow> (\<And>x. r' = Inr x \<Longrightarrow> f x = g x) \<Longrightarrow> res_bind r f = res_bind r' g"
  by (cases r') auto

lemma ensure_Inr [simp, res_simps]: "ensure c e k = Inr x \<longleftrightarrow> c \<and> k = Inr x"
  by (simp add: ensure_def)

lemma ensure_Inl [res_simps]: "ensure c e k = Inl d \<longleftrightarrow> (if c then k = Inl d else d = e)"
  by (auto simp: ensure_def)

lemma res_bind_Inr [simp, res_simps]: "res_bind r f = Inr y \<longleftrightarrow> (\<exists>x. r = Inr x \<and> f x = Inr y)"
  by (cases r) auto

lemma res_bind_Inl [res_simps]:
  "res_bind r f = Inl e \<longleftrightarrow> r = Inl e \<or> (\<exists>x. r = Inr x \<and> f x = Inl e)"
  by (cases r) auto

lemma res_fold_append:
  "res_fold f (xs @ ys) s = res_bind (res_fold f xs s) (res_fold f ys)"
proof (induction xs arbitrary: s)
  case Nil
  then show ?case by simp
next
  case (Cons x xs)
  then show ?case by (cases "f x s") auto
qed

text \<open>What one successful step keeps, a successful fold keeps.\<close>

lemma res_fold_inv:
  assumes "res_fold f xs s = Inr t" and "P s"
    and "\<And>x s s'. x \<in> set xs \<Longrightarrow> P s \<Longrightarrow> f x s = Inr s' \<Longrightarrow> P s'"
  shows "P t"
  using assms
proof (induction xs arbitrary: s)
  case Nil
  then show ?case by simp
next
  case (Cons x xs)
  from Cons.prems(1) obtain s' where s': "f x s = Inr s'" "res_fold f xs s' = Inr t" by auto
  have "P s'" using Cons.prems s'(1) by auto
  then show ?case by (rule Cons.IH [OF s'(2)]) (auto intro: Cons.prems(3))
qed

lemma res_map_length: "res_map f xs = Inr ys \<Longrightarrow> length ys = length xs"
  by (induction xs arbitrary: ys) auto

lemma set_map_filter_iff: "y \<in> set (List.map_filter f xs) \<longleftrightarrow> (\<exists>x \<in> set xs. f x = Some y)"
  by (force simp: List.map_filter_def)

section \<open>Ordered maps\<close>

text \<open>
  \<open>BTreeMap<K, V>\<close> (and \<open>serde_json::Map\<close>, which is one) iterates in key order, and
  results of the program depend on that order. A map is the list of its entries with strictly
  ascending keys; \<open>BTreeMap::get\<close> is \<^const>\<open>map_of\<close>.
\<close>

type_synonym ('k, 'v) btree = "('k \<times> 'v) list"

definition bt_wf :: "('k::linorder, 'v) btree \<Rightarrow> bool" where
  "bt_wf m \<longleftrightarrow> sorted_wrt (<) (map fst m)"

fun bt_insert :: "'k::linorder \<Rightarrow> 'v \<Rightarrow> ('k, 'v) btree \<Rightarrow> ('k, 'v) btree" where
  "bt_insert k v [] = [(k, v)]"
| "bt_insert k v ((k', v') # m) =
     (if k < k' then (k, v) # (k', v') # m
      else if k = k' then (k, v) # m
      else (k', v') # bt_insert k v m)"

definition bt_remove :: "'k \<Rightarrow> ('k, 'v) btree \<Rightarrow> ('k, 'v) btree" where
  "bt_remove k m = filter (\<lambda>e. fst e \<noteq> k) m"

definition bt_adjust :: "'k \<Rightarrow> ('v \<Rightarrow> 'v) \<Rightarrow> ('k, 'v) btree \<Rightarrow> ('k, 'v) btree" where
  "bt_adjust k f m = map (\<lambda>(k', v). (k', if k' = k then f v else v)) m"

abbreviation bt_keys :: "('k, 'v) btree \<Rightarrow> 'k list" where
  "bt_keys m \<equiv> map fst m"

abbreviation bt_values :: "('k, 'v) btree \<Rightarrow> 'v list" where
  "bt_values m \<equiv> map snd m"

abbreviation bt_has :: "('k, 'v) btree \<Rightarrow> 'k \<Rightarrow> bool" where
  "bt_has m k \<equiv> map_of m k \<noteq> None"

fun bt_of :: "('k::linorder \<times> 'v) list \<Rightarrow> ('k, 'v) btree" where
  "bt_of [] = []"
| "bt_of ((k, v) # xs) = (let m = bt_of xs in if bt_has m k then m else bt_insert k v m)"

lemma bt_wf_Nil [simp, intro]: "bt_wf []"
  by (simp add: bt_wf_def)

lemma bt_wf_Cons: "bt_wf ((k, v) # m) \<longleftrightarrow> bt_wf m \<and> (\<forall>k' \<in> fst ` set m. k < k')"
  by (auto simp: bt_wf_def)

lemma bt_wf_tl: "bt_wf (e # m) \<Longrightarrow> bt_wf m"
  by (cases e) (simp add: bt_wf_Cons)

lemma bt_wf_distinct: "bt_wf m \<Longrightarrow> distinct (map fst m)"
  by (simp add: bt_wf_def strict_sorted_iff)

lemma keys_bt_insert [simp]: "fst ` set (bt_insert k v m) = insert k (fst ` set m)"
  by (induction k v m rule: bt_insert.induct) auto

lemma bt_get_insert [simp]:
  "map_of (bt_insert k v m) k' = (if k' = k then Some v else map_of m k')"
  by (induction k v m rule: bt_insert.induct) auto

lemma bt_wf_insert [simp, intro]: "bt_wf m \<Longrightarrow> bt_wf (bt_insert k v m)"
proof (induction k v m rule: bt_insert.induct)
  case (1 k v)
  then show ?case by (simp add: bt_wf_def)
next
  case (2 k v k' v' m)
  then show ?case by (cases k k' rule: linorder_cases) (auto simp: bt_wf_Cons)
qed

lemma bt_get_remove [simp]: "map_of (bt_remove k m) k' = (if k' = k then None else map_of m k')"
  by (induction m) (auto simp: bt_remove_def)

lemma keys_bt_remove [simp]: "fst ` set (bt_remove k m) = fst ` set m - {k}"
  by (auto simp: bt_remove_def)

lemma bt_wf_filter: "bt_wf m \<Longrightarrow> bt_wf (filter P m)"
proof (induction m)
  case (Cons e m)
  then show ?case by (cases e) (auto simp: bt_wf_Cons)
qed simp

lemma bt_wf_remove [simp, intro]: "bt_wf m \<Longrightarrow> bt_wf (bt_remove k m)"
  by (simp add: bt_remove_def bt_wf_filter)

lemma keys_bt_adjust [simp]: "map fst (bt_adjust k f m) = map fst m"
  by (induction m) (auto simp: bt_adjust_def)

lemma bt_wf_adjust [simp]: "bt_wf (bt_adjust k f m) \<longleftrightarrow> bt_wf m"
  by (simp add: bt_wf_def)

lemma bt_get_adjust [simp]:
  "map_of (bt_adjust k f m) k' = (if k' = k then map_option f (map_of m k') else map_of m k')"
  by (induction m) (auto simp: bt_adjust_def)

lemma bt_get_iff: "bt_wf m \<Longrightarrow> map_of m k = Some v \<longleftrightarrow> (k, v) \<in> set m"
  using bt_wf_distinct map_of_eq_Some_iff by metis

lemma bt_has_iff: "bt_has m k \<longleftrightarrow> k \<in> fst ` set m"
  by (simp add: map_of_eq_None_iff)

lemma set_bt_insert: "bt_wf m \<Longrightarrow> set (bt_insert k v m) = insert (k, v) {e \<in> set m. fst e \<noteq> k}"
  by (rule set_eqI) (auto simp: bt_get_iff [symmetric] split: if_splits)

text \<open>Where an insertion takes place.\<close>

lemma bt_insert_new:
  assumes "map_of m k = None"
  obtains a b where "m = a @ b" "bt_insert k v m = a @ (k, v) # b"
proof -
  have "\<exists>a b. m = a @ b \<and> bt_insert k v m = a @ (k, v) # b"
    using assms
  proof (induction k v m rule: bt_insert.induct)
    case (2 k v k' v' m)
    show ?case
    proof (cases "k < k'")
      case True
      then show ?thesis by (intro exI [of _ "[]"] exI [of _ "(k', v') # m"]) simp
    next
      case False
      then obtain a b where "m = a @ b" "bt_insert k v m = a @ (k, v) # b" using 2 by (auto split: if_splits)
      then show ?thesis using False 2(2) by (intro exI [of _ "(k', v') # a"] exI [of _ b]) auto
    qed
  qed simp
  then show thesis using that by blast
qed

lemma bt_insert_old:
  assumes "bt_wf m" and "map_of m k = Some w"
  obtains a b where "m = a @ (k, w) # b" "bt_insert k v m = a @ (k, v) # b"
proof -
  have "\<exists>a b. m = a @ (k, w) # b \<and> bt_insert k v m = a @ (k, v) # b"
    using assms
  proof (induction k v m rule: bt_insert.induct)
    case (2 k v k' v' m)
    show ?case
    proof (cases "k = k'")
      case True
      then show ?thesis using 2(3) by (intro exI [of _ "[]"] exI [of _ m]) simp
    next
      case False
      then have "map_of m k = Some w" using 2(3) by simp
      then have lt: "k' < k" using 2(2) map_of_SomeD by (fastforce simp: bt_wf_Cons)
      then obtain a b where "m = a @ (k, w) # b" "bt_insert k v m = a @ (k, v) # b" using 2(1) [OF _ False] 2(2) bt_wf_tl \<open>map_of m k = Some w\<close>
        by (metis less_asym)
      then show ?thesis using False lt by (intro exI [of _ "(k', v') # a"] exI [of _ b]) auto
    qed
  qed simp
  then show thesis using that by blast
qed

lemma bt_wf_map_snd [simp]: "bt_wf (map (\<lambda>(k, v). (k, f k v)) m) \<longleftrightarrow> bt_wf m"
  by (simp add: bt_wf_def case_prod_beta comp_def)

lemma bt_get_map_snd:
  "map_of (map (\<lambda>(k, v). (k, f k v)) m) k' = map_option (f k') (map_of m k')"
  by (induction m) auto

lemma bt_wf_of [simp, intro]: "bt_wf (bt_of xs)"
  by (induction xs rule: bt_of.induct) (auto simp: Let_def)

text \<open>Two ordered maps with the same lookups are the same map.\<close>

lemma bt_ext:
  assumes "bt_wf m" and "bt_wf n" and "\<And>k. map_of m k = map_of n k"
  shows "m = n"
proof -
  have "set m = set n"
    using assms by (metis bt_get_iff subrelI subset_antisym)
  moreover from assms(1,2) have "sorted (map fst m)" "distinct (map fst m)"
    "sorted (map fst n)" "distinct (map fst n)"
    by (simp_all add: bt_wf_def strict_sorted_iff)
  ultimately show ?thesis
    by (intro map_sorted_distinct_set_unique [where f = fst]) (auto simp: distinct_map)
qed


subsection \<open>The interface of an ordered map\<close>

text \<open>
  What the components rely on: \<open>get\<close> after \<open>insert\<close> and \<open>remove\<close>, extensionality, and
  the well-formedness every operation keeps. The client lemmas say what a batch of insertions or
  removals leaves of a map.
\<close>

locale ordered_map =
  fixes get :: "'m \<Rightarrow> 'k \<Rightarrow> 'v option"
    and ins :: "'k \<Rightarrow> 'v \<Rightarrow> 'm \<Rightarrow> 'm"
    and del :: "'k \<Rightarrow> 'm \<Rightarrow> 'm"
    and wf :: "'m \<Rightarrow> bool"
  assumes get_ins: "get (ins k v m) k' = (if k' = k then Some v else get m k')"
    and get_del: "get (del k m) k' = (if k' = k then None else get m k')"
    and wf_ins: "wf m \<Longrightarrow> wf (ins k v m)"
    and wf_del: "wf m \<Longrightarrow> wf (del k m)"
    and extensional: "wf m \<Longrightarrow> wf n \<Longrightarrow> (\<And>k. get m k = get n k) \<Longrightarrow> m = n"
begin

lemma ins_overwrites: "wf m \<Longrightarrow> ins k v (ins k w m) = ins k v m"
  by (rule extensional) (auto simp: get_ins wf_ins)

lemma ins_commute: "wf m \<Longrightarrow> k \<noteq> k' \<Longrightarrow> ins k v (ins k' w m) = ins k' w (ins k v m)"
  by (rule extensional) (auto simp: get_ins wf_ins)

lemma del_ins_absent: "wf m \<Longrightarrow> get m k = None \<Longrightarrow> del k (ins k v m) = m"
  by (rule extensional) (auto simp: get_ins get_del wf_ins wf_del)

lemma del_absent: "wf m \<Longrightarrow> get m k = None \<Longrightarrow> del k m = m"
  by (rule extensional) (auto simp: get_del wf_del)

lemma ins_present: "wf m \<Longrightarrow> get m k = Some v \<Longrightarrow> ins k v m = m"
  by (rule extensional) (auto simp: get_ins wf_ins)

lemma wf_fold_ins: "wf m \<Longrightarrow> wf (fold (\<lambda>x. ins (f x) (g x)) xs m)"
  by (induction xs arbitrary: m) (auto simp: wf_ins)

lemma get_fold_ins_other:
  "k \<notin> f ` set xs \<Longrightarrow> get (fold (\<lambda>x. ins (f x) (g x)) xs m) k = get m k"
  by (induction xs arbitrary: m) (auto simp: get_ins)

lemma get_fold_ins_distinct:
  assumes "distinct (map f xs)" and "x \<in> set xs"
  shows "get (fold (\<lambda>x. ins (f x) (g x)) xs m) (f x) = Some (g x)"
  using assms
proof (induction xs arbitrary: m)
  case (Cons y ys)
  show ?case
  proof (cases "x = y")
    case True
    then have "f x \<notin> f ` set ys" using Cons.prems(1) by simp
    then show ?thesis using True by (simp add: get_fold_ins_other get_ins)
  next
    case False
    then show ?thesis using Cons by simp
  qed
qed simp

end

interpretation bt: ordered_map "map_of :: ('k::linorder, 'v) btree \<Rightarrow> _" bt_insert bt_remove bt_wf
  by unfold_locales (auto intro: bt_ext)

section \<open>Strings\<close>

text \<open>
  A Rust string is its sequence of UTF-8 bytes, so \<open>len()\<close> is \<^const>\<open>length\<close> and \<open><\<close> is
  the byte-wise lexicographic order. Continuation bytes are those of the form \<open>10xxxxxx\<close>.
\<close>

definition byte :: "char \<Rightarrow> nat" where
  "byte c = of_char c"

definition is_ascii_digit :: "char \<Rightarrow> bool" where
  "is_ascii_digit c \<longleftrightarrow> 48 \<le> byte c \<and> byte c \<le> 57"

definition is_ascii_lower :: "char \<Rightarrow> bool" where
  "is_ascii_lower c \<longleftrightarrow> 97 \<le> byte c \<and> byte c \<le> 122"

definition is_ascii_upper :: "char \<Rightarrow> bool" where
  "is_ascii_upper c \<longleftrightarrow> 65 \<le> byte c \<and> byte c \<le> 90"

definition is_ascii_alphanumeric :: "char \<Rightarrow> bool" where
  "is_ascii_alphanumeric c \<longleftrightarrow> is_ascii_digit c \<or> is_ascii_lower c \<or> is_ascii_upper c"

definition is_ascii_hexdigit :: "char \<Rightarrow> bool" where
  "is_ascii_hexdigit c \<longleftrightarrow> is_ascii_digit c \<or> (97 \<le> byte c \<and> byte c \<le> 102) \<or> (65 \<le> byte c \<and> byte c \<le> 70)"

definition to_ascii_lowercase :: "char \<Rightarrow> char" where
  "to_ascii_lowercase c = (if is_ascii_upper c then char_of (byte c + 32) else c)"

definition is_continuation :: "char \<Rightarrow> bool" where
  "is_continuation c \<longleftrightarrow> 128 \<le> byte c \<and> byte c < 192"

lemmas char_class_defs [str_simps] =
  byte_def is_ascii_digit_def is_ascii_lower_def is_ascii_upper_def is_ascii_alphanumeric_def
  is_ascii_hexdigit_def to_ascii_lowercase_def is_continuation_def

text \<open>\<open>str::split\<close> on a character, \<open>join\<close>, \<open>strip_prefix\<close>, \<open>strip_suffix\<close>, \<open>find\<close>.\<close>

fun split_on :: "'a \<Rightarrow> 'a list \<Rightarrow> 'a list list" where
  "split_on c [] = [[]]"
| "split_on c (x # xs) =
     (if x = c then [] # split_on c xs
      else (case split_on c xs of [] \<Rightarrow> [[x]] | w # ws \<Rightarrow> (x # w) # ws))"

fun join :: "'a list \<Rightarrow> 'a list list \<Rightarrow> 'a list" where
  "join sep [] = []"
| "join sep [w] = w"
| "join sep (w # ws) = w @ sep @ join sep ws"

definition strip_prefix :: "'a list \<Rightarrow> 'a list \<Rightarrow> 'a list option" where
  "strip_prefix p s = (if take (length p) s = p then Some (drop (length p) s) else None)"

definition starts_with :: "'a list \<Rightarrow> 'a list \<Rightarrow> bool" where
  "starts_with s p \<longleftrightarrow> take (length p) s = p"

definition ends_with :: "'a list \<Rightarrow> 'a list \<Rightarrow> bool" where
  "ends_with s p \<longleftrightarrow> length p \<le> length s \<and> drop (length s - length p) s = p"

definition strip_suffix :: "'a list \<Rightarrow> 'a list \<Rightarrow> 'a list option" where
  "strip_suffix p s = (if ends_with s p then Some (take (length s - length p) s) else None)"

fun find_sub :: "'a list \<Rightarrow> 'a list \<Rightarrow> nat option" where
  "find_sub p [] = (if p = [] then Some 0 else None)"
| "find_sub p (x # xs) =
     (if starts_with (x # xs) p then Some 0 else map_option Suc (find_sub p xs))"

lemma split_on_not_Nil [simp]: "split_on c s \<noteq> []"
  by (induction s) (auto split: list.splits)

lemma split_on_Cons_other:
  "x \<noteq> c \<Longrightarrow> split_on c (x # xs) = (x # hd (split_on c xs)) # tl (split_on c xs)"
  by (auto split: list.splits)

lemma split_on_no_sep: "w \<in> set (split_on c s) \<Longrightarrow> c \<notin> set w"
  by (induction s arbitrary: w) (auto split: list.splits if_splits)

lemma join_split_on: "join [c] (split_on c s) = s"
proof (induction s)
  case (Cons x xs)
  obtain w ws where w: "split_on c xs = w # ws" by (cases "split_on c xs") auto
  then show ?case using Cons by (cases ws) auto
qed simp

lemma split_on_id: "c \<notin> set s \<Longrightarrow> split_on c s = [s]"
  by (induction s) auto

lemma split_on_append: "c \<notin> set w \<Longrightarrow> split_on c (w @ c # s) = w # split_on c s"
  by (induction w) auto

lemma split_on_join:
  "ws \<noteq> [] \<Longrightarrow> (\<And>w. w \<in> set ws \<Longrightarrow> c \<notin> set w) \<Longrightarrow> split_on c (join [c] ws) = ws"
  by (induction "[c]" ws rule: join.induct) (auto simp: split_on_id split_on_append)

lemma length_split_on_sum: "length (concat (split_on c s)) \<le> length s"
  by (induction s) (auto split: list.splits)

lemma starts_with_prefix: "starts_with s p \<longleftrightarrow> prefix p s"
  by (auto simp: starts_with_def prefix_def) (metis append_take_drop_id)

lemma ends_with_suffix: "ends_with s p \<longleftrightarrow> suffix p s"
proof
  assume "ends_with s p"
  then show "suffix p s" by (metis ends_with_def suffix_drop)
next
  assume "suffix p s"
  then show "ends_with s p" by (auto simp: ends_with_def suffix_def)
qed

lemma strip_prefix_Some: "strip_prefix p s = Some r \<longleftrightarrow> s = p @ r"
  by (auto simp: strip_prefix_def) (metis append_take_drop_id)

lemma strip_suffix_Some: "strip_suffix p s = Some r \<longleftrightarrow> s = r @ p"
  by (auto simp: strip_suffix_def ends_with_def) (metis append_take_drop_id)

text \<open>\<^const>\<open>find_sub\<close> is the leftmost occurrence.\<close>

lemma find_sub_Some:
  "find_sub p s = Some i \<Longrightarrow> i + length p \<le> length s \<and> take (length p) (drop i s) = p"
proof (induction p s arbitrary: i rule: find_sub.induct)
  case (1 p)
  then show ?case by (auto split: if_splits)
next
  case (2 p x xs)
  show ?case
  proof (cases "starts_with (x # xs) p")
    case True
    then have "prefix p (x # xs)" by (simp add: starts_with_prefix)
    then have "length p \<le> length (x # xs)" by (rule prefix_length_le)
    with 2 True show ?thesis by (auto simp: starts_with_def)
  next
    case False
    then obtain j where "find_sub p xs = Some j" "i = Suc j" using 2 by auto
    with 2 False show ?thesis by auto
  qed
qed

lemma find_sub_leftmost:
  "prefix p (drop j s) \<Longrightarrow> j \<le> length s \<Longrightarrow> \<exists>i \<le> j. find_sub p s = Some i"
proof (induction p s arbitrary: j rule: find_sub.induct)
  case (1 p)
  then show ?case by simp
next
  case (2 p x xs)
  show ?case
  proof (cases "starts_with (x # xs) p")
    case False
    then have "j \<noteq> 0" using 2 by (metis drop0 starts_with_prefix)
    then obtain k where k: "j = Suc k" by (cases j) auto
    with 2 False obtain i where "i \<le> k" "find_sub p xs = Some i" by auto
    with k False show ?thesis by (auto intro!: exI [of _ "Suc i"])
  qed auto
qed

text \<open>Lower-case hexadecimal, two digits per byte.\<close>

definition hex_digit :: "nat \<Rightarrow> char" where
  "hex_digit n = (if n < 10 then char_of (48 + n) else char_of (87 + n))"

definition hex_encode :: "string \<Rightarrow> string" where
  "hex_encode bs = concat (map (\<lambda>c. [hex_digit (byte c div 16), hex_digit (byte c mod 16)]) bs)"

section \<open>Saturating 64-bit arithmetic\<close>

type_synonym u64 = "64 word"

definition u64_max :: nat where
  "u64_max = 18446744073709551615"

definition saturating_add :: "u64 \<Rightarrow> u64 \<Rightarrow> u64" where
  "saturating_add a b = (if unat a + unat b \<le> u64_max then a + b else - 1)"

definition saturating_mul :: "u64 \<Rightarrow> u64 \<Rightarrow> u64" where
  "saturating_mul a b = (if unat a * unat b \<le> u64_max then a * b else - 1)"

definition saturating_sub :: "u64 \<Rightarrow> u64 \<Rightarrow> u64" where
  "saturating_sub a b = (if b \<le> a then a - b else 0)"

lemma unat_u64_le [simp]: "unat (a :: u64) \<le> u64_max"
  using unsigned_less [of a, where ?'a = nat] by (simp add: u64_max_def)

lemma unat_minus_one_u64 [simp]: "unat (- 1 :: u64) = u64_max"
  by (simp add: u64_max_def unsigned_minus_1_eq_mask mask_eq_exp_minus_1)

lemma unat_saturating_add: "unat (saturating_add a b) = min (unat a + unat b) u64_max"
  by (auto simp: saturating_add_def unat_word_ariths u64_max_def)

lemma unat_saturating_mul: "unat (saturating_mul a b) = min (unat a * unat b) u64_max"
  by (auto simp: saturating_mul_def unat_word_ariths u64_max_def)

lemma unat_saturating_sub: "unat (saturating_sub a b) = unat a - unat b"
  by (auto simp: saturating_sub_def unat_sub word_le_nat_alt)

text \<open>Equations that evaluate without unary numbers.\<close>

lemma saturating_code [code]:
  "saturating_add a b = (if uint a + uint b \<le> 18446744073709551615 then a + b else - 1)"
  "saturating_mul a b = (if uint a * uint b \<le> 18446744073709551615 then a * b else - 1)"
proof -
  have "uint a = int (unat a)" "uint b = int (unat b)" by simp_all
  moreover have "int m \<le> 18446744073709551615 \<longleftrightarrow> m \<le> u64_max" for m by (simp add: u64_max_def)
  ultimately show "saturating_add a b = (if uint a + uint b \<le> 18446744073709551615 then a + b else - 1)"
    "saturating_mul a b = (if uint a * uint b \<le> 18446744073709551615 then a * b else - 1)"
    by (simp_all only: saturating_add_def saturating_mul_def of_nat_add [symmetric] of_nat_mult [symmetric])
qed

lemma saturating_add_ge: "a \<le> saturating_add a b"
  by (simp add: word_le_nat_alt unat_saturating_add)

section \<open>Machines\<close>

text \<open>
  A component is a state with operations; \<open>step op s\<close> is the state an operation leaves behind,
  whether it succeeded or failed. An invariant every operation keeps holds after any sequence of
  operations, and a counter no operation decreases never decreases.
\<close>

locale machine =
  fixes step :: "'op \<Rightarrow> 's \<Rightarrow> 's"
    and inv :: "'s \<Rightarrow> bool"
  assumes step_inv: "inv s \<Longrightarrow> inv (step x s)"
begin

lemma run_inv: "inv s \<Longrightarrow> inv (fold step xs s)"
  by (induction xs arbitrary: s) (auto simp: step_inv)

end

locale counting_machine = machine +
  fixes counter :: "'b \<Rightarrow> nat"
  assumes step_counter: "inv s \<Longrightarrow> counter s \<le> counter (step x s)"
begin

lemma run_counter: "inv s \<Longrightarrow> counter s \<le> counter (fold step xs s)"
proof (induction xs arbitrary: s)
  case (Cons x xs)
  then have "counter (step x s) \<le> counter (fold step xs (step x s))" by (simp add: step_inv)
  with step_counter [OF Cons.prems] show ?case by (metis fold_Cons comp_apply le_trans)
qed simp

end

end
