(* ===== verification/Topics.thy ===== *)
theory Topics
  imports Prelude
begin

text \<open>
  Topic names, filters and authorization of the local pub/sub
  (\<open>suifleet-edge/src/pubsub.rs\<close>, lines 30 to 142): MQTT filter matching, the greedy glob
  matcher of resource patterns and the policy checks. The matcher's contract is stated once as a
  locale, because streams and shadows authorize through globs as well.
\<close>

section \<open>Definitions\<close>

definition MAX_TOPIC :: nat where "MAX_TOPIC = 256"
definition MAX_PAYLOAD :: nat where "MAX_PAYLOAD = 4096"
definition MAX_SUBSCRIPTIONS :: nat where "MAX_SUBSCRIPTIONS = 256"

definition valid_topic :: "string \<Rightarrow> bool" where
  "valid_topic topic \<longleftrightarrow> topic \<noteq> [] \<and> length topic \<le> MAX_TOPIC \<and>
     CHR ''+'' \<notin> set topic \<and> CHR ''#'' \<notin> set topic \<and> CHR 0x00 \<notin> set topic"

definition valid_level :: "string list \<Rightarrow> nat \<Rightarrow> string \<Rightarrow> bool" where
  "valid_level levels i level =
     (if CHR ''#'' \<in> set level then level = ''#'' \<and> i = length levels - 1
      else if CHR ''+'' \<in> set level then level = ''+''
      else True)"

definition valid_filter :: "string \<Rightarrow> bool" where
  "valid_filter flt =
     (if flt = [] \<or> MAX_TOPIC < length flt \<or> CHR 0x00 \<in> set flt then False
      else let levels = split_on (CHR ''/'') flt in
        list_all (\<lambda>(i, level). valid_level levels i level) (List.enumerate 0 levels))"

fun match_levels :: "string list \<Rightarrow> string list \<Rightarrow> bool" where
  "match_levels [] ts = (ts = [])"
| "match_levels (f # fs) ts =
     (if f = ''#'' then True
      else (case ts of [] \<Rightarrow> False
            | t # ts' \<Rightarrow> (if f = ''+'' then match_levels fs ts'
                          else if t = f then match_levels fs ts' else False)))"

definition topic_matches :: "string \<Rightarrow> string \<Rightarrow> bool" where
  "topic_matches flt topic =
     (if starts_with topic ''$'' \<and> (starts_with flt ''+'' \<or> starts_with flt ''#'') then False
      else match_levels (split_on (CHR ''/'') flt) (split_on (CHR ''/'') topic))"

record policy =
  pol_operations :: "string list"
  pol_resources :: "string list"

fun glob_middle :: "string list \<Rightarrow> string \<Rightarrow> bool" where
  "glob_middle [] rest = True"
| "glob_middle (part # parts) rest =
     (case find_sub part rest of
        Some at \<Rightarrow> glob_middle parts (drop (at + length part) rest)
      | None \<Rightarrow> False)"

definition glob :: "string \<Rightarrow> string \<Rightarrow> bool" where
  "glob pattern text =
     (let parts = split_on (CHR ''*'') pattern in
      if length parts = 1 then pattern = text
      else let first = parts ! 0; final = parts ! (length parts - 1) in
        if \<not> starts_with text first \<or> \<not> ends_with (drop (length first) text) final
           \<or> length text < length first + length final then False
        else glob_middle (butlast (tl parts))
               (take (length text - length final - length first) (drop (length first) text)))"

definition authorized :: "policy list \<Rightarrow> string \<Rightarrow> string \<Rightarrow> bool" where
  "authorized policies operation topic =
     (let qualified = ''aws.greengrass#'' @ operation in
      list_ex (\<lambda>p. list_ex (\<lambda>x. x = ''*'' \<or> x = qualified) (pol_operations p)
                 \<and> list_ex (\<lambda>r. glob r topic) (pol_resources p)) policies)"

datatype policy_error = TooManyPolicies | PolicyShape | PolicyOperation | PolicyResource

definition validate_policy :: "policy \<Rightarrow> (policy_error, unit) result" where
  "validate_policy p =
     ensure (pol_operations p \<noteq> [] \<and> length (pol_operations p) \<le> 3 \<and> pol_resources p \<noteq> []
             \<and> length (pol_resources p) \<le> 64) PolicyShape
      (ensure (list_all (\<lambda>x. x \<in> set [''*'', ''aws.greengrass#PublishToTopic'',
                 ''aws.greengrass#SubscribeToTopic'']) (pol_operations p)) PolicyOperation
        (ensure (list_all (\<lambda>r. r \<noteq> [] \<and> length r \<le> MAX_TOPIC \<and> CHR 0x00 \<notin> set r) (pol_resources p))
           PolicyResource (Inr ())))"

definition validate_policies :: "policy list \<Rightarrow> (policy_error, unit) result" where
  "validate_policies policies =
     ensure (length policies \<le> 32) TooManyPolicies
       (res_fold (\<lambda>p _. validate_policy p) policies ())"

section \<open>The glob contract\<close>

text \<open>
  The meaning of a resource pattern: only \<open>*\<close> is special and stands for any run of bytes.
\<close>

inductive glob_rel :: "string \<Rightarrow> string \<Rightarrow> bool" where
  glob_end: "glob_rel [] []"
| glob_byte: "c \<noteq> CHR ''*'' \<Longrightarrow> glob_rel p t \<Longrightarrow> glob_rel (c # p) (c # t)"
| glob_star: "glob_rel p t \<Longrightarrow> glob_rel (CHR ''*'' # p) (u @ t)"

inductive_simps glob_rel_Nil: "glob_rel [] t"
inductive_simps glob_rel_Star: "glob_rel (CHR ''*'' # p) t"
inductive_cases glob_rel_ConsE: "glob_rel (c # p) t"

lemma glob_rel_byte: "c \<noteq> CHR ''*'' \<Longrightarrow> glob_rel (c # p) t \<longleftrightarrow> (\<exists>t'. t = c # t' \<and> glob_rel p t')"
  by (auto elim: glob_rel_ConsE intro: glob_rel.intros)

lemma glob_rel_literal: "CHR ''*'' \<notin> set w \<Longrightarrow> glob_rel (w @ p) t \<longleftrightarrow> (\<exists>t'. t = w @ t' \<and> glob_rel p t')"
  by (induction w arbitrary: t) (auto simp: glob_rel_byte)

lemma glob_rel_exact: "CHR ''*'' \<notin> set w \<Longrightarrow> glob_rel w t \<longleftrightarrow> t = w"
  using glob_rel_literal [of w "[]" t] by (auto simp: glob_rel_Nil)

text \<open>A matcher is correct on the patterns it accepts when it decides the relation.\<close>

locale glob_matcher =
  fixes matches :: "string \<Rightarrow> string \<Rightarrow> bool"
    and accepted :: "string \<Rightarrow> bool"
  assumes matches_iff: "accepted p \<Longrightarrow> matches p t \<longleftrightarrow> glob_rel p t"
begin

lemma star_matches_all: "accepted ''*'' \<Longrightarrow> matches ''*'' t"
  using glob_star [OF glob_end, of t] by (simp add: matches_iff)

lemma literal_matches_itself:
  "accepted w \<Longrightarrow> CHR ''*'' \<notin> set w \<Longrightarrow> matches w t \<longleftrightarrow> t = w"
  by (simp add: matches_iff glob_rel_exact)

lemma prefix_pattern:
  assumes "accepted (w @ ''*'')" and "CHR ''*'' \<notin> set w"
  shows "matches (w @ ''*'') t \<longleftrightarrow> prefix w t"
proof -
  have "glob_rel ''*'' t'" for t' using glob_star [OF glob_end, of t'] by simp
  then show ?thesis using assms by (auto simp: matches_iff glob_rel_literal prefix_def)
qed

end

section \<open>Lemmas: the greedy matcher\<close>

text \<open>Any placement of the middle parts, in order, and the greedy leftmost one.\<close>

fun placed :: "string list \<Rightarrow> string \<Rightarrow> bool" where
  "placed [] r = True"
| "placed (m # ms) r = (\<exists>u v. r = u @ m @ v \<and> placed ms v)"

lemma placed_append: "placed ms v \<Longrightarrow> placed ms (w @ v)"
  by (cases ms) (auto, metis append.assoc)

lemma glob_middle_placed: "glob_middle ms r \<longleftrightarrow> placed ms r"
proof (induction ms arbitrary: r)
  case (Cons m ms)
  show ?case
  proof
    assume "glob_middle (m # ms) r"
    then obtain i where i: "find_sub m r = Some i" and rec: "glob_middle ms (drop (i + length m) r)"
      by (auto split: option.splits)
    have "r = take i r @ m @ drop (i + length m) r"
      using find_sub_Some [OF i] by (metis append_take_drop_id drop_drop add.commute)
    then show "placed (m # ms) r" using rec Cons.IH by auto
  next
    assume "placed (m # ms) r"
    then obtain u v where r: "r = u @ m @ v" and v: "placed ms v" by auto
    then have "prefix m (drop (length u) r)" by simp
    then obtain i where i: "i \<le> length u" "find_sub m r = Some i"
      using find_sub_leftmost [of m "length u" r] r by auto
    have "drop (i + length m) r = drop (i + length m) (u @ m) @ v" using r i(1) by simp
    then have "placed ms (drop (i + length m) r)" using v by (simp add: placed_append)
    then show "glob_middle (m # ms) r" using i Cons.IH by simp
  qed
qed simp

lemma glob_rel_parts:
  assumes "\<And>w. w \<in> set (ms @ [z]) \<Longrightarrow> CHR ''*'' \<notin> set w"
  shows "glob_rel (CHR ''*'' # join ''*'' (ms @ [z])) t \<longleftrightarrow> (\<exists>r. t = r @ z \<and> placed ms r)"
  using assms
proof (induction ms arbitrary: t)
  case Nil
  then show ?case by (auto simp: glob_rel_Star glob_rel_exact)
next
  case (Cons m ms)
  have j: "join ''*'' ((m # ms) @ [z]) = m @ CHR ''*'' # join ''*'' (ms @ [z])"
    by (cases ms) auto
  have lit: "CHR ''*'' \<notin> set m" using Cons.prems by simp
  have "glob_rel (CHR ''*'' # join ''*'' ((m # ms) @ [z])) t \<longleftrightarrow>
      (\<exists>u s. t = u @ m @ s \<and> glob_rel (CHR ''*'' # join ''*'' (ms @ [z])) s)"
    unfolding j by (subst glob_rel_Star) (auto simp: glob_rel_literal [OF lit])
  also have "\<dots> \<longleftrightarrow> (\<exists>u r. t = u @ m @ r @ z \<and> placed ms r)"
    using Cons by auto
  also have "\<dots> \<longleftrightarrow> (\<exists>r. t = r @ z \<and> placed (m # ms) r)"
    by (auto, metis append.assoc, metis append.assoc)
  finally show ?case .
qed

lemma glob_correct: "glob pattern text \<longleftrightarrow> glob_rel pattern text"
proof -
  let ?parts = "split_on (CHR ''*'') pattern"
  have nostar: "\<And>w. w \<in> set ?parts \<Longrightarrow> CHR ''*'' \<notin> set w" by (rule split_on_no_sep)
  have joined: "join ''*'' ?parts = pattern" by (rule join_split_on)
  show ?thesis
  proof (cases "length ?parts = 1")
    case True
    then obtain w where w: "?parts = [w]" by (cases ?parts) auto
    then have "pattern = w" using joined by simp
    then have "CHR ''*'' \<notin> set pattern" using nostar w by simp
    then show ?thesis using True by (auto simp: glob_def Let_def glob_rel_exact)
  next
    case False
    obtain first rest where fr: "?parts = first # rest" by (cases ?parts) auto
    with False obtain ms z where rest: "rest = ms @ [z]" by (cases rest rule: rev_cases) auto
    have mid: "butlast (tl ?parts) = ms" "?parts ! 0 = first" "?parts ! (length ?parts - 1) = z"
      using fr rest by (auto simp: nth_append)
    have pat: "pattern = first @ CHR ''*'' # join ''*'' (ms @ [z])"
      using joined fr rest by (cases ms) auto
    have tail: "glob_rel (CHR ''*'' # join ''*'' (ms @ [z])) t \<longleftrightarrow> (\<exists>r. t = r @ z \<and> placed ms r)" for t
      using nostar fr rest by (intro glob_rel_parts) auto
    have "CHR ''*'' \<notin> set first" using nostar fr by simp
    then have rel: "glob_rel pattern text \<longleftrightarrow> (\<exists>r. text = first @ r @ z \<and> placed ms r)"
      unfolding pat by (auto simp: glob_rel_literal tail)
    have alg: "glob pattern text \<longleftrightarrow> starts_with text first \<and> ends_with (drop (length first) text) z \<and>
        length first + length z \<le> length text \<and>
        placed ms (take (length text - length z - length first) (drop (length first) text))"
      unfolding glob_def Let_def mid using False by (auto simp: glob_middle_placed)
    show ?thesis unfolding rel alg
    proof
      assume l: "starts_with text first \<and> ends_with (drop (length first) text) z \<and>
        length first + length z \<le> length text \<and>
        placed ms (take (length text - length z - length first) (drop (length first) text))"
      then obtain t' where t': "text = first @ t'" by (auto simp: starts_with_prefix prefix_def)
      then obtain r where "t' = r @ z" using l by (auto simp: ends_with_suffix suffix_def)
      then show "\<exists>r. text = first @ r @ z \<and> placed ms r" using l t' by auto
    next
      assume "\<exists>r. text = first @ r @ z \<and> placed ms r"
      then show "starts_with text first \<and> ends_with (drop (length first) text) z \<and>
        length first + length z \<le> length text \<and>
        placed ms (take (length text - length z - length first) (drop (length first) text))"
        by (auto simp: starts_with_prefix ends_with_suffix suffix_def)
    qed
  qed
qed

interpretation pubsub_glob: glob_matcher glob "\<lambda>_. True"
  by unfold_locales (simp add: glob_correct)

section \<open>Lemmas: filters\<close>

definition level_ok :: "string \<Rightarrow> string \<Rightarrow> bool" where
  "level_ok f t \<longleftrightarrow> f = ''+'' \<or> f = t"

text \<open>
  MQTT section 4.7: either the filter ends in the multi-level wildcard and its other levels match a
  prefix of the topic's levels, or it has none and matches level by level.
\<close>

definition filter_spec :: "string list \<Rightarrow> string list \<Rightarrow> bool" where
  "filter_spec fs ts \<longleftrightarrow>
     (\<exists>ms. fs = ms @ [''#''] \<and> length ms \<le> length ts \<and> list_all2 level_ok ms (take (length ms) ts))
     \<or> (''#'' \<notin> set fs \<and> list_all2 level_ok fs ts)"

lemma match_levels_spec:
  "(\<And>i. i < length fs \<Longrightarrow> fs ! i = ''#'' \<Longrightarrow> i = length fs - 1) \<Longrightarrow>
     match_levels fs ts \<longleftrightarrow> filter_spec fs ts"
proof (induction fs ts rule: match_levels.induct)
  case (1 ts)
  then show ?case by (auto simp: filter_spec_def)
next
  case (2 f fs ts)
  show ?case
  proof (cases "f = ''#''")
    case True
    then have "fs = []" using 2(3) [of 0] by simp
    then show ?thesis using True by (simp add: filter_spec_def)
  next
    case False
    have tail: "i = length fs - 1" if "i < length fs" "fs ! i = ''#''" for i
      using 2(3) [of "Suc i"] that by simp
    show ?thesis
    proof (cases ts)
      case Nil
      then show ?thesis using False by (auto simp: filter_spec_def append_eq_Cons_conv)
    next
      case (Cons t ts')
      have IH: "level_ok f t \<Longrightarrow> match_levels fs ts' \<longleftrightarrow> filter_spec fs ts'"
        using 2(1,2) [OF False Cons _] tail by (auto simp: level_ok_def)
      have step: "filter_spec (f # fs) (t # ts') \<longleftrightarrow> level_ok f t \<and> filter_spec fs ts'"
        using False by (fastforce simp: filter_spec_def Cons_eq_append_conv)
      have "match_levels (f # fs) ts \<longleftrightarrow> level_ok f t \<and> match_levels fs ts'"
        using False Cons by (auto simp: level_ok_def)
      then show ?thesis using IH step Cons by auto
    qed
  qed
qed

lemma valid_filter_hash_last:
  assumes "valid_filter flt" and "i < length (split_on (CHR ''/'') flt)"
    and "split_on (CHR ''/'') flt ! i = ''#''"
  shows "i = length (split_on (CHR ''/'') flt) - 1"
proof -
  let ?levels = "split_on (CHR ''/'') flt"
  have "(i, ''#'') \<in> set (List.enumerate 0 ?levels)"
    using assms(2,3) by (auto simp: in_set_enumerate_eq)
  then have "valid_level ?levels i ''#''"
    using assms(1) by (auto simp: valid_filter_def Let_def list_all_iff split: if_splits)
  then show ?thesis by (simp add: valid_level_def)
qed

section \<open>Properties\<close>

text \<open>
  C33: for a valid filter, the matching loop decides the MQTT rule: filters starting with a
  wildcard never match \<open>$\<close> topics, \<open>+\<close> stands for exactly one level and a final \<open>#\<close> for
  any number of remaining levels.
\<close>

theorem topic_matches_spec:
  assumes "valid_filter flt"
  shows "topic_matches flt topic \<longleftrightarrow>
    \<not> (prefix ''$'' topic \<and> (prefix ''+'' flt \<or> prefix ''#'' flt)) \<and>
    filter_spec (split_on (CHR ''/'') flt) (split_on (CHR ''/'') topic)"
  using match_levels_spec [OF valid_filter_hash_last [OF assms]]
  by (auto simp: topic_matches_def starts_with_prefix)

theorem topic_matches_spec_witness:
  "valid_filter ''sensors/+/#'' \<and> topic_matches ''sensors/+/#'' ''sensors/a/temp/x'' \<and>
   filter_spec (split_on (CHR ''/'') ''sensors/+/#'') (split_on (CHR ''/'') ''sensors/a/temp/x'')"
proof -
  have v: "valid_filter ''sensors/+/#''" by code_simp
  have m: "topic_matches ''sensors/+/#'' ''sensors/a/temp/x''" by code_simp
  show ?thesis using v m topic_matches_spec [OF v, of "''sensors/a/temp/x''"] by blast
qed

text \<open>
  a request is authorized exactly when one policy names the operation (or \<open>*\<close>) and has a
  resource pattern the topic matches under the glob relation; the greedy matcher with its
  length checks decides that relation.
\<close>

theorem authorized_iff:
  "authorized policies operation topic \<longleftrightarrow>
     (\<exists>p \<in> set policies. (''*'' \<in> set (pol_operations p) \<or> ''aws.greengrass#'' @ operation \<in> set (pol_operations p))
        \<and> (\<exists>r \<in> set (pol_resources p). glob_rel r topic))"
  by (auto simp: authorized_def Let_def list_ex_iff pubsub_glob.matches_iff)

end
