(* ===== verification/Broker.thy ===== *)
theory Broker
  imports Topics
begin

text \<open>
  The durable local broker (\<open>suifleet-edge/src/pubsub.rs\<close>, \<open>Broker\<close>): subscriptions,
  all-or-nothing publication with staged files and the \<open>seq\<close> commit marker, receive and
  acknowledge, and reopening after a crash. The state is the broker in memory and the files on
  disk. Every file operation takes its outcome from a list the environment chooses, so a theorem
  about all lists is a theorem about every pattern of I/O failures; a crash is the disk a sequence
  of operations leaves at some point. \<open>serde_json\<close> and \<open>identity::hash\<close> are parameters.
\<close>

section \<open>Data\<close>

record 'p message =
  msg_id :: nat
  msg_topic :: string
  msg_sender :: string
  msg_payload :: 'p
  msg_published_ms :: nat

record 'p codec =
  payload_size :: "'p \<Rightarrow> nat"
  encode_message :: "'p message \<Rightarrow> string"
  decode_message :: "string \<Rightarrow> 'p message option"
  identity_hash :: "string \<Rightarrow> string"

record limits =
  max_messages :: nat
  max_bytes :: nat
  qos0_messages :: nat

definition default_limits :: limits where
  "default_limits = \<lparr>max_messages = 1000, max_bytes = 4 * 1024 * 1024, qos0_messages = 100\<rparr>"

record sub_record =
  rec_principal :: string
  rec_filter :: string
  rec_qos :: nat
  rec_dropped :: nat
  rec_refused :: nat

record 'p subscription =
  sub_rec :: sub_record
  sub_dir :: string
  sub_qos0 :: "'p message list"
  sub_queued :: "(nat \<times> nat) list"

type_synonym sub_key = "string \<times> string"
type_synonym 'p subs = "(sub_key, 'p subscription) btree"

record 'p broker =
  br_limits :: limits
  br_seq :: nat
  br_subs :: "'p subs"
  br_poisoned :: bool

datatype pub_error =
    NeedsRestart | NothingToPublish | InvalidTopic | PayloadTooLarge
  | Unfittable "sub_key list" | Backpressure "sub_key list" | SpoolFailed nat | SpoolPoisoned nat
  | SaveFailed | InvalidFilter | UnsupportedQos | QosChange | TooManySubscriptions | NoSuchSubscription
  | ReadFailed | RemoveFailed | CreateFailed | BadSubscriptions | BadMarkerFile

section \<open>The disk\<close>

text \<open>
  A queue directory holds placed messages (\<open><id>.json\<close>) and staged ones (\<open><id>.tmp\<close>). The
  commit marker file \<open>seq\<close> is absent, a number, or unreadable.
\<close>

datatype qname = Placed nat | Staged nat

datatype marker = NoMarker | Marker nat | BadMarker

datatype subs_file = NoSubs | Subs "sub_record list" | BadSubs

datatype io = IoOk | IoErr | IoPartial string

type_synonym files = "((string \<times> qname) \<times> string) list"

record disk =
  disk_files :: files
  disk_seq :: marker
  disk_subs :: subs_file
  disk_io :: "io list"

definition io_take :: "disk \<Rightarrow> io \<times> disk" where
  "io_take d = (case disk_io d of [] \<Rightarrow> (IoOk, d) | x # xs \<Rightarrow> (x, d\<lparr>disk_io := xs\<rparr>))"

definition fs_del :: "string \<times> qname \<Rightarrow> files \<Rightarrow> files" where
  "fs_del k fs = filter (\<lambda>e. fst e \<noteq> k) fs"

definition fs_put :: "string \<times> qname \<Rightarrow> string \<Rightarrow> files \<Rightarrow> files" where
  "fs_put k v fs = (k, v) # fs_del k fs"

definition write_file_synced :: "string \<times> qname \<Rightarrow> string \<Rightarrow> disk \<Rightarrow> disk \<times> bool" where
  "write_file_synced k bytes d = (case io_take d of (r, d) \<Rightarrow>
     (case r of
        IoOk \<Rightarrow> (d\<lparr>disk_files := fs_put k bytes (disk_files d)\<rparr>, True)
      | IoErr \<Rightarrow> (d, False)
      | IoPartial b \<Rightarrow> (d\<lparr>disk_files := fs_put k b (disk_files d)\<rparr>, False)))"

definition rename_file :: "string \<times> qname \<Rightarrow> string \<times> qname \<Rightarrow> disk \<Rightarrow> disk \<times> bool" where
  "rename_file k k' d = (case io_take d of (r, d) \<Rightarrow>
     (case (r, map_of (disk_files d) k) of
        (IoOk, Some v) \<Rightarrow> (d\<lparr>disk_files := fs_put k' v (fs_del k (disk_files d))\<rparr>, True)
      | _ \<Rightarrow> (d, False)))"

definition sync_dir :: "disk \<Rightarrow> disk \<times> bool" where
  "sync_dir d = (case io_take d of (r, d) \<Rightarrow> (d, r = IoOk))"

definition remove_if_present :: "string \<times> qname \<Rightarrow> disk \<Rightarrow> disk \<times> bool" where
  "remove_if_present k d = (case io_take d of (r, d) \<Rightarrow>
     if r = IoOk then (d\<lparr>disk_files := fs_del k (disk_files d)\<rparr>, True) else (d, False))"

text \<open>\<open>write_synced\<close>: write a temporary file, rename it into place, sync the directory.\<close>

definition write_synced :: "(disk \<Rightarrow> disk) \<Rightarrow> disk \<Rightarrow> disk \<times> bool" where
  "write_synced place d = (case io_take d of (r, d) \<Rightarrow>
     if r \<noteq> IoOk then (d, False)
     else case io_take d of (r, d) \<Rightarrow>
       if r \<noteq> IoOk then (d, False) else sync_dir (place d))"

definition write_seq :: "nat \<Rightarrow> disk \<Rightarrow> disk \<times> bool" where
  "write_seq n = write_synced (\<lambda>d. d\<lparr>disk_seq := Marker n\<rparr>)"

section \<open>Spooling\<close>

type_synonym copy = "string \<times> nat \<times> string"

fun stage_copies :: "copy list \<Rightarrow> disk \<Rightarrow> (string \<times> qname) list \<Rightarrow> disk \<times> (string \<times> qname) list \<times> bool" where
  "stage_copies [] d made = (d, made, True)"
| "stage_copies ((dir, i, bytes) # cs) d made =
     (let made = made @ [(dir, Staged i)] in
      case write_file_synced (dir, Staged i) bytes d of
        (d, ok) \<Rightarrow> if ok then stage_copies cs d made else (d, made, False))"

fun place_copies :: "copy list \<Rightarrow> disk \<Rightarrow> (string \<times> qname) list \<Rightarrow> disk \<times> (string \<times> qname) list \<times> bool" where
  "place_copies [] d made = (d, made, True)"
| "place_copies ((dir, i, bytes) # cs) d made =
     (case rename_file (dir, Staged i) (dir, Placed i) d of
        (d, ok) \<Rightarrow> if ok then place_copies cs d (made @ [(dir, Placed i)]) else (d, made, False))"

fun sync_copies :: "copy list \<Rightarrow> disk \<Rightarrow> disk \<times> bool" where
  "sync_copies [] d = (d, True)"
| "sync_copies (c # cs) d = (case sync_dir d of (d, ok) \<Rightarrow> if ok then sync_copies cs d else (d, False))"

definition spool_commit :: "copy list \<Rightarrow> nat \<Rightarrow> disk \<Rightarrow> disk \<times> (string \<times> qname) list \<times> bool" where
  "spool_commit cs final d =
     (case stage_copies cs d [] of (d, made, ok) \<Rightarrow>
        if \<not> ok then (d, made, False)
        else case place_copies cs d made of (d, made, ok) \<Rightarrow>
          if \<not> ok then (d, made, False)
          else case sync_copies cs d of (d, ok) \<Rightarrow>
            if \<not> ok then (d, made, False)
            else case write_seq final d of (d, ok) \<Rightarrow> (d, made, ok))"

fun undo_made :: "(string \<times> qname) list \<Rightarrow> disk \<Rightarrow> disk \<times> bool" where
  "undo_made [] d = (d, True)"
| "undo_made (k # ks) d =
     (case remove_if_present k d of (d, ok) \<Rightarrow> if ok then undo_made ks d else (d, False))"

definition spool_undo :: "copy list \<Rightarrow> (string \<times> qname) list \<Rightarrow> disk \<Rightarrow> disk \<times> bool" where
  "spool_undo cs made d =
     (case undo_made made d of (d, ok) \<Rightarrow> if ok then sync_copies cs d else (d, False))"

definition spool :: "(string list \<times> nat \<times> string) list \<Rightarrow> 'p broker \<Rightarrow> disk \<Rightarrow>
  'p broker \<times> disk \<times> (pub_error, unit) result" where
  "spool copies b d =
     (if copies = [] then (b, d, Inr ())
      else let final = Max (set (map (\<lambda>(_, i, _). i) copies));
               cs = concat (map (\<lambda>(dirs, i, e). map (\<lambda>dir. (dir, i, e)) dirs) copies) in
        case spool_commit cs final d of (d, made, ok) \<Rightarrow>
          if ok then (b, d, Inr ())
          else case spool_undo cs made d of (d, undone) \<Rightarrow>
            if undone then (b, d, Inl (SpoolFailed final))
            else (b\<lparr>br_poisoned := True\<rparr>, d, Inl (SpoolPoisoned final)))"

section \<open>Operations\<close>

definition queue_dir :: "'p codec \<Rightarrow> string \<Rightarrow> string \<Rightarrow> string" where
  "queue_dir cd who flt = hex_encode (take 12 (identity_hash cd (who @ [CHR 0x00] @ flt)))"

definition br_save :: "'p broker \<Rightarrow> disk \<Rightarrow> disk \<times> bool" where
  "br_save b = write_synced (\<lambda>d. d\<lparr>disk_subs := Subs (map sub_rec (bt_values (br_subs b)))\<rparr>)"

definition invalid_publication :: "'p codec \<Rightarrow> string \<Rightarrow> 'p \<Rightarrow> pub_error option" where
  "invalid_publication cd topic payload =
     (if \<not> valid_topic topic then Some InvalidTopic
      else if MAX_PAYLOAD < payload_size cd payload then Some PayloadTooLarge else None)"

definition set_limits :: "limits \<Rightarrow> 'p broker \<Rightarrow> 'p broker" where
  "set_limits l b = b\<lparr>br_limits := l\<rparr>"

definition new_subscription :: "'p codec \<Rightarrow> string \<Rightarrow> string \<Rightarrow> nat \<Rightarrow> 'p subscription" where
  "new_subscription cd who flt qos =
     \<lparr>sub_rec = \<lparr>rec_principal = who, rec_filter = flt, rec_qos = qos, rec_dropped = 0, rec_refused = 0\<rparr>,
      sub_dir = queue_dir cd who flt, sub_qos0 = [], sub_queued = []\<rparr>"

definition set_qos :: "nat \<Rightarrow> 'p subscription \<Rightarrow> 'p subscription" where
  "set_qos qos s = s\<lparr>sub_rec := (sub_rec s)\<lparr>rec_qos := qos\<rparr>\<rparr>"

definition subscribe :: "'p codec \<Rightarrow> string \<Rightarrow> string \<Rightarrow> nat \<Rightarrow> 'p broker \<Rightarrow> disk \<Rightarrow>
  'p broker \<times> disk \<times> (pub_error, unit) result" where
  "subscribe cd who flt qos b d =
     (let key = (who, flt) in
      if \<not> valid_filter flt then (b, d, Inl InvalidFilter)
      else if \<not> qos \<le> 1 then (b, d, Inl UnsupportedQos)
      else case map_of (br_subs b) key of
        Some s \<Rightarrow>
          if \<not> (rec_qos (sub_rec s) = qos \<or> sub_queued s = [] \<and> sub_qos0 s = []) then (b, d, Inl QosChange)
          else (let b = b\<lparr>br_subs := bt_adjust key (set_qos qos) (br_subs b)\<rparr> in
                case br_save b d of (d, ok) \<Rightarrow> (b, d, if ok then Inr () else Inl SaveFailed))
      | None \<Rightarrow>
          if \<not> length (br_subs b) < MAX_SUBSCRIPTIONS then (b, d, Inl TooManySubscriptions)
          else (case io_take d of (r, d) \<Rightarrow>
            if r \<noteq> IoOk then (b, d, Inl CreateFailed)
            else (let b = b\<lparr>br_subs := bt_insert key (new_subscription cd who flt qos) (br_subs b)\<rparr> in
                  case br_save b d of (d, ok) \<Rightarrow> (b, d, if ok then Inr () else Inl SaveFailed))))"

definition unsubscribe :: "string \<Rightarrow> string \<Rightarrow> 'p broker \<Rightarrow> disk \<Rightarrow>
  'p broker \<times> disk \<times> (pub_error, bool) result" where
  "unsubscribe who flt b d =
     (let key = (who, flt) in
      case map_of (br_subs b) key of
        None \<Rightarrow> (b, d, Inr False)
      | Some s \<Rightarrow>
          (let b = b\<lparr>br_subs := bt_remove key (br_subs b)\<rparr> in
           case br_save b d of (d, ok) \<Rightarrow>
             if \<not> ok then (b, d, Inl SaveFailed)
             else case io_take d of (r, d) \<Rightarrow>
               (b, if r = IoOk then d\<lparr>disk_files := filter (\<lambda>e. fst (fst e) \<noteq> sub_dir s) (disk_files d)\<rparr> else d,
                Inr True)))"

definition has_subscription :: "string \<Rightarrow> string \<Rightarrow> 'p broker \<Rightarrow> bool" where
  "has_subscription who flt b = bt_has (br_subs b) (who, flt)"

definition targets_of :: "'p subs \<Rightarrow> string option \<Rightarrow> string \<Rightarrow> sub_key list" where
  "targets_of subs skip topic =
     map fst (filter (\<lambda>((who, flt), _). topic_matches flt topic \<and> Some who \<noteq> skip) subs)"

type_synonym 'p batch = "('p message \<times> string \<times> sub_key list) list"

fun build_batch :: "'p codec \<Rightarrow> 'p broker \<Rightarrow> string \<Rightarrow> string option \<Rightarrow> nat \<Rightarrow> nat \<Rightarrow> (string \<times> 'p) list \<Rightarrow>
  (pub_error, 'p batch) result" where
  "build_batch cd b sender skip now offset [] = Inr []"
| "build_batch cd b sender skip now offset ((topic, payload) # pubs) =
     (case invalid_publication cd topic payload of
        Some e \<Rightarrow> Inl e
      | None \<Rightarrow>
          (let m = \<lparr>msg_id = br_seq b + 1 + offset, msg_topic = topic, msg_sender = sender,
                    msg_payload = payload, msg_published_ms = now\<rparr> in
           res_bind (build_batch cd b sender skip now (Suc offset) pubs) (\<lambda>rest.
             Inr ((m, encode_message cd m, targets_of (br_subs b) skip topic) # rest))))"

definition qos1 :: "'p subs \<Rightarrow> sub_key \<Rightarrow> bool" where
  "qos1 subs k = (case map_of subs k of Some s \<Rightarrow> rec_qos (sub_rec s) = 1 | None \<Rightarrow> False)"

definition add_share :: "nat \<Rightarrow> sub_key \<Rightarrow> (sub_key, nat \<times> nat) btree \<Rightarrow> (sub_key, nat \<times> nat) btree" where
  "add_share len k acc =
     (let (count, bytes) = (case map_of acc k of None \<Rightarrow> (0, 0) | Some x \<Rightarrow> x) in
      bt_insert k (count + 1, bytes + len) acc)"

definition added_shares :: "'p subs \<Rightarrow> 'p batch \<Rightarrow> (sub_key, nat \<times> nat) btree" where
  "added_shares subs batch =
     fold (\<lambda>(_, encoded, targets). fold (add_share (length encoded)) (filter (qos1 subs) targets)) batch []"

definition queued_bytes :: "'p subscription \<Rightarrow> nat" where
  "queued_bytes s = sum_list (map snd (sub_queued s))"

definition unfittable_keys :: "limits \<Rightarrow> (sub_key, nat \<times> nat) btree \<Rightarrow> sub_key list" where
  "unfittable_keys l added =
     map fst (filter (\<lambda>(_, count, bytes). max_messages l < count \<or> max_bytes l < bytes) added)"

definition is_full :: "limits \<Rightarrow> 'p subs \<Rightarrow> sub_key \<times> nat \<times> nat \<Rightarrow> bool" where
  "is_full l subs e = (case e of (k, count, bytes) \<Rightarrow>
     (case map_of subs k of None \<Rightarrow> False
      | Some s \<Rightarrow> max_messages l < length (sub_queued s) + count \<or> max_bytes l < queued_bytes s + bytes))"

definition full_keys :: "limits \<Rightarrow> 'p subs \<Rightarrow> (sub_key, nat \<times> nat) btree \<Rightarrow> sub_key list" where
  "full_keys l subs added = map fst (filter (is_full l subs) added)"

definition count_refused :: "'p subscription \<Rightarrow> 'p subscription" where
  "count_refused s = s\<lparr>sub_rec := (sub_rec s)\<lparr>rec_refused := rec_refused (sub_rec s) + 1\<rparr>\<rparr>"

definition copies_of :: "'p subs \<Rightarrow> 'p batch \<Rightarrow> (string list \<times> nat \<times> string) list" where
  "copies_of subs batch =
     map (\<lambda>(m, encoded, targets).
       (map (\<lambda>k. sub_dir (the (map_of subs k))) (filter (qos1 subs) targets), msg_id m, encoded)) batch"

definition deliver :: "nat \<Rightarrow> 'p message \<Rightarrow> nat \<Rightarrow> 'p subscription \<Rightarrow> 'p subscription" where
  "deliver qos0_limit m len s =
     (if rec_qos (sub_rec s) = 1 then s\<lparr>sub_queued := sub_queued s @ [(msg_id m, len)]\<rparr>
      else (let s = (if qos0_limit \<le> length (sub_qos0 s)
                     then s\<lparr>sub_qos0 := tl (sub_qos0 s),
                            sub_rec := (sub_rec s)\<lparr>rec_dropped := rec_dropped (sub_rec s) + 1\<rparr>\<rparr>
                     else s)
            in s\<lparr>sub_qos0 := sub_qos0 s @ [m]\<rparr>))"

definition deliver_targets :: "nat \<Rightarrow> 'p message \<times> string \<times> sub_key list \<Rightarrow> 'p subs \<Rightarrow> 'p subs" where
  "deliver_targets qos0_limit e subs = (case e of (m, encoded, targets) \<Rightarrow>
     fold (\<lambda>k. bt_adjust k (deliver qos0_limit m (length encoded))) targets subs)"

record pub_result =
  res_id :: nat
  res_durable :: nat
  res_volatile :: nat

definition batch_results :: "'p subs \<Rightarrow> 'p batch \<Rightarrow> pub_result list" where
  "batch_results subs batch =
     map (\<lambda>(m, _, targets). \<lparr>res_id = msg_id m, res_durable = length (filter (qos1 subs) targets),
            res_volatile = length (filter (\<lambda>k. \<not> qos1 subs k) targets)\<rparr>) batch"

definition publish_all :: "'p codec \<Rightarrow> string \<Rightarrow> (string \<times> 'p) list \<Rightarrow> string option \<Rightarrow> nat \<Rightarrow>
  'p broker \<Rightarrow> disk \<Rightarrow> 'p broker \<times> disk \<times> (pub_error, pub_result list) result" where
  "publish_all cd sender pubs skip now b d =
     (if br_poisoned b then (b, d, Inl NeedsRestart)
      else if pubs = [] then (b, d, Inl NothingToPublish)
      else case build_batch cd b sender skip now 0 pubs of
        Inl e \<Rightarrow> (b, d, Inl e)
      | Inr batch \<Rightarrow>
          (let subs = br_subs b; l = br_limits b; added = added_shares subs batch;
               unfittable = unfittable_keys l added in
           if unfittable \<noteq> [] then (b, d, Inl (Unfittable unfittable))
           else let full = full_keys l subs added in
             if full \<noteq> [] then
               (let b = b\<lparr>br_subs := fold (\<lambda>k. bt_adjust k count_refused) full subs\<rparr> in
                case br_save b d of (d, ok) \<Rightarrow> (b, d, Inl (if ok then Backpressure full else SaveFailed)))
             else case spool (copies_of subs batch) b d of (b, d, r) \<Rightarrow>
               (case r of Inl e \<Rightarrow> (b, d, Inl e)
                | Inr _ \<Rightarrow>
                    (let results = batch_results subs batch;
                         b = b\<lparr>br_seq := msg_id (fst (last batch)),
                               br_subs := fold (deliver_targets (qos0_messages l)) batch subs\<rparr>;
                         d = (if list_ex (\<lambda>r. 0 < res_volatile r) results then fst (br_save b d) else d)
                     in (b, d, Inr results)))))"

definition publish :: "'p codec \<Rightarrow> string \<Rightarrow> string \<Rightarrow> 'p \<Rightarrow> string option \<Rightarrow> nat \<Rightarrow>
  'p broker \<Rightarrow> disk \<Rightarrow> 'p broker \<times> disk \<times> (pub_error, pub_result) result" where
  "publish cd sender topic payload skip now b d =
     (case publish_all cd sender [(topic, payload)] skip now b d of (b, d, r) \<Rightarrow>
        (b, d, res_bind r (\<lambda>results. Inr (hd results))))"

definition receive :: "'p codec \<Rightarrow> string \<Rightarrow> string \<Rightarrow> 'p broker \<Rightarrow> disk \<Rightarrow>
  'p broker \<times> disk \<times> (pub_error, 'p message option) result" where
  "receive cd who flt b d =
     (let key = (who, flt) in
      case map_of (br_subs b) key of
        None \<Rightarrow> (b, d, Inl NoSuchSubscription)
      | Some s \<Rightarrow>
          if rec_qos (sub_rec s) = 0 then
            (b\<lparr>br_subs := bt_adjust key (\<lambda>s. s\<lparr>sub_qos0 := tl (sub_qos0 s)\<rparr>) (br_subs b)\<rparr>, d,
             Inr (case sub_qos0 s of [] \<Rightarrow> None | m # _ \<Rightarrow> Some m))
          else (case sub_queued s of [] \<Rightarrow> (b, d, Inr None)
                | (i, _) # _ \<Rightarrow>
                    (case io_take d of (r, d) \<Rightarrow>
                      (b, d, (case (r, map_of (disk_files d) (sub_dir s, Placed i)) of
                         (IoOk, Some bytes) \<Rightarrow>
                           (case decode_message cd bytes of None \<Rightarrow> Inl ReadFailed | Some m \<Rightarrow> Inr (Some m))
                       | _ \<Rightarrow> Inl ReadFailed)))))"

definition ack :: "string \<Rightarrow> string \<Rightarrow> nat \<Rightarrow> 'p broker \<Rightarrow> disk \<Rightarrow>
  'p broker \<times> disk \<times> (pub_error, bool) result" where
  "ack who flt i b d =
     (let key = (who, flt) in
      case map_of (br_subs b) key of
        None \<Rightarrow> (b, d, Inl NoSuchSubscription)
      | Some s \<Rightarrow>
          if i \<notin> fst ` set (sub_queued s) then (b, d, Inr False)
          else (case io_take d of (r, d) \<Rightarrow>
            if r \<noteq> IoOk \<or> map_of (disk_files d) (sub_dir s, Placed i) = None then (b, d, Inl RemoveFailed)
            else (b\<lparr>br_subs := bt_adjust key
                     (\<lambda>s. s\<lparr>sub_queued := takeWhile (\<lambda>e. fst e \<noteq> i) (sub_queued s)
                          @ tl (dropWhile (\<lambda>e. fst e \<noteq> i) (sub_queued s))\<rparr>) (br_subs b)\<rparr>,
                  d\<lparr>disk_files := fs_del (sub_dir s, Placed i) (disk_files d)\<rparr>, Inr True)))"

text \<open>
  \<open>open\<close>: the placed files up to the marker are the queue, in id order; placed files above it and
  staged files are removed.
\<close>

definition placed_in :: "string \<Rightarrow> files \<Rightarrow> (nat \<times> nat) list" where
  "placed_in dir fs =
     List.map_filter (\<lambda>((x, q), bytes). case q of Placed i \<Rightarrow> if x = dir then Some (i, length bytes) else None
                                     | Staged i \<Rightarrow> None) fs"

definition recovered_queue :: "string \<Rightarrow> nat \<Rightarrow> files \<Rightarrow> (nat \<times> nat) list" where
  "recovered_queue dir seq fs = sort (filter (\<lambda>(i, _). i \<le> seq) (placed_in dir fs))"

definition stale_files :: "string \<Rightarrow> nat \<Rightarrow> files \<Rightarrow> (string \<times> qname) list" where
  "stale_files dir seq fs =
     map fst (filter (\<lambda>((x, q), _). x = dir \<and> (case q of Placed i \<Rightarrow> seq < i | Staged _ \<Rightarrow> False)) fs)"

fun remove_stale :: "(string \<times> qname) list \<Rightarrow> disk \<Rightarrow> disk \<times> bool" where
  "remove_stale [] d = (d, True)"
| "remove_stale (k # ks) d =
     (case remove_if_present k d of (d, ok) \<Rightarrow>
        if \<not> ok then (d, False)
        else case sync_dir d of (d, ok) \<Rightarrow> if ok then remove_stale ks d else (d, False))"

definition staged_files :: "string \<Rightarrow> files \<Rightarrow> (string \<times> qname) list" where
  "staged_files dir fs =
     map fst (filter (\<lambda>((x, q), _). x = dir \<and> (case q of Staged _ \<Rightarrow> True | Placed _ \<Rightarrow> False)) fs)"

definition drop_staged :: "string \<Rightarrow> disk \<Rightarrow> disk" where
  "drop_staged dir d = fold (\<lambda>k d. fst (remove_if_present k d)) (staged_files dir (disk_files d)) d"

fun open_records :: "'p codec \<Rightarrow> nat \<Rightarrow> sub_record list \<Rightarrow> 'p subs \<Rightarrow> disk \<Rightarrow>
  disk \<times> (pub_error, 'p subs) result" where
  "open_records cd seq [] subs d = (d, Inr subs)"
| "open_records cd seq (r # rs) subs d =
     (let dir = queue_dir cd (rec_principal r) (rec_filter r) in
      case io_take d of (made, d) \<Rightarrow>
        if made \<noteq> IoOk then (d, Inl CreateFailed)
        else let queued = recovered_queue dir seq (disk_files d) in
          case remove_stale (stale_files dir seq (disk_files d)) (drop_staged dir d) of (d, ok) \<Rightarrow>
            if \<not> ok then (d, Inl RemoveFailed)
            else open_records cd seq rs
              (bt_insert (rec_principal r, rec_filter r)
                 \<lparr>sub_rec = r, sub_dir = dir, sub_qos0 = [], sub_queued = queued\<rparr> subs) d)"

definition br_open :: "'p codec \<Rightarrow> limits \<Rightarrow> disk \<Rightarrow> disk \<times> (pub_error, 'p broker) result" where
  "br_open cd l d =
     (case io_take d of (made, d) \<Rightarrow>
        if made \<noteq> IoOk then (d, Inl CreateFailed)
        else case disk_subs d of
          BadSubs \<Rightarrow> (d, Inl BadSubscriptions)
        | s \<Rightarrow>
            (let records = (case s of Subs rs \<Rightarrow> rs | _ \<Rightarrow> []) in
             case disk_seq d of
               BadMarker \<Rightarrow> (d, Inl BadMarkerFile)
             | k \<Rightarrow>
                 (let seq = (case k of Marker n \<Rightarrow> n | _ \<Rightarrow> 0) in
                  case open_records cd seq records [] d of (d, r) \<Rightarrow>
                    (d, res_bind r (\<lambda>subs. Inr \<lparr>br_limits = l, br_seq = seq, br_subs = subs,
                                               br_poisoned = False\<rparr>)))))"

record sub_stats =
  st_principal :: string
  st_filter :: string
  st_qos :: nat
  st_queued :: nat
  st_bytes :: nat
  st_dropped :: nat
  st_refused :: nat

definition broker_stats :: "string option \<Rightarrow> 'p broker \<Rightarrow> sub_stats list" where
  "broker_stats who b =
     map (\<lambda>s. \<lparr>st_principal = rec_principal (sub_rec s), st_filter = rec_filter (sub_rec s),
               st_qos = rec_qos (sub_rec s),
               st_queued = (if rec_qos (sub_rec s) = 1 then length (sub_queued s) else length (sub_qos0 s)),
               st_bytes = queued_bytes s, st_dropped = rec_dropped (sub_rec s),
               st_refused = rec_refused (sub_rec s)\<rparr>)
       (filter (\<lambda>s. case who of None \<Rightarrow> True | Some p \<Rightarrow> rec_principal (sub_rec s) = p)
         (bt_values (br_subs b)))"

section \<open>Lemmas: the disk\<close>

fun qid :: "qname \<Rightarrow> nat" where
  "qid (Placed i) = i"
| "qid (Staged i) = i"

text \<open>The placed files at or below a marker: what reopening keeps.\<close>

definition committed :: "nat \<Rightarrow> files \<Rightarrow> files" where
  "committed n fs = filter (\<lambda>((_, q), _). case q of Placed i \<Rightarrow> i \<le> n | Staged _ \<Rightarrow> False) fs"

definition fs_ok :: "files \<Rightarrow> bool" where
  "fs_ok fs \<longleftrightarrow> distinct (map fst fs)"

lemma io_take_frame:
  "io_take d = (r, d') \<Longrightarrow> disk_files d' = disk_files d \<and> disk_seq d' = disk_seq d \<and> disk_subs d' = disk_subs d"
  by (auto simp: io_take_def split: list.splits)

lemma sync_dir_frame:
  "sync_dir d = (d', r) \<Longrightarrow> disk_files d' = disk_files d \<and> disk_seq d' = disk_seq d \<and> disk_subs d' = disk_subs d"
  by (auto simp: sync_dir_def dest: io_take_frame split: prod.splits)

lemma get_fs_del [simp]: "map_of (fs_del k fs) k' = (if k' = k then None else map_of fs k')"
  by (induction fs) (auto simp: fs_del_def)

lemma get_fs_put [simp]: "map_of (fs_put k v fs) k' = (if k' = k then Some v else map_of fs k')"
  by (simp add: fs_put_def)

lemma keys_fs_del: "fst ` set (fs_del k fs) = fst ` set fs - {k}"
  by (auto simp: fs_del_def)

lemma fs_ok_filter: "fs_ok fs \<Longrightarrow> fs_ok (filter P fs)"
  by (induction fs) (auto simp: fs_ok_def)

lemma fs_ok_del [intro]: "fs_ok fs \<Longrightarrow> fs_ok (fs_del k fs)"
  by (simp add: fs_del_def fs_ok_filter)

lemma fs_ok_put [intro]: "fs_ok fs \<Longrightarrow> fs_ok (fs_put k v fs)"
  using fs_ok_del [of fs k] keys_fs_del [of k fs] by (simp add: fs_put_def fs_ok_def)

lemma committed_fs_del:
  "n < qid (snd k) \<Longrightarrow> committed n (fs_del k fs) = committed n fs"
  by (induction fs) (auto simp: committed_def fs_del_def split: qname.splits)

lemma committed_fs_del_staged [simp]: "committed n (fs_del (dir, Staged i) fs) = committed n fs"
  by (induction fs) (auto simp: committed_def fs_del_def split: qname.splits)

lemma committed_fs_put:
  assumes "n < qid (snd k)"
  shows "committed n (fs_put k v fs) = committed n fs"
proof -
  have "committed n (fs_put k v fs) = committed n (fs_del k fs)"
    using assms by (auto simp: fs_put_def committed_def split: qname.splits prod.splits)
  then show ?thesis using assms by (simp add: committed_fs_del)
qed

lemmas op_splits = prod.splits io.splits option.splits if_splits

lemma write_file_synced_committed:
  "write_file_synced k v d = (d', ok) \<Longrightarrow> n < qid (snd k) \<Longrightarrow>
     committed n (disk_files d') = committed n (disk_files d)"
  by (auto simp: write_file_synced_def committed_fs_put dest!: io_take_frame split: op_splits)

lemma rename_file_committed:
  "rename_file k k' d = (d', ok) \<Longrightarrow> n < qid (snd k) \<Longrightarrow> n < qid (snd k') \<Longrightarrow>
     committed n (disk_files d') = committed n (disk_files d)"
  by (auto simp: rename_file_def committed_fs_put committed_fs_del dest!: io_take_frame split: op_splits)

lemma remove_if_present_committed:
  "remove_if_present k d = (d', ok) \<Longrightarrow> n < qid (snd k) \<or> (\<exists>i. snd k = Staged i) \<Longrightarrow>
     committed n (disk_files d') = committed n (disk_files d)"
  by (cases k) (auto simp: remove_if_present_def committed_fs_del dest!: io_take_frame split: op_splits)

lemma write_synced_frame:
  assumes "write_synced place d = (d', ok)" and "\<And>d. disk_files (place d) = disk_files d"
  shows "disk_files d' = disk_files d"
  using assms by (auto simp: write_synced_def dest!: io_take_frame sync_dir_frame split: op_splits)

lemma write_seq_marker:
  "write_seq n d = (d', ok) \<Longrightarrow> disk_files d' = disk_files d \<and> disk_subs d' = disk_subs d \<and>
     (disk_seq d' = disk_seq d \<or> disk_seq d' = Marker n) \<and> (ok \<longrightarrow> disk_seq d' = Marker n)"
  by (auto simp: write_seq_def write_synced_def dest!: io_take_frame sync_dir_frame split: op_splits)

lemma br_save_frame:
  "br_save b d = (d', ok) \<Longrightarrow> disk_files d' = disk_files d \<and> disk_seq d' = disk_seq d"
  by (auto simp: br_save_def write_synced_def dest!: io_take_frame sync_dir_frame split: op_splits)

text \<open>The queue a directory is reopened with depends on the committed files only.\<close>

lemma recovered_queue_committed: "recovered_queue dir n (committed n fs) = recovered_queue dir n fs"
proof -
  have "filter (\<lambda>(i, _). i \<le> n) (placed_in dir (committed n fs)) = filter (\<lambda>(i, _). i \<le> n) (placed_in dir fs)"
    by (induction fs) (auto simp: placed_in_def committed_def List.map_filter_simps split: qname.splits)
  then show ?thesis by (simp add: recovered_queue_def)
qed

lemma recovered_queue_cong:
  "committed n fs = committed n gs \<Longrightarrow> recovered_queue dir n fs = recovered_queue dir n gs"
  by (metis recovered_queue_committed)

lemma placed_in_iff:
  assumes "fs_ok fs"
  shows "(i, l) \<in> set (placed_in dir fs) \<longleftrightarrow> (\<exists>b. map_of fs (dir, Placed i) = Some b \<and> l = length b)"
proof -
  have "(i, l) \<in> set (placed_in dir fs) \<longleftrightarrow> (\<exists>b. ((dir, Placed i), b) \<in> set fs \<and> l = length b)"
    by (force simp: placed_in_def set_map_filter_iff split: qname.splits if_splits)
  then show ?thesis using assms by (auto simp: fs_ok_def map_of_eq_Some_iff)
qed

lemma placed_in_distinct:
  "fs_ok fs \<Longrightarrow> distinct (map fst (placed_in dir fs))"
proof (induction fs)
  case (Cons e fs)
  obtain x q b where e: "e = ((x, q), b)" by (metis prod.exhaust)
  have ok: "fs_ok fs" and new: "(x, q) \<notin> fst ` set fs" using Cons.prems e by (auto simp: fs_ok_def)
  have "i \<notin> fst ` set (placed_in dir fs)" if "q = Placed i" "x = dir" for i
    using new that placed_in_iff [OF ok] by (force dest: map_of_SomeD)
  then show ?case using Cons.IH [OF ok] e
    by (auto simp: placed_in_def List.map_filter_simps split: qname.splits)
qed (simp add: placed_in_def List.map_filter_simps)

lemma recovered_queue_iff:
  assumes "fs_ok fs"
  shows "(i, l) \<in> set (recovered_queue dir n fs) \<longleftrightarrow>
    i \<le> n \<and> (\<exists>b. map_of fs (dir, Placed i) = Some b \<and> l = length b)"
  using assms by (auto simp: recovered_queue_def placed_in_iff)

lemma recovered_queue_sorted: "sorted (recovered_queue dir n fs)"
  by (simp add: recovered_queue_def)

lemma recovered_queue_distinct: "fs_ok fs \<Longrightarrow> distinct (map fst (recovered_queue dir n fs))"
  using placed_in_distinct [of fs dir]
  by (auto simp: recovered_queue_def distinct_map intro: inj_on_subset)

text \<open>A queue is determined by its entries: ascending, distinct ids.\<close>

lemma queue_unique:
  assumes "sorted xs" and "distinct xs" and "fs_ok fs"
    and "\<And>i l. (i, l) \<in> set xs \<longleftrightarrow> i \<le> n \<and> (\<exists>b. map_of fs (dir, Placed i) = Some b \<and> l = length b)"
  shows "recovered_queue dir n fs = xs"
proof -
  have "distinct (recovered_queue dir n fs)"
    using recovered_queue_distinct [OF assms(3)] distinct_map by blast
  moreover have "set (recovered_queue dir n fs) = set xs"
    using assms(4) recovered_queue_iff [OF assms(3)] by auto
  ultimately show ?thesis
    using assms(1,2) recovered_queue_sorted sorted_distinct_set_unique by metis
qed

section \<open>Lemmas: spooling\<close>

definition copy_map :: "copy list \<Rightarrow> ((string \<times> nat) \<times> string) list" where
  "copy_map cs = map (\<lambda>(dir, i, bytes). ((dir, i), bytes)) cs"

definition copies_above :: "nat \<Rightarrow> copy list \<Rightarrow> bool" where
  "copies_above n cs \<longleftrightarrow> (\<forall>(dir, i, bytes) \<in> set cs. n < i)"

lemma copies_above_simps [simp]:
  "copies_above n []" "copies_above n ((dir, i, bytes) # cs) \<longleftrightarrow> n < i \<and> copies_above n cs"
  by (auto simp: copies_above_def)

lemma copy_map_simps [simp]:
  "copy_map [] = []" "copy_map ((dir, i, bytes) # cs) = ((dir, i), bytes) # copy_map cs"
  by (auto simp: copy_map_def)

lemma sync_copies_frame:
  "sync_copies cs d = (d', ok) \<Longrightarrow> disk_files d' = disk_files d \<and> disk_seq d' = disk_seq d \<and> disk_subs d' = disk_subs d"
  by (induction cs d rule: sync_copies.induct) (auto dest!: sync_dir_frame split: op_splits)

lemma write_file_synced_frame:
  "write_file_synced k v d = (d', ok) \<Longrightarrow>
     disk_seq d' = disk_seq d \<and> disk_subs d' = disk_subs d \<and> (fs_ok (disk_files d) \<longrightarrow> fs_ok (disk_files d')) \<and>
     (\<forall>k'. k' \<noteq> k \<longrightarrow> map_of (disk_files d') k' = map_of (disk_files d) k') \<and>
     (ok \<longrightarrow> map_of (disk_files d') k = Some v)"
  by (auto simp: write_file_synced_def dest!: io_take_frame split: op_splits)

lemma rename_file_frame:
  "rename_file k k' d = (d', ok) \<Longrightarrow>
     disk_seq d' = disk_seq d \<and> disk_subs d' = disk_subs d \<and> (fs_ok (disk_files d) \<longrightarrow> fs_ok (disk_files d')) \<and>
     (\<not> ok \<longrightarrow> disk_files d' = disk_files d) \<and>
     (ok \<longrightarrow> (\<exists>v. map_of (disk_files d) k = Some v \<and>
        (\<forall>x. map_of (disk_files d') x = (if x = k' then Some v else if x = k then None else map_of (disk_files d) x))))"
  by (auto simp: rename_file_def fs_ok_put fs_ok_del dest!: io_take_frame split: op_splits)

lemma remove_if_present_frame:
  "remove_if_present k d = (d', ok) \<Longrightarrow>
     disk_seq d' = disk_seq d \<and> disk_subs d' = disk_subs d \<and> (fs_ok (disk_files d) \<longrightarrow> fs_ok (disk_files d')) \<and>
     (\<forall>x. x \<noteq> k \<longrightarrow> map_of (disk_files d') x = map_of (disk_files d) x) \<and>
     (ok \<longrightarrow> map_of (disk_files d') k = None) \<and>
     (map_of (disk_files d) k = None \<longrightarrow> map_of (disk_files d') k = None)"
  by (auto simp: remove_if_present_def dest!: io_take_frame split: op_splits)

text \<open>Staging: what a disk holds afterwards, and that every file it may have made is listed.\<close>

lemma stage_copies_frame:
  assumes "stage_copies cs d made = (d', made', ok)"
  shows "disk_seq d' = disk_seq d \<and> disk_subs d' = disk_subs d \<and> (fs_ok (disk_files d) \<longrightarrow> fs_ok (disk_files d'))
    \<and> set made \<subseteq> set made'
    \<and> (\<forall>k. map_of (disk_files d') k \<noteq> map_of (disk_files d) k \<longrightarrow> k \<in> set made')
    \<and> (copies_above n cs \<longrightarrow> committed n (disk_files d') = committed n (disk_files d))"
  using assms
proof (induction cs d made rule: stage_copies.induct)
  case (2 dir i bytes cs d made)
  obtain d1 ok1 where w: "write_file_synced (dir, Staged i) bytes d = (d1, ok1)" by fastforce
  have c: "n < i \<Longrightarrow> committed n (disk_files d1) = committed n (disk_files d)"
    using write_file_synced_committed [OF w] by simp
  note f = write_file_synced_frame [OF w]
  show ?case
  proof (cases ok1)
    case True
    then have rest: "stage_copies cs d1 (made @ [(dir, Staged i)]) = (d', made', ok)"
      using 2(2) w by (simp add: Let_def)
    note IH = 2(1) [OF refl w [symmetric] True rest]
    have "(dir, Staged i) \<in> set made'" using IH by auto
    then have "k \<in> set made'" if "map_of (disk_files d') k \<noteq> map_of (disk_files d) k" for k
      using IH f that by metis
    then show ?thesis using IH f c by simp
  next
    case False
    then have "d' = d1" "made' = made @ [(dir, Staged i)]" using 2(2) w by (simp_all add: Let_def)
    then show ?thesis using f c by auto
  qed
qed simp

lemma stage_copies_ok:
  assumes "stage_copies cs d made = (d', made', True)" and "distinct (map fst (copy_map cs))"
  shows "map_of (disk_files d') (dir, Placed i) = map_of (disk_files d) (dir, Placed i)
    \<and> map_of (disk_files d') (dir, Staged i) =
        (case map_of (copy_map cs) (dir, i) of Some v \<Rightarrow> Some v | None \<Rightarrow> map_of (disk_files d) (dir, Staged i))"
  using assms
proof (induction cs d made rule: stage_copies.induct)
  case (2 dir' j bytes cs d made)
  obtain d1 ok1 where w: "write_file_synced (dir', Staged j) bytes d = (d1, ok1)" by fastforce
  then have True: ok1 using 2(2) by (auto simp: Let_def split: if_splits)
  then have rest: "stage_copies cs d1 (made @ [(dir', Staged j)]) = (d', made', True)"
    using 2(2) w by (simp add: Let_def)
  have dist: "distinct (map fst (copy_map cs))" and new: "map_of (copy_map cs) (dir', j) = None"
    using 2(3) by (auto simp: map_of_eq_None_iff)
  note IH = 2(1) [OF refl w [symmetric] True rest dist]
  show ?case using IH write_file_synced_frame [OF w] True new by (auto split: option.splits)
qed simp

lemma place_copies_frame:
  assumes "place_copies cs d made = (d', made', ok)"
  shows "disk_seq d' = disk_seq d \<and> disk_subs d' = disk_subs d \<and> (fs_ok (disk_files d) \<longrightarrow> fs_ok (disk_files d'))
    \<and> set made \<subseteq> set made'
    \<and> (\<forall>k. map_of (disk_files d') k \<noteq> None \<longrightarrow> map_of (disk_files d) k = None \<longrightarrow> k \<in> set made')
    \<and> (copies_above n cs \<longrightarrow> committed n (disk_files d') = committed n (disk_files d))"
  using assms
proof (induction cs d made rule: place_copies.induct)
  case (2 dir i bytes cs d made)
  obtain d1 ok1 where w: "rename_file (dir, Staged i) (dir, Placed i) d = (d1, ok1)" by fastforce
  have c: "n < i \<Longrightarrow> committed n (disk_files d1) = committed n (disk_files d)"
    using rename_file_committed [OF w] by simp
  note f = rename_file_frame [OF w]
  show ?case
  proof (cases ok1)
    case True
    then have rest: "place_copies cs d1 (made @ [(dir, Placed i)]) = (d', made', ok)"
      using 2(2) w by (simp add: Let_def)
    note IH = 2(1) [OF w [symmetric] True rest]
    have "(dir, Placed i) \<in> set made'" using IH by auto
    then have "k \<in> set made'" if "map_of (disk_files d') k \<noteq> None" "map_of (disk_files d) k = None" for k
      using IH f that True by metis
    then show ?thesis using IH f c by simp
  next
    case False
    then show ?thesis using 2(2) w f c by auto
  qed
qed auto

lemma place_copies_ok:
  assumes "place_copies cs d made = (d', made', True)" and "distinct (map fst (copy_map cs))"
    and "\<And>k v. map_of (copy_map cs) k = Some v \<Longrightarrow> map_of (disk_files d) (fst k, Staged (snd k)) = Some v"
  shows "map_of (disk_files d') (dir, q) =
    (case map_of (copy_map cs) (dir, qid q) of
       Some v \<Rightarrow> (case q of Placed _ \<Rightarrow> Some v | Staged _ \<Rightarrow> None)
     | None \<Rightarrow> map_of (disk_files d) (dir, q))"
  using assms
proof (induction cs d made rule: place_copies.induct)
  case (2 dir' j bytes cs d made)
  obtain d1 ok1 where w: "rename_file (dir', Staged j) (dir', Placed j) d = (d1, ok1)" by fastforce
  then have True: ok1 using 2(2) by (auto split: if_splits)
  then have rest: "place_copies cs d1 (made @ [(dir', Placed j)]) = (d', made', True)"
    using 2(2) w by simp
  have dist: "distinct (map fst (copy_map cs))" and new: "map_of (copy_map cs) (dir', j) = None"
    using 2(3) by (auto simp: map_of_eq_None_iff)
  have here: "map_of (disk_files d) (dir', Staged j) = Some bytes" using 2(4) [of "(dir', j)"] by simp
  have files: "map_of (disk_files d1) x = (if x = (dir', Placed j) then Some bytes
      else if x = (dir', Staged j) then None else map_of (disk_files d) x)" for x
    using rename_file_frame [OF w] True here by (cases x) auto
  have "map_of (disk_files d1) (fst k, Staged (snd k)) = Some v" if "map_of (copy_map cs) k = Some v" for k v
    using 2(4) [of k v] that new files by (cases k) (auto split: if_splits)
  note IH = 2(1) [OF w [symmetric] True rest dist this]
  show ?case
  proof (cases "(dir, qid q) = (dir', j)")
    case True
    then show ?thesis using IH new files by (cases q) auto
  next
    case False
    then have "map_of (disk_files d1) (dir, q) = map_of (disk_files d) (dir, q)"
      using files by (cases q) auto
    then show ?thesis using IH False by (auto split: option.splits)
  qed
qed simp

text \<open>A whole commit: the marker is written last, so a marker that moved means every copy is placed.\<close>

lemma spool_commit_frame:
  assumes "spool_commit cs final d = (d', made, ok)"
  shows "disk_subs d' = disk_subs d \<and> (fs_ok (disk_files d) \<longrightarrow> fs_ok (disk_files d'))
    \<and> (disk_seq d' = disk_seq d \<or> disk_seq d' = Marker final) \<and> (ok \<longrightarrow> disk_seq d' = Marker final)
    \<and> (\<forall>k. map_of (disk_files d') k \<noteq> None \<longrightarrow> map_of (disk_files d) k = None \<longrightarrow> k \<in> set made)
    \<and> (copies_above n cs \<longrightarrow> committed n (disk_files d') = committed n (disk_files d))"
proof -
  obtain d1 m1 ok1 where st: "stage_copies cs d [] = (d1, m1, ok1)" by (metis prod_cases3)
  obtain d2 m2 ok2 where pl: "place_copies cs d1 m1 = (d2, m2, ok2)" by (metis prod_cases3)
  obtain d3 ok3 where sy: "sync_copies cs d2 = (d3, ok3)" by fastforce
  obtain d4 ok4 where sq: "write_seq final d3 = (d4, ok4)" by fastforce
  note s = stage_copies_frame [OF st, of n] and p = place_copies_frame [OF pl, of n]
    and y = sync_copies_frame [OF sy] and q = write_seq_marker [OF sq]
  have new1: "k \<in> set m1" if "map_of (disk_files d1) k \<noteq> None" "map_of (disk_files d) k = None" for k
    using s that by metis
  have new2: "k \<in> set m2" if "map_of (disk_files d2) k \<noteq> None" "map_of (disk_files d) k = None" for k
    using p new1 that by (metis subsetD)
  consider "\<not> ok1" "d' = d1" "made = m1" "\<not> ok" | "ok1" "\<not> ok2" "d' = d2" "made = m2" "\<not> ok"
    | "ok1" "ok2" "\<not> ok3" "d' = d3" "made = m2" "\<not> ok" | "ok1" "ok2" "ok3" "d' = d4" "made = m2" "ok = ok4"
    using assms st pl sy sq by (auto simp: spool_commit_def split: if_splits)
  then show ?thesis
    by cases (use s p y q new1 new2 in simp_all)
qed

lemma spool_commit_placed:
  assumes "spool_commit cs final d = (d', made, ok)" and "ok \<or> disk_seq d' \<noteq> disk_seq d"
    and "distinct (map fst (copy_map cs))"
  shows "map_of (disk_files d') (dir, q) =
    (case map_of (copy_map cs) (dir, qid q) of
       Some v \<Rightarrow> (case q of Placed _ \<Rightarrow> Some v | Staged _ \<Rightarrow> None)
     | None \<Rightarrow> map_of (disk_files d) (dir, q))"
proof -
  obtain d1 m1 ok1 where st: "stage_copies cs d [] = (d1, m1, ok1)" by (metis prod_cases3)
  obtain d2 m2 ok2 where pl: "place_copies cs d1 m1 = (d2, m2, ok2)" by (metis prod_cases3)
  obtain d3 ok3 where sy: "sync_copies cs d2 = (d3, ok3)" by fastforce
  obtain d4 ok4 where sq: "write_seq final d3 = (d4, ok4)" by fastforce
  note unchanged = stage_copies_frame [OF st] place_copies_frame [OF pl] sync_copies_frame [OF sy]
  have oks: "ok1" "ok2" "ok3" "d' = d4"
    using assms(1,2) st pl sy sq unchanged by (auto simp: spool_commit_def split: if_splits)
  have staged: "map_of (disk_files d1) (dir, Placed i) = map_of (disk_files d) (dir, Placed i)
    \<and> map_of (disk_files d1) (dir, Staged i) =
        (case map_of (copy_map cs) (dir, i) of Some v \<Rightarrow> Some v | None \<Rightarrow> map_of (disk_files d) (dir, Staged i))" for dir i
    using stage_copies_ok st oks(1) assms(3) by simp
  have "map_of (disk_files d1) (fst k, Staged (snd k)) = Some v" if "map_of (copy_map cs) k = Some v" for k v
    using staged [of "fst k" "snd k"] that by simp
  note placed = place_copies_ok [OF pl [unfolded eqTrueI [OF oks(2)]] assms(3) this, of dir q]
  have "disk_files d' = disk_files d2"
    using sync_copies_frame [OF sy] write_seq_marker [OF sq] oks by auto
  moreover have "map_of (copy_map cs) (dir, qid q) = None \<Longrightarrow>
      map_of (disk_files d1) (dir, q) = map_of (disk_files d) (dir, q)"
    using staged [of dir "qid q"] by (cases q) auto
  ultimately show ?thesis using placed by (auto split: option.splits)
qed

definition names_ok :: "(string \<times> qname \<Rightarrow> bool) \<Rightarrow> copy list \<Rightarrow> bool" where
  "names_ok P cs \<longleftrightarrow> (\<forall>(dir, i, v) \<in> set cs. P (dir, Staged i) \<and> P (dir, Placed i))"

lemma names_ok_simps [simp]:
  "names_ok P []" "names_ok P ((dir, i, v) # cs) \<longleftrightarrow> P (dir, Staged i) \<and> P (dir, Placed i) \<and> names_ok P cs"
  by (auto simp: names_ok_def)

lemma stage_copies_made:
  "stage_copies cs d made = (d', made', ok) \<Longrightarrow> names_ok P cs \<Longrightarrow> \<forall>k \<in> set made. P k \<Longrightarrow> \<forall>k \<in> set made'. P k"
  by (induction cs d made rule: stage_copies.induct) (auto simp: Let_def split: op_splits)

lemma place_copies_made:
  "place_copies cs d made = (d', made', ok) \<Longrightarrow> names_ok P cs \<Longrightarrow> \<forall>k \<in> set made. P k \<Longrightarrow> \<forall>k \<in> set made'. P k"
  by (induction cs d made rule: place_copies.induct) (auto split: op_splits)

lemma spool_commit_made:
  assumes "spool_commit cs final d = (d', made, ok)" and "names_ok P cs"
  shows "\<forall>k \<in> set made. P k"
proof -
  obtain d1 m1 ok1 where st: "stage_copies cs d [] = (d1, m1, ok1)" by (metis prod_cases3)
  obtain d2 m2 ok2 where pl: "place_copies cs d1 m1 = (d2, m2, ok2)" by (metis prod_cases3)
  have m1: "\<forall>k \<in> set m1. P k" using stage_copies_made [OF st assms(2)] by simp
  have m2: "\<forall>k \<in> set m2. P k" by (rule place_copies_made [OF pl assms(2) m1])
  have "made = m1 \<or> made = m2"
    using assms(1) st pl by (auto simp: spool_commit_def split: op_splits)
  then show ?thesis using m1 m2 by auto
qed

lemma names_above: "copies_above n cs \<Longrightarrow> names_ok (\<lambda>k. n < qid (snd k)) cs"
  by (auto simp: names_ok_def copies_above_def)

lemma undo_made_frame:
  assumes "undo_made ks d = (d', ok)"
  shows "disk_seq d' = disk_seq d \<and> disk_subs d' = disk_subs d \<and> (fs_ok (disk_files d) \<longrightarrow> fs_ok (disk_files d'))
    \<and> (\<forall>x. x \<notin> set ks \<longrightarrow> map_of (disk_files d') x = map_of (disk_files d) x)
    \<and> (ok \<longrightarrow> (\<forall>x \<in> set ks. map_of (disk_files d') x = None))
    \<and> (\<forall>x. map_of (disk_files d) x = None \<longrightarrow> map_of (disk_files d') x = None)
    \<and> ((\<forall>k \<in> set ks. n < qid (snd k)) \<longrightarrow> committed n (disk_files d') = committed n (disk_files d))"
  using assms
proof (induction ks d rule: undo_made.induct)
  case (2 k ks d)
  obtain d1 ok1 where w: "remove_if_present k d = (d1, ok1)" by fastforce
  note f = remove_if_present_frame [OF w]
  have c: "n < qid (snd k) \<Longrightarrow> committed n (disk_files d1) = committed n (disk_files d)"
    using remove_if_present_committed [OF w] by simp
  have absent: "map_of (disk_files d1) x = None" if "map_of (disk_files d) x = None" for x
    using f that by metis
  show ?case
  proof (cases ok1)
    case True
    then have rest: "undo_made ks d1 = (d', ok)" using 2(2) w by simp
    note IH = 2(1) [OF w [symmetric] True rest]
    have "map_of (disk_files d') x = None" if "ok" "x \<in> set (k # ks)" for x
      using that IH f True by (metis set_ConsD)
    moreover have "map_of (disk_files d') x = map_of (disk_files d) x" if "x \<notin> set (k # ks)" for x
      using that IH f by (metis list.set_intros)
    ultimately show ?thesis using IH f c absent by simp
  next
    case False
    then show ?thesis using 2(2) w f c absent by auto
  qed
qed simp

text \<open>Spooling as a whole, for every pattern of I/O outcomes.\<close>

definition flat_copies :: "(string list \<times> nat \<times> string) list \<Rightarrow> copy list" where
  "flat_copies copies = concat (map (\<lambda>(dirs, i, e). map (\<lambda>dir. (dir, i, e)) dirs) copies)"

lemma spool_broker:
  assumes "spool copies b d = (b', d', r)"
  shows "br_subs b' = br_subs b \<and> br_seq b' = br_seq b \<and> br_limits b' = br_limits b \<and> (br_poisoned b' \<longrightarrow> br_poisoned b \<or> (\<exists>i. r = Inl (SpoolPoisoned i)))"
  using assms by (auto simp: spool_def Let_def split: op_splits)

lemma spool_frame:
  assumes run: "spool copies b d = (b', d', r)" and above: "copies_above n (flat_copies copies)"
  shows "committed n (disk_files d') = committed n (disk_files d) \<and> disk_subs d' = disk_subs d
    \<and> (fs_ok (disk_files d) \<longrightarrow> fs_ok (disk_files d'))
    \<and> (disk_seq d' = disk_seq d \<or> disk_seq d' = Marker (Max (set (map (\<lambda>(_, i, _). i) copies))))"
proof (cases "copies = []")
  case False
  let ?cs = "flat_copies copies" and ?final = "Max (set (map (\<lambda>(_, i, _). i) copies))"
  obtain d1 made ok where c: "spool_commit ?cs ?final d = (d1, made, ok)" by (metis prod_cases3)
  obtain d2 ok2 where u: "undo_made made d1 = (d2, ok2)" by fastforce
  obtain d3 ok3 where y: "sync_copies ?cs d2 = (d3, ok3)" by fastforce
  note f = spool_commit_frame [OF c, of n] and g = undo_made_frame [OF u, of n]
    and h = sync_copies_frame [OF y] and made = spool_commit_made [OF c names_above [OF above]]
  have "d' = d1 \<or> d' = d2 \<or> d' = d3"
    using run False c u y
    by (auto simp: spool_def spool_undo_def Let_def flat_copies_def split: if_splits)
  then show ?thesis using f g h made above by auto
qed (use assms in \<open>auto simp: spool_def\<close>)

lemma spool_ok:
  assumes run: "spool copies b d = (b', d', Inr ())" and dist: "distinct (map fst (copy_map (flat_copies copies)))"
  shows "b' = b \<and> (copies \<noteq> [] \<longrightarrow> disk_seq d' = Marker (Max (set (map (\<lambda>(_, i, _). i) copies))))
    \<and> map_of (disk_files d') (dir, q) =
      (case map_of (copy_map (flat_copies copies)) (dir, qid q) of
         Some v \<Rightarrow> (case q of Placed _ \<Rightarrow> Some v | Staged _ \<Rightarrow> None)
       | None \<Rightarrow> map_of (disk_files d) (dir, q))"
proof (cases "copies = []")
  case False
  let ?cs = "flat_copies copies" and ?final = "Max (set (map (\<lambda>(_, i, _). i) copies))"
  obtain made where c: "spool_commit ?cs ?final d = (d', made, True)" and "b' = b"
    using run False by (auto simp: spool_def Let_def flat_copies_def split: op_splits)
  then show ?thesis
    using spool_commit_frame [OF c] spool_commit_placed [OF c _ dist] by simp
qed (use run in \<open>auto simp: spool_def flat_copies_def\<close>)

lemma spool_new_files:
  assumes run: "spool copies b d = (b', d', r)" and names: "names_ok P (flat_copies copies)"
    and new: "map_of (disk_files d') k \<noteq> None" "map_of (disk_files d) k = None"
  shows "P k"
proof (cases "copies = []")
  case False
  let ?cs = "flat_copies copies" and ?final = "Max (set (map (\<lambda>(_, i, _). i) copies))"
  obtain d1 made ok where c: "spool_commit ?cs ?final d = (d1, made, ok)" by (metis prod_cases3)
  obtain d2 ok2 where u: "undo_made made d1 = (d2, ok2)" by fastforce
  obtain d3 ok3 where y: "sync_copies ?cs d2 = (d3, ok3)" by fastforce
  have "d' = d1 \<or> d' = d2 \<or> d' = d3"
    using run False c u y
    by (auto simp: spool_def spool_undo_def Let_def flat_copies_def split: if_splits)
  then have "map_of (disk_files d1) k \<noteq> None"
    using new undo_made_frame [OF u] sync_copies_frame [OF y] by metis
  then have "k \<in> set made" using new spool_commit_frame [OF c] by metis
  then show ?thesis using spool_commit_made [OF c names] by blast
qed (use assms in \<open>auto simp: spool_def\<close>)

text \<open>A refused publication that was undone leaves no file that was not there before.\<close>

lemma spool_failed_clean:
  assumes run: "spool copies b d = (b', d', Inl (SpoolFailed i))" and absent: "map_of (disk_files d) k = None"
  shows "map_of (disk_files d') k = None"
proof -
  let ?cs = "flat_copies copies" and ?final = "Max (set (map (\<lambda>(_, i, _). i) copies))"
  have False: "copies \<noteq> []" using run by (auto simp: spool_def)
  obtain d1 made ok where c: "spool_commit ?cs ?final d = (d1, made, ok)" by (metis prod_cases3)
  obtain d2 ok2 where u: "undo_made made d1 = (d2, ok2)" by fastforce
  obtain d3 ok3 where y: "sync_copies ?cs d2 = (d3, ok3)" by fastforce
  have "ok2" "d' = d3"
    using run False c u y by (auto simp: spool_def spool_undo_def Let_def flat_copies_def split: if_splits)
  then show ?thesis
    using spool_commit_frame [OF c] undo_made_frame [OF u] sync_copies_frame [OF y] absent by metis
qed

section \<open>Lemmas: a publication batch\<close>

definition batch_ids :: "'p batch \<Rightarrow> nat list" where
  "batch_ids batch = map (\<lambda>x. msg_id (fst x)) batch"

lemma batch_ids_simps [simp]: "batch_ids [] = []" "batch_ids (x # batch) = msg_id (fst x) # batch_ids batch"
  by (simp_all add: batch_ids_def)

lemma set_batch_ids: "set (batch_ids batch) = (\<lambda>x. msg_id (fst x)) ` set batch"
  by (simp add: batch_ids_def)

definition sub_dirs :: "'p subs \<Rightarrow> string list" where
  "sub_dirs subs = map (\<lambda>e. sub_dir (snd e)) subs"

lemma build_batch_shape:
  "build_batch cd b sender skip now off pubs = Inr batch \<Longrightarrow>
     batch_ids batch = [br_seq b + 1 + off ..< br_seq b + 1 + off + length pubs]
     \<and> map (\<lambda>(m, _, _). (msg_topic m, msg_payload m)) batch = pubs
     \<and> (\<forall>(m, e, ts) \<in> set batch. e = encode_message cd m \<and> ts = targets_of (br_subs b) skip (msg_topic m)
          \<and> msg_sender m = sender \<and> msg_published_ms m = now)"
proof (induction cd b sender skip now off pubs arbitrary: batch rule: build_batch.induct)
  case (2 cd b sender skip now off topic payload pubs)
  then obtain rest m where valid: "invalid_publication cd topic payload = None"
    and rest: "build_batch cd b sender skip now (Suc off) pubs = Inr rest"
    and m: "m = \<lparr>msg_id = br_seq b + 1 + off, msg_topic = topic, msg_sender = sender,
                    msg_payload = payload, msg_published_ms = now\<rparr>"
    and batch: "batch = (m, encode_message cd m, targets_of (br_subs b) skip topic) # rest"
    by (auto simp: Let_def split: option.splits)
  note IH = 2(1) [OF valid m rest]
  have "[br_seq b + 1 + off ..< br_seq b + 1 + off + length ((topic, payload) # pubs)] =
      (br_seq b + 1 + off) # [br_seq b + 1 + Suc off ..< br_seq b + 1 + Suc off + length pubs]"
    by (subst upt_conv_Cons) auto
  then show ?case using IH by (simp add: batch m)
qed simp

lemma distinct_targets: "bt_wf subs \<Longrightarrow> distinct (targets_of subs skip topic)"
  unfolding targets_of_def by (rule bt_wf_distinct) (rule bt_wf_filter)

lemma targets_present: "k \<in> set (targets_of subs skip topic) \<Longrightarrow> map_of subs k \<noteq> None"
  unfolding bt_has_iff by (auto simp: targets_of_def)

definition batch_ok :: "'p subs \<Rightarrow> nat \<Rightarrow> 'p batch \<Rightarrow> bool" where
  "batch_ok subs n batch \<longleftrightarrow> batch \<noteq> [] \<and> sorted_wrt (<) (batch_ids batch)
     \<and> (\<forall>(m, e, ts) \<in> set batch. n < msg_id m \<and> distinct ts \<and> (\<forall>k \<in> set ts. map_of subs k \<noteq> None))"

lemma build_batch_ok:
  assumes "build_batch cd b sender skip now 0 pubs = Inr batch" and "pubs \<noteq> []" and "bt_wf (br_subs b)"
  shows "batch_ok (br_subs b) (br_seq b) batch"
proof -
  note shape = build_batch_shape [OF assms(1)]
  have ids: "batch_ids batch = [br_seq b + 1 ..< br_seq b + 1 + length pubs]" using shape by simp
  have sorted: "sorted_wrt (<) (batch_ids batch)" unfolding ids by (rule sorted_wrt_upt)
  have above: "br_seq b < msg_id m" if "(m, e, ts) \<in> set batch" for m e ts
  proof -
    have "msg_id m \<in> set (batch_ids batch)" using that by (force simp: set_batch_ids)
    then show ?thesis unfolding ids by auto
  qed
  have "batch \<noteq> []" using shape assms(2) by auto
  moreover have "distinct ts \<and> (\<forall>k \<in> set ts. map_of (br_subs b) k \<noteq> None)" if "(m, e, ts) \<in> set batch" for m e ts
    using shape that distinct_targets [OF assms(3)] targets_present by fast
  ultimately show ?thesis using sorted above unfolding batch_ok_def by fast
qed

text \<open>What a batch adds to one queue.\<close>

definition share :: "sub_key \<Rightarrow> 'p batch \<Rightarrow> (nat \<times> nat) list" where
  "share k batch = map (\<lambda>(m, e, _). (msg_id m, length e)) (filter (\<lambda>(_, _, ts). k \<in> set ts) batch)"

lemma share_simps [simp]:
  "share k [] = []"
  "share k ((m, e, ts) # batch) = (if k \<in> set ts then (msg_id m, length e) # share k batch else share k batch)"
  by (auto simp: share_def)

lemma share_iff: "(i, l) \<in> set (share k batch) \<longleftrightarrow> (\<exists>m e ts. (m, e, ts) \<in> set batch \<and> k \<in> set ts \<and> i = msg_id m \<and> l = length e)"
  by (force simp: share_def)

definition share_of :: "(nat \<times> nat) list \<Rightarrow> nat \<times> nat" where
  "share_of xs = (length xs, sum_list (map snd xs))"

lemma get_fold_add_share:
  "distinct ts \<Longrightarrow> map_of (fold (add_share l) ts acc) k =
     (if k \<in> set ts then (case map_of acc k of None \<Rightarrow> Some (1, l) | Some (c, n) \<Rightarrow> Some (c + 1, n + l))
      else map_of acc k)"
  by (induction ts arbitrary: acc) (auto simp: add_share_def Let_def split: option.splits)

lemma added_shares_acc:
  assumes "\<forall>(m, e, ts) \<in> set batch. distinct ts"
  shows "map_of (fold (\<lambda>(_, e, ts). fold (add_share (length e)) (filter (qos1 subs) ts)) batch acc) k =
    (if qos1 subs k \<and> share k batch \<noteq> []
     then (case map_of acc k of None \<Rightarrow> Some (share_of (share k batch))
           | Some (c, n) \<Rightarrow> Some (c + fst (share_of (share k batch)), n + snd (share_of (share k batch))))
     else map_of acc k)"
  using assms
proof (induction batch arbitrary: acc)
  case (Cons x batch)
  obtain m e ts where x: "x = (m, e, ts)" by (metis prod_cases3)
  then have "distinct (filter (qos1 subs) ts)" using Cons.prems by simp
  then show ?case
    using Cons x by (auto simp: get_fold_add_share share_of_def split: option.splits)
qed simp

lemma get_added_shares:
  assumes "\<forall>(m, e, ts) \<in> set batch. distinct ts"
  shows "map_of (added_shares subs batch) k =
    (if qos1 subs k \<and> share k batch \<noteq> [] then Some (share_of (share k batch)) else None)"
  unfolding added_shares_def added_shares_acc [OF assms] by simp

lemma not_full_limits:
  assumes "full_keys l subs (added_shares subs batch) = []" and "\<forall>(m, e, ts) \<in> set batch. distinct ts"
    and "map_of subs k = Some s" and "rec_qos (sub_rec s) = 1" and "share k batch \<noteq> []"
  shows "length (sub_queued s @ share k batch) \<le> max_messages l"
    and "sum_list (map snd (sub_queued s @ share k batch)) \<le> max_bytes l"
proof -
  have "qos1 subs k" using assms(3,4) by (simp add: qos1_def)
  then have "map_of (added_shares subs batch) k = Some (share_of (share k batch))"
    using get_added_shares [OF assms(2)] assms(5) by simp
  then have "(k, share_of (share k batch)) \<in> set (added_shares subs batch)" by (rule map_of_SomeD)
  then have "\<not> is_full l subs (k, share_of (share k batch))"
    using assms(1) by (auto simp: full_keys_def filter_empty_conv)
  then show "length (sub_queued s @ share k batch) \<le> max_messages l"
    and "sum_list (map snd (sub_queued s @ share k batch)) \<le> max_bytes l"
    using assms(3) by (auto simp: is_full_def share_of_def queued_bytes_def)
qed

text \<open>Delivery in memory, one subscription at a time.\<close>

definition deliver_all :: "nat \<Rightarrow> sub_key \<Rightarrow> 'p batch \<Rightarrow> 'p subscription \<Rightarrow> 'p subscription" where
  "deliver_all lim k batch s = fold (\<lambda>(m, e, ts) s. if k \<in> set ts then deliver lim m (length e) s else s) batch s"

lemma deliver_all_Nil: "deliver_all lim k [] = (\<lambda>s. s)"
  by (rule ext) (simp add: deliver_all_def)

lemma get_fold_adjust:
  "distinct ks \<Longrightarrow> map_of (fold (\<lambda>k. bt_adjust k f) ks m) k =
     (if k \<in> set ks then map_option f (map_of m k) else map_of m k)"
  by (induction ks arbitrary: m) auto

lemma keys_fold_adjust [simp]: "map fst (fold (\<lambda>k. bt_adjust k f) ks m) = map fst m"
  by (induction ks arbitrary: m) auto

lemma keys_deliver_targets: "map fst (deliver_targets lim e subs) = map fst subs"
  by (simp add: deliver_targets_def split: prod.splits)

lemma keys_fold_deliver [simp]: "map fst (fold (deliver_targets lim) batch subs) = map fst subs"
  by (induction batch arbitrary: subs) (auto simp: keys_deliver_targets)

lemma get_fold_deliver:
  assumes "\<forall>(m, e, ts) \<in> set batch. distinct ts"
  shows "map_of (fold (deliver_targets lim) batch subs) k = map_option (deliver_all lim k batch) (map_of subs k)"
  using assms
proof (induction batch arbitrary: subs)
  case (Cons x batch)
  obtain m e ts where x: "x = (m, e, ts)" by (metis prod_cases3)
  then have d: "distinct ts" using Cons.prems by simp
  have "map_of (deliver_targets lim x subs) k =
      map_option (\<lambda>s. if k \<in> set ts then deliver lim m (length e) s else s) (map_of subs k)"
    by (simp add: x deliver_targets_def get_fold_adjust [OF d] option.map_ident)
  then show ?case using Cons x by (simp add: deliver_all_def option.map_comp comp_def)
qed (simp add: deliver_all_Nil option.map_ident)

lemma deliver_frame:
  "sub_dir (deliver lim m l s) = sub_dir s"
  "rec_qos (sub_rec (deliver lim m l s)) = rec_qos (sub_rec s)"
  "rec_principal (sub_rec (deliver lim m l s)) = rec_principal (sub_rec s)"
  "rec_filter (sub_rec (deliver lim m l s)) = rec_filter (sub_rec s)"
  "rec_qos (sub_rec s) = 1 \<Longrightarrow> sub_qos0 (deliver lim m l s) = sub_qos0 s"
  "sub_queued (deliver lim m l s) = (if rec_qos (sub_rec s) = 1 then sub_queued s @ [(msg_id m, l)] else sub_queued s)"
  by (auto simp: deliver_def Let_def)

lemma deliver_all_frame:
  "sub_dir (deliver_all lim k batch s) = sub_dir s
   \<and> rec_qos (sub_rec (deliver_all lim k batch s)) = rec_qos (sub_rec s)
   \<and> rec_principal (sub_rec (deliver_all lim k batch s)) = rec_principal (sub_rec s)
   \<and> rec_filter (sub_rec (deliver_all lim k batch s)) = rec_filter (sub_rec s)
   \<and> (rec_qos (sub_rec s) = 1 \<longrightarrow> sub_qos0 (deliver_all lim k batch s) = sub_qos0 s)
   \<and> sub_queued (deliver_all lim k batch s) =
       (if rec_qos (sub_rec s) = 1 then sub_queued s @ share k batch else sub_queued s)"
proof (induction batch arbitrary: s)
  case (Cons x batch)
  obtain m e ts where x: "x = (m, e, ts)" by (metis prod_cases3)
  show ?case using Cons [of "if k \<in> set ts then deliver lim m (length e) s else s"]
    by (simp add: deliver_all_def x deliver_frame)
qed (simp add: deliver_all_def)

lemma deliver_all_qos0_bound:
  "length (sub_qos0 s) \<le> max 1 lim \<Longrightarrow> length (sub_qos0 (deliver_all lim k batch s)) \<le> max 1 lim"
proof (induction batch arbitrary: s)
  case (Cons x batch)
  obtain m e ts where x: "x = (m, e, ts)" by (metis prod_cases3)
  have "length (sub_qos0 (deliver lim m (length e) s)) \<le> max 1 lim"
    using Cons.prems by (auto simp: deliver_def Let_def)
  then show ?case using Cons.IH Cons.prems by (simp add: deliver_all_def x)
qed (simp add: deliver_all_def)

section \<open>The invariant\<close>

fun marker_value :: "marker \<Rightarrow> nat" where
  "marker_value (Marker n) = n"
| "marker_value _ = 0"

definition sub_ok :: "'p codec \<Rightarrow> nat \<Rightarrow> files \<Rightarrow> sub_key \<Rightarrow> 'p subscription \<Rightarrow> bool" where
  "sub_ok cd n fs k s \<longleftrightarrow>
     rec_principal (sub_rec s) = fst k \<and> rec_filter (sub_rec s) = snd k \<and>
     sub_dir s = queue_dir cd (fst k) (snd k) \<and> rec_qos (sub_rec s) \<le> 1 \<and>
     (rec_qos (sub_rec s) = 0 \<longrightarrow> sub_queued s = []) \<and> (rec_qos (sub_rec s) = 1 \<longrightarrow> sub_qos0 s = []) \<and>
     sub_queued s = recovered_queue (sub_dir s) n fs"

text \<open>No two subscriptions share a directory (no collision of the truncated hash).\<close>

definition dirs_distinct :: "'p subs \<Rightarrow> bool" where
  "dirs_distinct subs \<longleftrightarrow> distinct (sub_dirs subs)"

text \<open>Every queue file lies in the directory of a subscription.\<close>

definition no_orphans :: "'p subs \<Rightarrow> files \<Rightarrow> bool" where
  "no_orphans subs fs \<longleftrightarrow> (\<forall>((dir, _), _) \<in> set fs. dir \<in> set (sub_dirs subs))"

definition none_above :: "nat \<Rightarrow> files \<Rightarrow> bool" where
  "none_above n fs \<longleftrightarrow> (\<forall>((_, q), _) \<in> set fs. case q of Placed i \<Rightarrow> i \<le> n | Staged _ \<Rightarrow> True)"

text \<open>
  What memory and disk agree on: each QoS 1 queue in memory is exactly the queue the directory
  would be reopened with, and unless the store is poisoned no file above the sequence number exists
  and the marker is not behind it.
\<close>

definition broker_ok :: "'p codec \<Rightarrow> 'p broker \<Rightarrow> disk \<Rightarrow> bool" where
  "broker_ok cd b d \<longleftrightarrow>
     bt_wf (br_subs b) \<and> dirs_distinct (br_subs b) \<and> fs_ok (disk_files d) \<and> no_orphans (br_subs b) (disk_files d) \<and>
     (\<forall>(k, s) \<in> set (br_subs b). sub_ok cd (br_seq b) (disk_files d) k s) \<and>
     (br_poisoned b \<or> br_seq b \<le> marker_value (disk_seq d) \<and> none_above (br_seq b) (disk_files d))"

lemma broker_ok_sub: "broker_ok cd b d \<Longrightarrow> (k, s) \<in> set (br_subs b) \<Longrightarrow> sub_ok cd (br_seq b) (disk_files d) k s"
  unfolding broker_ok_def by fast

lemma map_of_wf_cong:
  assumes "bt_wf m" and "map fst m' = map fst m" and "\<And>k. map_of m' k = map_option (f k) (map_of m k)"
  shows "m' = map (\<lambda>(k, v). (k, f k v)) m"
proof (rule bt_ext)
  show "bt_wf m'" using assms(1,2) by (simp add: bt_wf_def)
  show "bt_wf (map (\<lambda>(k, v). (k, f k v)) m)" using assms(1) by simp
  show "map_of m' k = map_of (map (\<lambda>(k, v). (k, f k v)) m) k" for k
    using assms(3) by (simp add: bt_get_map_snd)
qed

lemma dirs_map:
  "(\<And>k s. sub_dir (f k s) = sub_dir s) \<Longrightarrow> sub_dirs (map (\<lambda>(k, v). (k, f k v)) m) = sub_dirs m"
  by (induction m) (auto simp: sub_dirs_def)

lemma dirs_adjust [simp]:
  "(\<And>s. sub_dir (f s) = sub_dir s) \<Longrightarrow> sub_dirs (bt_adjust k f m) = sub_dirs m"
  by (induction m) (auto simp: bt_adjust_def sub_dirs_def)

text \<open>Changing the fields of one subscription that the invariant does not constrain.\<close>

lemma broker_ok_adjust:
  assumes "broker_ok cd b d" and "\<And>s. sub_dir (f s) = sub_dir s"
    and "\<And>s. sub_ok cd (br_seq b) (disk_files d) k s \<Longrightarrow> (k, s) \<in> set (br_subs b) \<Longrightarrow> sub_ok cd (br_seq b) (disk_files d) k (f s)"
  shows "broker_ok cd (b\<lparr>br_subs := bt_adjust k f (br_subs b)\<rparr>) d"
proof -
  have "sub_ok cd (br_seq b) (disk_files d) x s" if mem: "(x, s) \<in> set (bt_adjust k f (br_subs b))" for x s
  proof -
    obtain s0 where s0: "(x, s0) \<in> set (br_subs b)" "s = (if x = k then f s0 else s0)"
      using mem unfolding bt_adjust_def by auto
    then show ?thesis using broker_ok_sub [OF assms(1)] assms(3) by (cases "x = k") auto
  qed
  then have "\<forall>(x, s) \<in> set (bt_adjust k f (br_subs b)). sub_ok cd (br_seq b) (disk_files d) x s" by fast
  then show ?thesis using assms(1,2)
    by (simp add: broker_ok_def dirs_distinct_def no_orphans_def)
qed

lemma broker_ok_disk:
  assumes "broker_ok cd b d" and "disk_files d' = disk_files d" and "disk_seq d' = disk_seq d"
  shows "broker_ok cd b d'"
  using assms by (simp add: broker_ok_def)

lemma sub_ok_refused: "sub_ok cd n fs k s \<Longrightarrow> sub_ok cd n fs k (count_refused s)"
  by (auto simp: sub_ok_def count_refused_def)

lemma broker_ok_refused:
  "broker_ok cd b d \<Longrightarrow> broker_ok cd (b\<lparr>br_subs := fold (\<lambda>k. bt_adjust k count_refused) ks (br_subs b)\<rparr>) d"
proof (induction ks arbitrary: b)
  case (Cons k ks)
  have "broker_ok cd (b\<lparr>br_subs := bt_adjust k count_refused (br_subs b)\<rparr>) d"
    by (rule broker_ok_adjust [OF Cons.prems]) (auto simp: sub_ok_refused, simp add: count_refused_def)
  from Cons.IH [OF this] show ?case by simp
qed simp

text \<open>What a failed spool leaves: the same broker, the same committed files.\<close>

lemma no_orphans_iff:
  "fs_ok fs \<Longrightarrow> no_orphans subs fs \<longleftrightarrow> (\<forall>dir q. map_of fs (dir, q) \<noteq> None \<longrightarrow> dir \<in> set (sub_dirs subs))"
  unfolding bt_has_iff by (force simp: no_orphans_def)

lemma none_above_iff:
  "fs_ok fs \<Longrightarrow> none_above n fs \<longleftrightarrow> (\<forall>dir i. map_of fs (dir, Placed i) \<noteq> None \<longrightarrow> i \<le> n)"
  unfolding bt_has_iff none_above_def by (force split: qname.splits)

lemma broker_ok_none_above:
  "broker_ok cd b d \<Longrightarrow> \<not> br_poisoned b \<Longrightarrow> map_of (disk_files d) (dir, Placed i) = Some v \<Longrightarrow> i \<le> br_seq b"
  using none_above_iff [of "disk_files d" "br_seq b"] unfolding broker_ok_def by auto

lemma get_sub_ok: "broker_ok cd b d \<Longrightarrow> map_of (br_subs b) k = Some s \<Longrightarrow> sub_ok cd (br_seq b) (disk_files d) k s"
  using broker_ok_sub map_of_SomeD by metis

lemma dirs_distinct_inj:
  assumes "dirs_distinct subs" and "map_of subs k = Some s" and "map_of subs k' = Some s'" and "sub_dir s = sub_dir s'"
    and "bt_wf subs"
  shows "k = k'"
proof -
  have "inj_on (\<lambda>e. sub_dir (snd e)) (set subs)"
    using assms(1) by (simp add: dirs_distinct_def sub_dirs_def distinct_map)
  then have "(k, s) = (k', s')"
    using assms(2-4) map_of_SomeD by (metis inj_onD snd_conv)
  then show ?thesis by simp
qed

text \<open>The copies of a batch, by directory and id.\<close>

lemma in_flat_copies:
  "(dir, i, e) \<in> set (flat_copies (copies_of subs batch)) \<longleftrightarrow>
     (\<exists>m ts k. (m, e, ts) \<in> set batch \<and> i = msg_id m \<and> k \<in> set ts \<and> qos1 subs k \<and> dir = sub_dir (the (map_of subs k)))"
  by (force simp: flat_copies_def copies_of_def)

lemma copies_above_batch:
  "batch_ok subs n batch \<Longrightarrow> copies_above n (flat_copies (copies_of subs batch))"
  unfolding copies_above_def by (clarify, unfold in_flat_copies) (fastforce simp: batch_ok_def)

lemma batch_ok_unique:
  assumes "batch_ok subs n batch" and "x \<in> set batch" and "y \<in> set batch" and "msg_id (fst x) = msg_id (fst y)"
  shows "x = y"
proof -
  have "distinct (batch_ids batch)"
    using assms(1) unfolding batch_ok_def strict_sorted_iff by simp
  then have "inj_on (\<lambda>x. msg_id (fst x)) (set batch)" by (simp add: batch_ids_def distinct_map)
  then show ?thesis using assms(2-4) by (meson inj_onD)
qed

lemma qos1_present: "qos1 subs k \<Longrightarrow> \<exists>s. map_of subs k = Some s \<and> rec_qos (sub_rec s) = 1"
  by (auto simp: qos1_def split: option.splits)

lemma distinct_flat_copies_aux:
  assumes "dirs_distinct subs" and "bt_wf subs"
    and "distinct (batch_ids batch)" and "\<forall>(m, e, ts) \<in> set batch. distinct ts"
  shows "distinct (map fst (copy_map (flat_copies (copies_of subs batch))))"
  using assms(3,4)
proof (induction batch)
  case (Cons x batch)
  obtain m e ts where x: "x = (m, e, ts)" by (metis prod_cases3)
  let ?dirs = "map (\<lambda>k. sub_dir (the (map_of subs k))) (filter (qos1 subs) ts)"
  let ?rest = "copy_map (flat_copies (copies_of subs batch))"
  have "inj_on (\<lambda>k. sub_dir (the (map_of subs k))) (set (filter (qos1 subs) ts))"
    using dirs_distinct_inj [OF assms(1) _ _ _ assms(2)] by (fastforce simp: inj_on_def dest: qos1_present)
  then have d: "distinct ?dirs" using Cons.prems x by (simp add: distinct_map)
  have "(dir, msg_id m) \<notin> fst ` set ?rest" for dir
  proof
    assume "(dir, msg_id m) \<in> fst ` set ?rest"
    then obtain v where "(dir, msg_id m, v) \<in> set (flat_copies (copies_of subs batch))"
      by (auto simp: copy_map_def)
    then have "msg_id m \<in> set (batch_ids batch)" unfolding in_flat_copies set_batch_ids by force
    then show False using Cons.prems(1) x by simp
  qed
  moreover have "map fst (copy_map (flat_copies (copies_of subs (x # batch)))) =
      map (\<lambda>dir. (dir, msg_id m)) ?dirs @ map fst ?rest"
    by (simp add: x copies_of_def flat_copies_def copy_map_def comp_def)
  moreover have "distinct (map (\<lambda>dir. (dir, msg_id m)) ?dirs)"
    using d by (simp add: distinct_map inj_on_def del: map_map)
  ultimately show ?case using Cons by auto
qed (simp add: copies_of_def flat_copies_def)

lemma distinct_flat_copies:
  assumes "batch_ok subs n batch" and "dirs_distinct subs" and "bt_wf subs"
  shows "distinct (map fst (copy_map (flat_copies (copies_of subs batch))))"
  using assms unfolding batch_ok_def strict_sorted_iff by (intro distinct_flat_copies_aux) auto

lemma get_copy_map:
  assumes "batch_ok subs n batch" and "dirs_distinct subs" and "bt_wf subs" and "map_of subs k = Some s"
  shows "map_of (copy_map (flat_copies (copies_of subs batch))) (sub_dir s, i) = Some v \<longleftrightarrow>
    rec_qos (sub_rec s) = 1 \<and> (\<exists>m ts. (m, v, ts) \<in> set batch \<and> i = msg_id m \<and> k \<in> set ts)"
proof -
  have "map_of (copy_map (flat_copies (copies_of subs batch))) (sub_dir s, i) = Some v \<longleftrightarrow>
      (sub_dir s, i, v) \<in> set (flat_copies (copies_of subs batch))"
    using distinct_flat_copies [OF assms(1-3)] by (force simp: map_of_eq_Some_iff copy_map_def)
  also have "\<dots> \<longleftrightarrow> rec_qos (sub_rec s) = 1 \<and> (\<exists>m ts. (m, v, ts) \<in> set batch \<and> i = msg_id m \<and> k \<in> set ts)"
  proof
    assume "(sub_dir s, i, v) \<in> set (flat_copies (copies_of subs batch))"
    then obtain m ts k' where m: "(m, v, ts) \<in> set batch" "i = msg_id m" "k' \<in> set ts" "qos1 subs k'"
      "sub_dir s = sub_dir (the (map_of subs k'))"
      unfolding in_flat_copies by blast
    then have "k = k'"
      using dirs_distinct_inj [OF assms(2) assms(4) _ _ assms(3)] qos1_present [of subs k'] by fastforce
    then show "rec_qos (sub_rec s) = 1 \<and> (\<exists>m ts. (m, v, ts) \<in> set batch \<and> i = msg_id m \<and> k \<in> set ts)"
      using m assms(4) by (auto simp: qos1_def)
  next
    assume r: "rec_qos (sub_rec s) = 1 \<and> (\<exists>m ts. (m, v, ts) \<in> set batch \<and> i = msg_id m \<and> k \<in> set ts)"
    then have "qos1 subs k" "sub_dir s = sub_dir (the (map_of subs k))" using assms(4) by (simp_all add: qos1_def)
    then show "(sub_dir s, i, v) \<in> set (flat_copies (copies_of subs batch))"
      using r unfolding in_flat_copies by blast
  qed
  finally show ?thesis .
qed

lemma batch_last:
  assumes "batch_ok subs n batch"
  shows "Max (set (map (\<lambda>(_, i, _). i) (copies_of subs batch))) = msg_id (fst (last batch))"
    and "\<And>i. i \<in> set (batch_ids batch) \<Longrightarrow> n < i \<and> i \<le> msg_id (fst (last batch))"
    and "n < msg_id (fst (last batch))"
proof -
  have ids: "map (\<lambda>(_, i, _). i) (copies_of subs batch) = batch_ids batch"
    by (induction batch) (auto simp: copies_of_def batch_ids_def)
  have ne: "batch \<noteq> []" and sorted: "sorted (batch_ids batch)"
    using assms by (auto simp: batch_ok_def strict_sorted_iff)
  have lt: "last (batch_ids batch) = msg_id (fst (last batch))" using ne by (simp add: batch_ids_def last_map)
  have ne': "batch_ids batch \<noteq> []" using ne by (simp add: batch_ids_def)
  have top: "i \<le> last (batch_ids batch)" if "i \<in> set (batch_ids batch)" for i
    using sorted that ne' by (metis append_butlast_last_id in_set_conv_decomp sorted_append last_in_set
      Un_iff list.set_intros(1) order.refl set_append singletonD list.set(2) list.set(1))
  then show "Max (set (map (\<lambda>(_, i, _). i) (copies_of subs batch))) = msg_id (fst (last batch))"
    unfolding ids lt [symmetric] using ne' by (intro Max_eqI) auto
  have above: "n < i" if "i \<in> set (batch_ids batch)" for i
    using assms that unfolding set_batch_ids batch_ok_def by auto
  show "\<And>i. i \<in> set (batch_ids batch) \<Longrightarrow> n < i \<and> i \<le> msg_id (fst (last batch))"
    using above top lt by simp
  show "n < msg_id (fst (last batch))" using above last_in_set [OF ne'] lt by simp
qed

lemma share_ids: "x \<in> set (share k batch) \<Longrightarrow> fst x \<in> set (batch_ids batch)"
  by (force simp: share_def batch_ids_def)

lemma sorted_share:
  "sorted_wrt (<) (batch_ids batch) \<Longrightarrow> sorted (share k batch) \<and> distinct (share k batch)"
proof (induction batch)
  case (Cons x batch)
  obtain m e ts where x: "x = (m, e, ts)" by (metis prod_cases3)
  have "(msg_id m, l) < y" if "y \<in> set (share k batch)" for y l
  proof -
    have "fst y \<in> set (batch_ids batch)"
      using that by (rule share_ids)
    then have "msg_id m < fst y" using Cons.prems x by simp
    then show ?thesis by (simp add: less_prod_def')
  qed
  then show ?case using Cons x by (auto simp: less_imp_le)
qed simp

text \<open>After a commit every queue is the old one followed by its share, in memory and on disk.\<close>

lemma recovered_after_files:
  assumes ok: "broker_ok cd b d" and np: "\<not> br_poisoned b" and batch: "batch_ok (br_subs b) (br_seq b) batch"
    and files: "\<And>dir i. map_of (disk_files d1) (dir, Placed i) =
      (case map_of (copy_map (flat_copies (copies_of (br_subs b) batch))) (dir, i) of
         Some v \<Rightarrow> Some v | None \<Rightarrow> map_of (disk_files d) (dir, Placed i))" and fs: "fs_ok (disk_files d1)"
    and s: "map_of (br_subs b) k = Some s"
  shows "recovered_queue (sub_dir s) (msg_id (fst (last batch))) (disk_files d1) =
    (if rec_qos (sub_rec s) = 1 then sub_queued s @ share k batch else sub_queued s)"
proof -
  have inv: "dirs_distinct (br_subs b)" "bt_wf (br_subs b)" "fs_ok (disk_files d)"
    using ok by (simp_all add: broker_ok_def)
  have q: "sub_queued s = recovered_queue (sub_dir s) (br_seq b) (disk_files d)"
    using get_sub_ok [OF ok s] by (simp add: sub_ok_def)
  have old: "(i, l) \<in> set (sub_queued s) \<longleftrightarrow> (\<exists>v. map_of (disk_files d) (sub_dir s, Placed i) = Some v \<and> l = length v)" for i l
    unfolding q recovered_queue_iff [OF inv(3)] using broker_ok_none_above [OF ok np] by blast
  have old_le: "i \<le> br_seq b" if "(i, l) \<in> set (sub_queued s)" for i l
    using that unfolding q recovered_queue_iff [OF inv(3)] by blast
  let ?xs = "if rec_qos (sub_rec s) = 1 then share k batch else []"
  let ?cm = "copy_map (flat_copies (copies_of (br_subs b) batch))"
  have new: "(i, l) \<in> set ?xs \<longleftrightarrow> (\<exists>v. map_of ?cm (sub_dir s, i) = Some v \<and> l = length v)" for i l
    unfolding get_copy_map [OF batch inv(1,2) s] by (auto simp: share_iff)
  have bounds: "br_seq b < i \<and> i \<le> msg_id (fst (last batch))" if "(i, l) \<in> set ?xs" for i l
    using that batch_last(2) [OF batch share_ids] by (fastforce split: if_splits)
  have "recovered_queue (sub_dir s) (msg_id (fst (last batch))) (disk_files d1) = sub_queued s @ ?xs"
  proof (rule queue_unique [OF _ _ fs])
    have "sorted (sub_queued s)" "distinct (sub_queued s)"
      unfolding q using recovered_queue_sorted recovered_queue_distinct [OF inv(3)] distinct_map by blast+
    moreover have "sorted ?xs \<and> distinct ?xs" using sorted_share [of batch k] batch by (auto simp: batch_ok_def)
    moreover have "x < y" if "x \<in> set (sub_queued s)" "y \<in> set ?xs" for x y
      using that old_le [of "fst x" "snd x"] bounds [of "fst y" "snd y"] by (simp add: less_prod_def')
    ultimately show "sorted (sub_queued s @ ?xs)" "distinct (sub_queued s @ ?xs)"
      by (auto simp: sorted_append intro: less_imp_le)
    show "(i, l) \<in> set (sub_queued s @ ?xs) \<longleftrightarrow> i \<le> msg_id (fst (last batch)) \<and>
        (\<exists>v. map_of (disk_files d1) (sub_dir s, Placed i) = Some v \<and> l = length v)" for i l
    proof (cases "map_of ?cm (sub_dir s, i)")
      case None
      then have "(i, l) \<notin> set ?xs" using new by simp
      then show ?thesis using None old old_le [of i l] files batch_last(3) [OF batch] by auto
    next
      case (Some v)
      then have x: "(i, length v) \<in> set ?xs" using new by blast
      then have "(i, l) \<notin> set (sub_queued s)" using bounds old_le by fastforce
      moreover have "(i, l) \<in> set ?xs \<longleftrightarrow> l = length v" using new Some by auto
      ultimately show ?thesis using bounds [OF x] files Some by auto
    qed
  qed
  then show ?thesis by auto
qed

lemma recovered_after_commit:
  assumes ok: "broker_ok cd b d" and np: "\<not> br_poisoned b" and batch: "batch_ok (br_subs b) (br_seq b) batch"
    and run: "spool (copies_of (br_subs b) batch) b d = (b1, d1, Inr ())" and fs: "fs_ok (disk_files d1)"
    and s: "map_of (br_subs b) k = Some s"
  shows "recovered_queue (sub_dir s) (msg_id (fst (last batch))) (disk_files d1) =
    (if rec_qos (sub_rec s) = 1 then sub_queued s @ share k batch else sub_queued s)"
proof (rule recovered_after_files [OF ok np batch _ fs s])
  have "dirs_distinct (br_subs b)" "bt_wf (br_subs b)" using ok by (simp_all add: broker_ok_def)
  then show "map_of (disk_files d1) (dir, Placed i) =
      (case map_of (copy_map (flat_copies (copies_of (br_subs b) batch))) (dir, i) of
         Some v \<Rightarrow> Some v | None \<Rightarrow> map_of (disk_files d) (dir, Placed i))" for dir i
    using spool_ok [OF run distinct_flat_copies [OF batch], of dir "Placed i"] by (simp split: option.splits)
qed

lemma marker_after_commit:
  assumes "batch_ok subs n batch" and "spool (copies_of subs batch) b d = (b1, d1, Inr ())"
    and "dirs_distinct subs" and "bt_wf subs"
  shows "disk_seq d1 = Marker (msg_id (fst (last batch)))"
proof -
  have "copies_of subs batch \<noteq> []" using assms(1) by (auto simp: batch_ok_def copies_of_def)
  then show ?thesis
    using spool_ok [OF assms(2) distinct_flat_copies [OF assms(1,3,4)]] batch_last(1) [OF assms(1)] by simp
qed

lemma names_in_dirs: "names_ok (\<lambda>k. fst k \<in> set (sub_dirs subs)) (flat_copies (copies_of subs batch))"
  unfolding names_ok_def
proof (clarify, unfold in_flat_copies)
  fix dir i v
  assume "\<exists>m ts k. (m, v, ts) \<in> set batch \<and> i = msg_id m \<and> k \<in> set ts \<and> qos1 subs k \<and> dir = sub_dir (the (map_of subs k))"
  then obtain k s where "(k, s) \<in> set subs" "dir = sub_dir s"
    by (metis qos1_present map_of_SomeD option.sel)
  then show "fst (dir, Staged i) \<in> set (sub_dirs subs) \<and> fst (dir, Placed i) \<in> set (sub_dirs subs)"
    by (force simp: sub_dirs_def)
qed

lemma spool_no_orphans:
  assumes "spool (copies_of (br_subs b) batch) b d = (b1, d1, r)" and "fs_ok (disk_files d)" and "fs_ok (disk_files d1)"
    and "no_orphans (br_subs b) (disk_files d)"
  shows "no_orphans (br_subs b) (disk_files d1)"
  unfolding no_orphans_iff [OF assms(3)]
  using spool_new_files [OF assms(1) names_in_dirs] assms(4) unfolding no_orphans_iff [OF assms(2)] by fastforce

lemma spool_commit_inv:
  assumes ok: "broker_ok cd b d" and np: "\<not> br_poisoned b" and batch: "batch_ok (br_subs b) (br_seq b) batch"
    and run: "spool (copies_of (br_subs b) batch) b d = (b1, d1, Inr ())"
  shows "broker_ok cd (b\<lparr>br_seq := msg_id (fst (last batch)),
      br_subs := fold (deliver_targets lim) batch (br_subs b)\<rparr>) d1"
proof -
  let ?subs = "br_subs b" and ?new = "fold (deliver_targets lim) batch (br_subs b)"
  have inv: "dirs_distinct ?subs" "bt_wf ?subs" "fs_ok (disk_files d)" "no_orphans ?subs (disk_files d)"
    using ok by (simp_all add: broker_ok_def)
  have dist: "\<forall>(m, e, ts) \<in> set batch. distinct ts" using batch unfolding batch_ok_def by fast
  have fs: "fs_ok (disk_files d1)" using spool_frame [OF run copies_above_batch [OF batch]] inv by simp
  have new: "?new = map (\<lambda>(k, s). (k, deliver_all lim k batch s)) ?subs"
    by (rule map_of_wf_cong [OF inv(2)]) (simp_all add: get_fold_deliver [OF dist])
  have dirs: "sub_dirs ?new = sub_dirs ?subs" unfolding new by (rule dirs_map) (simp add: deliver_all_frame)
  have sub: "sub_ok cd (msg_id (fst (last batch))) (disk_files d1) k (deliver_all lim k batch s)" if "(k, s) \<in> set ?subs" for k s
  proof -
    have "map_of ?subs k = Some s" using that inv(2) by (simp add: bt_get_iff)
    from recovered_after_commit [OF ok np batch run fs this] get_sub_ok [OF ok this]
    show ?thesis unfolding sub_ok_def by (auto simp: deliver_all_frame)
  qed
  note files = spool_ok [OF run distinct_flat_copies [OF batch inv(1,2)]]
  have copied: "i \<in> set (batch_ids batch)"
    if c: "map_of (copy_map (flat_copies (copies_of ?subs batch))) (dir, i) = Some v" for dir i v
  proof -
    have "(dir, i, v) \<in> set (flat_copies (copies_of ?subs batch))"
      using map_of_SomeD [OF c] by (auto simp: copy_map_def)
    then show ?thesis unfolding in_flat_copies set_batch_ids by force
  qed
  have "no_orphans ?new (disk_files d1)"
    using spool_no_orphans [OF run inv(3) fs inv(4)] unfolding no_orphans_def dirs .
  moreover have "none_above (msg_id (fst (last batch))) (disk_files d1)"
    unfolding none_above_iff [OF fs]
  proof (intro allI impI)
    fix dir i assume present: "map_of (disk_files d1) (dir, Placed i) \<noteq> None"
    show "i \<le> msg_id (fst (last batch))"
    proof (cases "map_of (copy_map (flat_copies (copies_of ?subs batch))) (dir, i)")
      case None
      then have "i \<le> br_seq b" using present files [of dir "Placed i"] broker_ok_none_above [OF ok np] by auto
      then show ?thesis using batch_last(3) [OF batch] by simp
    next
      case (Some v)
      then show ?thesis using copied batch_last(2) [OF batch] by blast
    qed
  qed
  moreover have "\<forall>(k, s) \<in> set ?new. sub_ok cd (msg_id (fst (last batch))) (disk_files d1) k s"
    unfolding new using sub by auto
  moreover have "bt_wf ?new" "dirs_distinct ?new" using inv dirs unfolding new by (simp_all add: dirs_distinct_def)
  ultimately show ?thesis
    using fs marker_after_commit [OF batch run inv(1,2)] by (simp add: broker_ok_def)
qed

lemma spool_failed_inv:
  assumes ok: "broker_ok cd b d" and np: "\<not> br_poisoned b" and batch: "batch_ok (br_subs b) (br_seq b) batch"
    and run: "spool (copies_of (br_subs b) batch) b d = (b1, d1, Inl e)"
  shows "broker_ok cd b1 d1"
proof -
  note frame = spool_frame [OF run copies_above_batch [OF batch]]
  have fs: "fs_ok (disk_files d)" "fs_ok (disk_files d1)" using ok frame by (auto simp: broker_ok_def)
  have same: "br_subs b1 = br_subs b" "br_seq b1 = br_seq b" using spool_broker [OF run] by simp_all
  have "sub_ok cd (br_seq b) (disk_files d1) k s" if "(k, s) \<in> set (br_subs b)" for k s
    using broker_ok_sub [OF ok that] recovered_queue_cong [of "br_seq b" "disk_files d1" "disk_files d"] frame
    by (auto simp: sub_ok_def)
  then have subs: "\<forall>(k, s) \<in> set (br_subs b). sub_ok cd (br_seq b) (disk_files d1) k s" by fast
  have "none_above (br_seq b) (disk_files d1) \<and> br_seq b \<le> marker_value (disk_seq d1)" if alive: "\<not> br_poisoned b1"
  proof -
    obtain i where e: "e = SpoolFailed i"
      using run np alive by (auto simp: spool_def Let_def split: op_splits)
    have "i \<le> br_seq b" if "map_of (disk_files d1) (dir, Placed i) \<noteq> None" for dir i
    proof -
      have "map_of (disk_files d) (dir, Placed i) \<noteq> None"
        using spool_failed_clean [OF run [unfolded e], of "(dir, Placed i)"] that by metis
      then show ?thesis using broker_ok_none_above [OF ok np] by auto
    qed
    then have "none_above (br_seq b) (disk_files d1)" unfolding none_above_iff [OF fs(2)] by blast
    moreover have "br_seq b \<le> marker_value (disk_seq d)" using ok np by (simp add: broker_ok_def)
    moreover have "br_seq b \<le> msg_id (fst (last batch))" using batch_last(3) [OF batch] by simp
    ultimately show ?thesis using frame batch_last(1) [OF batch] by auto
  qed
  moreover have "no_orphans (br_subs b) (disk_files d1)"
    using spool_no_orphans [OF run fs] ok by (simp add: broker_ok_def)
  ultimately show ?thesis using subs ok fs(2) by (auto simp: broker_ok_def same)
qed

text \<open>The exits of a publication.\<close>

lemma publish_all_cases:
  assumes "publish_all cd sender pubs skip now b d = (b', d', r)" and wf: "bt_wf (br_subs b)"
  obtains (refused) e where "b' = b" "d' = d" "r = Inl e"
  | (full) ks ok where "b' = b\<lparr>br_subs := fold (\<lambda>k. bt_adjust k count_refused) ks (br_subs b)\<rparr>"
      "br_save b' d = (d', ok)" "r = Inl (if ok then Backpressure ks else SaveFailed)"
  | (failed) batch e where "\<not> br_poisoned b" "batch_ok (br_subs b) (br_seq b) batch"
      "spool (copies_of (br_subs b) batch) b d = (b', d', Inl e)" "r = Inl e"
  | (committed) batch d1 where "\<not> br_poisoned b" "batch_ok (br_subs b) (br_seq b) batch"
      "build_batch cd b sender skip now 0 pubs = Inr batch"
      "full_keys (br_limits b) (br_subs b) (added_shares (br_subs b) batch) = []"
      "spool (copies_of (br_subs b) batch) b d = (b, d1, Inr ())"
      "b' = b\<lparr>br_seq := msg_id (fst (last batch)),
              br_subs := fold (deliver_targets (qos0_messages (br_limits b))) batch (br_subs b)\<rparr>"
      "disk_files d' = disk_files d1" "disk_seq d' = disk_seq d1" "r = Inr (batch_results (br_subs b) batch)"
proof (cases "br_poisoned b \<or> pubs = []")
  case True
  then have "(b', d', r) = (b, d, Inl NeedsRestart) \<or> (b', d', r) = (b, d, Inl NothingToPublish)"
    using assms(1) by (cases "br_poisoned b") (simp_all add: publish_all_def)
  then show ?thesis using refused by blast
next
  case False
  show ?thesis
  proof (cases "build_batch cd b sender skip now 0 pubs")
    case (Inl e)
    then show ?thesis using assms(1) refused False by (auto simp: publish_all_def)
  next
    case (Inr batch)
    have ok: "batch_ok (br_subs b) (br_seq b) batch" using build_batch_ok [OF Inr _ wf] False by simp
    let ?added = "added_shares (br_subs b) batch"
    let ?full = "full_keys (br_limits b) (br_subs b) ?added"
    consider "unfittable_keys (br_limits b) ?added \<noteq> []" | "unfittable_keys (br_limits b) ?added = []" "?full \<noteq> []"
      | "unfittable_keys (br_limits b) ?added = []" "?full = []" by blast
    then show ?thesis
    proof cases
      case 1
      then show ?thesis using assms(1) refused False Inr by (auto simp: publish_all_def Let_def)
    next
      case 2
      then show ?thesis using assms(1) full [of ?full] False Inr
        by (auto simp: publish_all_def Let_def split: prod.splits)
    next
      case 3
      obtain b1 d1 r1 where sp: "spool (copies_of (br_subs b) batch) b d = (b1, d1, r1)" by (metis prod_cases3)
      show ?thesis
      proof (cases r1)
        case (Inl e)
        then show ?thesis using assms(1) failed [OF _ ok] False Inr 3 sp by (auto simp: publish_all_def Let_def)
      next
        case (Inr u)
        have b1: "b1 = b" using sp Inr by (auto simp: spool_def Let_def split: op_splits)
        have saved: "disk_files (fst (br_save x d1)) = disk_files d1 \<and> disk_seq (fst (br_save x d1)) = disk_seq d1" for x :: "'a broker"
          using br_save_frame [of x d1] by (cases "br_save x d1") auto
        show ?thesis
          by (rule committed [OF _ ok \<open>build_batch _ _ _ _ _ _ _ = Inr batch\<close> 3(2), of d1])
            (use assms(1) False \<open>build_batch _ _ _ _ _ _ _ = Inr batch\<close> 3 sp Inr b1 saved
              in \<open>auto simp: publish_all_def Let_def split: if_splits\<close>)
      qed
    qed
  qed
qed

lemma publish_all_inv:
  assumes "publish_all cd sender pubs skip now b d = (b', d', r)" and ok: "broker_ok cd b d"
  shows "broker_ok cd b' d' \<and> br_seq b \<le> br_seq b'"
proof -
  have wf: "bt_wf (br_subs b)" using ok by (simp add: broker_ok_def)
  from assms(1) wf show ?thesis
  proof (cases rule: publish_all_cases)
    case (refused e)
    then show ?thesis using ok by simp
  next
    case (full ks saved)
    then show ?thesis
      using broker_ok_disk [OF broker_ok_refused [OF ok, of ks]] br_save_frame [OF full(2)] by auto
  next
    case (failed batch e)
    then show ?thesis using spool_failed_inv [OF ok] spool_broker by fastforce
  next
    case (committed batch d1)
    then show ?thesis
      using broker_ok_disk [OF spool_commit_inv [OF ok committed(1,2,5)]] batch_last(3) [OF committed(2)] by simp
  qed
qed

section \<open>Lemmas: the other operations\<close>

lemma placed_in_del:
  "placed_in dir' (fs_del (dir, Placed i) fs) =
     (if dir' = dir then filter (\<lambda>e. fst e \<noteq> i) (placed_in dir fs) else placed_in dir' fs)"
  by (induction fs) (auto simp: placed_in_def fs_del_def List.map_filter_simps split: qname.splits)

lemma recovered_queue_del:
  "recovered_queue dir' n (fs_del (dir, Placed i) fs) =
     (if dir' = dir then filter (\<lambda>e. fst e \<noteq> i) (recovered_queue dir n fs) else recovered_queue dir' n fs)"
  by (auto simp: recovered_queue_def placed_in_del filter_sort conj_commute case_prod_beta)

lemma remove_first_is_filter:
  "distinct (map fst xs) \<Longrightarrow>
     takeWhile (\<lambda>e. fst e \<noteq> i) xs @ tl (dropWhile (\<lambda>e. fst e \<noteq> i) xs) = filter (\<lambda>e. fst e \<noteq> i) xs"
proof (induction xs)
  case (Cons x xs)
  have "filter (\<lambda>e. fst e \<noteq> i) xs = xs" if "i \<notin> fst ` set xs" using that by (auto simp: filter_id_conv)
  then show ?case using Cons by auto
qed simp

lemma placed_in_other_dir:
  "dir' \<noteq> dir \<Longrightarrow> placed_in dir' (filter (\<lambda>e. fst (fst e) \<noteq> dir) fs) = placed_in dir' fs"
  by (induction fs) (auto simp: placed_in_def List.map_filter_simps split: qname.splits)

lemma placed_in_orphan_free:
  assumes "no_orphans subs fs" and "dir \<notin> set (sub_dirs subs)"
  shows "recovered_queue dir n fs = []"
proof -
  have "placed_in dir fs = []" if "\<forall>e \<in> set fs. fst (fst e) \<noteq> dir"
    using that by (induction fs) (auto simp: placed_in_def List.map_filter_simps split: qname.splits)
  moreover have "\<forall>e \<in> set fs. fst (fst e) \<noteq> dir" using assms by (auto simp: no_orphans_def)
  ultimately show ?thesis by (simp add: recovered_queue_def)
qed

lemma none_above_mono: "none_above n fs \<Longrightarrow> set gs \<subseteq> set fs \<Longrightarrow> none_above n gs"
  unfolding none_above_def by blast

lemma no_orphans_mono:
  "no_orphans subs fs \<Longrightarrow> set gs \<subseteq> set fs \<Longrightarrow> set (sub_dirs subs) \<subseteq> set (sub_dirs subs') \<Longrightarrow> no_orphans subs' gs"
  unfolding no_orphans_def by (auto, blast)

lemma ack_cases:
  assumes "ack who flt i b d = (b', d', r)"
  obtains (same) "b' = b" "disk_files d' = disk_files d" "disk_seq d' = disk_seq d" "r \<noteq> Inr True"
  | (removed) s where "map_of (br_subs b) (who, flt) = Some s" "i \<in> fst ` set (sub_queued s)"
      "b' = b\<lparr>br_subs := bt_adjust (who, flt) (\<lambda>s. s\<lparr>sub_queued := takeWhile (\<lambda>e. fst e \<noteq> i) (sub_queued s)
                          @ tl (dropWhile (\<lambda>e. fst e \<noteq> i) (sub_queued s))\<rparr>) (br_subs b)\<rparr>"
      "disk_files d' = fs_del (sub_dir s, Placed i) (disk_files d)" "disk_seq d' = disk_seq d" "r = Inr True"
  using assms by (auto simp: ack_def Let_def dest!: io_take_frame split: op_splits)

lemma ack_inv:
  assumes run: "ack who flt i b d = (b', d', r)" and ok: "broker_ok cd b d"
  shows "broker_ok cd b' d'"
  using run
proof (cases rule: ack_cases)
  case same
  then show ?thesis using broker_ok_disk [OF ok] by simp
next
  case (removed s)
  have inv: "bt_wf (br_subs b)" "dirs_distinct (br_subs b)" "fs_ok (disk_files d)" "no_orphans (br_subs b) (disk_files d)"
    using ok by (simp_all add: broker_ok_def)
  let ?f = "\<lambda>s. s\<lparr>sub_queued := takeWhile (\<lambda>e. fst e \<noteq> i) (sub_queued s) @ tl (dropWhile (\<lambda>e. fst e \<noteq> i) (sub_queued s))\<rparr>"
  have sub: "sub_ok cd (br_seq b) (disk_files d') k t" if mem: "(k, t) \<in> set (br_subs b')" for k t
  proof -
    obtain t0 where t0: "(k, t0) \<in> set (br_subs b)" "t = (if k = (who, flt) then ?f t0 else t0)"
      using mem unfolding removed(3) bt_adjust_def by auto
    note old = broker_ok_sub [OF ok t0(1)]
    have get: "map_of (br_subs b) k = Some t0" using t0(1) inv(1) by (simp add: bt_get_iff)
    show ?thesis
    proof (cases "k = (who, flt)")
      case True
      then have "t0 = s" using get removed(1) by simp
      moreover have "distinct (map fst (sub_queued t0))"
        using old recovered_queue_distinct [OF inv(3)] by (simp add: sub_ok_def)
      ultimately show ?thesis using old t0(2) True
        by (auto simp: sub_ok_def removed(4) recovered_queue_del remove_first_is_filter)
    next
      case False
      then have "sub_dir t0 \<noteq> sub_dir s" using dirs_distinct_inj [OF inv(2) get removed(1) _ inv(1)] by auto
      then show ?thesis using old t0(2) False by (auto simp: sub_ok_def removed(4) recovered_queue_del)
    qed
  qed
  then have "\<forall>(k, t) \<in> set (br_subs b'). sub_ok cd (br_seq b) (disk_files d') k t" by fast
  moreover have "sub_dirs (br_subs b') = sub_dirs (br_subs b)" unfolding removed(3) by simp
  moreover have "set (disk_files d') \<subseteq> set (disk_files d)" unfolding removed(4) fs_del_def by auto
  moreover have "br_seq b' = br_seq b" "br_poisoned b' = br_poisoned b" "bt_wf (br_subs b')"
    using inv removed(3) by simp_all
  ultimately show ?thesis
    using ok fs_ok_del [OF inv(3)] removed(4,5) none_above_mono no_orphans_mono [OF inv(4)]
    unfolding broker_ok_def dirs_distinct_def by (metis order.refl)
qed

lemma receive_inv:
  assumes "receive cd who flt b d = (b', d', r)" and ok: "broker_ok cd b d"
  shows "broker_ok cd b' d'"
proof -
  let ?f = "\<lambda>s. s\<lparr>sub_qos0 := tl (sub_qos0 s)\<rparr>"
  have upd: "broker_ok cd (b\<lparr>br_subs := bt_adjust (who, flt) ?f (br_subs b)\<rparr>) d"
    by (rule broker_ok_adjust [OF ok]) (auto simp: sub_ok_def)
  have "(b' = b \<or> b' = b\<lparr>br_subs := bt_adjust (who, flt) ?f (br_subs b)\<rparr>) \<and> disk_files d' = disk_files d \<and> disk_seq d' = disk_seq d"
    using assms(1) by (auto simp: receive_def Let_def dest!: io_take_frame split: op_splits list.splits)
  then show ?thesis using broker_ok_disk [OF ok] broker_ok_disk [OF upd] by blast
qed

lemma subscribe_cases:
  assumes "subscribe cd who flt qos b d = (b', d', r)"
  obtains (same) "b' = b" "disk_files d' = disk_files d" "disk_seq d' = disk_seq d"
  | (changed) s where "map_of (br_subs b) (who, flt) = Some s" "qos \<le> 1"
      "rec_qos (sub_rec s) = qos \<or> sub_queued s = [] \<and> sub_qos0 s = []"
      "b' = b\<lparr>br_subs := bt_adjust (who, flt) (set_qos qos) (br_subs b)\<rparr>"
      "disk_files d' = disk_files d" "disk_seq d' = disk_seq d"
  | (created) "map_of (br_subs b) (who, flt) = None" "qos \<le> 1"
      "b' = b\<lparr>br_subs := bt_insert (who, flt) (new_subscription cd who flt qos) (br_subs b)\<rparr>"
      "disk_files d' = disk_files d" "disk_seq d' = disk_seq d"
proof (cases "map_of (br_subs b) (who, flt)")
  case None
  then show ?thesis using assms same created
    by (auto simp: subscribe_def Let_def dest!: io_take_frame br_save_frame split: if_splits prod.splits)
next
  case (Some s)
  then show ?thesis using assms same changed [OF Some]
    by (auto simp: subscribe_def Let_def dest!: br_save_frame split: if_splits prod.splits)
qed

lemma subscribe_inv:
  assumes run: "subscribe cd who flt qos b d = (b', d', r)" and ok: "broker_ok cd b d"
    and dirs: "dirs_distinct (br_subs b')"
  shows "broker_ok cd b' d'"
  using run
proof (cases rule: subscribe_cases)
  case same
  then show ?thesis using broker_ok_disk [OF ok] by simp
next
  case (changed s)
  have "broker_ok cd (b\<lparr>br_subs := bt_adjust (who, flt) (set_qos qos) (br_subs b)\<rparr>) d"
  proof (rule broker_ok_adjust [OF ok])
    show "sub_dir (set_qos qos t) = sub_dir t" for t :: "'a subscription" by (simp add: set_qos_def)
    fix t assume t: "sub_ok cd (br_seq b) (disk_files d) (who, flt) t" "((who, flt), t) \<in> set (br_subs b)"
    have "bt_wf (br_subs b)" using ok by (simp add: broker_ok_def)
    then have "t = s" using t(2) changed(1) bt_get_iff [of "br_subs b" "(who, flt)" t] by simp
    then show "sub_ok cd (br_seq b) (disk_files d) (who, flt) (set_qos qos t)"
      using t(1) changed(2,3) by (auto simp: sub_ok_def set_qos_def)
  qed
  then show ?thesis using broker_ok_disk changed by metis
next
  case created
  let ?s = "new_subscription cd who flt qos"
  have inv: "bt_wf (br_subs b)" "no_orphans (br_subs b) (disk_files d)" using ok by (simp_all add: broker_ok_def)
  have fresh: "k \<noteq> (who, flt)" if "(k, t) \<in> set (br_subs b)" for k t
    using that created(1) by (force simp: map_of_eq_None_iff)
  have "{e \<in> set (br_subs b). fst e \<noteq> (who, flt)} = set (br_subs b)" using fresh by fastforce
  then have subs: "set (br_subs b') = insert ((who, flt), ?s) (set (br_subs b))"
    unfolding created(3) using set_bt_insert [OF inv(1)] by simp
  have wf': "bt_wf (br_subs b')" using created(3) inv(1) by simp
  have "sub_dir ?s \<notin> set (sub_dirs (br_subs b))"
  proof
    assume "sub_dir ?s \<in> set (sub_dirs (br_subs b))"
    then obtain k t where t: "(k, t) \<in> set (br_subs b)" "sub_dir t = sub_dir ?s" by (auto simp: sub_dirs_def)
    then have "map_of (br_subs b') k = Some t" "map_of (br_subs b') (who, flt) = Some ?s"
      using subs wf' by (auto simp: bt_get_iff)
    then have "k = (who, flt)" using dirs_distinct_inj [OF dirs _ _ t(2) wf'] by blast
    then show False using fresh [OF t(1)] by simp
  qed
  then have "recovered_queue (sub_dir ?s) (br_seq b) (disk_files d) = []" by (rule placed_in_orphan_free [OF inv(2)])
  then have "sub_ok cd (br_seq b) (disk_files d) (who, flt) ?s"
    using created(2) by (simp add: sub_ok_def new_subscription_def)
  then have "\<forall>(k, t) \<in> set (br_subs b'). sub_ok cd (br_seq b) (disk_files d) k t"
    unfolding subs using broker_ok_sub [OF ok] by auto
  moreover have "no_orphans (br_subs b') (disk_files d)"
    by (rule no_orphans_mono [OF inv(2)]) (use subs in \<open>auto simp: sub_dirs_def\<close>)
  ultimately show ?thesis using ok wf' dirs created by (simp add: broker_ok_def)
qed

lemma unsubscribe_cases:
  assumes "unsubscribe who flt b d = (b', d', r)"
  obtains (same) "b' = b" "d' = d"
  | (removed) s where "map_of (br_subs b) (who, flt) = Some s"
      "b' = b\<lparr>br_subs := bt_remove (who, flt) (br_subs b)\<rparr>"
      "disk_files d' = disk_files d \<or> disk_files d' = filter (\<lambda>e. fst (fst e) \<noteq> sub_dir s) (disk_files d)"
      "disk_seq d' = disk_seq d"
proof (cases "map_of (br_subs b) (who, flt)")
  case None
  then show ?thesis using assms same by (simp add: unsubscribe_def)
next
  case (Some s)
  then show ?thesis using assms removed [OF Some]
    by (auto simp: unsubscribe_def Let_def dest!: io_take_frame br_save_frame split: if_splits prod.splits)
qed

lemma unsubscribe_inv:
  assumes run: "unsubscribe who flt b d = (b', d', r)" and ok: "broker_ok cd b d"
    and clean: "no_orphans (br_subs b') (disk_files d')"
  shows "broker_ok cd b' d'"
  using run
proof (cases rule: unsubscribe_cases)
  case same
  then show ?thesis using ok by simp
next
  case (removed s)
  have inv: "bt_wf (br_subs b)" "dirs_distinct (br_subs b)" "fs_ok (disk_files d)" using ok by (simp_all add: broker_ok_def)
  have "sub_ok cd (br_seq b) (disk_files d') k t" if mem: "(k, t) \<in> set (br_subs b')" for k t
  proof -
    have t: "(k, t) \<in> set (br_subs b)" "k \<noteq> (who, flt)" using mem unfolding removed(2) by (auto simp: bt_remove_def)
    then have "map_of (br_subs b) k = Some t" using inv(1) by (simp add: bt_get_iff)
    then have "sub_dir t \<noteq> sub_dir s" using dirs_distinct_inj [OF inv(2) _ removed(1) _ inv(1)] t(2) by blast
    then have "placed_in (sub_dir t) (disk_files d') = placed_in (sub_dir t) (disk_files d)"
      using removed(3) placed_in_other_dir by metis
    then show ?thesis using broker_ok_sub [OF ok t(1)] by (auto simp: sub_ok_def recovered_queue_def)
  qed
  then have "\<forall>(k, t) \<in> set (br_subs b'). sub_ok cd (br_seq b) (disk_files d') k t" by fast
  moreover have "dirs_distinct (br_subs b')"
    using inv(2) unfolding removed(2) dirs_distinct_def sub_dirs_def bt_remove_def by (simp add: distinct_map_filter)
  moreover have "set (disk_files d') \<subseteq> set (disk_files d)" "fs_ok (disk_files d')"
    using removed(3) fs_ok_filter [OF inv(3)] inv(3) by auto
  moreover have "br_seq b' = br_seq b" "br_poisoned b' = br_poisoned b" "bt_wf (br_subs b')" using removed(2) inv(1) by auto
  ultimately show ?thesis
    using ok clean removed(4) none_above_mono unfolding broker_ok_def by metis
qed

section \<open>The broker as a machine\<close>

text \<open>
  Every request of the daemon is one step; \<open>Outcomes\<close> lets the environment choose the results of
  the file operations that follow. The flag records that the environment was benign so far: no two
  subscriptions hash to one directory, and no removed subscription left files behind.
\<close>

datatype 'p broker_op =
    Subscribe string string nat | Unsubscribe string string
  | Publish string "(string \<times> 'p) list" "string option" nat
  | Receive string string | Ack string string nat | SetLimits limits | Outcomes "io list"

type_synonym 'p broker_state = "'p broker \<times> disk \<times> bool"

definition apply_op :: "'p codec \<Rightarrow> 'p broker_op \<Rightarrow> 'p broker \<Rightarrow> disk \<Rightarrow> 'p broker \<times> disk" where
  "apply_op cd x b d = (case x of
     Subscribe p f q \<Rightarrow> (case subscribe cd p f q b d of (b, d, _) \<Rightarrow> (b, d))
   | Unsubscribe p f \<Rightarrow> (case unsubscribe p f b d of (b, d, _) \<Rightarrow> (b, d))
   | Publish sender pubs skip now \<Rightarrow> (case publish_all cd sender pubs skip now b d of (b, d, _) \<Rightarrow> (b, d))
   | Receive p f \<Rightarrow> (case receive cd p f b d of (b, d, _) \<Rightarrow> (b, d))
   | Ack p f i \<Rightarrow> (case ack p f i b d of (b, d, _) \<Rightarrow> (b, d))
   | SetLimits l \<Rightarrow> (set_limits l b, d)
   | Outcomes rs \<Rightarrow> (b, d\<lparr>disk_io := rs\<rparr>))"

definition broker_step :: "'p codec \<Rightarrow> 'p broker_op \<Rightarrow> 'p broker_state \<Rightarrow> 'p broker_state" where
  "broker_step cd x st = (case st of (b, d, benign) \<Rightarrow>
     (case apply_op cd x b d of (b, d) \<Rightarrow>
        (b, d, benign \<and> dirs_distinct (br_subs b) \<and> no_orphans (br_subs b) (disk_files d))))"

definition broker_inv :: "'p codec \<Rightarrow> 'p broker_state \<Rightarrow> bool" where
  "broker_inv cd st = (case st of (b, d, benign) \<Rightarrow> bt_wf (br_subs b) \<and> (benign \<longrightarrow> broker_ok cd b d))"

definition state_seq :: "'p broker_state \<Rightarrow> nat" where
  "state_seq st = br_seq (fst st)"

lemma apply_op_inv:
  assumes "apply_op cd x b d = (b', d')" and "broker_ok cd b d"
    and "dirs_distinct (br_subs b')" and "no_orphans (br_subs b') (disk_files d')"
  shows "broker_ok cd b' d'"
  using assms
proof (cases x)
  case (SetLimits l)
  then show ?thesis using assms by (auto simp: apply_op_def broker_ok_def set_limits_def)
next
  case (Outcomes rs)
  then show ?thesis using assms by (auto simp: apply_op_def broker_ok_def)
qed (auto simp: apply_op_def intro: subscribe_inv unsubscribe_inv receive_inv ack_inv
       dest!: publish_all_inv split: prod.splits)

lemma apply_op_wf:
  assumes "apply_op cd x b d = (b', d')" and wf: "bt_wf (br_subs b)"
  shows "bt_wf (br_subs b') \<and> br_seq b \<le> br_seq b'"
proof (cases x)
  case (Subscribe p f q)
  obtain r where "subscribe cd p f q b d = (b', d', r)"
    using assms(1) Subscribe by (auto simp: apply_op_def split: prod.splits)
  then show ?thesis by (cases rule: subscribe_cases) (use wf in auto)
next
  case (Unsubscribe p f)
  obtain r where "unsubscribe p f b d = (b', d', r)"
    using assms(1) Unsubscribe by (auto simp: apply_op_def split: prod.splits)
  then show ?thesis by (cases rule: unsubscribe_cases) (use wf in auto)
next
  case (Publish sender pubs skip now)
  obtain r where "publish_all cd sender pubs skip now b d = (b', d', r)"
    using assms(1) Publish by (auto simp: apply_op_def split: prod.splits)
  then show ?thesis using wf
  proof (cases rule: publish_all_cases)
    case (full ks ok)
    have "bt_wf (fold (\<lambda>k. bt_adjust k count_refused) ks (br_subs b))" using wf by (simp add: bt_wf_def)
    then show ?thesis using full(1) by simp
  next
    case (failed batch e)
    then show ?thesis using wf spool_broker [OF failed(3)] by simp
  next
    case (committed batch d1)
    have "bt_wf (fold (deliver_targets lim) batch (br_subs b))" for lim using wf by (simp add: bt_wf_def)
    then show ?thesis using committed(6) batch_last(3) [OF committed(2)] by simp
  qed (use wf in auto)
next
  case (Ack p f i)
  obtain r where "ack p f i b d = (b', d', r)"
    using assms(1) Ack by (auto simp: apply_op_def split: prod.splits)
  then show ?thesis by (cases rule: ack_cases) (use wf in auto)
qed (use assms in \<open>auto simp: apply_op_def receive_def set_limits_def Let_def split: op_splits list.splits\<close>)

interpretation broker: counting_machine "broker_step cd" "broker_inv cd" state_seq
proof
  fix st :: "'a broker_state" and x
  assume inv: "broker_inv cd st"
  obtain b d benign where st: "st = (b, d, benign)" by (metis prod_cases3)
  obtain b' d' where op: "apply_op cd x b d = (b', d')" by fastforce
  have wf: "bt_wf (br_subs b)" using inv by (simp add: broker_inv_def st)
  show "broker_inv cd (broker_step cd x st)"
    using inv apply_op_wf [OF op wf] apply_op_inv [OF op] by (simp add: broker_inv_def broker_step_def st op)
  show "state_seq st \<le> state_seq (broker_step cd x st)"
    using apply_op_wf [OF op wf] by (simp add: state_seq_def broker_step_def st op)
qed

section \<open>Lemmas: reopening\<close>

lemma recovered_queue_raise:
  assumes "none_above n fs" and "n \<le> m"
  shows "recovered_queue dir m fs = recovered_queue dir n fs"
proof -
  have "i \<le> n" if "(i, l) \<in> set (placed_in dir fs)" for i l
    using that assms(1) unfolding none_above_def
    by (force simp: placed_in_def set_map_filter_iff split: qname.splits if_splits)
  then have "filter (\<lambda>(i, _). i \<le> m) (placed_in dir fs) = filter (\<lambda>(i, _). i \<le> n) (placed_in dir fs)"
    using assms(2) by (intro filter_cong) (auto, force)
  then show ?thesis by (simp add: recovered_queue_def)
qed

lemma io_take_calm: "disk_io d = [] \<Longrightarrow> io_take d = (IoOk, d)"
  by (simp add: io_take_def)

lemma remove_calm: "disk_io d = [] \<Longrightarrow> remove_if_present k d = (d\<lparr>disk_files := fs_del k (disk_files d)\<rparr>, True)"
  by (simp add: remove_if_present_def io_take_calm)

lemma sync_calm: "disk_io d = [] \<Longrightarrow> sync_dir d = (d, True)"
  by (simp add: sync_dir_def io_take_calm)

lemma remove_stale_calm:
  "disk_io d = [] \<Longrightarrow> \<forall>k \<in> set ks. n < qid (snd k) \<Longrightarrow>
     \<exists>fs. remove_stale ks d = (d\<lparr>disk_files := fs\<rparr>, True) \<and> committed n fs = committed n (disk_files d)"
proof (induction ks arbitrary: d)
  case Nil
  show ?case by (rule exI [of _ "disk_files d"]) simp
next
  case (Cons k ks)
  let ?d = "d\<lparr>disk_files := fs_del k (disk_files d)\<rparr>"
  obtain fs where fs: "remove_stale ks ?d = (?d\<lparr>disk_files := fs\<rparr>, True)" "committed n fs = committed n (disk_files ?d)"
    using Cons.IH [of ?d] Cons.prems by auto
  have "remove_stale (k # ks) d = (d\<lparr>disk_files := fs\<rparr>, True)"
    using Cons.prems(1) fs(1) by (simp add: remove_calm sync_calm)
  moreover have "committed n fs = committed n (disk_files d)"
    using fs(2) Cons.prems(2) by (simp add: committed_fs_del)
  ultimately show ?case by blast
qed

lemma drop_staged_calm:
  assumes "disk_io d = []"
  shows "\<exists>fs. drop_staged dir d = d\<lparr>disk_files := fs\<rparr> \<and> committed n fs = committed n (disk_files d)"
proof -
  have "\<exists>fs. fold (\<lambda>k d. fst (remove_if_present k d)) ks d = d\<lparr>disk_files := fs\<rparr> \<and> committed n fs = committed n (disk_files d)"
    if "disk_io d = []" "\<forall>k \<in> set ks. \<exists>i. snd k = Staged i" for ks d
    using that
  proof (induction ks arbitrary: d)
    case Nil
    show ?case by (rule exI [of _ "disk_files d"]) simp
  next
    case (Cons k ks)
    let ?d = "d\<lparr>disk_files := fs_del k (disk_files d)\<rparr>"
    have "committed n (fs_del k (disk_files d)) = committed n (disk_files d)"
      using Cons.prems(2) by (cases k) auto
    then show ?case using Cons.IH [of ?d] Cons.prems by (auto simp: remove_calm)
  qed
  moreover have "\<forall>k \<in> set (staged_files dir (disk_files d)). \<exists>i. snd k = Staged i"
    by (auto simp: staged_files_def split: qname.splits)
  ultimately show ?thesis using assms unfolding drop_staged_def by blast
qed

abbreviation rec_key :: "sub_record \<Rightarrow> sub_key" where
  "rec_key r \<equiv> (rec_principal r, rec_filter r)"

definition reopened :: "'p codec \<Rightarrow> nat \<Rightarrow> files \<Rightarrow> sub_record \<Rightarrow> 'p subscription" where
  "reopened cd n fs r =
     \<lparr>sub_rec = r, sub_dir = queue_dir cd (rec_principal r) (rec_filter r), sub_qos0 = [],
      sub_queued = recovered_queue (queue_dir cd (rec_principal r) (rec_filter r)) n fs\<rparr>"

lemma reopened_cong: "committed n fs = committed n gs \<Longrightarrow> reopened cd n fs = reopened cd n gs"
  by (rule ext) (simp add: reopened_def recovered_queue_cong [of n fs gs])

lemma open_records_calm:
  "disk_io d = [] \<Longrightarrow> \<exists>fs. open_records cd n rs subs d =
     (d\<lparr>disk_files := fs\<rparr>, Inr (fold (\<lambda>r. bt_insert (rec_key r) (reopened cd n (disk_files d) r)) rs subs))
     \<and> committed n fs = committed n (disk_files d)"
proof (induction rs arbitrary: subs d)
  case Nil
  show ?case by (rule exI [of _ "disk_files d"]) simp
next
  case (Cons r rs)
  let ?dir = "queue_dir cd (rec_principal r) (rec_filter r)"
  obtain f1 where f1: "drop_staged ?dir d = d\<lparr>disk_files := f1\<rparr>" "committed n f1 = committed n (disk_files d)"
    using drop_staged_calm [OF Cons.prems] by blast
  have stale: "\<forall>k \<in> set (stale_files ?dir n (disk_files d)). n < qid (snd k)"
    by (auto simp: stale_files_def split: qname.splits)
  obtain f2 where f2: "remove_stale (stale_files ?dir n (disk_files d)) (d\<lparr>disk_files := f1\<rparr>) = (d\<lparr>disk_files := f2\<rparr>, True)"
      "committed n f2 = committed n (disk_files d)"
    using remove_stale_calm [OF _ stale, of "d\<lparr>disk_files := f1\<rparr>"] Cons.prems f1(2) by auto
  obtain f3 where f3: "open_records cd n rs (bt_insert (rec_key r) (reopened cd n (disk_files d) r) subs) (d\<lparr>disk_files := f2\<rparr>) =
      (d\<lparr>disk_files := f3\<rparr>, Inr (fold (\<lambda>r. bt_insert (rec_key r) (reopened cd n f2 r)) rs
         (bt_insert (rec_key r) (reopened cd n (disk_files d) r) subs)))" "committed n f3 = committed n f2"
    using Cons.IH [of "d\<lparr>disk_files := f2\<rparr>"] Cons.prems by fastforce
  have "open_records cd n (r # rs) subs d =
      (d\<lparr>disk_files := f3\<rparr>, Inr (fold (\<lambda>r. bt_insert (rec_key r) (reopened cd n (disk_files d) r)) (r # rs) subs))"
    using f1 f2 f3(1) [unfolded reopened_cong [OF f2(2)]] Cons.prems
    by (simp add: Let_def io_take_calm reopened_def [of cd n "disk_files d" r])
  then show ?case using f2(2) f3(2) by auto
qed

end
