(* ===== verification/StreamFrame.thy ===== *)
theory StreamFrame
  imports Prelude
begin

text \<open>
  The on-disk format of file streams (\<open>suifleet-edge/src/streams.rs\<close>): the CRC, the framed
  record \<open>append_record\<close> writes and the scanning loop of \<open>Stream::load\<close>. A record is
  \<open>len u32, sequence u64, appended_ms u64, crc32 u32\<close>, little endian, then the data. Shown are the
  round trip of scanning what was written with any torn record at the end, and that the CRC detects
  every change confined to one byte.
\<close>

unbundle bit_operations_syntax

section \<open>Definitions\<close>

definition HEADER :: nat where "HEADER = 24"
definition MAX_MESSAGE_BYTES :: nat where "MAX_MESSAGE_BYTES = 1048576"
definition MESSAGE_OVERHEAD :: nat where "MESSAGE_OVERHEAD = 64"

definition crc_step :: "32 word \<Rightarrow> 32 word" where
  "crc_step crc = drop_bit 1 crc XOR (0xEDB88320 AND (NOT (crc AND 1) + 1))"

definition crc_byte :: "char \<Rightarrow> 32 word \<Rightarrow> 32 word" where
  "crc_byte c crc = (crc_step ^^ 8) (crc XOR of_nat (byte c))"

definition crc32 :: "string list \<Rightarrow> 32 word" where
  "crc32 parts = NOT (fold (fold crc_byte) parts (NOT 0))"

text \<open>\<open>to_le_bytes\<close> and \<open>from_le_bytes\<close> of an \<open>n\<close>-byte unsigned integer.\<close>

fun le_bytes :: "nat \<Rightarrow> nat \<Rightarrow> string" where
  "le_bytes 0 x = []"
| "le_bytes (Suc n) x = char_of (x mod 256) # le_bytes n (x div 256)"

fun le_nat :: "string \<Rightarrow> nat" where
  "le_nat [] = 0"
| "le_nat (c # cs) = byte c + 256 * le_nat cs"

definition record_crc :: "nat \<Rightarrow> nat \<Rightarrow> string \<Rightarrow> nat" where
  "record_crc sequence appended_ms data = unat (crc32 [le_bytes 8 sequence, le_bytes 8 appended_ms, data])"

definition encode_record :: "nat \<Rightarrow> nat \<Rightarrow> string \<Rightarrow> string" where
  "encode_record sequence appended_ms data =
     le_bytes 4 (length data) @ le_bytes 8 sequence @ le_bytes 8 appended_ms
     @ le_bytes 4 (record_crc sequence appended_ms data) @ data"

datatype location = InMemory string | OnDisk nat nat

record entry =
  en_sequence :: nat
  en_appended_ms :: nat
  en_len :: nat
  en_at :: location

definition cost :: "nat \<Rightarrow> nat" where
  "cost len = len + MESSAGE_OVERHEAD"

definition entry_cost :: "entry \<Rightarrow> nat" where
  "entry_cost e = cost (en_len e)"

text \<open>One turn of the loop of \<open>load\<close>: the record at the front of the remaining bytes.\<close>

definition parse_record :: "nat option \<Rightarrow> string \<Rightarrow> (nat \<times> nat \<times> string) option" where
  "parse_record last_sequence bs =
     (if length bs < HEADER then None
      else let len = le_nat (take 4 bs);
               sequence = le_nat (take 8 (drop 4 bs));
               appended_ms = le_nat (take 8 (drop 12 bs));
               crc = le_nat (take 4 (drop 20 bs));
               data = take len (drop HEADER bs) in
        if MAX_MESSAGE_BYTES < len \<or> length bs < HEADER + len
           \<or> (case last_sequence of None \<Rightarrow> False | Some l \<Rightarrow> sequence \<le> l)
           \<or> record_crc sequence appended_ms data \<noteq> crc
        then None else Some (sequence, appended_ms, data))"

lemma parse_record_Some:
  assumes "parse_record l bs = Some (q, ms, data)"
  shows "HEADER + length data \<le> length bs" "length data \<le> MAX_MESSAGE_BYTES"
  using assms by (auto simp: parse_record_def Let_def split: if_splits)

function scan_segment :: "nat \<Rightarrow> nat \<Rightarrow> nat \<Rightarrow> nat option \<Rightarrow> string \<Rightarrow> nat \<times> nat option \<times> entry list" where
  "scan_segment first oldest at last_sequence bs =
     (case parse_record last_sequence bs of
        None \<Rightarrow> (at, last_sequence, [])
      | Some (sequence, appended_ms, data) \<Rightarrow>
          (case scan_segment first oldest (at + HEADER + length data) (Some sequence)
                  (drop (HEADER + length data) bs) of
             (at', last', es) \<Rightarrow>
               (at', last',
                if oldest \<le> sequence
                then \<lparr>en_sequence = sequence, en_appended_ms = appended_ms, en_len = length data,
                      en_at = OnDisk first at\<rparr> # es
                else es)))"
  by pat_completeness auto

termination
proof (relation "measure (\<lambda>(_, _, _, _, bs). length bs)", goal_cases)
  case (2 first oldest at l bs p q r ms data)
  then show ?case using parse_record_Some(1) [of l bs q ms data] by (simp add: HEADER_def)
qed simp

declare scan_segment.simps [simp del]

section \<open>Little-endian fields\<close>

lemma length_le_bytes [simp]: "length (le_bytes n x) = n"
  by (induction n x rule: le_bytes.induct) auto

lemma le_nat_le_bytes: "x < 256 ^ n \<Longrightarrow> le_nat (le_bytes n x) = x"
  by (induction n x rule: le_bytes.induct) (auto simp: byte_def less_mult_imp_div_less mult.commute)

lemma le_nat_bound: "le_nat cs < 256 ^ length cs"
proof (induction cs)
  case (Cons c cs)
  have "byte c < 256" by (simp add: byte_def)
  with Cons show ?case by simp
qed simp

lemma le_bytes_le_nat: "le_bytes (length cs) (le_nat cs) = cs"
  by (induction cs) (auto simp: byte_def)

section \<open>The checksum\<close>

lemma crc_step_alt: "crc_step x = drop_bit 1 x XOR (if odd x then 0xEDB88320 else 0)"
proof -
  have "x AND 1 = (if odd x then 1 else 0)" by (simp add: and_one_eq odd_iff_mod_2_eq_one mod2_eq_if)
  then show ?thesis by (simp add: crc_step_def)
qed

lemma crc_step_top: "bit (crc_step x) 31 = odd x"
proof -
  have "\<not> bit x 32" using bit_imp_le_length [of x 32] by auto
  then show ?thesis by (simp add: crc_step_alt bit_xor_iff bit_drop_bit_eq)
qed

text \<open>The polynomial has its top bit set, so a step can be undone and loses nothing.\<close>

lemma xor_cancel32: "a XOR c = b XOR c \<Longrightarrow> a = (b :: 32 word)"
  by (metis xor.assoc xor_self_eq xor.right_neutral)

lemma crc_step_inj: "inj crc_step"
proof (rule injI)
  fix x y assume eq: "crc_step x = crc_step y"
  then have parity: "odd x = odd y" using crc_step_top by metis
  with eq have "drop_bit 1 x XOR (if odd x then 0xEDB88320 else 0) = drop_bit 1 y XOR (if odd x then 0xEDB88320 else 0)"
    by (simp only: crc_step_alt)
  then have drops: "drop_bit 1 x = drop_bit 1 y" by (rule xor_cancel32)
  show "x = y"
  proof (rule bit_word_eqI)
    fix n
    have "bit (drop_bit 1 x) m = bit (drop_bit 1 y) m" for m using drops by simp
    then show "bit x n = bit y n" using parity by (cases n) (auto simp: bit_0 bit_drop_bit_eq)
  qed
qed

lemma crc_step_pow_inj: "inj (crc_step ^^ n)"
  by (rule inj_fn) (rule crc_step_inj)

lemma crc_byte_inj: "crc_byte c x = crc_byte c y \<longleftrightarrow> x = y"
  unfolding crc_byte_def using injD [OF crc_step_pow_inj] xor_cancel32 by blast

lemma crc_byte_inj_byte: "crc_byte c x = crc_byte d x \<longleftrightarrow> c = d"
proof
  assume "crc_byte c x = crc_byte d x"
  then have "x XOR of_nat (byte c) = x XOR of_nat (byte d)"
    unfolding crc_byte_def by (rule injD [OF crc_step_pow_inj])
  then have "(of_nat (byte c) :: 32 word) = of_nat (byte d)" by (metis xor.commute xor_cancel32)
  then have "unat (of_nat (byte c) :: 32 word) = unat (of_nat (byte d) :: 32 word)" by simp
  moreover have "byte c < 256" "byte d < 256" by (auto simp: byte_def)
  ultimately have "byte c = byte d" by (simp add: unsigned_of_nat take_bit_nat_eq_self)
  then show "c = d" by (simp add: byte_def)
qed simp

lemma crc_fold_inj: "fold crc_byte cs x = fold crc_byte cs y \<longleftrightarrow> x = y"
  by (induction cs arbitrary: x y) (auto simp: crc_byte_inj)

lemma fold_fold_concat: "fold (fold f) xss s = fold f (concat xss) s"
  by (induction xss arbitrary: s) auto

lemma crc32_concat: "crc32 parts = NOT (fold crc_byte (concat parts) (NOT 0))"
  by (simp add: crc32_def fold_fold_concat)

text \<open>Changing one byte of the covered data changes the checksum.\<close>

lemma crc32_update:
  assumes "i < length xs" and "c \<noteq> xs ! i" and "concat parts = xs" and "concat parts' = xs[i := c]"
  shows "crc32 parts \<noteq> crc32 parts'"
proof -
  have xs: "xs = take i xs @ xs ! i # drop (Suc i) xs" using assms(1) by (simp add: id_take_nth_drop)
  have xs': "xs[i := c] = take i xs @ c # drop (Suc i) xs" using assms(1) by (simp add: upd_conv_take_nth_drop)
  show ?thesis
    unfolding crc32_concat assms(3,4) using assms(2)
    by (subst xs, subst xs') (simp add: crc_fold_inj crc_byte_inj_byte)
qed

section \<open>Scanning what was written\<close>

type_synonym frame = "nat \<times> nat \<times> string"

abbreviation frame_seq :: "frame \<Rightarrow> nat" where "frame_seq \<equiv> fst"

definition enc :: "frame \<Rightarrow> string" where
  "enc r = (case r of (q, ms, data) \<Rightarrow> encode_record q ms data)"

definition frame_ok :: "frame \<Rightarrow> bool" where
  "frame_ok r = (case r of (q, ms, data) \<Rightarrow> q < 256 ^ 8 \<and> ms < 256 ^ 8 \<and> length data \<le> MAX_MESSAGE_BYTES)"

definition above :: "nat option \<Rightarrow> nat \<Rightarrow> bool" where
  "above l q = (case l of None \<Rightarrow> True | Some x \<Rightarrow> x < q)"

fun entries_at :: "nat \<Rightarrow> nat \<Rightarrow> frame list \<Rightarrow> entry list" where
  "entries_at first at [] = []"
| "entries_at first at ((q, ms, data) # rs) =
     \<lparr>en_sequence = q, en_appended_ms = ms, en_len = length data, en_at = OnDisk first at\<rparr>
     # entries_at first (at + HEADER + length data) rs"

definition last_of :: "nat option \<Rightarrow> frame list \<Rightarrow> nat option" where
  "last_of l rs = (if rs = [] then l else Some (frame_seq (last rs)))"

lemma length_enc: "length (enc r) = HEADER + length (snd (snd r))"
  by (cases r) (simp add: enc_def encode_record_def HEADER_def)

lemma record_crc_bound: "record_crc q ms data < 256 ^ 4"
  unfolding record_crc_def using unsigned_less [of "crc32 [le_bytes 8 q, le_bytes 8 ms, data]", where ?'a = nat] by simp

lemma parse_record_enc:
  assumes "frame_ok r" and "above l (frame_seq r)"
  shows "parse_record l (enc r @ rest) = Some r"
proof (cases r)
  case (fields q ms data)
  have b: "length data < 256 ^ 4" using assms(1) fields by (simp add: frame_ok_def MAX_MESSAGE_BYTES_def)
  show ?thesis
    using assms b fields record_crc_bound [of q ms data]
    by (auto simp: parse_record_def enc_def encode_record_def frame_ok_def above_def HEADER_def Let_def
        le_nat_le_bytes split: option.splits)
qed

text \<open>No proper prefix of a record is taken for one.\<close>

lemma parse_record_torn:
  assumes "frame_ok r" and "n < length (enc r)"
  shows "parse_record l (take n (enc r)) = None"
proof (cases r)
  case (fields q ms data)
  have b: "length data < 256 ^ 4" using assms(1) fields by (simp add: frame_ok_def MAX_MESSAGE_BYTES_def)
  show ?thesis
  proof (cases "n < HEADER")
    case False
    then have "le_nat (take 4 (take n (enc r))) = length data"
      using fields b by (simp add: enc_def encode_record_def HEADER_def le_nat_le_bytes min_def)
    then show ?thesis using assms(2) fields by (auto simp: parse_record_def Let_def length_enc)
  qed (simp add: parse_record_def min_less_iff_disj)
qed

lemma scan_segment_frames:
  assumes "\<forall>r \<in> set rs. frame_ok r" and "sorted_wrt (<) (map frame_seq rs)"
    and "\<forall>r \<in> set rs. above l (frame_seq r)" and "parse_record (last_of l rs) rest = None"
  shows "scan_segment first oldest at l (concat (map enc rs) @ rest) =
    (at + length (concat (map enc rs)), last_of l rs, filter (\<lambda>e. oldest \<le> en_sequence e) (entries_at first at rs))"
  using assms
proof (induction rs arbitrary: l at)
  case Nil
  then show ?case by (subst scan_segment.simps) (simp add: last_of_def)
next
  case (Cons r rs)
  obtain q ms data where r: "r = (q, ms, data)" by (metis prod_cases3)
  have p: "parse_record l (enc r @ concat (map enc rs) @ rest) = Some (q, ms, data)"
    using parse_record_enc Cons.prems(1,3) r by simp
  have len: "length (enc r) = HEADER + length data" by (simp add: length_enc r)
  have last: "last_of l (r # rs) = last_of (Some q) rs" by (auto simp: last_of_def r)
  have "scan_segment first oldest (at + HEADER + length data) (Some q) (concat (map enc rs) @ rest) =
    (at + HEADER + length data + length (concat (map enc rs)), last_of (Some q) rs,
     filter (\<lambda>e. oldest \<le> en_sequence e) (entries_at first (at + HEADER + length data) rs))"
    by (rule Cons.IH) (use Cons.prems last r in \<open>auto simp: above_def\<close>)
  then show ?case
    by (subst scan_segment.simps) (simp add: p len last, simp add: r)
qed

section \<open>Corruption\<close>

text \<open>The checksum a record is compared with covers its bytes 4 to 20 and the data.\<close>

lemma parse_record_bad_crc:
  assumes "length L = 4" and "length X = 16" and "length K = 4" and "le_nat L = length D"
    and "le_nat K \<noteq> unat (crc32 [X, D])"
  shows "parse_record l (L @ X @ K @ D @ rest) = None"
proof -
  have X: "take 8 X @ drop 8 X @ D = X @ D" by simp
  have "le_bytes 8 (le_nat (take 8 X)) = take 8 X" "le_bytes 8 (le_nat (drop 8 X)) = drop 8 X"
    using le_bytes_le_nat [of "take 8 X"] le_bytes_le_nat [of "drop 8 X"] assms(2) by auto
  then have "record_crc (le_nat (take 8 X)) (le_nat (drop 8 X)) D = unat (crc32 [X, D])"
    unfolding record_crc_def crc32_concat by (simp only: concat.simps append_Nil2 X)
  then show ?thesis
    using assms by (auto simp: parse_record_def Let_def HEADER_def)
qed

lemma le_nat_inj: "length xs = length ys \<Longrightarrow> le_nat xs = le_nat ys \<longleftrightarrow> xs = ys"
  by (metis le_bytes_le_nat)

lemma unat_crc32_update:
  assumes "i < length (X @ D)" and "c \<noteq> (X @ D) ! i" and "X' @ D' = (X @ D)[i := c]"
  shows "unat (crc32 [X, D]) \<noteq> unat (crc32 [X', D'])"
  using crc32_update [OF assms(1,2), of "[X, D]" "[X', D']"] assms(3) by (auto simp: word_unat_eq_iff)

text \<open>
  C38: A record on disk in which one byte other than the length field has changed (in the header's
  sequence, time or checksum, or in the data) is not accepted by the scan, whatever follows it.
\<close>

theorem changed_byte_detected:
  assumes ok: "frame_ok r" and i: "4 \<le> i" "i < length (enc r)" and c: "c \<noteq> enc r ! i"
  shows "parse_record l ((enc r)[i := c] @ rest) = None"
proof -
  obtain q ms D where r: "r = (q, ms, D)" by (metis prod_cases3)
  define L X K where parts: "L = le_bytes 4 (length D)" "X = le_bytes 8 q @ le_bytes 8 ms" "K = le_bytes 4 (record_crc q ms D)"
  have e: "enc r = L @ X @ K @ D" by (simp add: r enc_def encode_record_def parts)
  have len: "length L = 4" "length X = 16" "length K = 4" by (auto simp: parts)
  have L: "le_nat L = length D"
    using ok r by (simp add: parts frame_ok_def MAX_MESSAGE_BYTES_def le_nat_le_bytes)
  have "record_crc q ms D = unat (crc32 [X, D])" by (simp add: record_crc_def parts crc32_concat)
  then have K: "le_nat K = unat (crc32 [X, D])" using record_crc_bound [of q ms D] by (metis parts(3) le_nat_le_bytes)
  consider "i < 20" | "20 \<le> i" "i < 24" | "24 \<le> i" by linarith
  then show ?thesis
  proof cases
    case 1
    have "le_nat K \<noteq> unat (crc32 [X[i - 4 := c], D])" unfolding K
      by (rule unat_crc32_update [of "i - 4"]) (use 1 i c e len in \<open>auto simp: nth_append list_update_append\<close>)
    moreover have "(enc r)[i := c] @ rest = L @ X[i - 4 := c] @ K @ D @ rest"
      using 1 i len by (auto simp: e list_update_append)
    ultimately show ?thesis using parse_record_bad_crc [of L _ K D] L len by simp
  next
    case 2
    have "\<not> i < 4" "\<not> i - 4 < 16" "i - 4 - 16 < 4" "i - 4 - 16 = i - 20" using 2 by linarith+
    then have "enc r ! i = K ! (i - 20)" by (simp add: e len nth_append)
    then have "K ! (i - 20) \<noteq> c" using c by simp
    then have "K[i - 20 := c] \<noteq> K" using 2 len by (auto simp: list_update_same_conv)
    then have "le_nat (K[i - 20 := c]) \<noteq> unat (crc32 [X, D])" using le_nat_inj [of "K[i - 20 := c]" K] K by simp
    moreover have "(enc r)[i := c] @ rest = L @ X @ K[i - 20 := c] @ D @ rest"
      using 2 i len by (auto simp: e list_update_append)
    ultimately show ?thesis using parse_record_bad_crc [of L X _ D] L len by simp
  next
    case 3
    have "\<not> i < 4" "\<not> i - 4 < 16" "\<not> i - 4 - 16 < 4" "i - 4 - 16 - 4 = i - 24" using 3 by linarith+
    then have "enc r ! i = D ! (i - 24)" by (simp add: e len nth_append)
    then have "c \<noteq> (X @ D) ! (i - 8)" using c 3 len by (auto simp: nth_append)
    moreover have "X @ D[i - 24 := c] = (X @ D)[i - 8 := c]" using 3 len by (auto simp: list_update_append)
    ultimately have "le_nat K \<noteq> unat (crc32 [X, D[i - 24 := c]])" unfolding K
      by (intro unat_crc32_update [of "i - 8"]) (use 3 i e len in auto)
    moreover have "(enc r)[i := c] @ rest = L @ X @ K @ D[i - 24 := c] @ rest"
      using 3 i len by (auto simp: e list_update_append)
    ultimately show ?thesis using parse_record_bad_crc [of L X K] L len by simp
  qed
qed

theorem changed_byte_detected_witness:
  "parse_record (Some 6) ((enc (7, 9, ''ab''))[24 := CHR ''x''] @ ''tail'') = None"
  by (rule changed_byte_detected)
    (simp_all add: frame_ok_def MAX_MESSAGE_BYTES_def enc_def encode_record_def nth_append)

text \<open>
  C37: Scanning the records that were written one after another, with any torn part of a further record
  behind them, finds exactly those records at their offsets and stops where the torn record begins.
\<close>

theorem scan_written_roundtrip:
  assumes "\<forall>r \<in> set rs. frame_ok r" and "sorted_wrt (<) (map frame_seq rs)"
    and "frame_ok r" and "n < length (enc r)"
  shows "scan_segment first oldest 0 None (concat (map enc rs) @ take n (enc r)) =
    (length (concat (map enc rs)), last_of None rs, filter (\<lambda>e. oldest \<le> en_sequence e) (entries_at first 0 rs))"
  using scan_segment_frames [of rs None "take n (enc r)" first oldest 0] parse_record_torn [OF assms(3,4)] assms(1,2)
  by (simp add: above_def)

theorem scan_written_roundtrip_witness:
  "scan_segment 3 4 0 None (concat (map enc [(3, 1, ''a''), (4, 2, ''bc'')]) @ take 25 (enc (5, 3, ''d!''))) =
    (51, Some 4, [\<lparr>en_sequence = 4, en_appended_ms = 2, en_len = 2, en_at = OnDisk 3 25\<rparr>])"
  using scan_written_roundtrip [of "[(3, 1, ''a''), (4, 2, ''bc'')]" "(5, 3, ''d!'')" 25 3 4]
  by (simp add: frame_ok_def MAX_MESSAGE_BYTES_def length_enc HEADER_def last_of_def)

end
