(* ===== verification/Json.thy ===== *)
theory Json
  imports Complex_Main Prelude
begin

text \<open>
  \<open>serde_json::Value\<close>. An object is \<open>serde_json::Map\<close>, a \<open>BTreeMap\<close> without the
  \<open>preserve_order\<close> feature: a strictly sorted association list. A number is \<open>u64\<close>, a negative
  \<open>i64\<close> or a finite \<open>f64\<close>, the latter given by its exact value.
\<close>

datatype number = PosInt nat | NegInt int | Float rat

datatype json = JNull | JBool bool | JNum number | JStr string | JArr "json list" | JObj "(string \<times> json) list"

type_synonym jmap = "(string, json) btree"

text \<open>Every object inside is sorted: what the parser and the map operations guarantee.\<close>

fun json_wf :: "json \<Rightarrow> bool" where
  "json_wf (JObj m) \<longleftrightarrow> bt_wf m \<and> (\<forall>e \<in> set m. json_wf (snd e))"
| "json_wf (JArr xs) \<longleftrightarrow> (\<forall>x \<in> set xs. json_wf x)"
| "json_wf _ \<longleftrightarrow> True"

definition is_object :: "json \<Rightarrow> bool" where
  "is_object v = (case v of JObj _ \<Rightarrow> True | _ \<Rightarrow> False)"

definition as_object :: "json \<Rightarrow> jmap option" where
  "as_object v = (case v of JObj m \<Rightarrow> Some m | _ \<Rightarrow> None)"

lemma is_object_cases: "(\<exists>m. v = JObj m) \<or> \<not> is_object v"
  by (cases v) (auto simp: is_object_def)

abbreviation jmap_wf :: "jmap \<Rightarrow> bool" where
  "jmap_wf m \<equiv> json_wf (JObj m)"

lemma jmap_wf_get: "jmap_wf m \<Longrightarrow> map_of m k = Some v \<Longrightarrow> json_wf v"
  by (fastforce dest: map_of_SomeD)

lemma jmap_wf_insert [intro]: "jmap_wf m \<Longrightarrow> json_wf v \<Longrightarrow> jmap_wf (bt_insert k v m)"
  by (auto simp: set_bt_insert)

lemma jmap_wf_remove [intro]: "jmap_wf m \<Longrightarrow> jmap_wf (bt_remove k m)"
  by (auto simp: bt_remove_def bt_wf_filter)

lemma jmap_wf_Nil [simp]: "jmap_wf []"
  by simp

lemma jmap_wf_Cons: "jmap_wf ((k, v) # m) \<longleftrightarrow> jmap_wf m \<and> json_wf v \<and> (\<forall>k' \<in> fst ` set m. k < k')"
  by (auto simp: bt_wf_Cons)

text \<open>Values and nesting of a document; the document itself counts as one value at depth one.\<close>

fun json_values :: "json \<Rightarrow> nat" where
  "json_values (JObj m) = Suc (sum_list (map (\<lambda>e. json_values (snd e)) m))"
| "json_values (JArr xs) = Suc (sum_list (map json_values xs))"
| "json_values _ = 1"

fun json_depth :: "json \<Rightarrow> nat" where
  "json_depth (JObj m) = Suc (fold max (map (\<lambda>e. json_depth (snd e)) m) 0)"
| "json_depth (JArr xs) = Suc (fold max (map json_depth xs) 0)"
| "json_depth _ = 1"

lemma fold_max_le: "fold max xs a \<le> (n::nat) \<longleftrightarrow> a \<le> n \<and> (\<forall>x \<in> set xs. x \<le> n)"
  by (induction xs arbitrary: a) auto

lemma json_values_pos [simp]: "0 < json_values v"
  by (cases v) auto

lemma json_depth_pos [simp]: "0 < json_depth v"
  by (cases v) auto

text \<open>What the \<open>json!\<close> macro builds.\<close>

abbreviation jnat :: "nat \<Rightarrow> json" where
  "jnat n \<equiv> JNum (PosInt n)"

abbreviation jobj :: "(string \<times> json) list \<Rightarrow> json" where
  "jobj es \<equiv> JObj (bt_of es)"

abbreviation opt_json :: "json option \<Rightarrow> json" where
  "opt_json v \<equiv> (case v of None \<Rightarrow> JNull | Some x \<Rightarrow> x)"

definition value_u64 :: "json \<Rightarrow> nat option" where
  "value_u64 v = (case v of JNum (PosInt n) \<Rightarrow> Some n | _ \<Rightarrow> None)"

end
