(* ===== verification/Streams.thy ===== *)
theory Streams
  imports StreamFrame Topics Json
begin

text \<open>
  Durable local streams (\<open>suifleet-edge/src/streams.rs\<close>, \<open>Stream\<close>): definitions and their
  validation, retention, segment files, appending, reading and the export checkpoint of one stream,
  and loading it from its directory. The state is the stream in memory and its directory; every file
  operation takes its outcome from a list the environment chooses. Sequence numbers and times are
  natural numbers (\<open>u64\<close> in the code; \<open>as i64\<close> keeps them below \<open>2^63\<close>).
\<close>

section \<open>Definitions of streams\<close>

definition MIN_STREAM_BYTES :: nat where "MIN_STREAM_BYTES = 1024"
definition MAX_STREAM_BYTES :: nat where "MAX_STREAM_BYTES = 1073741824"
definition MAX_READ :: nat where "MAX_READ = 1000"
definition RESERVE :: nat where "RESERVE = 1024"

datatype stream_error =
    SInvalid | SNotFound | SExists | SQuota | SRetired | SFull | SEvicted nat | SNotEnough nat
  | SDeclared | SUnavailable | SIo | SSpins | SConflict | SUnknown

datatype strategy = RejectNewData | OverwriteOldestData
datatype persistence = PFile | PMemory

record export_config =
  ex_url :: string
  ex_bearer_token_file :: "string option"
  ex_batch_max_messages :: nat
  ex_batch_max_bytes :: nat
  ex_batch_interval_seconds :: nat
  ex_max_backoff_seconds :: nat

record stream_def =
  sd_name :: string
  sd_max_size :: nat
  sd_strategy_on_full :: strategy
  sd_persistence :: persistence
  sd_time_to_live_seconds :: "nat option"
  sd_discard_exported :: bool
  sd_external_export :: bool
  sd_walrus_export :: bool
  sd_export :: "export_config option"

text \<open>The libraries the code calls: URL parsing, SHA-256, JSON text and JSON to \<open>Definition\<close>.\<close>

record url =
  url_scheme :: string
  url_has_host :: bool
  url_username :: string
  url_password :: "string option"
  url_without_query :: string

record stream_env =
  parse_url :: "string \<Rightarrow> url option"
  sha256 :: "string \<Rightarrow> string"
  json_to_vec :: "json \<Rightarrow> string"
  json_from_slice :: "string \<Rightarrow> json option"
  definition_from_value :: "json \<Rightarrow> stream_def option"
  base64_encode :: "string \<Rightarrow> string"

definition validate_export :: "stream_env \<Rightarrow> export_config \<Rightarrow> (stream_error, unit) result" where
  "validate_export env c =
     (case parse_url env (ex_url c) of None \<Rightarrow> Inl SInvalid
      | Some u \<Rightarrow>
          ensure (url_scheme u \<in> {''http'', ''https''} \<and> url_has_host u) SInvalid
           (ensure (url_username u = [] \<and> url_password u = None) SInvalid
            (ensure (1 \<le> ex_batch_max_messages c \<and> ex_batch_max_messages c \<le> 1000) SInvalid
             (ensure (1024 \<le> ex_batch_max_bytes c \<and> ex_batch_max_bytes c \<le> 16777216) SInvalid
              (ensure (1 \<le> ex_batch_interval_seconds c \<and> ex_batch_interval_seconds c \<le> 3600) SInvalid
               (ensure (1 \<le> ex_max_backoff_seconds c \<and> ex_max_backoff_seconds c \<le> 3600) SInvalid
                (Inr ())))))))"

definition valid_stream_name :: "string \<Rightarrow> bool" where
  "valid_stream_name name \<longleftrightarrow> 1 \<le> length name \<and> length name \<le> 255 \<and>
     list_all (\<lambda>b. is_ascii_alphanumeric b \<or> b \<in> set '' ,._-'') name"

definition validate_stream :: "stream_env \<Rightarrow> stream_def \<Rightarrow> (stream_error, unit) result" where
  "validate_stream env def =
     (if \<not> valid_stream_name (sd_name def) then Inl SInvalid
      else if \<not> (MIN_STREAM_BYTES \<le> sd_max_size def \<and> sd_max_size def \<le> MAX_STREAM_BYTES) then Inl SInvalid
      else if (case sd_time_to_live_seconds def of None \<Rightarrow> False | Some t \<Rightarrow> \<not> (1 \<le> t \<and> t \<le> 31536000)) then Inl SInvalid
      else if sd_walrus_export def \<and> (sd_external_export def \<or> sd_export def \<noteq> None \<or> sd_persistence def \<noteq> PFile
              \<or> sd_time_to_live_seconds def \<noteq> None \<or> sd_strategy_on_full def \<noteq> RejectNewData) then Inl SInvalid
      else if sd_external_export def \<and> (sd_export def \<noteq> None \<or> sd_persistence def \<noteq> PFile
              \<or> sd_time_to_live_seconds def \<noteq> None \<or> sd_strategy_on_full def \<noteq> RejectNewData) then Inl SInvalid
      else if sd_discard_exported def \<and> sd_export def = None \<and> \<not> sd_external_export def \<and> \<not> sd_walrus_export def then Inl SInvalid
      else case sd_export def of None \<Rightarrow> Inr () | Some e \<Rightarrow> validate_export env e)"

text \<open>\<open>str::split_once\<close> and \<open>str::is_char_boundary\<close>.\<close>

definition split_once :: "char \<Rightarrow> string \<Rightarrow> (string \<times> string) option" where
  "split_once c s = (if c \<in> set s then Some (takeWhile (\<lambda>x. x \<noteq> c) s, tl (dropWhile (\<lambda>x. x \<noteq> c) s)) else None)"

definition is_char_boundary :: "string \<Rightarrow> nat \<Rightarrow> bool" where
  "is_char_boundary s i \<longleftrightarrow> i = 0 \<or> i = length s \<or> i < length s \<and> \<not> is_continuation (s ! i)"

lemma list_ex_cong [fundef_cong]:
  "xs = ys \<Longrightarrow> (\<And>x. x \<in> set ys \<Longrightarrow> f x = g x) \<Longrightarrow> list_ex f xs = list_ex g ys"
  by (auto simp: list_ex_iff)

lemma split_once_shorter: "split_once c s = Some (h, r) \<Longrightarrow> length r < length s"
  by (induction s arbitrary: h) (auto simp: split_once_def less_Suc_eq_le split: if_splits)

function stream_glob :: "string \<Rightarrow> string \<Rightarrow> bool" where
  "stream_glob pattern name =
     (case split_once (CHR ''*'') pattern of
        None \<Rightarrow> pattern = name
      | Some (head, rest) \<Rightarrow>
          (case strip_prefix head name of
             None \<Rightarrow> False
           | Some t \<Rightarrow> list_ex (\<lambda>i. stream_glob rest (drop i t)) (filter (is_char_boundary t) [0..<Suc (length t)])))"
  by pat_completeness auto

termination
  by (relation "measure (\<lambda>(pattern, _). length pattern)") (auto dest: split_once_shorter)

declare stream_glob.simps [simp del]

section \<open>One stream\<close>

record meta =
  mt_retired :: bool
  mt_definition :: stream_def
  mt_oldest :: nat
  mt_next_floor :: nat
  mt_exported :: int

record stream =
  st_retired :: bool
  st_def :: stream_def
  st_entries :: "entry list"
  st_bytes :: nat
  st_next :: nat
  st_oldest :: nat
  st_exported :: int
  st_reserved :: nat
  st_segments :: "(nat, nat) btree"
  st_corrupt :: nat
  st_export_status :: json
  st_rejected :: nat
  st_lost :: nat
  st_torn :: "(nat \<times> nat option) option"

text \<open>
  The directory of a stream: \<open>meta.json\<close> and the segment files by their first sequence number.
  An operation succeeds, fails without effect, or fails part way: a file write after some bytes, an
  atomic replacement after the rename, a truncation before its sync.
\<close>

datatype meta_file = NoMeta | MetaFile meta | BadMeta

datatype sio = SioOk | SioErr | SioPartial nat

record sdisk =
  dk_meta :: meta_file
  dk_segs :: "(nat, string) btree"
  dk_io :: "sio list"

definition sio_take :: "sdisk \<Rightarrow> sio \<times> sdisk" where
  "sio_take d = (case dk_io d of [] \<Rightarrow> (SioOk, d) | x # xs \<Rightarrow> (x, d\<lparr>dk_io := xs\<rparr>))"

definition set_len :: "nat \<Rightarrow> string \<Rightarrow> string" where
  "set_len n c = take n c @ replicate (n - length c) (CHR 0x00)"

definition write_at :: "nat \<Rightarrow> string \<Rightarrow> string \<Rightarrow> string" where
  "write_at offset bs c = set_len offset c @ bs @ drop (offset + length bs) c"

definition write_meta :: "meta \<Rightarrow> sdisk \<Rightarrow> sdisk \<times> bool" where
  "write_meta m d = (case sio_take d of (r, d) \<Rightarrow>
     (case r of SioOk \<Rightarrow> (d\<lparr>dk_meta := MetaFile m\<rparr>, True)
      | SioErr \<Rightarrow> (d, False)
      | SioPartial _ \<Rightarrow> (d\<lparr>dk_meta := MetaFile m\<rparr>, False)))"

definition undo_write :: "nat \<Rightarrow> nat option \<Rightarrow> sdisk \<Rightarrow> sdisk \<times> bool" where
  "undo_write first len d = (case sio_take d of (r, d) \<Rightarrow>
     (case len of
        Some n \<Rightarrow>
          (case map_of (dk_segs d) first of None \<Rightarrow> (d, False)
           | Some c \<Rightarrow>
               (case r of SioOk \<Rightarrow> (d\<lparr>dk_segs := bt_insert first (set_len n c) (dk_segs d)\<rparr>, True)
                | SioErr \<Rightarrow> (d, False)
                | SioPartial _ \<Rightarrow> (d\<lparr>dk_segs := bt_insert first (set_len n c) (dk_segs d)\<rparr>, False)))
      | None \<Rightarrow> if r = SioOk then (d\<lparr>dk_segs := bt_remove first (dk_segs d)\<rparr>, True) else (d, False)))"

definition segment_bytes :: "stream \<Rightarrow> nat" where
  "segment_bytes s = max 4096 (min (sd_max_size (st_def s) div 8) 4194304)"

definition meta_of :: "stream \<Rightarrow> meta" where
  "meta_of s = \<lparr>mt_retired = st_retired s, mt_definition = st_def s, mt_oldest = st_oldest s,
     mt_next_floor = max (st_reserved s) (st_next s), mt_exported = st_exported s\<rparr>"

definition save_meta :: "stream \<Rightarrow> sdisk \<Rightarrow> sdisk \<times> bool" where
  "save_meta s = write_meta (meta_of s)"

definition front_or :: "nat \<Rightarrow> entry list \<Rightarrow> nat" where
  "front_or n es = (case es of [] \<Rightarrow> n | e # _ \<Rightarrow> en_sequence e)"

definition evict_front :: "stream \<Rightarrow> stream" where
  "evict_front s =
     (let s = (case st_entries s of [] \<Rightarrow> s
               | e # es \<Rightarrow> s\<lparr>st_entries := es, st_bytes := st_bytes s - entry_cost e,
                    st_lost := (if sd_export (st_def s) \<noteq> None \<and> st_exported s < int (en_sequence e)
                                then st_lost s + 1 else st_lost s)\<rparr>)
      in s\<lparr>st_oldest := front_or (st_next s) (st_entries s)\<rparr>)"

lemma st_entries_evict_front [simp]: "st_entries (evict_front s) = tl (st_entries s)"
  by (simp add: evict_front_def Let_def split: list.splits)

function evict_while :: "(entry \<Rightarrow> bool) \<Rightarrow> stream \<Rightarrow> stream" where
  "evict_while P s =
     (case st_entries s of [] \<Rightarrow> s | e # _ \<Rightarrow> if P e then evict_while P (evict_front s) else s)"
  by pat_completeness auto
termination
  by (relation "measure (\<lambda>(_, s). length (st_entries s))") auto

declare evict_while.simps [simp del]

text \<open>
  \<open>while bytes > max_size { evict_front() }\<close>. With no entry left the byte count no longer changes:
  the loop would spin, which is the value \<^const>\<open>None\<close>.
\<close>

function evict_until :: "nat \<Rightarrow> stream \<Rightarrow> stream option" where
  "evict_until room s =
     (if st_bytes s \<le> room then Some s
      else if st_entries s = [] then None
      else evict_until room (evict_front s))"
  by pat_completeness auto
termination
  by (relation "measure (\<lambda>(_, s). length (st_entries s))") auto

declare evict_until.simps [simp del]

definition expired :: "nat \<Rightarrow> nat option \<Rightarrow> entry \<Rightarrow> bool" where
  "expired now ttl e = (case ttl of None \<Rightarrow> False | Some t \<Rightarrow> min (en_appended_ms e + t * 1000) u64_max \<le> now)"

definition exported_already :: "stream \<Rightarrow> entry \<Rightarrow> bool" where
  "exported_already s e \<longleftrightarrow> sd_discard_exported (st_def s) \<and> int (en_sequence e) \<le> st_exported s"

definition dead_segments :: "stream \<Rightarrow> nat list" where
  "dead_segments s =
     (let firsts = bt_keys (st_segments s) in
      map fst (filter (\<lambda>(first, end'). end' \<le> st_oldest s \<and> (first < st_oldest s \<or> st_entries s = []))
        (zip firsts (tl firsts @ [st_next s]))))"

definition forget_segment :: "nat \<Rightarrow> stream \<Rightarrow> stream" where
  "forget_segment first s =
     s\<lparr>st_segments := bt_remove first (st_segments s),
       st_torn := (case st_torn s of Some (f, _) \<Rightarrow> if f = first then None else st_torn s | None \<Rightarrow> None)\<rparr>"

fun drop_dead :: "nat list \<Rightarrow> stream \<Rightarrow> sdisk \<Rightarrow> stream \<times> sdisk \<times> (stream_error, unit) result" where
  "drop_dead [] s d = (s, d, Inr ())"
| "drop_dead (first # rest) s d =
     (case sio_take d of (r, d) \<Rightarrow>
        if r \<noteq> SioOk \<or> map_of (dk_segs d) first = None then (s, d, Inl SIo)
        else drop_dead rest (forget_segment first s) (d\<lparr>dk_segs := bt_remove first (dk_segs d)\<rparr>))"

definition drop_segments :: "stream \<Rightarrow> sdisk \<Rightarrow> stream \<times> sdisk \<times> (stream_error, unit) result" where
  "drop_segments s d =
     (let dead = dead_segments s in
      if dead = [] then (s, d, Inr ())
      else case save_meta s d of (d, ok) \<Rightarrow> if ok then drop_dead dead s d else (s, d, Inl SIo))"

definition retire_entries :: "nat \<Rightarrow> stream \<Rightarrow> stream" where
  "retire_entries now s =
     (let s = evict_while (expired now (sd_time_to_live_seconds (st_def s))) s
      in evict_while (exported_already s) s)"

definition retire :: "nat \<Rightarrow> stream \<Rightarrow> sdisk \<Rightarrow> stream \<times> sdisk \<times> (stream_error, unit) result" where
  "retire now s d =
     (if st_retired s then (s, d, Inr ()) else drop_segments (retire_entries now s) d)"

definition retirable :: "nat \<Rightarrow> stream \<Rightarrow> nat" where
  "retirable now s =
     (if st_retired s then 0
      else length (takeWhile (\<lambda>e. expired now (sd_time_to_live_seconds (st_def s)) e \<or> exported_already s e) (st_entries s)))"

section \<open>Appending\<close>

definition segment_for :: "stream \<Rightarrow> nat \<Rightarrow> nat \<Rightarrow> nat" where
  "segment_for s sequence record_len =
     (case rev (st_segments s) of
        [] \<Rightarrow> sequence
      | (first, len) # _ \<Rightarrow> if len = 0 \<or> len + record_len \<le> segment_bytes s then first else sequence)"

definition write_framed :: "nat \<Rightarrow> nat \<Rightarrow> string \<Rightarrow> stream \<Rightarrow> sdisk \<Rightarrow>
  stream \<times> sdisk \<times> (stream_error, location) result" where
  "write_framed sequence appended_ms data s d =
     (let record_len = HEADER + length data;
          first = segment_for s sequence record_len;
          tracked = map_of (st_segments s) first;
          offset = (case tracked of None \<Rightarrow> 0 | Some l \<Rightarrow> l);
          bs = encode_record sequence appended_ms data;
          old = (case map_of (dk_segs d) first of None \<Rightarrow> [] | Some c \<Rightarrow> c) in
      case sio_take d of (r, d) \<Rightarrow>
        if r = SioOk then
          (s\<lparr>st_segments := bt_insert first (offset + record_len) (st_segments s)\<rparr>,
           d\<lparr>dk_segs := bt_insert first (write_at offset bs old) (dk_segs d)\<rparr>, Inr (OnDisk first offset))
        else
          (let d = (case r of SioPartial n \<Rightarrow> d\<lparr>dk_segs := bt_insert first (write_at offset (take n bs) old) (dk_segs d)\<rparr>
                    | _ \<Rightarrow> d) in
           case undo_write first tracked d of (d, undone) \<Rightarrow>
             (if undone then s else s\<lparr>st_torn := Some (first, tracked)\<rparr>, d, Inl SIo)))"

definition append_record :: "nat \<Rightarrow> nat \<Rightarrow> string \<Rightarrow> stream \<Rightarrow> sdisk \<Rightarrow>
  stream \<times> sdisk \<times> (stream_error, location) result" where
  "append_record sequence appended_ms data s d =
     (case st_torn s of
        None \<Rightarrow> write_framed sequence appended_ms data s d
      | Some (first, len) \<Rightarrow>
          (case undo_write first len d of (d, ok) \<Rightarrow>
             if \<not> ok then (s, d, Inl SUnavailable)
             else write_framed sequence appended_ms data (s\<lparr>st_torn := None\<rparr>) d))"

definition make_room :: "nat \<Rightarrow> stream \<Rightarrow> (stream_error \<times> stream) + stream" where
  "make_room n s =
     (if st_bytes s + n \<le> sd_max_size (st_def s) then Inr s
      else if sd_strategy_on_full (st_def s) = RejectNewData then Inl (SFull, s\<lparr>st_rejected := st_rejected s + 1\<rparr>)
      else case evict_until (sd_max_size (st_def s) - n) s of None \<Rightarrow> Inl (SSpins, s) | Some s \<Rightarrow> Inr s)"

definition reserve :: "stream \<Rightarrow> sdisk \<Rightarrow> stream \<times> sdisk \<times> bool" where
  "reserve s d =
     (if st_next s + 1 > st_reserved s then
        (let s' = s\<lparr>st_reserved := st_next s + RESERVE\<rparr> in
         case save_meta s' d of (d, ok) \<Rightarrow> if ok then (s', d, True) else (s, d, False))
      else (s, d, True))"

definition place_record :: "nat \<Rightarrow> string \<Rightarrow> stream \<Rightarrow> sdisk \<Rightarrow> stream \<times> sdisk \<times> (stream_error, location) result" where
  "place_record now data s d =
     (case sd_persistence (st_def s) of
        PMemory \<Rightarrow> (s, d, Inr (InMemory data))
      | PFile \<Rightarrow> append_record (st_next s) now data s d)"

definition push_entry :: "nat \<Rightarrow> string \<Rightarrow> location \<Rightarrow> stream \<Rightarrow> stream" where
  "push_entry now data pos s =
     (let sequence = st_next s;
          s = s\<lparr>st_entries := st_entries s @ [\<lparr>en_sequence = sequence, en_appended_ms = now, en_len = length data, en_at = pos\<rparr>],
                st_bytes := st_bytes s + cost (length data), st_next := st_next s + 1\<rparr>
      in if length (st_entries s) = 1 then s\<lparr>st_oldest := sequence\<rparr> else s)"

definition append_message :: "string \<Rightarrow> nat \<Rightarrow> stream \<Rightarrow> sdisk \<Rightarrow> stream \<times> sdisk \<times> (stream_error, nat) result" where
  "append_message data now s d =
     (if st_retired s then (s, d, Inl SRetired)
      else if data = [] \<or> MAX_MESSAGE_BYTES < length data \<or> sd_max_size (st_def s) < cost (length data)
      then (s, d, Inl SInvalid)
      else case retire now s d of (s, d, r) \<Rightarrow>
        (case r of Inl e \<Rightarrow> (s, d, Inl e)
         | Inr _ \<Rightarrow>
        (case make_room (cost (length data)) s of Inl (e, s) \<Rightarrow> (s, d, Inl e)
         | Inr s \<Rightarrow>
        (let sequence = st_next s in
         case reserve s d of (s, d, ok) \<Rightarrow>
           if \<not> ok then (s, d, Inl SIo)
           else case place_record now data s d of (s, d, r) \<Rightarrow>
             (case r of Inl e \<Rightarrow> (s, d, Inl e)
              | Inr pos \<Rightarrow>
                  (case drop_segments (push_entry now data pos s) d of (s, d, r) \<Rightarrow>
                     (s, d, res_bind r (\<lambda>_. Inr sequence))))))))"

section \<open>Reading and exporting\<close>

record smessage =
  sm_sequence :: nat
  sm_appended_ms :: nat
  sm_data :: string

definition read_data :: "entry \<Rightarrow> sdisk \<Rightarrow> sdisk \<times> (stream_error, string) result" where
  "read_data e d =
     (case en_at e of
        InMemory data \<Rightarrow> (d, Inr data)
      | OnDisk segment offset \<Rightarrow>
          (case sio_take d of (r, d) \<Rightarrow>
             (d, (case (r, map_of (dk_segs d) segment) of
                    (SioOk, Some c) \<Rightarrow>
                      if offset + HEADER + en_len e \<le> length c then Inr (take (en_len e) (drop (offset + HEADER) c)) else Inl SIo
                  | _ \<Rightarrow> Inl SIo))))"

definition message_of :: "entry \<Rightarrow> string \<Rightarrow> smessage" where
  "message_of e data = \<lparr>sm_sequence = en_sequence e, sm_appended_ms = en_appended_ms e, sm_data = data\<rparr>"

fun read_all :: "entry list \<Rightarrow> sdisk \<Rightarrow> sdisk \<times> (stream_error, smessage list) result" where
  "read_all [] d = (d, Inr [])"
| "read_all (e # es) d =
     (case read_data e d of (d, r) \<Rightarrow>
        (case r of Inl x \<Rightarrow> (d, Inl x)
         | Inr data \<Rightarrow> (case read_all es d of (d, r) \<Rightarrow> (d, res_bind r (\<lambda>ms. Inr (message_of e data # ms))))))"

definition read_messages :: "nat \<Rightarrow> nat \<Rightarrow> nat \<Rightarrow> nat \<Rightarrow> stream \<Rightarrow> sdisk \<Rightarrow>
  stream \<times> sdisk \<times> (stream_error, smessage list) result" where
  "read_messages start min' max' now s d =
     (if min' < 1 \<or> max' < min' \<or> MAX_READ < max' then (s, d, Inl SInvalid)
      else case retire now s d of (s, d, r) \<Rightarrow>
        (case r of Inl e \<Rightarrow> (s, d, Inl e)
         | Inr _ \<Rightarrow>
           if start < st_oldest s then (s, d, Inl (SEvicted (st_oldest s)))
           else let found = take max' (filter (\<lambda>e. start \<le> en_sequence e) (st_entries s)) in
             if length found < min' then (s, d, Inl (SNotEnough (length found)))
             else case read_all found d of (d, r) \<Rightarrow> (s, d, r)))"

definition export_ack :: "nat \<Rightarrow> nat \<Rightarrow> stream \<Rightarrow> sdisk \<Rightarrow> stream \<times> sdisk \<times> (stream_error, int) result" where
  "export_ack sequence now s d =
     (if st_next s \<le> sequence then (s, d, Inl SInvalid)
      else if st_exported s < int sequence then
        (let s' = s\<lparr>st_exported := int sequence\<rparr> in
         case save_meta s' d of (d, ok) \<Rightarrow>
           if \<not> ok then (s, d, Inl SIo)
           else case retire now s' d of (s, d, r) \<Rightarrow> (s, d, res_bind r (\<lambda>_. Inr (st_exported s))))
      else (s, d, Inr (st_exported s)))"

fun batch_entries :: "nat \<Rightarrow> nat \<Rightarrow> nat \<Rightarrow> nat \<Rightarrow> entry list \<Rightarrow> entry list" where
  "batch_entries max_messages max_bytes taken bytes [] = []"
| "batch_entries max_messages max_bytes taken bytes (e # es) =
     (if taken = max_messages \<or> 0 < taken \<and> max_bytes < bytes + en_len e then []
      else e # batch_entries max_messages max_bytes (Suc taken) (bytes + en_len e) es)"

definition export_batch :: "nat \<Rightarrow> nat \<Rightarrow> nat \<Rightarrow> stream \<Rightarrow> sdisk \<Rightarrow>
  stream \<times> sdisk \<times> (stream_error, (nat \<times> smessage list) option) result" where
  "export_batch max_messages max_bytes now s d =
     (case retire now s d of (s, d, r) \<Rightarrow>
        (case r of Inl e \<Rightarrow> (s, d, Inl e)
         | Inr _ \<Rightarrow>
           (let start = nat (st_exported s + 1);
                lost = st_oldest s - start in
            case read_all (batch_entries max_messages max_bytes 0 0 (filter (\<lambda>e. start \<le> en_sequence e) (st_entries s))) d of
              (d, r) \<Rightarrow> (s, d, res_bind r (\<lambda>ms. Inr (if ms = [] then None else Some (lost, ms)))))))"

section \<open>Loading\<close>

definition load_segment :: "bool \<Rightarrow> nat \<Rightarrow> bool \<Rightarrow> nat \<Rightarrow> string \<Rightarrow> nat option \<Rightarrow> stream \<Rightarrow> sdisk \<Rightarrow>
  stream \<times> sdisk \<times> nat option \<times> bool" where
  "load_segment recover oldest is_last first bytes last_sequence s d =
     (case scan_segment first oldest 0 last_sequence bytes of (pos, last', es) \<Rightarrow>
        (let s = s\<lparr>st_entries := st_entries s @ es, st_bytes := st_bytes s + sum_list (map entry_cost es)\<rparr>;
             track = (\<lambda>s. s\<lparr>st_segments := bt_insert first pos (st_segments s)\<rparr>) in
         if pos < length bytes then
           (if is_last then
              (if recover \<and> \<not> st_retired s then
                 (case sio_take d of (r, d) \<Rightarrow>
                    (case r of SioOk \<Rightarrow> (track s, d\<lparr>dk_segs := bt_insert first (set_len pos bytes) (dk_segs d)\<rparr>, last', True)
                     | SioErr \<Rightarrow> (s, d, last', False)
                     | SioPartial _ \<Rightarrow> (s, d\<lparr>dk_segs := bt_insert first (set_len pos bytes) (dk_segs d)\<rparr>, last', False)))
               else (track (s\<lparr>st_torn := Some (first, Some pos)\<rparr>), d, last', True))
            else (track (s\<lparr>st_corrupt := st_corrupt s + 1\<rparr>), d, last', True))
         else (track s, d, last', True)))"

fun load_segments :: "bool \<Rightarrow> nat \<Rightarrow> (nat, string) btree \<Rightarrow> nat option \<Rightarrow> stream \<Rightarrow> sdisk \<Rightarrow>
  stream \<times> sdisk \<times> nat option \<times> bool" where
  "load_segments recover oldest [] last_sequence s d = (s, d, last_sequence, True)"
| "load_segments recover oldest ((first, bytes) # rest) last_sequence s d =
     (case sio_take d of (r, d) \<Rightarrow>
        if r \<noteq> SioOk then (s, d, last_sequence, False)
        else case load_segment recover oldest (rest = []) first bytes last_sequence s d of
          (s, d, last', ok) \<Rightarrow> if ok then load_segments recover oldest rest last' s d else (s, d, last', False))"

definition empty_stream :: "meta \<Rightarrow> stream" where
  "empty_stream m =
     \<lparr>st_retired = mt_retired m, st_def = mt_definition m, st_entries = [], st_bytes = 0,
      st_next = mt_next_floor m, st_oldest = mt_oldest m, st_exported = mt_exported m,
      st_reserved = mt_next_floor m, st_segments = [], st_corrupt = 0, st_export_status = JNull,
      st_rejected = 0, st_lost = 0, st_torn = None\<rparr>"

definition settle_counters :: "nat option \<Rightarrow> nat \<Rightarrow> stream \<Rightarrow> stream" where
  "settle_counters last_sequence meta_oldest s =
     (let next = max (st_next s) (case last_sequence of None \<Rightarrow> 0 | Some l \<Rightarrow> l + 1) in
      s\<lparr>st_next := next, st_reserved := next,
        st_oldest := max (front_or next (st_entries s)) (min meta_oldest next)\<rparr>)"

definition load :: "nat \<Rightarrow> bool \<Rightarrow> sdisk \<Rightarrow> sdisk \<times> (stream_error, stream) result" where
  "load now recover d =
     (case sio_take d of (r, d) \<Rightarrow>
        (case (r, dk_meta d) of
           (SioOk, MetaFile m) \<Rightarrow>
             (let s = empty_stream m in
              if sd_persistence (st_def s) = PMemory then (d, Inr (s\<lparr>st_oldest := st_next s\<rparr>))
              else case sio_take d of (r, d) \<Rightarrow>
                if r \<noteq> SioOk then (d, Inl SIo)
                else case load_segments recover (mt_oldest m) (dk_segs d) None s d of (s, d, last', ok) \<Rightarrow>
                  if \<not> ok then (d, Inl SIo)
                  else let s = settle_counters last' (mt_oldest m) s in
                    if recover \<and> \<not> st_retired s then
                      (case evict_until (sd_max_size (st_def s)) s of None \<Rightarrow> (d, Inl SSpins)
                       | Some s \<Rightarrow> (case retire now s d of (s, d, r) \<Rightarrow> (d, res_bind r (\<lambda>_. Inr s))))
                    else (d, Inr s))
         | _ \<Rightarrow> (d, Inl SIo)))"

text \<open>The stream \<open>Store::create\<close> makes.\<close>

definition new_stream :: "stream_def \<Rightarrow> stream" where
  "new_stream def =
     \<lparr>st_retired = False, st_def = def, st_entries = [], st_bytes = 0, st_next = 0, st_oldest = 0, st_exported = -1,
      st_reserved = 0, st_segments = [], st_corrupt = 0, st_export_status = JNull, st_rejected = 0, st_lost = 0,
      st_torn = None\<rparr>"

definition close_stream :: "stream \<Rightarrow> sdisk \<Rightarrow> stream \<times> sdisk" where
  "close_stream s d = (let s = s\<lparr>st_reserved := st_next s\<rparr> in (s, fst (save_meta s d)))"

end
