(* ===== verification/StreamLog.thy ===== *)
theory StreamLog
  imports Streams
begin

text \<open>
  Correctness of one stream: eviction removes a front part and nothing else; the stream in memory and
  its directory agree on a list of records per segment, whatever file operations fail; and from any
  such state, a torn write included, loading recovers every retained message and continues the
  numbering where it was.
\<close>

section \<open>The stream in memory\<close>

definition total_cost :: "entry list \<Rightarrow> nat" where
  "total_cost es = sum_list (map entry_cost es)"

definition mem_ok :: "stream \<Rightarrow> bool" where
  "mem_ok s \<longleftrightarrow> sorted_wrt (<) (map en_sequence (st_entries s)) \<and> (\<forall>e \<in> set (st_entries s). en_sequence e < st_next s)
     \<and> st_bytes s = total_cost (st_entries s) \<and> st_oldest s = front_or (st_next s) (st_entries s)"

text \<open>The fields eviction leaves alone.\<close>

definition same_rest :: "stream \<Rightarrow> stream \<Rightarrow> bool" where
  "same_rest s s' \<longleftrightarrow> st_retired s' = st_retired s \<and> st_def s' = st_def s \<and> st_next s' = st_next s
     \<and> st_exported s' = st_exported s \<and> st_reserved s' = st_reserved s \<and> st_segments s' = st_segments s
     \<and> st_corrupt s' = st_corrupt s \<and> st_export_status s' = st_export_status s \<and> st_rejected s' = st_rejected s
     \<and> st_torn s' = st_torn s"

definition evicts :: "stream \<Rightarrow> stream \<Rightarrow> bool" where
  "evicts s s' \<longleftrightarrow> same_rest s s' \<and> mem_ok s' \<and> suffix (st_entries s') (st_entries s)"

lemma total_cost_simps [simp]:
  "total_cost [] = 0" "total_cost (e # es) = entry_cost e + total_cost es" "total_cost (xs @ ys) = total_cost xs + total_cost ys"
  by (auto simp: total_cost_def)

lemma total_cost_suffix: "suffix xs ys \<Longrightarrow> total_cost xs \<le> total_cost ys"
  by (auto simp: suffix_def)

lemma front_or_simps [simp]: "front_or n [] = n" "front_or n (e # es) = en_sequence e"
  by (auto simp: front_or_def)

lemma front_or_append: "front_or n (xs @ ys) = front_or (front_or n ys) xs"
  by (cases xs) auto

lemma same_rest_refl [simp]: "same_rest s s"
  by (simp add: same_rest_def)

lemma same_rest_trans: "same_rest s t \<Longrightarrow> same_rest t u \<Longrightarrow> same_rest s u"
  by (simp add: same_rest_def)

lemma evicts_refl: "mem_ok s \<Longrightarrow> evicts s s"
  by (simp add: evicts_def)

lemma evicts_trans: "evicts s t \<Longrightarrow> evicts t u \<Longrightarrow> evicts s u"
  by (auto simp: evicts_def intro: same_rest_trans suffix_order.trans)

lemma evict_front_evicts:
  assumes "mem_ok s"
  shows "evicts s (evict_front s)"
  using assms unfolding evicts_def same_rest_def mem_ok_def evict_front_def Let_def
  by (cases "st_entries s") (auto simp: suffix_ConsI)

lemma evict_while_spec:
  "mem_ok s \<Longrightarrow> evicts s (evict_while P s) \<and> st_entries (evict_while P s) = dropWhile P (st_entries s)"
proof (induction P s rule: evict_while.induct)
  case (1 P s)
  have step: "evicts s (evict_front s)" by (rule evict_front_evicts [OF 1(2)])
  show ?case
  proof (cases "st_entries s")
    case Nil
    then show ?thesis using 1(2) by (subst (1 2) evict_while.simps) (simp add: evicts_refl)
  next
    case (Cons e es)
    show ?thesis
    proof (cases "P e")
      case True
      have "mem_ok (evict_front s)" using step by (simp add: evicts_def)
      from 1(1) [OF Cons True this] show ?thesis
        using Cons True step by (subst (1 2) evict_while.simps) (auto intro: evicts_trans)
    next
      case False
      then show ?thesis using Cons 1(2) by (subst (1 2) evict_while.simps) (simp add: evicts_refl)
    qed
  qed
qed

text \<open>
  Evicting down to a size ends, and keeps every back part that fits: the longest one.
\<close>

lemma evict_until_spec:
  assumes "mem_ok s"
  shows "\<exists>s'. evict_until room s = Some s' \<and> evicts s s' \<and> st_bytes s' \<le> room \<and>
    (\<forall>xs. suffix xs (st_entries s) \<and> total_cost xs \<le> room \<longrightarrow> suffix xs (st_entries s'))"
  using assms
proof (induction room s rule: evict_until.induct)
  case (1 room s)
  have step: "evicts s (evict_front s)" by (rule evict_front_evicts [OF 1(2)])
  have bytes: "st_bytes s = total_cost (st_entries s)" using 1(2) by (simp add: mem_ok_def)
  show ?case
  proof (cases "st_bytes s \<le> room")
    case True
    then show ?thesis using 1(2) by (subst evict_until.simps) (simp add: evicts_refl)
  next
    case False
    then have ne: "st_entries s \<noteq> []" using bytes by auto
    have "mem_ok (evict_front s)" using step by (simp add: evicts_def)
    from 1(1) [OF False ne this] obtain s' where s':
      "evict_until room (evict_front s) = Some s'" "evicts (evict_front s) s'" "st_bytes s' \<le> room"
      "\<And>xs. suffix xs (tl (st_entries s)) \<Longrightarrow> total_cost xs \<le> room \<Longrightarrow> suffix xs (st_entries s')" by auto
    have "suffix xs (st_entries s')" if fits: "suffix xs (st_entries s)" "total_cost xs \<le> room" for xs
    proof -
      have "xs \<noteq> st_entries s" using fits False bytes by auto
      then have "suffix xs (tl (st_entries s))" using fits(1) ne by (cases "st_entries s") (auto simp: suffix_Cons)
      then show ?thesis using s'(4) fits(2) by blast
    qed
    moreover have "evict_until room s = Some s'" using False ne s'(1) by (subst evict_until.simps) simp
    ultimately show ?thesis using s' evicts_trans [OF step s'(2)] by blast
  qed
qed

lemma retire_entries_spec:
  assumes "mem_ok s"
  shows "evicts s (retire_entries now s) \<and> st_entries (retire_entries now s) =
    dropWhile (exported_already s) (dropWhile (expired now (sd_time_to_live_seconds (st_def s))) (st_entries s))"
proof -
  let ?P = "expired now (sd_time_to_live_seconds (st_def s))" and ?s = "evict_while (expired now (sd_time_to_live_seconds (st_def s))) s"
  have a: "evicts s ?s" "st_entries ?s = dropWhile ?P (st_entries s)" using evict_while_spec [OF assms] by blast+
  then have ok: "mem_ok ?s" and same: "same_rest s ?s" by (auto simp: evicts_def)
  have "exported_already ?s = exported_already s" using same by (auto simp: exported_already_def same_rest_def)
  then show ?thesis
    unfolding retire_entries_def Let_def using evict_while_spec [OF ok, of "exported_already ?s"] a
    by (auto intro: evicts_trans)
qed

section \<open>The records of a directory\<close>

text \<open>
  The ghost state of a file stream: for each segment file its records. \<open>layout n F\<close> says they are
  well-formed, numbered below \<open>n\<close> in ascending order through the segments, each segment's between
  its own first number and that of the next segment.
\<close>

type_synonym records = "(nat, frame list) btree"

definition body :: "frame list \<Rightarrow> string" where
  "body rs = concat (map enc rs)"

definition frames :: "records \<Rightarrow> frame list" where
  "frames F = concat (map snd F)"

definition all_entries :: "records \<Rightarrow> entry list" where
  "all_entries F = concat (map (\<lambda>(f, rs). entries_at f 0 rs) F)"

definition segment_sizes :: "records \<Rightarrow> (nat, nat) btree" where
  "segment_sizes F = map (\<lambda>(f, rs). (f, length (body rs))) F"

definition layout :: "nat \<Rightarrow> records \<Rightarrow> bool" where
  "layout n F \<longleftrightarrow> bt_wf F \<and> sorted_wrt (<) (map frame_seq (frames F))
     \<and> (\<forall>x \<in> set F. fst x \<le> n \<and> (\<forall>r \<in> set (snd x). frame_ok r \<and> fst x \<le> frame_seq r \<and> frame_seq r < n))
     \<and> (\<forall>x \<in> set F. \<forall>y \<in> set F. fst x < fst y \<longrightarrow> (\<forall>r \<in> set (snd x). frame_seq r < fst y))"

lemma body_simps [simp]: "body [] = []" "body (r # rs) = enc r @ body rs" "body (xs @ ys) = body xs @ body ys"
  by (auto simp: body_def)

lemma frames_simps [simp]: "frames [] = []" "frames ((f, rs) # F) = rs @ frames F" "frames (F @ G) = frames F @ frames G"
  by (auto simp: frames_def)

lemma all_entries_simps [simp]:
  "all_entries [] = []" "all_entries ((f, rs) # F) = entries_at f 0 rs @ all_entries F"
  "all_entries (F @ G) = all_entries F @ all_entries G"
  by (auto simp: all_entries_def)

lemma segment_sizes_simps [simp]:
  "segment_sizes [] = []" "segment_sizes ((f, rs) # F) = (f, length (body rs)) # segment_sizes F"
  "segment_sizes (F @ G) = segment_sizes F @ segment_sizes G"
  by (auto simp: segment_sizes_def)

lemma segment_sizes_get: "map_of (segment_sizes F) g = map_option (length \<circ> body) (map_of F g)"
  by (induction F) (auto simp: segment_sizes_def)

lemma keys_segment_sizes [simp]: "map fst (segment_sizes F) = map fst F"
  by (auto simp: segment_sizes_def)

lemma bt_wf_segment_sizes [simp]: "bt_wf (segment_sizes F) \<longleftrightarrow> bt_wf F"
  by (simp add: bt_wf_def)

lemma entries_at_append:
  "entries_at f p (xs @ ys) = entries_at f p xs @ entries_at f (p + length (body xs)) ys"
  by (induction f p xs rule: entries_at.induct) (auto simp: length_enc add.assoc)

lemma entries_at_seqs: "map en_sequence (entries_at f p rs) = map frame_seq rs"
  by (induction f p rs rule: entries_at.induct) auto

lemma all_entries_seqs: "map en_sequence (all_entries F) = map frame_seq (frames F)"
  by (induction F) (auto simp: entries_at_seqs)

lemma set_frames: "r \<in> set (frames F) \<longleftrightarrow> (\<exists>x \<in> set F. r \<in> set (snd x))"
  by (auto simp: frames_def)

lemma layout_frames:
  "layout n F \<Longrightarrow> r \<in> set (frames F) \<Longrightarrow> frame_ok r \<and> frame_seq r < n"
  by (auto simp: layout_def set_frames)

lemma layout_sorted_entries: "layout n F \<Longrightarrow> sorted_wrt (<) (map en_sequence (all_entries F))"
  by (simp add: all_entries_seqs layout_def)

lemma layout_mono: "layout n F \<Longrightarrow> n \<le> m \<Longrightarrow> layout m F"
  unfolding layout_def by (meson le_trans less_le_trans)

lemma layout_tl:
  assumes "layout n (x # F)"
  shows "layout n F"
proof -
  obtain f rs where "x = (f, rs)" by fastforce
  then show ?thesis using assms bt_wf_tl [of x F] unfolding layout_def by (auto simp: sorted_wrt_append)
qed

text \<open>A record with the next number, in the last segment or in a new one.\<close>

lemma bt_wf_snoc: "bt_wf (F @ [(f, v)]) \<longleftrightarrow> bt_wf F \<and> (\<forall>x \<in> set F. fst x < f)"
  by (auto simp: bt_wf_def sorted_wrt_append)

lemma layout_snoc:
  "layout n (F @ [(f, rs)]) \<longleftrightarrow> layout n F \<and> (\<forall>x \<in> set F. fst x < f) \<and> f \<le> n
     \<and> sorted_wrt (<) (map frame_seq rs) \<and> (\<forall>r \<in> set rs. frame_ok r \<and> f \<le> frame_seq r \<and> frame_seq r < n)
     \<and> (\<forall>r \<in> set (frames F). frame_seq r < f)"
  (is "?l \<longleftrightarrow> ?r")
proof
  assume l: ?l
  then have lt: "\<forall>x \<in> set F. fst x < f" by (auto simp: layout_def bt_wf_snoc)
  have "frame_seq r < f" if "r \<in> set (frames F)" for r
    using l that lt by (fastforce simp: layout_def set_frames)
  then show ?r using l lt by (auto simp: layout_def bt_wf_snoc sorted_wrt_append)
next
  assume r: ?r
  have "frame_seq a < frame_seq b" if "a \<in> set (frames F)" "b \<in> set rs" for a b
    using r that by (meson less_le_trans)
  moreover have "\<forall>x \<in> set F. \<forall>q \<in> set (snd x). frame_seq q < f" using r by (meson set_frames)
  ultimately show ?l using r by (fastforce simp: layout_def bt_wf_snoc sorted_wrt_append)
qed

lemma layout_extend:
  assumes "layout n (F @ [(f, rs)])" and "frame_ok r" and "n \<le> frame_seq r"
  shows "layout (Suc (frame_seq r)) (F @ [(f, rs @ [r])])"
proof -
  have F: "layout (Suc (frame_seq r)) F" using assms(1,3) layout_mono [of n F "Suc (frame_seq r)"] by (auto simp: layout_snoc)
  moreover have "\<forall>x \<in> set rs. frame_seq x < frame_seq r" using assms(1,3) by (auto simp: layout_snoc)
  ultimately show ?thesis using assms by (force simp: layout_snoc sorted_wrt_append)
qed

lemma layout_new_segment:
  assumes "layout n F" and "\<forall>x \<in> set F. fst x < f" and "f \<le> m" and "n \<le> f"
  shows "layout m (F @ [(f, [])])"
proof -
  have "\<forall>r \<in> set (frames F). frame_seq r < f" using layout_frames [OF assms(1)] assms(4) less_le_trans by blast
  then show ?thesis using assms layout_mono [of n F m] by (simp add: layout_snoc)
qed

section \<open>Memory and directory agree\<close>

definition body_of :: "records \<Rightarrow> nat \<Rightarrow> string" where
  "body_of F f = (case map_of F f of None \<Rightarrow> [] | Some rs \<Rightarrow> body rs)"

text \<open>
  A pending undo: the file holds its tracked part and some part of the record with the next number
  (possibly all of it), or it is a new file that was not created. That record would still fit.
\<close>

definition torn_file :: "records \<Rightarrow> stream \<Rightarrow> sdisk \<Rightarrow> nat \<Rightarrow> bool" where
  "torn_file F s d f \<longleftrightarrow> map_of F f = None \<and> map_of (dk_segs d) f = None \<or>
     (\<exists>r n. frame_ok r \<and> frame_seq r = st_next s \<and> st_bytes s + cost (length (snd (snd r))) \<le> sd_max_size (st_def s)
        \<and> map_of (dk_segs d) f = Some (body_of F f @ take n (enc r)))"

definition files_ok :: "records \<Rightarrow> stream \<Rightarrow> sdisk \<Rightarrow> bool" where
  "files_ok F s d \<longleftrightarrow> bt_wf (dk_segs d) \<and>
     (case st_torn s of
        None \<Rightarrow> \<forall>g. map_of (dk_segs d) g = map_option body (map_of F g)
      | Some (f, len) \<Rightarrow>
          (\<forall>g. g \<noteq> f \<longrightarrow> map_of (dk_segs d) g = map_option body (map_of F g))
          \<and> (\<forall>x \<in> set F. fst x \<le> f) \<and> len = map_option (length \<circ> body) (map_of F f)
          \<and> (map_of F f = None \<longrightarrow> f = st_next s) \<and> torn_file F s d f)"

definition log_core :: "records \<Rightarrow> stream \<Rightarrow> sdisk \<Rightarrow> bool" where
  "log_core F s d \<longleftrightarrow> mem_ok s \<and> \<not> st_retired s \<and> sd_persistence (st_def s) = PFile \<and> layout (st_next s) F
     \<and> st_segments s = segment_sizes F \<and> suffix (st_entries s) (all_entries F) \<and> files_ok F s d"

definition next_after :: "records \<Rightarrow> nat" where
  "next_after F = (case last_of None (frames F) of None \<Rightarrow> 0 | Some l \<Rightarrow> Suc l)"

text \<open>What \<open>meta.json\<close> says: never more retired than memory, and numbering that cannot go back.\<close>

definition meta_covers :: "records \<Rightarrow> stream \<Rightarrow> meta \<Rightarrow> bool" where
  "meta_covers F s m \<longleftrightarrow> \<not> mt_retired m \<and> mt_definition m = st_def s \<and> mt_oldest m \<le> st_oldest s
     \<and> st_exported s \<le> mt_exported m \<and> st_next s \<le> st_reserved s
     \<and> st_reserved s \<le> max (mt_next_floor m) (st_next s) \<and> st_next s \<le> max (mt_next_floor m) (next_after F)"

definition meta_ok :: "records \<Rightarrow> stream \<Rightarrow> sdisk \<Rightarrow> bool" where
  "meta_ok F s d \<longleftrightarrow> (\<exists>m. dk_meta d = MetaFile m \<and> meta_covers F s m)"

definition log_ok :: "records \<Rightarrow> stream \<Rightarrow> sdisk \<Rightarrow> bool" where
  "log_ok F s d \<longleftrightarrow> log_core F s d \<and> meta_ok F s d \<and> st_bytes s \<le> sd_max_size (st_def s)"

subsection \<open>Eviction\<close>

lemma evicts_oldest:
  assumes "mem_ok s" and "evicts s s'"
  shows "st_oldest s \<le> st_oldest s'"
proof -
  obtain xs where xs: "st_entries s = xs @ st_entries s'" using assms(2) by (auto simp: evicts_def suffix_def)
  have "st_oldest s' = front_or (st_next s) (st_entries s')" using assms(2) by (simp add: evicts_def mem_ok_def same_rest_def)
  then show ?thesis using assms(1) xs by (cases xs; cases "st_entries s'") (auto simp: mem_ok_def)
qed

lemma evicts_bytes: "mem_ok s \<Longrightarrow> evicts s s' \<Longrightarrow> st_bytes s' \<le> st_bytes s"
  by (auto simp: evicts_def mem_ok_def dest: total_cost_suffix)

lemma log_core_evicts:
  assumes "log_core F s d" and "evicts s s'"
  shows "log_core F s' d"
proof -
  have "mem_ok s" using assms(1) by (simp add: log_core_def)
  then have b: "st_bytes s' \<le> st_bytes s" using assms(2) by (rule evicts_bytes)
  have r: "st_torn s' = st_torn s" "st_next s' = st_next s" "st_def s' = st_def s" "st_segments s' = st_segments s"
    "st_retired s' = st_retired s" using assms(2) by (auto simp: evicts_def same_rest_def)
  have t: "torn_file F s' d f" if "torn_file F s d f" for f
    using that le_trans [OF add_right_mono [OF b]] unfolding torn_file_def r by blast
  have "files_ok F s' d" using assms(1) t by (auto simp: log_core_def files_ok_def r split: option.splits)
  moreover have "suffix (st_entries s') (all_entries F)"
    using assms suffix_order.trans by (auto simp: log_core_def evicts_def)
  ultimately show ?thesis using assms by (simp add: log_core_def r evicts_def)
qed

lemma log_ok_evicts:
  assumes "log_ok F s d" and "evicts s s'"
  shows "log_ok F s' d"
proof -
  have m: "mem_ok s" using assms(1) by (simp add: log_ok_def log_core_def)
  have r: "st_next s' = st_next s" "st_def s' = st_def s" "st_exported s' = st_exported s" "st_reserved s' = st_reserved s"
    using assms(2) by (auto simp: evicts_def same_rest_def)
  have "meta_ok F s' d"
    using assms(1) evicts_oldest [OF m assms(2)] by (auto simp: log_ok_def meta_ok_def meta_covers_def r)
  then show ?thesis
    using assms(1) log_core_evicts [OF _ assms(2)] evicts_bytes [OF m assms(2)] by (auto simp: log_ok_def r)
qed

subsection \<open>Metadata\<close>

lemma sio_take_frame: "sio_take d = (r, d') \<Longrightarrow> dk_segs d' = dk_segs d \<and> dk_meta d' = dk_meta d"
  by (auto simp: sio_take_def split: list.splits)

lemma write_meta_frame: "write_meta m d = (d', ok) \<Longrightarrow> dk_segs d' = dk_segs d \<and> (dk_meta d' = dk_meta d \<or> dk_meta d' = MetaFile m)
    \<and> (ok \<longrightarrow> dk_meta d' = MetaFile m)"
  by (auto simp: write_meta_def split: prod.splits sio.splits dest!: sio_take_frame)

lemma files_ok_segs: "dk_segs d' = dk_segs d \<Longrightarrow> files_ok F s d' = files_ok F s d"
proof -
  assume eq: "dk_segs d' = dk_segs d"
  have "torn_file F s d' = torn_file F s d" by (rule ext) (simp only: torn_file_def eq)
  then show ?thesis by (cases "st_torn s") (simp_all only: files_ok_def eq option.case split: prod.split)
qed

lemma log_core_segs: "dk_segs d' = dk_segs d \<Longrightarrow> log_core F s d' = log_core F s d"
  unfolding log_core_def by (metis files_ok_segs)

lemma log_ok_take: "sio_take d = (r, d') \<Longrightarrow> log_ok F s d' = log_ok F s d"
  unfolding log_ok_def meta_ok_def by (metis sio_take_frame log_core_segs)

lemma meta_of_covers:
  "\<not> st_retired s \<Longrightarrow> st_next s \<le> st_reserved s \<Longrightarrow> meta_covers F s (meta_of s)"
  by (simp add: meta_covers_def meta_of_def)

lemma log_ok_reserved: "log_ok F s d \<Longrightarrow> st_next s \<le> st_reserved s"
  by (auto simp: log_ok_def meta_ok_def meta_covers_def)

subsection \<open>Dropping segments\<close>

definition keeps_messages :: "stream \<Rightarrow> stream \<Rightarrow> bool" where
  "keeps_messages s s' \<longleftrightarrow> st_entries s' = st_entries s \<and> st_bytes s' = st_bytes s \<and> st_next s' = st_next s
     \<and> st_oldest s' = st_oldest s \<and> st_exported s' = st_exported s \<and> st_reserved s' = st_reserved s
     \<and> st_def s' = st_def s \<and> st_retired s' = st_retired s"

lemma keeps_messages_refl [simp]: "keeps_messages s s"
  by (simp add: keeps_messages_def)

lemma keeps_messages_trans: "keeps_messages s t \<Longrightarrow> keeps_messages t u \<Longrightarrow> keeps_messages s u"
  by (simp add: keeps_messages_def)

lemma keeps_messages_forget: "keeps_messages s (forget_segment f s)"
  by (simp add: keeps_messages_def forget_segment_def)

lemma mem_ok_keeps: "keeps_messages s s' \<Longrightarrow> mem_ok s' = mem_ok s"
  by (simp add: keeps_messages_def mem_ok_def)

lemma torn_file_other:
  assumes "torn_file F s d f" and "keeps_messages s s'" and "map_of F' f = map_of F f"
    and "map_of (dk_segs d') f = map_of (dk_segs d) f"
  shows "torn_file F' s' d' f"
  using assms(1,2) unfolding torn_file_def body_of_def keeps_messages_def assms(3,4) by simp

lemma log_core_forget:
  assumes ok: "log_core ((f, rs) # F) s d" and keep: "suffix (st_entries s) (all_entries F)"
    and d': "dk_segs d' = bt_remove f (dk_segs d)"
  shows "log_core F (forget_segment f s) d'"
proof -
  have lay: "layout (st_next s) ((f, rs) # F)" and segs: "st_segments s = segment_sizes ((f, rs) # F)"
    and fo: "files_ok ((f, rs) # F) s d" and mem: "mem_ok s" using ok by (auto simp: log_core_def)
  have above: "\<forall>x \<in> set F. f < fst x" using lay by (auto simp: layout_def bt_wf_Cons)
  then have fresh: "map_of F f = None" by (auto simp: map_of_eq_None_iff)
  have "bt_remove f (segment_sizes F) = segment_sizes F"
    using above by (auto simp: bt_remove_def filter_id_conv segment_sizes_def)
  then have sizes: "bt_remove f (st_segments s) = segment_sizes F" by (simp add: segs bt_remove_def)
  have wf: "bt_wf (dk_segs d')" using fo by (simp add: d' files_ok_def)
  have files: "files_ok F (forget_segment f s) d'"
  proof (cases "st_torn s")
    case None
    then show ?thesis using fo fresh wf by (simp add: files_ok_def forget_segment_def d')
  next
    case (Some t)
    obtain g len where t: "t = (g, len)" by fastforce
    show ?thesis
    proof (cases "g = f")
      case True
      then show ?thesis using fo Some t fresh wf by (simp add: files_ok_def forget_segment_def d')
    next
      case False
      have tf: "torn_file ((f, rs) # F) s d g" using fo Some t by (simp add: files_ok_def)
      have "torn_file F (forget_segment f s) d' g"
        by (rule torn_file_other [OF tf keeps_messages_forget]) (use False d' in auto)
      then show ?thesis using fo Some t False fresh wf by (auto simp: files_ok_def forget_segment_def d')
    qed
  qed
  have "mem_ok (forget_segment f s)" using mem mem_ok_keeps [OF keeps_messages_forget] by blast
  moreover have "st_segments (forget_segment f s) = segment_sizes F" by (simp add: forget_segment_def sizes)
  ultimately show ?thesis
    using ok keep files layout_tl [OF lay] keeps_messages_forget [of s f] by (simp add: log_core_def keeps_messages_def)
qed

lemma drop_dead_ok:
  assumes "log_core (A @ B) s d" and "suffix (st_entries s) (all_entries B)" and "drop_dead (map fst A) s d = (s', d', r)"
  shows "\<exists>F'. suffix F' (A @ B) \<and> log_core F' s' d' \<and> keeps_messages s s' \<and> dk_meta d' = dk_meta d"
  using assms
proof (induction A arbitrary: s d)
  case Nil
  then show ?case by auto
next
  case (Cons x A)
  obtain f rs where x: "x = (f, rs)" by fastforce
  obtain io d1 where io: "sio_take d = (io, d1)" by fastforce
  have d1: "dk_segs d1 = dk_segs d" "dk_meta d1 = dk_meta d" using sio_take_frame [OF io] by auto
  have ok1: "log_core ((f, rs) # A @ B) s d1" using Cons.prems(1) x log_core_segs [OF d1(1)] by simp
  show ?case
  proof (cases "io \<noteq> SioOk \<or> map_of (dk_segs d1) f = None")
    case True
    then have "s' = s" "d' = d1" using Cons.prems(3) x io by (auto split: if_splits)
    then show ?thesis using ok1 d1 x by (intro exI [of _ "(x # A) @ B"]) simp
  next
    case False
    let ?d = "d1\<lparr>dk_segs := bt_remove f (dk_segs d1)\<rparr>"
    have run: "drop_dead (map fst A) (forget_segment f s) ?d = (s', d', r)" using Cons.prems(3) x io False by (auto split: if_splits)
    have suf: "suffix (st_entries s) (all_entries (A @ B))" using Cons.prems(2) by (simp add: suffix_appendI)
    have "log_core (A @ B) (forget_segment f s) ?d" by (rule log_core_forget [OF ok1 suf]) simp
    moreover have "suffix (st_entries (forget_segment f s)) (all_entries B)" using Cons.prems(2) by (simp add: forget_segment_def)
    ultimately obtain F' where "suffix F' (A @ B)" "log_core F' s' d'" "keeps_messages (forget_segment f s) s'" "dk_meta d' = dk_meta ?d"
      using Cons.IH [OF _ _ run] by blast
    then show ?thesis using d1 keeps_messages_trans [OF keeps_messages_forget] by (intro exI [of _ F']) (auto intro: suffix_ConsI)
  qed
qed

text \<open>The dead segments are a front part of the directory that holds no retained message.\<close>

lemma suffix_skip:
  assumes "suffix es (xs @ ys)" and "\<forall>x \<in> set xs. x \<notin> set es"
  shows "suffix es ys"
proof -
  obtain zs where "xs @ ys = zs @ es" using assms(1) by (auto simp: suffix_def)
  then obtain us where "xs = zs @ us \<and> us @ ys = es \<or> xs @ us = zs \<and> ys = us @ es" by (auto simp: append_eq_append_conv2)
  then show ?thesis using assms(2) by (cases us) (auto simp: suffix_def)
qed

lemma dead_segments_prefix:
  assumes "layout n F" and "suffix es (all_entries F)" and "\<forall>e \<in> set es. old \<le> en_sequence e"
  shows "\<exists>A B. F = A @ B \<and> suffix es (all_entries B) \<and>
    map fst (filter (\<lambda>(first, end'). end' \<le> old \<and> (first < old \<or> es = [])) (zip (bt_keys F) (tl (bt_keys F) @ [n]))) = map fst A"
  using assms(1,2)
proof (induction F)
  case Nil
  then show ?case by (intro exI [of _ "[]"]) simp
next
  case (Cons x F)
  obtain f rs where x: "x = (f, rs)" by fastforce
  let ?Q = "\<lambda>(first, end'). end' \<le> old \<and> (first < old \<or> es = [])"
  define e where "e = (case F of [] \<Rightarrow> n | y # _ \<Rightarrow> fst y)"
  have zip: "zip (bt_keys (x # F)) (tl (bt_keys (x # F)) @ [n]) = (f, e) # zip (bt_keys F) (tl (bt_keys F) @ [n])"
    by (cases F) (auto simp: x e_def)
  have lt: "\<forall>r \<in> set rs. frame_seq r < e"
    using Cons.prems(1) x by (cases F) (auto simp: layout_def e_def bt_wf_Cons)
  show ?case
  proof (cases "?Q (f, e)")
    case True
    have "suffix es (all_entries F)"
    proof (rule suffix_skip [of _ "entries_at f 0 rs"])
      show "suffix es (entries_at f 0 rs @ all_entries F)" using Cons.prems(2) x by simp
      show "\<forall>x \<in> set (entries_at f 0 rs). x \<notin> set es"
      proof (intro ballI notI)
        fix y assume "y \<in> set (entries_at f 0 rs)" "y \<in> set es"
        then have "en_sequence y \<in> set (map frame_seq rs)" "old \<le> en_sequence y"
          using assms(3) entries_at_seqs [of f 0 rs] by (metis image_eqI set_map, blast)
        then show False using lt True by auto
      qed
    qed
    from Cons.IH [OF layout_tl [OF Cons.prems(1)] this] obtain A B where
      "F = A @ B" "suffix es (all_entries B)" "map fst (filter ?Q (zip (bt_keys F) (tl (bt_keys F) @ [n]))) = map fst A" by blast
    then show ?thesis using True x zip by (intro exI [of _ "x # A"] exI [of _ B]) simp
  next
    case False
    have later: "\<not> ?Q y" if "y \<in> set (zip (bt_keys F) (tl (bt_keys F) @ [n]))" for y
    proof -
      obtain g e' where y: "y = (g, e')" by fastforce
      have g: "g \<in> set (bt_keys F)" and e': "e' \<in> set (tl (bt_keys F) @ [n])"
        using that y set_zip_leftD set_zip_rightD by fastforce+
      then obtain z F' where F: "F = z # F'" by (cases F) auto
      then have fe: "f < e" "e \<le> g" "\<forall>k \<in> set (bt_keys F). e \<le> k" "e \<le> n"
        using Cons.prems(1) x g by (auto simp: layout_def e_def bt_wf_def)
      then have "old < e" using False by auto
      moreover have "e \<le> e'" using e' fe(3,4) F by auto
      ultimately show ?thesis using y by auto
    qed
    then have "filter ?Q (zip (bt_keys F) (tl (bt_keys F) @ [n])) = []" by (simp add: filter_empty_conv)
    then show ?thesis using False Cons.prems(2) zip by (intro exI [of _ "[]"] exI [of _ "x # F"]) simp
  qed
qed

lemma entries_from_oldest: "mem_ok s \<Longrightarrow> e \<in> set (st_entries s) \<Longrightarrow> st_oldest s \<le> en_sequence e"
  by (cases "st_entries s") (auto simp: mem_ok_def)

lemma drop_segments_ok:
  assumes ok: "log_ok F s d" and run: "drop_segments s d = (s', d', r)"
  shows "\<exists>F'. suffix F' F \<and> log_ok F' s' d' \<and> keeps_messages s s'"
proof (cases "dead_segments s = []")
  case True
  then show ?thesis using assms by (auto simp: drop_segments_def)
next
  case False
  have core: "log_core F s d" and mem: "mem_ok s" and nr: "\<not> st_retired s" using ok by (auto simp: log_ok_def log_core_def)
  obtain A B where AB: "F = A @ B" "suffix (st_entries s) (all_entries B)" "dead_segments s = map fst A"
    using dead_segments_prefix [of "st_next s" F "st_entries s" "st_oldest s"] core entries_from_oldest [OF mem]
    by (auto simp: log_core_def dead_segments_def Let_def)
  obtain d1 sv where save: "save_meta s d = (d1, sv)" by fastforce
  then have d1: "dk_segs d1 = dk_segs d" "dk_meta d1 = dk_meta d \<or> dk_meta d1 = MetaFile (meta_of s)"
    "sv \<Longrightarrow> dk_meta d1 = MetaFile (meta_of s)" using write_meta_frame by (auto simp: save_meta_def)
  have core1: "log_core F s d1" using core log_core_segs [OF d1(1)] by simp
  have cov: "meta_covers F' s (meta_of s)" for F' by (rule meta_of_covers [OF nr log_ok_reserved [OF ok]])
  show ?thesis
  proof (cases sv)
    case False
    then have "s' = s" "d' = d1" using run save \<open>dead_segments s \<noteq> []\<close> by (auto simp: drop_segments_def)
    moreover have "meta_ok F s d1" using ok d1(2) cov by (auto simp: log_ok_def meta_ok_def)
    ultimately show ?thesis using core1 ok by (intro exI [of _ F]) (auto simp: log_ok_def)
  next
    case True
    then have "drop_dead (map fst A) s d1 = (s', d', r)" using run save \<open>dead_segments s \<noteq> []\<close> AB by (simp add: drop_segments_def)
    with drop_dead_ok [of A B s d1] AB core1 obtain F' where
      F': "log_core F' s' d'" "keeps_messages s s'" "dk_meta d' = dk_meta d1" "suffix F' F" by blast
    have "meta_covers F' s' (meta_of s)" using cov [of F'] F'(2) by (simp add: meta_covers_def keeps_messages_def)
    then have "meta_ok F' s' d'" using F'(3) d1(3) True by (auto simp: meta_ok_def)
    then show ?thesis using F' ok by (intro exI [of _ F']) (auto simp: log_ok_def keeps_messages_def)
  qed
qed

lemma retire_ok:
  assumes "log_ok F s d" and "retire now s d = (s', d', r)"
  shows "\<exists>F'. suffix F' F \<and> log_ok F' s' d' \<and> keeps_messages (retire_entries now s) s'"
proof -
  have "\<not> st_retired s" "mem_ok s" using assms(1) by (auto simp: log_ok_def log_core_def)
  moreover from this(2) have "log_ok F (retire_entries now s) d"
    using log_ok_evicts [OF assms(1)] retire_entries_spec by blast
  ultimately show ?thesis using drop_segments_ok assms(2) by (auto simp: retire_def)
qed

lemma retire_next:
  assumes "mem_ok s" and "keeps_messages (retire_entries now s) s'"
  shows "st_next s' = st_next s" "st_def s' = st_def s" "mem_ok s'" "suffix (st_entries s') (st_entries s)" "st_exported s' = st_exported s"
    "st_reserved s' = st_reserved s"
  using retire_entries_spec [OF assms(1), of now] assms(2) mem_ok_keeps [OF assms(2)]
  by (auto simp: keeps_messages_def evicts_def same_rest_def)

subsection \<open>Writing a record\<close>

lemma set_len_append [simp]: "set_len (length xs) (xs @ ys) = xs"
  by (simp add: set_len_def)

lemma set_len_self [simp]: "set_len (length xs) xs = xs"
  by (simp add: set_len_def)

lemma write_at_end [simp]: "write_at (length xs) bs xs = xs @ bs"
  by (simp add: write_at_def)

lemma bt_get_same: "map_of m k = Some v \<Longrightarrow> bt_wf m \<Longrightarrow> bt_insert k v m = m"
  by (rule bt.ins_present)

text \<open>The segment a record goes to: the last one, or a new one named after the record.\<close>

lemma segment_for_spec:
  assumes core: "log_core F s d"
  obtains (last) F0 rs where "F = F0 @ [(segment_for s (st_next s) n, rs)]"
  | (new) "segment_for s (st_next s) n = st_next s" "\<forall>x \<in> set F. fst x < st_next s"
proof -
  have lay: "layout (st_next s) F" and segs: "st_segments s = segment_sizes F" using core by (auto simp: log_core_def)
  show thesis
  proof (cases F rule: rev_cases)
    case Nil
    then show thesis using new segs by (simp add: segment_for_def)
  next
    case (snoc F0 x)
    obtain f rs where x: "x = (f, rs)" by fastforce
    have rev: "rev (st_segments s) = (f, length (body rs)) # rev (segment_sizes F0)" by (simp add: segs snoc x)
    show thesis
    proof (cases "segment_for s (st_next s) n = f")
      case True
      then show thesis using last snoc x by blast
    next
      case False
      then have seg: "segment_for s (st_next s) n = st_next s" and ne: "body rs \<noteq> []"
        by (auto simp: segment_for_def rev split: if_splits)
      then obtain r where "r \<in> set rs" by (cases rs) auto
      then have "f < st_next s" using lay snoc x by (force simp: layout_snoc)
      moreover have "\<forall>y \<in> set F0. fst y < f" using lay snoc x by (simp add: layout_snoc)
      ultimately have "\<forall>y \<in> set F. fst y < st_next s" using snoc x by (auto dest: less_trans)
      then show thesis using new seg by blast
    qed
  qed
qed

text \<open>Both cases as one: the segment is the last of a layout with the same records.\<close>

lemma segment_target:
  assumes core: "log_core F s d" and torn: "st_torn s = None"
  obtains F0 rs where "layout (st_next s) (F0 @ [(segment_for s (st_next s) n, rs)])"
    "frames (F0 @ [(segment_for s (st_next s) n, rs)]) = frames F" "all_entries (F0 @ [(segment_for s (st_next s) n, rs)]) = all_entries F"
    "\<And>g. g \<noteq> segment_for s (st_next s) n \<Longrightarrow> map_of (F0 @ [(segment_for s (st_next s) n, rs)]) g = map_of F g"
    "body_of F (segment_for s (st_next s) n) = body rs"
    "map_of F (segment_for s (st_next s) n) = Some rs \<or>
       map_of F (segment_for s (st_next s) n) = None \<and> rs = [] \<and> segment_for s (st_next s) n = st_next s"
    "\<forall>x \<in> set F. fst x \<le> segment_for s (st_next s) n"
    "\<And>zs. segment_sizes (F0 @ [(segment_for s (st_next s) n, zs)]) = bt_insert (segment_for s (st_next s) n) (length (body zs)) (segment_sizes F)"
proof -
  let ?f = "segment_for s (st_next s) n"
  have lay: "layout (st_next s) F" and wf: "bt_wf F" using core by (auto simp: log_core_def layout_def)
  have sizes: "segment_sizes (G @ [(?f, zs)]) = bt_insert ?f (length (body zs)) (segment_sizes F)"
    if "\<forall>x \<in> set G. fst x < ?f" "bt_wf G" "\<And>g. g \<noteq> ?f \<Longrightarrow> map_of G g = map_of F g" for G zs
  proof (rule bt_ext)
    show "bt_wf (segment_sizes (G @ [(?f, zs)]))" unfolding bt_wf_segment_sizes bt_wf_snoc using that(1,2) by simp
    show "bt_wf (bt_insert ?f (length (body zs)) (segment_sizes F))" using wf by simp
    have "map_of G ?f = None" using that(1) by (auto simp: map_of_eq_None_iff)
    then show "map_of (segment_sizes (G @ [(?f, zs)])) k = map_of (bt_insert ?f (length (body zs)) (segment_sizes F)) k" for k
      unfolding segment_sizes_get bt_get_insert using that(3) by (auto simp: map_add_def split: option.splits)
  qed
  from core show thesis
  proof (cases rule: segment_for_spec [where n = n])
    case (last F0 rs)
    then have b: "layout (st_next s) F0" "\<forall>x \<in> set F0. fst x < ?f" using lay by (auto simp: layout_snoc)
    then have none: "map_of F0 ?f = None" by (auto simp: map_of_eq_None_iff)
    then have get: "map_of F ?f = Some rs" by (subst last) (simp add: map_add_def)
    have other: "map_of F0 g = map_of F g" if "g \<noteq> ?f" for g
      using that by (subst last) (simp add: map_add_def split: option.split)
    show thesis
    proof (rule that [of F0 rs])
      show "\<forall>x \<in> set F. fst x \<le> ?f" using b(2) by (subst last) (auto intro: less_imp_le)
      show "segment_sizes (F0 @ [(?f, zs)]) = bt_insert ?f (length (body zs)) (segment_sizes F)" for zs
        by (rule sizes) (use b other in \<open>auto simp: layout_def\<close>)
    qed (use last lay get in \<open>simp_all only: body_of_def option.case simp_thms\<close>)
  next
    case new
    then have none: "map_of F ?f = None" by (auto simp: map_of_eq_None_iff)
    have l: "layout (st_next s) (F @ [(?f, [])])" by (rule layout_new_segment [OF lay]) (use new in auto)
    show thesis
    proof (rule that [of F "[]"])
      show "layout (st_next s) (F @ [(?f, [])])" by (rule l)
      show "\<forall>x \<in> set F. fst x \<le> ?f" using new by (auto intro: less_imp_le)
      show "segment_sizes (F @ [(?f, zs)]) = bt_insert ?f (length (body zs)) (segment_sizes F)" for zs
        by (rule sizes) (use new wf in auto)
      show "map_of (F @ [(?f, [])]) g = map_of F g" if "g \<noteq> ?f" for g
        using that by (simp add: map_add_def split: option.split)
      show "body_of F ?f = body []" using none by (simp add: body_of_def)
    qed (use none new(1) in auto)
  qed
qed

lemma mem_ok_push:
  assumes "mem_ok s"
  shows "mem_ok (push_entry now data pos s)"
  using assms by (cases "st_entries s") (auto simp: mem_ok_def push_entry_def Let_def entry_cost_def sorted_wrt_append front_or_def)

lemma push_entry_simps [simp]:
  "st_next (push_entry now data pos s) = Suc (st_next s)" "st_def (push_entry now data pos s) = st_def s"
  "st_segments (push_entry now data pos s) = st_segments s" "st_torn (push_entry now data pos s) = st_torn s"
  "st_retired (push_entry now data pos s) = st_retired s" "st_exported (push_entry now data pos s) = st_exported s"
  "st_reserved (push_entry now data pos s) = st_reserved s" "st_bytes (push_entry now data pos s) = st_bytes s + cost (length data)"
  "st_entries (push_entry now data pos s) =
     st_entries s @ [\<lparr>en_sequence = st_next s, en_appended_ms = now, en_len = length data, en_at = pos\<rparr>]"
  by (simp_all add: push_entry_def Let_def)

lemma push_entry_oldest: "mem_ok s \<Longrightarrow> st_oldest s \<le> st_oldest (push_entry now data pos s)"
  using mem_ok_push [of s now data pos] by (cases "st_entries s") (auto simp: mem_ok_def)

lemma files_ok_untorn: "st_torn s = None \<Longrightarrow>
    files_ok F s d \<longleftrightarrow> bt_wf (dk_segs d) \<and> (\<forall>g. map_of (dk_segs d) g = map_option body (map_of F g))"
  by (simp add: files_ok_def)

lemma write_framed_written:
  assumes core: "log_core F s d" and torn: "st_torn s = None" and fr: "frame_ok (st_next s, now, data)"
    and run: "write_framed (st_next s) now data s d = (s', d', Inr pos)"
  shows "\<exists>F'. log_core F' (push_entry now data pos s') d' \<and> frames F' = frames F @ [(st_next s, now, data)]
    \<and> dk_meta d' = dk_meta d \<and> keeps_messages s s'"
proof -
  let ?r = "(st_next s, now, data)" and ?f = "segment_for s (st_next s) (HEADER + length data)"
  obtain F0 rs where G: "layout (st_next s) (F0 @ [(?f, rs)])" "frames (F0 @ [(?f, rs)]) = frames F"
    "all_entries (F0 @ [(?f, rs)]) = all_entries F" "\<And>g. g \<noteq> ?f \<Longrightarrow> map_of (F0 @ [(?f, rs)]) g = map_of F g"
    "body_of F ?f = body rs" "map_of F ?f = Some rs \<or> map_of F ?f = None \<and> rs = [] \<and> ?f = st_next s"
    "\<forall>x \<in> set F. fst x \<le> ?f"
    "\<And>zs. segment_sizes (F0 @ [(?f, zs)]) = bt_insert ?f (length (body zs)) (segment_sizes F)"
    by (rule segment_target [OF core torn, of "HEADER + length data"]) (rule that)
  have segs: "st_segments s = segment_sizes F" and mem: "mem_ok s" and fo: "files_ok F s d"
    and suf: "suffix (st_entries s) (all_entries F)" using core by (auto simp: log_core_def)
  have off: "(case map_of (st_segments s) ?f of None \<Rightarrow> 0 | Some l \<Rightarrow> l) = length (body rs)"
    using G(6) by (auto simp: segs segment_sizes_get)
  have old: "(case map_of (dk_segs d) ?f of None \<Rightarrow> [] | Some c \<Rightarrow> c) = body rs"
    using fo G(6) by (auto simp: files_ok_untorn [OF torn])
  obtain io d1 where io: "sio_take d = (io, d1)" by fastforce
  note d1 = sio_take_frame [OF io]
  have s': "s' = s\<lparr>st_segments := bt_insert ?f (length (body rs) + (HEADER + length data)) (st_segments s)\<rparr>"
    and d': "d' = d1\<lparr>dk_segs := bt_insert ?f (body rs @ encode_record (st_next s) now data) (dk_segs d1)\<rparr>"
    and pos: "pos = OnDisk ?f (length (body rs))"
    using run by (auto simp: write_framed_def Let_def io off old split: if_splits prod.splits)
  let ?F = "F0 @ [(?f, rs @ [?r])]" and ?s = "push_entry now data pos s'"
  have keep: "keeps_messages s s'" by (simp add: s' keeps_messages_def)
  have lay: "layout (Suc (st_next s)) ?F" using layout_extend [OF G(1) fr] by simp
  have none: "map_of F0 ?f = None" using G(1) by (auto simp: layout_snoc map_of_eq_None_iff)
  have ents: "all_entries ?F = all_entries F @ [\<lparr>en_sequence = st_next s, en_appended_ms = now, en_len = length data, en_at = pos\<rparr>]"
    using G(3) by (simp add: entries_at_append pos)
  have sizes: "st_segments s' = segment_sizes ?F"
    by (simp only: s' G(8) segs) (simp add: length_enc)
  have "files_ok ?F ?s d'"
  proof (subst files_ok_untorn)
    have "map_of F0 g = map_of F g" if "g \<noteq> ?f" for g using G(4) [OF that] that by (simp add: map_add_def split: option.splits)
    then have "map_of (dk_segs d') g = map_option body (map_of ?F g)" for g
      using fo none d1 by (auto simp: d' files_ok_untorn [OF torn] map_add_def enc_def split: option.splits)
    then show "bt_wf (dk_segs d') \<and> (\<forall>g. map_of (dk_segs d') g = map_option body (map_of ?F g))"
      using fo d1 by (auto simp: d' files_ok_def)
  qed (simp add: s' torn)
  moreover have "mem_ok ?s" by (rule mem_ok_push) (simp add: mem_ok_keeps [OF keep] mem)
  moreover have "suffix (st_entries ?s) (all_entries ?F)" using suf ents by (simp add: s' suffix_def)
  ultimately have "log_core ?F ?s d'" using core lay sizes by (simp add: log_core_def s')
  moreover have "frames ?F = frames F @ [?r]" using G(2) by (simp add: frames_def)
  ultimately show ?thesis using keep d1 by (intro exI [of _ ?F]) (simp add: d')
qed

lemma torn_fileE:
  assumes "torn_file F s d f"
  obtains (absent) "map_of F f = None" "map_of (dk_segs d) f = None"
  | (part) r n where "frame_ok r" "frame_seq r = st_next s" "st_bytes s + cost (length (snd (snd r))) \<le> sd_max_size (st_def s)"
      "map_of (dk_segs d) f = Some (body_of F f @ take n (enc r))"
  using assms [unfolded torn_file_def]
proof (elim disjE exE conjE)
  assume "map_of F f = None" "map_of (dk_segs d) f = None"
  then show thesis by (rule absent)
next
  fix r n
  assume "frame_ok r" "frame_seq r = st_next s" "st_bytes s + cost (length (snd (snd r))) \<le> sd_max_size (st_def s)"
    "map_of (dk_segs d) f = Some (body_of F f @ take n (enc r))"
  then show thesis by (rule part)
qed

text \<open>An undo restores the tracked part of a file, or leaves it as it is, or cuts it and still reports failure.\<close>

lemma undo_write_ok:
  assumes core: "log_core F (s\<lparr>st_torn := Some (f, len)\<rparr>) d" and run: "undo_write f len d = (d', ok)"
  shows "(if ok then log_core F (s\<lparr>st_torn := None\<rparr>) d' else log_core F (s\<lparr>st_torn := Some (f, len)\<rparr>) d') \<and> dk_meta d' = dk_meta d"
proof -
  let ?s = "s\<lparr>st_torn := Some (f, len)\<rparr>"
  obtain io d1 where io: "sio_take d = (io, d1)" by fastforce
  note d1 = sio_take_frame [OF io]
  have fo: "bt_wf (dk_segs d)" "\<And>g. g \<noteq> f \<Longrightarrow> map_of (dk_segs d) g = map_option body (map_of F g)"
    "len = map_option (length \<circ> body) (map_of F f)" "torn_file F ?s d f" "files_ok F ?s d"
    using core by (auto simp: log_core_def files_ok_def)
  have rest: "log_core F (s\<lparr>st_torn := t\<rparr>) x \<longleftrightarrow> files_ok F (s\<lparr>st_torn := t\<rparr>) x" for t x
    using core by (simp add: log_core_def mem_ok_def)
  show ?thesis
  proof (cases "map_of F f")
    case None
    then have len: "len = None" using fo(3) by simp
    show ?thesis
    proof (cases "io = SioOk")
      case True
      then have "d' = d1\<lparr>dk_segs := bt_remove f (dk_segs d1)\<rparr>" "ok" using run len io by (auto simp: undo_write_def)
      then show ?thesis using fo None d1 by (auto simp: rest files_ok_def)
    next
      case False
      then have "d' = d1" "\<not> ok" using run len io by (auto simp: undo_write_def)
      then show ?thesis using core d1 log_core_segs [of d1 d] by simp
    qed
  next
    case (Some rs)
    then have len: "len = Some (length (body rs))" using fo(3) by simp
    obtain r n where r: "frame_ok r" "frame_seq r = st_next s" "st_bytes s + cost (length (snd (snd r))) \<le> sd_max_size (st_def s)"
      and c: "map_of (dk_segs d) f = Some (body rs @ take n (enc r))"
    proof (rule torn_fileE [OF fo(4)], goal_cases)
      case 1
      then show ?case using Some by simp
    next
      case (2 r n)
      moreover have "body_of F f = body rs" using Some by (simp add: body_of_def)
      ultimately show ?case using 2(1) by simp
    qed
    let ?cut = "d1\<lparr>dk_segs := bt_insert f (body rs) (dk_segs d1)\<rparr>"
    consider "d' = d1" "\<not> ok" | "d' = ?cut"
      using run io c d1 by (cases io) (auto simp: undo_write_def len)
    then show ?thesis
    proof cases
      case 1
      then show ?thesis using core d1 log_core_segs [of d1 d] by simp
    next
      case 2
      have "map_of (dk_segs ?cut) f = Some (body_of F f @ take 0 (enc r))" using Some by (simp add: body_of_def)
      then have "torn_file F ?s ?cut f" unfolding torn_file_def using r by fastforce
      then have "files_ok F ?s ?cut" using fo d1 by (simp add: files_ok_def)
      moreover have "files_ok F (s\<lparr>st_torn := None\<rparr>) ?cut" using fo d1 Some by (auto simp: files_ok_def)
      ultimately show ?thesis using 2 d1 rest by simp
    qed
  qed
qed

lemma write_framed_failed:
  assumes core: "log_core F s d" and torn: "st_torn s = None" and fr: "frame_ok (st_next s, now, data)"
    and fits: "st_bytes s + cost (length data) \<le> sd_max_size (st_def s)"
    and run: "write_framed (st_next s) now data s d = (s', d', Inl e)"
  shows "log_core F s' d' \<and> keeps_messages s s' \<and> dk_meta d' = dk_meta d"
proof -
  let ?r = "(st_next s, now, data)" and ?f = "segment_for s (st_next s) (HEADER + length data)"
  let ?tracked = "map_of (st_segments s) ?f"
  obtain F0 rs where G: "layout (st_next s) (F0 @ [(?f, rs)])" "frames (F0 @ [(?f, rs)]) = frames F"
    "all_entries (F0 @ [(?f, rs)]) = all_entries F" "\<And>g. g \<noteq> ?f \<Longrightarrow> map_of (F0 @ [(?f, rs)]) g = map_of F g"
    "body_of F ?f = body rs" "map_of F ?f = Some rs \<or> map_of F ?f = None \<and> rs = [] \<and> ?f = st_next s"
    "\<forall>x \<in> set F. fst x \<le> ?f"
    "\<And>zs. segment_sizes (F0 @ [(?f, zs)]) = bt_insert ?f (length (body zs)) (segment_sizes F)"
    by (rule segment_target [OF core torn, of "HEADER + length data"]) (rule that)
  have segs: "st_segments s = segment_sizes F" and fo: "bt_wf (dk_segs d)" "\<And>g. map_of (dk_segs d) g = map_option body (map_of F g)"
    using core files_ok_untorn [OF torn] by (auto simp: log_core_def)
  have off: "(case ?tracked of None \<Rightarrow> 0 | Some l \<Rightarrow> l) = length (body rs)"
    using G(6) by (auto simp: segs segment_sizes_get)
  have old: "(case map_of (dk_segs d) ?f of None \<Rightarrow> [] | Some c \<Rightarrow> c) = body rs" using fo(2) G(6) by auto
  have tracked: "?tracked = map_option (length \<circ> body) (map_of F ?f)" by (simp add: segs segment_sizes_get)
  obtain io d1 where io: "sio_take d = (io, d1)" by fastforce
  note d1 = sio_take_frame [OF io]
  define d2 where "d2 = (case io of SioPartial n \<Rightarrow>
      d1\<lparr>dk_segs := bt_insert ?f (body rs @ take n (encode_record (st_next s) now data)) (dk_segs d1)\<rparr> | _ \<Rightarrow> d1)"
  obtain d3 undone where undo: "undo_write ?f ?tracked d2 = (d3, undone)" by fastforce
  have out: "s' = (if undone then s else s\<lparr>st_torn := Some (?f, ?tracked)\<rparr>)" "d' = d3"
    using run undo unfolding d2_def by (auto simp: write_framed_def Let_def io off old split: if_splits sio.splits)
  have "torn_file F (s\<lparr>st_torn := Some (?f, ?tracked)\<rparr>) d2 ?f"
  proof (cases "map_of (dk_segs d2) ?f")
    case None
    then have "map_of F ?f = None" using fo(2) [of ?f] d1 by (cases io) (auto simp: d2_def)
    then show ?thesis using None by (simp add: torn_file_def)
  next
    case (Some c)
    have "\<exists>n. c = body rs @ take n (enc ?r)"
    proof (cases io)
      case (SioPartial n)
      then show ?thesis using Some by (auto simp: d2_def enc_def)
    qed (use Some fo(2) [of ?f] d1 G(6) in \<open>auto simp: d2_def intro!: exI [of _ 0]\<close>)
    then obtain n where "map_of (dk_segs d2) ?f = Some (body_of F ?f @ take n (enc ?r))" using Some G(5) by auto
    moreover have "frame_seq ?r = st_next (s\<lparr>st_torn := Some (?f, ?tracked)\<rparr>)" by simp
    moreover have "st_bytes (s\<lparr>st_torn := Some (?f, ?tracked)\<rparr>) + cost (length (snd (snd ?r)))
      \<le> sd_max_size (st_def (s\<lparr>st_torn := Some (?f, ?tracked)\<rparr>))" using fits by simp
    ultimately show ?thesis unfolding torn_file_def using fr by blast
  qed
  moreover have "map_of (dk_segs d2) g = map_option body (map_of F g)" if "g \<noteq> ?f" for g
    using fo(2) that d1 by (cases io) (auto simp: d2_def)
  moreover have "bt_wf (dk_segs d2)" using fo(1) d1 by (cases io) (auto simp: d2_def)
  moreover have "map_of F ?f = None \<longrightarrow> ?f = st_next s" using G(6) by auto
  ultimately have "files_ok F (s\<lparr>st_torn := Some (?f, ?tracked)\<rparr>) d2"
    unfolding files_ok_def using G(7) tracked by simp
  then have "log_core F (s\<lparr>st_torn := Some (?f, ?tracked)\<rparr>) d2" using core by (simp add: log_core_def mem_ok_def)
  moreover have "s\<lparr>st_torn := None\<rparr> = s" using torn by (cases s) simp
  ultimately have "log_core F s' d' \<and> dk_meta d' = dk_meta d2"
    using undo_write_ok [OF _ undo, of F s] out by (auto split: if_splits)
  moreover have "dk_meta d2 = dk_meta d" using d1 by (cases io) (auto simp: d2_def)
  ultimately show ?thesis using out by (auto simp: keeps_messages_def)
qed

text \<open>\<open>append_record\<close>, with the undo of an earlier failure first.\<close>

lemma append_record_ok:
  assumes core: "log_core F s d" and fr: "frame_ok (st_next s, now, data)"
    and fits: "st_bytes s + cost (length data) \<le> sd_max_size (st_def s)"
    and run: "append_record (st_next s) now data s d = (s', d', r)"
  shows "dk_meta d' = dk_meta d \<and> keeps_messages s s' \<and> (case r of
     Inl _ \<Rightarrow> log_core F s' d'
   | Inr pos \<Rightarrow> \<exists>F'. log_core F' (push_entry now data pos s') d' \<and> frames F' = frames F @ [(st_next s, now, data)])"
proof -
  have framed: ?thesis if "log_core F t x" "st_torn t = None" "keeps_messages s t" "dk_meta x = dk_meta d"
    "write_framed (st_next t) now data t x = (s', d', r)" for t x
  proof -
    have t: "st_next t = st_next s" "st_bytes t = st_bytes s" "st_def t = st_def s" using that(3) by (auto simp: keeps_messages_def)
    show ?thesis
    proof (cases r)
      case (Inl e)
      from write_framed_failed [OF that(1,2) _ _ that(5) [unfolded Inl]] fr fits t
      have "log_core F s' d' \<and> keeps_messages t s' \<and> dk_meta d' = dk_meta x" by simp
      then show ?thesis using Inl that keeps_messages_trans by auto
    next
      case (Inr pos)
      from write_framed_written [OF that(1,2) _ that(5) [unfolded Inr]] fr t obtain F' where
        "log_core F' (push_entry now data pos s') d'" "frames F' = frames F @ [(st_next s, now, data)]"
        "dk_meta d' = dk_meta x" "keeps_messages t s'" by auto
      then show ?thesis using Inr that keeps_messages_trans by auto
    qed
  qed
  show ?thesis
  proof (cases "st_torn s")
    case None
    then show ?thesis using framed [OF core] run by (simp add: append_record_def)
  next
    case (Some t)
    obtain f len where t: "t = (f, len)" by fastforce
    obtain d1 ok where undo: "undo_write f len d = (d1, ok)" by fastforce
    have "s\<lparr>st_torn := Some (f, len)\<rparr> = s" using Some t by (cases s) simp
    with undo_write_ok [OF _ undo, of F s] core
    have u: "if ok then log_core F (s\<lparr>st_torn := None\<rparr>) d1 else log_core F s d1" "dk_meta d1 = dk_meta d" by metis+
    show ?thesis
    proof (cases ok)
      case True
      have "keeps_messages s (s\<lparr>st_torn := None\<rparr>)" by (simp add: keeps_messages_def)
      then show ?thesis using framed [of "s\<lparr>st_torn := None\<rparr>" d1] run Some t undo True u by (simp add: append_record_def)
    next
      case False
      then have "s' = s" "d' = d1" "r = Inl SUnavailable" using run Some t undo by (auto simp: append_record_def)
      then show ?thesis using u False by simp
    qed
  qed
qed

end
