(* ===== verification/StreamRun.thy ===== *)
theory StreamRun
  imports StreamLog
begin

text \<open>
  Runs of a stream: appending, reading, acknowledging and closing keep memory and directory in
  agreement under every pattern of I/O failures, loading restores the agreement from the directory
  alone, and hence sequence numbers are never handed out twice, crashes included.
\<close>

section \<open>Appending\<close>

lemma log_core_cong:
  assumes eq: "st_entries s' = st_entries s" "st_bytes s' = st_bytes s" "st_next s' = st_next s" "st_oldest s' = st_oldest s"
    "st_def s' = st_def s" "st_retired s' = st_retired s" "st_torn s' = st_torn s" "st_segments s' = st_segments s"
  shows "log_core F s' d = log_core F s d"
proof -
  have t: "torn_file F s' d = torn_file F s d" by (rule ext) (simp only: torn_file_def eq)
  have "mem_ok s' = mem_ok s" by (simp add: mem_ok_def eq)
  moreover have "files_ok F s' d = files_ok F s d"
    by (cases "st_torn s") (simp_all only: files_ok_def eq t option.case split: prod.split)
  ultimately show ?thesis by (simp add: log_core_def eq)
qed

lemma log_core_counters:
  "log_core F (s\<lparr>st_reserved := n\<rparr>) d = log_core F s d" "log_core F (s\<lparr>st_exported := x\<rparr>) d = log_core F s d"
  by (rule log_core_cong; simp)+

lemma log_ok_keeps:
  assumes "keeps_messages s s'" and "st_torn s' = st_torn s" and "st_segments s' = st_segments s"
  shows "log_ok F s' d = log_ok F s d"
proof -
  have "meta_ok F s' d = meta_ok F s d" using assms(1) by (simp add: keeps_messages_def meta_ok_def meta_covers_def)
  moreover have "st_bytes s' = st_bytes s" "st_def s' = st_def s" using assms(1) by (auto simp: keeps_messages_def)
  moreover have "log_core F s' d = log_core F s d"
    by (rule log_core_cong) (use assms in \<open>auto simp: keeps_messages_def\<close>)
  ultimately show ?thesis by (simp add: log_ok_def)
qed

lemma log_okD:
  assumes "log_ok F s d"
  shows "mem_ok s" "\<not> st_retired s" "sd_persistence (st_def s) = PFile" "log_core F s d" "st_next s \<le> st_reserved s"
    "st_bytes s \<le> sd_max_size (st_def s)"
  using assms by (auto simp: log_ok_def log_core_def meta_ok_def meta_covers_def)

lemma make_room_ok:
  assumes "log_ok F s d" and "n \<le> sd_max_size (st_def s)"
  shows "case make_room n s of
      Inl (e, s') \<Rightarrow> log_ok F s' d \<and> st_next s' = st_next s \<and> e = SFull
    | Inr s' \<Rightarrow> evicts s s' \<and> st_bytes s' + n \<le> sd_max_size (st_def s')"
proof -
  note mem = log_okD(1) [OF assms(1)]
  obtain s' where s': "evict_until (sd_max_size (st_def s) - n) s = Some s'" "evicts s s'" "st_bytes s' \<le> sd_max_size (st_def s) - n"
    using evict_until_spec [OF mem] by blast
  have "log_ok F (s\<lparr>st_rejected := st_rejected s + 1\<rparr>) d = log_ok F s d"
    by (rule log_ok_keeps) (auto simp: keeps_messages_def)
  moreover have "st_def s' = st_def s" using s'(2) by (simp add: evicts_def same_rest_def)
  ultimately show ?thesis using assms s' evicts_refl [OF mem] by (auto simp: make_room_def)
qed

lemma reserve_ok:
  assumes ok: "log_ok F s d" and run: "reserve s d = (s', d', b)"
  shows "log_ok F s' d' \<and> st_next s' = st_next s \<and> st_def s' = st_def s \<and> st_bytes s' = st_bytes s \<and> st_exported s' = st_exported s
    \<and> (b \<longrightarrow> (\<exists>m. dk_meta d' = MetaFile m \<and> meta_covers F s' m \<and> st_next s' < st_reserved s' \<and> st_next s' < mt_next_floor m))"
proof (cases "st_next s + 1 > st_reserved s")
  case False
  obtain m where "dk_meta d = MetaFile m" "meta_covers F s m" using ok by (auto simp: log_ok_def meta_ok_def)
  then show ?thesis using False ok run by (auto simp: reserve_def meta_covers_def)
next
  case True
  let ?s = "s\<lparr>st_reserved := st_next s + RESERVE\<rparr>"
  note o = log_okD [OF ok]
  obtain d1 sv where save: "save_meta ?s d = (d1, sv)" by fastforce
  then have d1: "dk_segs d1 = dk_segs d" "dk_meta d1 = dk_meta d \<or> dk_meta d1 = MetaFile (meta_of ?s)"
    "sv \<Longrightarrow> dk_meta d1 = MetaFile (meta_of ?s)" using write_meta_frame by (auto simp: save_meta_def)
  have core: "log_core F s d1" using o(4) log_core_segs [OF d1(1)] by simp
  have cov: "meta_covers F ?s (meta_of ?s)" by (rule meta_of_covers) (use o in auto)
  then have "meta_covers F s (meta_of ?s)" using o True by (auto simp: meta_covers_def)
  then have "meta_ok F s d1" using ok d1(2) by (auto simp: log_ok_def meta_ok_def)
  then have keep: "log_ok F s d1" using core o by (simp add: log_ok_def)
  show ?thesis
  proof (cases sv)
    case False
    then show ?thesis using run save True keep by (auto simp: reserve_def Let_def)
  next
    case sv: True
    then have out: "s' = ?s" "d' = d1" using run save True by (auto simp: reserve_def Let_def)
    have "log_ok F ?s d1" using core o cov d1(3) sv by (auto simp: log_ok_def meta_ok_def log_core_counters)
    moreover have "st_next s < mt_next_floor (meta_of ?s)" by (simp add: meta_of_def RESERVE_def)
    ultimately show ?thesis using out cov d1(3) sv by (auto simp: RESERVE_def)
  qed
qed

lemma place_record_ok:
  assumes ok: "log_ok F s d" and fr: "frame_ok (st_next s, now, data)"
    and fits: "st_bytes s + cost (length data) \<le> sd_max_size (st_def s)"
    and m: "dk_meta d = MetaFile m" "meta_covers F s m" "st_next s < st_reserved s" "st_next s < mt_next_floor m"
    and run: "place_record now data s d = (s', d', r)"
  shows "st_next s' = st_next s \<and> st_def s' = st_def s \<and> st_exported s' = st_exported s \<and>
    (case r of Inl _ \<Rightarrow> log_ok F s' d' | Inr pos \<Rightarrow>
       \<exists>F'. log_ok F' (push_entry now data pos s') d' \<and> frames F' = frames F @ [(st_next s, now, data)])"
proof -
  note o = log_okD [OF ok]
  have w: "append_record (st_next s) now data s d = (s', d', r)" using run o(3) by (simp add: place_record_def)
  note res = append_record_ok [OF o(4) fr fits w]
  have keep: "keeps_messages s s'" and meta: "dk_meta d' = MetaFile m" using res m(1) by auto
  then have eq: "st_entries s' = st_entries s" "st_bytes s' = st_bytes s" "st_next s' = st_next s" "st_oldest s' = st_oldest s"
    "st_exported s' = st_exported s" "st_reserved s' = st_reserved s" "st_def s' = st_def s" by (auto simp: keeps_messages_def)
  show ?thesis
  proof (cases r)
    case (Inl e)
    have "meta_covers F s' m" using m(2) by (simp add: meta_covers_def eq)
    moreover have "log_core F s' d'" using Inl res by simp
    ultimately have "log_ok F s' d'" using meta o(6) by (simp add: log_ok_def meta_ok_def eq)
    then show ?thesis using Inl eq by simp
  next
    case (Inr pos)
    then obtain F' where F': "log_core F' (push_entry now data pos s') d'" "frames F' = frames F @ [(st_next s, now, data)]"
      using res by auto
    have mem: "mem_ok s'" using o(1) mem_ok_keeps [OF keep] by simp
    have "meta_covers F' (push_entry now data pos s') m"
      using m(2-4) push_entry_oldest [OF mem, of now data pos] by (auto simp: meta_covers_def eq)
    then have "log_ok F' (push_entry now data pos s') d'" using F' meta fits eq by (auto simp: log_ok_def meta_ok_def)
    then show ?thesis using Inr eq F'(2) by auto
  qed
qed

lemma drop_dead_error: "drop_dead fs s d = (s', d', Inl e) \<Longrightarrow> e = SIo"
  by (induction fs s d rule: drop_dead.induct) (auto split: prod.splits if_splits)

lemma write_framed_error: "write_framed q now data s d = (s', d', Inl e) \<Longrightarrow> e = SIo"
  by (auto simp: write_framed_def Let_def split: prod.splits if_splits)

lemma place_record_error: "place_record now data s d = (s', d', Inl e) \<Longrightarrow> e = SIo \<or> e = SUnavailable"
  by (auto simp: place_record_def append_record_def dest: write_framed_error
      split: persistence.splits option.splits prod.splits if_splits)

section \<open>Loading\<close>

text \<open>The segment files of a directory: the records of each, and at the very end some more bytes.\<close>

fun seal :: "records \<Rightarrow> string \<Rightarrow> (nat, string) btree" where
  "seal [] T = []"
| "seal [(f, rs)] T = [(f, body rs @ T)]"
| "seal ((f, rs) # x # G) T = (f, body rs) # seal (x # G) T"

lemma seal_snoc: "seal (G @ [(f, rs)]) T = map (\<lambda>(f, rs). (f, body rs)) G @ [(f, body rs @ T)]"
  by (induction G "T" rule: seal.induct) auto

lemma seal_plain: "seal G [] = map (\<lambda>(f, rs). (f, body rs)) G"
  by (induction G "[] :: string" rule: seal.induct) auto

lemma keys_seal [simp]: "map fst (seal G T) = map fst G"
  by (induction G T rule: seal.induct) auto

lemma bt_wf_seal [simp]: "bt_wf (seal G T) \<longleftrightarrow> bt_wf G"
  by (simp add: bt_wf_def)

lemma seal_get: "map_of (seal G []) g = map_option body (map_of G g)"
  by (simp add: seal_plain bt_get_map_snd [of "\<lambda>_. body"])

definition tail_ok :: "string \<Rightarrow> bool" where
  "tail_ok T \<longleftrightarrow> T = [] \<or> (\<exists>r n. frame_ok r \<and> n < length (enc r) \<and> T = take n (enc r))"

lemma tail_ok_parse: "tail_ok T \<Longrightarrow> parse_record l T = None"
  by (auto simp: tail_ok_def parse_record_torn) (simp add: parse_record_def HEADER_def)

lemma bt_insert_snoc: "\<forall>x \<in> set m. fst x < k \<Longrightarrow> bt_insert k v m = m @ [(k, v)]"
  by (induction k v m rule: bt_insert.induct) auto

abbreviation kept :: "nat \<Rightarrow> records \<Rightarrow> entry list" where
  "kept old G \<equiv> filter (\<lambda>e. old \<le> en_sequence e) (all_entries G)"

definition loaded :: "nat \<Rightarrow> records \<Rightarrow> stream \<Rightarrow> stream" where
  "loaded old G s = s\<lparr>st_entries := st_entries s @ kept old G, st_bytes := st_bytes s + total_cost (kept old G),
     st_segments := st_segments s @ segment_sizes G\<rparr>"

text \<open>Scanning the files finds the records and cuts off what follows them.\<close>

lemma load_segments_seal:
  assumes "layout n (P @ G)" and "tail_ok T" and "\<forall>r \<in> set (frames G). above l (frame_seq r)"
    and "\<not> st_retired s" and "bt_keys (st_segments s) = bt_keys P"
    and "load_segments True old (seal G T) l s d = (s', d', l', ok)"
  shows "dk_meta d' = dk_meta d \<and>
    (dk_segs d' = dk_segs d \<and> (T = [] \<or> G = [] \<or> \<not> ok) \<or>
     G \<noteq> [] \<and> dk_segs d' = bt_insert (fst (last G)) (body (snd (last G))) (dk_segs d)) \<and>
    (ok \<longrightarrow> s' = loaded old G s \<and> l' = last_of l (frames G)) \<and> (dk_io d = [] \<longrightarrow> ok \<and> dk_io d' = [])"
  using assms
proof (induction G T arbitrary: P l s d rule: seal.induct)
  case (1 T)
  then show ?case by (cases s) (auto simp: loaded_def last_of_def)
next
  case (2 f rs T)
  obtain io d1 where io: "sio_take d = (io, d1)" by fastforce
  note d1 = sio_take_frame [OF io]
  have lay: "sorted_wrt (<) (map frame_seq rs)" "\<forall>r \<in> set rs. frame_ok r" "\<forall>x \<in> set P. fst x < f"
    using 2(1) by (auto simp: layout_snoc)
  have scan: "scan_segment f old 0 l (body rs @ T) = (length (body rs), last_of l rs, filter (\<lambda>e. old \<le> en_sequence e) (entries_at f 0 rs))"
    using scan_segment_frames [of rs l T f old 0] lay 2(3) tail_ok_parse [OF 2(2)] by (simp add: body_def)
  have track: "bt_insert f x (st_segments s) = st_segments s @ [(f, x)]" for x
    using 2(5) lay(3) by (intro bt_insert_snoc) (metis (no_types, opaque_lifting) image_iff list.set_map)
  have ioe: "dk_io d = [] \<Longrightarrow> io = SioOk \<and> dk_io d1 = []" using io by (auto simp: sio_take_def)
  show ?case
  proof (cases "io = SioOk")
    case False
    then show ?thesis using 2(6) io d1 ioe by auto
  next
    case True
    obtain io2 d2 where io2: "sio_take d1 = (io2, d2)" by fastforce
    note d2 = sio_take_frame [OF io2]
    have ioe2: "dk_io d1 = [] \<Longrightarrow> io2 = SioOk \<and> dk_io d2 = []" using io2 by (auto simp: sio_take_def)
    show ?thesis
      using 2(4,6) True io d1 ioe io2 d2 ioe2 track
      by (cases io2) (auto simp: load_segment_def scan Let_def loaded_def total_cost_def split: if_splits)
  qed
next
  case (3 f rs x G T)
  obtain io d1 where io: "sio_take d = (io, d1)" by fastforce
  note d1 = sio_take_frame [OF io]
  have lay: "sorted_wrt (<) (map frame_seq rs)" "\<forall>r \<in> set rs. frame_ok r" "\<forall>y \<in> set P. fst y < f"
    using 3(2) by (auto simp: layout_def sorted_wrt_append bt_wf_def)
  have scan: "scan_segment f old 0 l (body rs) = (length (body rs), last_of l rs, filter (\<lambda>e. old \<le> en_sequence e) (entries_at f 0 rs))"
    using scan_segment_frames [of rs l "[]" f old 0] lay 3(4) tail_ok_parse [of "[]"] by (simp add: body_def tail_ok_def)
  have track: "bt_insert f y (st_segments s) = st_segments s @ [(f, y)]" for y
    using 3(6) lay(3) by (intro bt_insert_snoc) (metis (no_types, opaque_lifting) image_iff list.set_map)
  have ioe: "dk_io d = [] \<Longrightarrow> io = SioOk \<and> dk_io d1 = []" using io by (auto simp: sio_take_def)
  let ?s = "loaded old [(f, rs)] s"
  show ?case
  proof (cases "io = SioOk")
    case False
    then show ?thesis using 3(7) io d1 ioe by auto
  next
    case True
    have one: "load_segment True old False f (body rs) l s d1 = (?s, d1, last_of l rs, True)"
      by (simp add: load_segment_def scan loaded_def track total_cost_def)
    have ne: "seal (x # G) T \<noteq> []" by (metis keys_seal list.discI list.map_disc_iff)
    have run: "load_segments True old (seal (x # G) T) (last_of l rs) ?s d1 = (s', d', l', ok)"
      using 3(7) True io one ne by simp
    have a: "layout n ((P @ [(f, rs)]) @ x # G)" using 3(2) by simp
    have b: "\<forall>r \<in> set (frames (x # G)). above (last_of l rs) (frame_seq r)"
    proof
      fix r assume r: "r \<in> set (frames (x # G))"
      have "sorted_wrt (<) (map frame_seq (rs @ frames (x # G)))" using 3(2) by (auto simp: layout_def sorted_wrt_append)
      then show "above (last_of l rs) (frame_seq r)"
        using r 3(4) by (cases "rs = []") (auto simp: last_of_def above_def sorted_wrt_append)
    qed
    have k: "bt_keys (st_segments ?s) = bt_keys (P @ [(f, rs)])" using 3(6) by (simp add: loaded_def)
    have "\<not> st_retired ?s" using 3(5) by (simp add: loaded_def)
    note 3(1) [OF a 3(3) b this k run]
    moreover have "loaded old (x # G) ?s = loaded old ((f, rs) # x # G) s"
      by (cases s) (simp add: loaded_def add.assoc all_entries_def segment_sizes_def)
    moreover have "last_of (last_of l rs) (frames (x # G)) = last_of l (frames ((f, rs) # x # G))"
      by (auto simp: last_of_def)
    ultimately show ?thesis using d1 ioe by simp
  qed
qed

text \<open>The directory of a consistent stream has this form; a completely written torn record counts.\<close>

lemma last_key:
  assumes "bt_wf F" and "\<forall>x \<in> set F. fst x \<le> f" and "map_of F f = Some rs"
  obtains F0 where "F = F0 @ [(f, rs)]"
proof (cases F rule: rev_cases)
  case (snoc F0 x)
  obtain g zs where x: "x = (g, zs)" by fastforce
  have lt: "\<forall>y \<in> set F0. fst y < g" using assms(1) snoc x by (auto simp: bt_wf_snoc)
  have mem: "(f, rs) \<in> set F" using assms(3) by (rule map_of_SomeD)
  have "g = f" using mem lt assms(2) snoc x by fastforce
  then have "zs = rs" using mem lt snoc x by auto
  then show thesis using that snoc x \<open>g = f\<close> by blast
qed (use assms in auto)

lemma seal_snoc_get:
  assumes "\<forall>x \<in> set F0. fst x < f"
  shows "map_of (seal (F0 @ [(f, rs)]) T) g = (if g = f then Some (body rs @ T) else map_option body (map_of F0 g))"
proof -
  have "map_of F0 f = None" using assms by (auto simp: map_of_eq_None_iff)
  then show ?thesis
    by (simp add: seal_snoc bt_get_map_snd [of "\<lambda>_. body"] map_add_def split: option.split)
qed

lemma next_after_snoc [simp]: "next_after (F @ [(f, rs @ [r])]) = Suc (frame_seq r)"
  by (simp add: next_after_def last_of_def)

lemma next_after_frames: "frames F = frames G \<Longrightarrow> next_after F = next_after G"
  by (simp add: next_after_def)

lemma next_after_le: "layout n F \<Longrightarrow> next_after F \<le> n"
  using layout_frames [of n F "last (frames F)"] by (auto simp: next_after_def last_of_def)

definition stored :: "records \<Rightarrow> string \<Rightarrow> entry list \<Rightarrow> records \<Rightarrow> stream \<Rightarrow> sdisk \<Rightarrow> bool" where
  "stored G T X F s d \<longleftrightarrow> dk_segs d = seal G T \<and> tail_ok T \<and> layout (max (st_next s) (next_after G)) G
     \<and> all_entries G = all_entries F @ X \<and> st_bytes s + total_cost X \<le> sd_max_size (st_def s) \<and> next_after F \<le> next_after G
     \<and> (\<forall>x \<in> set X. st_next s \<le> en_sequence x)"

lemma stored_plain:
  assumes "layout (st_next s) F" and "st_bytes s \<le> sd_max_size (st_def s)"
    and "bt_wf (dk_segs d)" and "\<And>g. map_of (dk_segs d) g = map_option body (map_of F g)"
  shows "stored F [] [] F s d"
proof -
  have "dk_segs d = seal F []" by (rule bt_ext) (use assms in \<open>auto simp: seal_get layout_def\<close>)
  then show ?thesis using assms layout_mono by (auto simp: stored_def tail_ok_def)
qed

lemma stored_torn:
  assumes lay: "layout (st_next s) (F0 @ [(f, rs)])" and ents: "all_entries (F0 @ [(f, rs)]) = all_entries F"
    and same: "frames (F0 @ [(f, rs)]) = frames F"
    and bytes: "st_bytes s + cost (length (snd (snd r))) \<le> sd_max_size (st_def s)"
    and wf: "bt_wf (dk_segs d)" and others: "\<And>g. g \<noteq> f \<Longrightarrow> map_of (dk_segs d) g = map_option body (map_of F0 g)"
    and r: "frame_ok r" "frame_seq r = st_next s" and c: "map_of (dk_segs d) f = Some (body rs @ take n (enc r))"
  shows "\<exists>G T X. stored G T X F s d"
proof -
  have lt: "\<forall>x \<in> set F0. fst x < f" using lay by (simp add: layout_snoc)
  have na: "next_after (F0 @ [(f, rs)]) = next_after F" by (rule next_after_frames [OF same])
  show ?thesis
  proof (cases "n < length (enc r)")
    case True
    have "dk_segs d = seal (F0 @ [(f, rs)]) (take n (enc r))"
    proof (rule bt_ext [OF wf])
      show "bt_wf (seal (F0 @ [(f, rs)]) (take n (enc r)))" using lay by (simp add: layout_def)
      show "map_of (dk_segs d) k = map_of (seal (F0 @ [(f, rs)]) (take n (enc r))) k" for k
        using others c by (simp add: seal_snoc_get [OF lt])
    qed
    moreover have "tail_ok (take n (enc r))" using r(1) True unfolding tail_ok_def by blast
    moreover have "layout (max (st_next s) (next_after F)) (F0 @ [(f, rs)])" using layout_mono [OF lay] by simp
    ultimately have "stored (F0 @ [(f, rs)]) (take n (enc r)) [] F s d"
      unfolding stored_def na using ents bytes by simp
    then show ?thesis by blast
  next
    case False
    let ?G = "F0 @ [(f, rs @ [r])]"
    let ?X = "entries_at f (length (body rs)) [r]"
    have lG: "layout (Suc (st_next s)) ?G" using layout_extend [OF lay r(1)] r(2) by simp
    have "dk_segs d = seal ?G []"
    proof (rule bt_ext [OF wf])
      show "bt_wf (seal ?G [])" using lG by (simp add: layout_def)
      show "map_of (dk_segs d) k = map_of (seal ?G []) k" for k
        using others c False by (simp add: seal_snoc_get [OF lt])
    qed
    moreover have "all_entries ?G = all_entries F @ ?X" using ents by (simp add: entries_at_append)
    moreover have "next_after F \<le> st_next s" using next_after_le [OF lay] na by simp
    moreover have "total_cost ?X = cost (length (snd (snd r)))" by (cases r) (simp add: entry_cost_def)
    moreover have "\<forall>x \<in> set ?X. st_next s \<le> en_sequence x" using r(2) by (cases r) simp
    ultimately have "stored ?G [] ?X F s d"
      unfolding stored_def using bytes lG r(2) by (simp add: tail_ok_def max_def)
    then show ?thesis by blast
  qed
qed

lemma log_ok_stored:
  assumes ok: "log_ok F s d"
  shows "\<exists>G T X. stored G T X F s d"
proof -
  have lay: "layout (st_next s) F" and fo: "files_ok F s d" and b: "st_bytes s \<le> sd_max_size (st_def s)"
    using ok by (auto simp: log_ok_def log_core_def)
  have wf: "bt_wf (dk_segs d)" using fo by (simp add: files_ok_def)
  show ?thesis
  proof (cases "st_torn s")
    case None
    then have "stored F [] [] F s d" using stored_plain [OF lay b wf] fo by (simp add: files_ok_def)
    then show ?thesis by blast
  next
    case (Some t)
    obtain f len where t: "t = (f, len)" by fastforce
    have o: "\<And>g. g \<noteq> f \<Longrightarrow> map_of (dk_segs d) g = map_option body (map_of F g)" and le: "\<forall>x \<in> set F. fst x \<le> f"
      and new: "map_of F f = None \<Longrightarrow> f = st_next s" and tf: "torn_file F s d f"
      using fo Some t by (auto simp: files_ok_def)
    from tf show ?thesis
    proof (cases rule: torn_fileE)
      case absent
      then have "map_of (dk_segs d) g = map_option body (map_of F g)" for g using o by (cases "g = f") auto
      then have "stored F [] [] F s d" by (rule stored_plain [OF lay b wf])
      then show ?thesis by blast
    next
      case (part r n)
      show ?thesis
      proof (cases "map_of F f")
        case None
        have lt: "\<forall>x \<in> set F. fst x < f" using le None by (metis bt_has_iff imageI le_neq_implies_less)
        have l: "layout (st_next s) (F @ [(f, [])])" by (rule layout_new_segment [OF lay lt]) (use new None in auto)
        show ?thesis
          by (rule stored_torn [OF l _ _ part(3) wf o part(1,2)]) (use part(4) None in \<open>auto simp: body_of_def\<close>)
      next
        case (Some rs)
        obtain F0 where F0: "F = F0 @ [(f, rs)]" using last_key [OF _ le Some] lay by (auto simp: layout_def)
        have lt: "\<forall>x \<in> set F0. fst x < f" using lay F0 by (simp add: layout_snoc)
        have others: "map_of (dk_segs d) g = map_option body (map_of F0 g)" if "g \<noteq> f" for g
          using o [OF that] that by (simp add: F0 map_add_def split: option.split)
        show ?thesis
          by (rule stored_torn [OF lay [unfolded F0] _ _ part(3) wf others part(1,2)])
            (use part(4) Some F0 in \<open>auto simp: body_of_def\<close>)
      qed
    qed
  qed
qed

text \<open>The stream \<open>load\<close> builds from such a directory agrees with it.\<close>

definition restored :: "meta \<Rightarrow> records \<Rightarrow> stream" where
  "restored m G = settle_counters (last_of None (frames G)) (mt_oldest m) (loaded (mt_oldest m) G (empty_stream m))"

lemma suffix_filter_sorted:
  "sorted_wrt (<) (map en_sequence es) \<Longrightarrow> suffix (filter (\<lambda>e. old \<le> en_sequence e) es) es"
proof (induction es)
  case (Cons e es)
  show ?case
  proof (cases "old \<le> en_sequence e")
    case True
    then have "\<forall>x \<in> set es. old \<le> en_sequence x" using Cons.prems by (auto intro: less_imp_le dest: order.strict_trans2)
    then show ?thesis using True by (simp add: filter_True)
  next
    case False
    then show ?thesis using Cons by (auto intro: suffix_ConsI)
  qed
qed simp

lemma restored_simps:
  "st_next (restored m G) = max (mt_next_floor m) (next_after G)" "st_reserved (restored m G) = max (mt_next_floor m) (next_after G)"
  "st_entries (restored m G) = kept (mt_oldest m) G" "st_bytes (restored m G) = total_cost (kept (mt_oldest m) G)"
  "st_segments (restored m G) = segment_sizes G" "st_torn (restored m G) = None" "st_def (restored m G) = mt_definition m"
  "st_retired (restored m G) = mt_retired m" "st_exported (restored m G) = mt_exported m"
  by (simp_all add: restored_def settle_counters_def loaded_def empty_stream_def next_after_def Let_def split: option.splits)

lemma restored_oldest:
  assumes "mt_oldest m \<le> st_next (restored m G)"
  shows "st_oldest (restored m G) = front_or (st_next (restored m G)) (kept (mt_oldest m) G)"
proof -
  have "st_oldest (restored m G) = max (front_or (st_next (restored m G)) (kept (mt_oldest m) G)) (min (mt_oldest m) (st_next (restored m G)))"
    by (simp add: restored_def settle_counters_def loaded_def empty_stream_def Let_def)
  moreover have "mt_oldest m \<le> front_or (st_next (restored m G)) (kept (mt_oldest m) G)"
    using assms filter_set [of _ "all_entries G"] by (cases "kept (mt_oldest m) G") (auto dest!: filter_eq_ConsD)
  ultimately show ?thesis by auto
qed

lemma restored_ok:
  assumes m: "dk_meta d = MetaFile m" "\<not> mt_retired m" "sd_persistence (mt_definition m) = PFile"
    and lay: "layout n G" "n \<le> max (mt_next_floor m) (next_after G)" and old: "mt_oldest m \<le> max (mt_next_floor m) (next_after G)"
    and files: "dk_segs d = seal G []"
  shows "log_core G (restored m G) d" "meta_ok G (restored m G) d"
proof -
  let ?s = "restored m G"
  have l: "layout (st_next ?s) G" using lay layout_mono by (simp add: restored_simps)
  have sorted: "sorted_wrt (<) (map en_sequence (all_entries G))" by (rule layout_sorted_entries [OF l])
  then have suf: "suffix (kept (mt_oldest m) G) (all_entries G)" by (rule suffix_filter_sorted)
  have bound: "en_sequence e < st_next ?s" if "e \<in> set (all_entries G)" for e
  proof -
    have "en_sequence e \<in> set (map frame_seq (frames G))" using that all_entries_seqs [of G] by (metis image_eqI set_map)
    then show ?thesis using layout_frames [OF l] by auto
  qed
  have oldest: "st_oldest ?s = front_or (st_next ?s) (kept (mt_oldest m) G)"
    by (rule restored_oldest) (simp add: restored_simps old)
  have "sorted_wrt (<) (map en_sequence (kept (mt_oldest m) G))"
    using sorted by (simp add: sorted_wrt_map sorted_wrt_filter)
  then have "mem_ok ?s" using bound oldest by (auto simp: mem_ok_def restored_simps)
  then show "log_core G ?s d"
    using m l suf lay files by (auto simp: log_core_def restored_simps files_ok_def seal_get layout_def)
  have "mt_oldest m \<le> st_oldest ?s"
    unfolding oldest using old by (cases "kept (mt_oldest m) G") (auto simp: restored_simps dest!: filter_eq_ConsD)
  then show "meta_ok G ?s d" using m by (auto simp: meta_ok_def meta_covers_def restored_simps)
qed

lemma files_ok_prefix:
  assumes "files_ok F s d" and "map_of F f = Some rs"
  shows "\<exists>T. map_of (dk_segs d) f = Some (body rs @ T)"
proof (cases "st_torn s")
  case None
  then show ?thesis using assms by (simp add: files_ok_untorn)
next
  case (Some t)
  obtain g len where t: "t = (g, len)" by fastforce
  show ?thesis
  proof (cases "f = g")
    case True
    have "torn_file F s d g" using assms(1) Some t by (simp add: files_ok_def)
    then show ?thesis using True assms(2) by (cases rule: torn_fileE) (auto simp: body_of_def)
  next
    case False
    then show ?thesis using assms Some t by (simp add: files_ok_def)
  qed
qed

text \<open>With no failing file operation, dropping segments succeeds.\<close>

lemma drop_dead_succeeds:
  "dk_io d = [] \<Longrightarrow> \<forall>f \<in> set fs. map_of (dk_segs d) f \<noteq> None \<Longrightarrow> distinct fs \<Longrightarrow>
     \<exists>s' d'. drop_dead fs s d = (s', d', Inr ()) \<and> dk_io d' = []"
proof (induction fs arbitrary: s d)
  case (Cons f fs)
  have io: "sio_take d = (SioOk, d)" using Cons.prems(1) by (simp add: sio_take_def)
  have "\<forall>g \<in> set fs. map_of (dk_segs (d\<lparr>dk_segs := bt_remove f (dk_segs d)\<rparr>)) g \<noteq> None"
    using Cons.prems(2,3) by auto
  then show ?case using Cons.IH [of "d\<lparr>dk_segs := bt_remove f (dk_segs d)\<rparr>" "forget_segment f s"] Cons.prems io by auto
qed simp

lemma retire_succeeds:
  assumes ok: "log_ok F s d" and io: "dk_io d = []"
  shows "\<exists>s' d'. retire now s d = (s', d', Inr ()) \<and> dk_io d' = []"
proof -
  let ?s = "retire_entries now s"
  note o = log_okD [OF ok]
  have ev: "evicts s ?s" using retire_entries_spec [OF o(1)] by blast
  have core: "log_core F ?s d" by (rule log_core_evicts [OF o(4) ev])
  have mem: "mem_ok ?s" and lay: "layout (st_next ?s) F" and segs: "st_segments ?s = segment_sizes F"
    and suf: "suffix (st_entries ?s) (all_entries F)" using core by (auto simp: log_core_def)
  obtain A B where AB: "F = A @ B" "dead_segments ?s = map fst A"
    using dead_segments_prefix [OF lay suf, of "st_oldest ?s"] entries_from_oldest [OF mem] segs
    by (auto simp: dead_segments_def Let_def)
  obtain d1 where save: "save_meta ?s d = (d1, True)" "dk_io d1 = []" "dk_segs d1 = dk_segs d"
    using io by (auto simp: save_meta_def write_meta_def sio_take_def)
  have "\<forall>f \<in> set (map fst A). map_of (dk_segs d1) f \<noteq> None"
  proof
    fix f assume "f \<in> set (map fst A)"
    then have "map_of F f \<noteq> None" unfolding bt_has_iff AB by auto
    moreover have "files_ok F ?s d" using core by (simp add: log_core_def)
    ultimately show "map_of (dk_segs d1) f \<noteq> None" using files_ok_prefix save(3) by fastforce
  qed
  moreover have "distinct (map fst A)" using lay AB bt_wf_distinct [of F] by (simp add: layout_def)
  ultimately obtain s' d' where "drop_dead (map fst A) ?s d1 = (s', d', Inr ())" "dk_io d' = []"
    using drop_dead_succeeds [OF save(2)] by blast
  then show ?thesis
    using o(2) save io AB by (cases "A = []") (auto simp: retire_def drop_segments_def)
qed

lemma suffix_dropWhile_mem: "e \<in> set xs \<Longrightarrow> \<not> P e \<Longrightarrow> e \<in> set (dropWhile P xs)"
  by (induction xs) auto

lemma bt_insert_last:
  assumes "bt_wf G" and "G \<noteq> []"
  shows "bt_insert (fst (last G)) (body (snd (last G))) (seal G T) = seal G []"
proof -
  obtain G0 f rs where G: "G = G0 @ [(f, rs)]" using assms(2) by (metis append_butlast_last_id prod.collapse)
  have lt: "\<forall>x \<in> set G0. fst x < f" using assms(1) G by (auto simp: bt_wf_snoc)
  show ?thesis
  proof (rule bt_ext)
    show "bt_wf (bt_insert (fst (last G)) (body (snd (last G))) (seal G T))" using assms(1) by simp
    show "bt_wf (seal G [])" using assms(1) by simp
    show "map_of (bt_insert (fst (last G)) (body (snd (last G))) (seal G T)) k = map_of (seal G []) k" for k
      using seal_snoc_get [OF lt, of rs] by (simp add: G)
  qed
qed

text \<open>
  What is restored from the directory of a consistent stream, after the size bound is applied again:
  the numbering goes on and no retained message is missing.
\<close>

lemma restored_fits:
  assumes ok: "log_ok F s d" and m: "dk_meta d = MetaFile m" and st: "stored G T X F s d"
    and d': "dk_meta d' = MetaFile m" "dk_segs d' = seal G []"
  obtains s' where "evict_until (sd_max_size (st_def (restored m G))) (restored m G) = Some s'" "log_ok G s' d'"
    "set (st_entries s) \<subseteq> set (st_entries s')" "st_next s \<le> st_next s'" "st_def s' = st_def s" "st_exported s' = mt_exported m"
    "st_torn s' = None"
proof -
  note o = log_okD [OF ok]
  have cov: "meta_covers F s m" using ok m by (auto simp: log_ok_def meta_ok_def)
  then have md: "\<not> mt_retired m" "mt_definition m = st_def s" "mt_oldest m \<le> st_oldest s"
    "st_next s \<le> max (mt_next_floor m) (next_after F)" by (auto simp: meta_covers_def)
  have g: "layout (max (st_next s) (next_after G)) G" "all_entries G = all_entries F @ X"
    "st_bytes s + total_cost X \<le> sd_max_size (st_def s)" "next_after F \<le> next_after G" using st by (auto simp: stored_def)
  have nx: "st_next s \<le> max (mt_next_floor m) (next_after G)" using md(4) g(4) by linarith
  have on: "st_oldest s \<le> st_next s" using o(1) by (cases "st_entries s") (auto simp: mem_ok_def intro: less_imp_le)
  have rs: "log_core G (restored m G) d'" "meta_ok G (restored m G) d'"
    by (rule restored_ok [OF d'(1) md(1) _ g(1) _ _ d'(2)]; use md o nx on in simp)+
  have mem: "mem_ok (restored m G)" using rs(1) by (simp add: log_core_def)
  obtain s' where s': "evict_until (sd_max_size (st_def (restored m G))) (restored m G) = Some s'" "evicts (restored m G) s'"
    "st_bytes s' \<le> sd_max_size (st_def (restored m G))"
    "\<And>xs. suffix xs (st_entries (restored m G)) \<Longrightarrow> total_cost xs \<le> sd_max_size (st_def (restored m G)) \<Longrightarrow> suffix xs (st_entries s')"
    using evict_until_spec [OF mem] by blast
  have eq: "st_def s' = st_def s" "st_exported s' = mt_exported m" "st_next s' = max (mt_next_floor m) (next_after G)"
    "st_reserved s' = st_reserved (restored m G)" "st_torn s' = None"
    using s'(2) md(2) by (auto simp: evicts_def same_rest_def restored_simps)
  have core: "log_core G s' d'" by (rule log_core_evicts [OF rs(1) s'(2)])
  have "meta_ok G s' d'"
    using rs(2) evicts_oldest [OF mem s'(2)] eq s'(2) unfolding meta_ok_def meta_covers_def evicts_def same_rest_def by fastforce
  then have lok: "log_ok G s' d'" using core s'(3) eq(1) md(2) by (simp add: log_ok_def restored_simps)
  have suf: "suffix (st_entries s) (all_entries F)" using o(4) by (simp add: log_core_def)
  have "suffix (st_entries s @ X) (kept (mt_oldest m) G)"
  proof -
    obtain zs where zs: "all_entries F = zs @ st_entries s" using suf by (auto simp: suffix_def)
    have "filter (\<lambda>e. mt_oldest m \<le> en_sequence e) (st_entries s) = st_entries s"
      using entries_from_oldest [OF o(1)] md(3) by (auto simp: filter_id_conv intro: le_trans)
    moreover have "filter (\<lambda>e. mt_oldest m \<le> en_sequence e) X = X"
    proof (rule filter_True, rule ballI)
      fix x assume x: "x \<in> set X"
      have "sorted_wrt (<) (map en_sequence (all_entries F @ X))" using layout_sorted_entries [OF g(1)] g(2) by simp
      then have less: "en_sequence e < en_sequence x" if "e \<in> set (all_entries F)" for e using that x by (auto simp: sorted_wrt_append)
      show "mt_oldest m \<le> en_sequence x"
      proof (cases "st_entries s")
        case Nil
        have "st_next s \<le> en_sequence x" using st x by (simp add: stored_def)
        then show ?thesis using md(3) on by linarith
      next
        case (Cons e es)
        then have "en_sequence e < en_sequence x" using less zs by simp
        then show ?thesis using md(3) o(1) Cons by (simp add: mem_ok_def)
      qed
    qed
    ultimately show ?thesis using zs g(2) by (simp add: suffix_def)
  qed
  then have "suffix (st_entries s @ X) (st_entries s')"
    using s'(4) g(3) o(1) md(2) by (simp add: restored_simps mem_ok_def)
  then have "set (st_entries s) \<subseteq> set (st_entries s')" by (auto simp: suffix_def)
  then show thesis using that s'(1) lok eq nx by simp
qed

text \<open>Messages on disk read the same from every directory with the same records.\<close>

definition content :: "entry \<Rightarrow> sdisk \<Rightarrow> (stream_error, string) result" where
  "content e d = snd (read_data e (d\<lparr>dk_io := []\<rparr>))"

lemma entries_at_loc:
  "e \<in> set (entries_at f p rs) \<Longrightarrow>
     \<exists>q data. en_at e = OnDisk f q \<and> en_len e = length data \<and> (en_sequence e, en_appended_ms e, data) \<in> set rs \<and>
       p \<le> q \<and> q - p + HEADER + length data \<le> length (body rs) \<and> take (length data) (drop (q - p + HEADER) (body rs)) = data"
proof (induction f p rs rule: entries_at.induct)
  case (2 f p q ms data rs)
  have enc: "enc (q, ms, data) = take HEADER (enc (q, ms, data)) @ data"
    by (simp add: enc_def encode_record_def HEADER_def)
  have l: "length (enc (q, ms, data)) = HEADER + length data" by (simp add: length_enc)
  show ?case
  proof (cases "e \<in> set (entries_at f (p + HEADER + length data) rs)")
    case False
    then have e: "e = \<lparr>en_sequence = q, en_appended_ms = ms, en_len = length data, en_at = OnDisk f p\<rparr>" using 2(2) by simp
    have "drop HEADER (enc (q, ms, data) @ body rs) = data @ body rs" by (subst enc) (simp add: HEADER_def l)
    then show ?thesis using e l by (intro exI [of _ p] exI [of _ data]) simp
  next
    case True
    from 2(1) [OF True] obtain o' dt where o': "en_at e = OnDisk f o'" "en_len e = length dt"
      "(en_sequence e, en_appended_ms e, dt) \<in> set rs" "p + HEADER + length data \<le> o'"
      "o' - (p + HEADER + length data) + HEADER + length dt \<le> length (body rs)"
      "take (length dt) (drop (o' - (p + HEADER + length data) + HEADER) (body rs)) = dt" by blast
    have "drop (o' - p + HEADER) (enc (q, ms, data) @ body rs) = drop (o' - (p + HEADER + length data) + HEADER) (body rs)"
      using o'(4) l by (simp add: algebra_simps)
    then show ?thesis using o' l by (intro exI [of _ o'] exI [of _ dt]) auto
  qed
qed simp

lemma content_entry:
  assumes "e \<in> set (entries_at f 0 rs)" and "map_of (dk_segs d) f = Some (body rs @ T)"
  shows "\<exists>data. content e d = Inr data \<and> (en_sequence e, en_appended_ms e, data) \<in> set rs \<and> length data = en_len e"
proof -
  obtain q data where q: "en_at e = OnDisk f q" "en_len e = length data" "(en_sequence e, en_appended_ms e, data) \<in> set rs"
    "q + HEADER + length data \<le> length (body rs)" "take (length data) (drop (q + HEADER) (body rs)) = data"
    using entries_at_loc [OF assms(1)] by auto
  then have "content e d = Inr data" using assms(2) by (simp add: content_def read_data_def sio_take_def)
  then show ?thesis using q by auto
qed

lemma entry_in_records: "e \<in> set (all_entries F) \<longleftrightarrow> (\<exists>f rs. (f, rs) \<in> set F \<and> e \<in> set (entries_at f 0 rs))"
  by (auto simp: all_entries_def)

text \<open>Every retained message is stored: reading it gives the data of its record.\<close>

lemma content_retained:
  assumes ok: "log_core F s d" and e: "e \<in> set (st_entries s)"
  shows "\<exists>data. content e d = Inr data \<and> (en_sequence e, en_appended_ms e, data) \<in> set (frames F) \<and> length data = en_len e"
proof -
  have "e \<in> set (all_entries F)" using ok e by (auto simp: log_core_def suffix_def)
  then obtain f rs where f: "(f, rs) \<in> set F" "e \<in> set (entries_at f 0 rs)" by (auto simp: entry_in_records)
  have "map_of F f = Some rs" using ok f(1) by (simp add: log_core_def layout_def bt_get_iff)
  moreover have "files_ok F s d" using ok by (simp add: log_core_def)
  ultimately obtain T where "map_of (dk_segs d) f = Some (body rs @ T)" using files_ok_prefix by blast
  from content_entry [OF f(2) this] obtain data where data: "content e d = Inr data"
    "(en_sequence e, en_appended_ms e, data) \<in> set rs" "length data = en_len e" by blast
  have "(en_sequence e, en_appended_ms e, data) \<in> set (frames F)" unfolding set_frames using f(1) data(2) by (metis snd_conv)
  then show ?thesis using data by blast
qed

lemma frames_unique:
  assumes "layout n F" and "(q, a, x) \<in> set (frames F)" and "(q, b, y) \<in> set (frames F)"
  shows "x = y"
proof -
  have "distinct (map frame_seq (frames F))" using assms(1) by (simp add: layout_def strict_sorted_iff)
  from eq_key_imp_eq_value [OF this assms(2,3)] show ?thesis by simp
qed

text \<open>A record that only lost company reads the same.\<close>

lemma content_appended:
  assumes ok: "log_ok F s d" and lay: "layout n G" and suf: "suffix F G" and e: "e \<in> set (st_entries s)"
    and r: "(en_sequence e, ms, data) \<in> set (frames G)"
  shows "content e d = Inr data"
proof -
  obtain x where x: "content e d = Inr x" "(en_sequence e, en_appended_ms e, x) \<in> set (frames F)"
    using content_retained [OF log_okD(4) [OF ok] e] by blast
  have "(en_sequence e, en_appended_ms e, x) \<in> set (frames G)" using x(2) suf by (auto simp: suffix_def)
  then show ?thesis using frames_unique [OF lay r] x(1) by simp
qed

lemma append_ok:
  assumes ok: "log_ok F s d" and lim: "st_next s < 256 ^ 8" "now < 256 ^ 8"
    and run: "append_message data now s d = (s', d', r)"
  shows "(\<exists>F'. log_ok F' s' d') \<and> st_next s \<le> st_next s' \<and> st_def s' = st_def s
    \<and> (\<forall>q. r = Inr q \<longrightarrow> q = st_next s \<and> st_next s' = Suc q \<and> st_exported s' = st_exported s
        \<and> (\<exists>e \<in> set (st_entries s'). en_sequence e = q \<and> en_appended_ms e = now \<and> content e d' = Inr data)) \<and> r \<noteq> Inl SSpins"
proof -
  note o = log_okD [OF ok]
  show ?thesis
  proof (cases "data = [] \<or> MAX_MESSAGE_BYTES < length data \<or> sd_max_size (st_def s) < cost (length data)")
    case True
    then show ?thesis using run o ok by (auto simp: append_message_def)
  next
    case valid: False
    obtain s1 d1 r1 where ret: "retire now s d = (s1, d1, r1)" by (metis prod_cases3)
    from retire_ok [OF ok ret] obtain F1 where F1: "log_ok F1 s1 d1" "keeps_messages (retire_entries now s) s1" by blast
    note n1 = retire_next [OF o(1) F1(2)]
    show ?thesis
    proof (cases r1)
      case (Inl e)
      have "e \<noteq> SSpins" using ret Inl by (auto simp: retire_def drop_segments_def Let_def dest!: drop_dead_error split: if_splits prod.splits)
      then show ?thesis using run o valid ret Inl F1 n1 by (auto simp: append_message_def)
    next
      case (Inr u)
      have room: "cost (length data) \<le> sd_max_size (st_def s1)" using valid n1 by simp
      note mk = make_room_ok [OF F1(1) room]
      show ?thesis
      proof (cases "make_room (cost (length data)) s1")
        case (Inl p)
        obtain e s2 where p: "p = (e, s2)" by fastforce
        then have "log_ok F1 s2 d1" "st_next s2 = st_next s" "e = SFull" using mk Inl n1 by auto
        moreover have "st_def s2 = st_def s"
          using Inl p n1 calculation(3) by (auto simp: make_room_def split: if_splits option.splits)
        moreover have "s' = s2" "d' = d1" "r = Inl e" using run o valid ret Inr Inl p by (auto simp: append_message_def)
        ultimately show ?thesis by auto
      next
        case mkr: (Inr s2)
        have ev: "evicts s1 s2" and fits: "st_bytes s2 + cost (length data) \<le> sd_max_size (st_def s2)" using mk mkr by auto
        have n2: "st_next s2 = st_next s" "st_def s2 = st_def s" "st_exported s2 = st_exported s" using ev n1 by (auto simp: evicts_def same_rest_def)
        have ok2: "log_ok F1 s2 d1" by (rule log_ok_evicts [OF F1(1) ev])
        obtain s3 d3 b where res: "reserve s2 d1 = (s3, d3, b)" by (metis prod_cases3)
        note r3 = reserve_ok [OF ok2 res]
        show ?thesis
        proof (cases b)
          case False
          then show ?thesis using run o valid ret Inr mkr res r3 n2 by (auto simp: append_message_def)
        next
          case True
          then obtain m where m: "dk_meta d3 = MetaFile m" "meta_covers F1 s3 m" "st_next s3 < st_reserved s3" "st_next s3 < mt_next_floor m"
            using r3 by blast
          obtain s4 d4 r4 where pl: "place_record now data s3 d3 = (s4, d4, r4)" by (metis prod_cases3)
          have fr: "frame_ok (st_next s3, now, data)" using r3 n2 lim valid by (auto simp: frame_ok_def)
          have ok3: "log_ok F1 s3 d3" and fits3: "st_bytes s3 + cost (length data) \<le> sd_max_size (st_def s3)" using r3 fits by auto
          note p4 = place_record_ok [OF ok3 fr fits3 m pl]
          show ?thesis
          proof (cases r4)
            case (Inl e)
            have "e \<noteq> SSpins" using pl Inl ok3 by (auto dest: place_record_error)
            then show ?thesis using run o valid ret Inr mkr res True pl Inl p4 r3 n2 by (auto simp: append_message_def)
          next
            case r4: (Inr pos)
            then obtain F4 where F4: "log_ok F4 (push_entry now data pos s4) d4" and fr4: "frames F4 = frames F1 @ [(st_next s3, now, data)]"
              using p4 by auto
            obtain s5 d5 r5 where dr: "drop_segments (push_entry now data pos s4) d4 = (s5, d5, r5)" by (metis prod_cases3)
            from drop_segments_ok [OF F4 dr] obtain F5 where F5: "log_ok F5 s5 d5" "keeps_messages (push_entry now data pos s4) s5"
              "suffix F5 F4" by blast
            define e where "e = \<lparr>en_sequence = st_next s4, en_appended_ms = now, en_len = length data, en_at = pos\<rparr>"
            have e: "e \<in> set (st_entries s5)" using F5(2) by (simp add: keeps_messages_def e_def)
            have lay4: "layout (st_next (push_entry now data pos s4)) F4" using log_okD(4) [OF F4] by (simp add: log_core_def)
            have "(st_next s4, now, data) \<in> set (frames F4)" using fr4 p4 by simp
            then have data: "content e d5 = Inr data" using content_appended [OF F5(1) lay4 F5(3) e] by (simp add: e_def)
            have "r5 \<noteq> Inl SSpins" using dr by (auto simp: drop_segments_def Let_def dest!: drop_dead_error split: if_splits prod.splits)
            moreover have "s' = s5" "d' = d5" "r = res_bind r5 (\<lambda>_. Inr (st_next s2))"
              using run o valid ret Inr mkr res True pl r4 dr by (auto simp: append_message_def)
            moreover have "st_next s5 = Suc (st_next s)" "st_def s5 = st_def s" using F5(2) p4 r3 n2 by (auto simp: keeps_messages_def)
            moreover have "st_exported s5 = st_exported s" using F5(2) p4 r3 n2 by (auto simp: keeps_messages_def)
            moreover have "en_sequence e = st_next s" "en_appended_ms e = now" using p4 r3 n2 by (auto simp: e_def)
            ultimately show ?thesis using F5(1) n2 e data by (cases r5) auto
          qed
        qed
      qed
    qed
  qed
qed

text \<open>
  What a load leaves, from any consistent state: a directory that is consistent again, and if it
  succeeds a stream with the numbering continued and every message kept that is neither expired nor
  exported and discarded. Without failing file operations it succeeds.
\<close>

definition outlives :: "nat \<Rightarrow> meta \<Rightarrow> stream \<Rightarrow> entry \<Rightarrow> bool" where
  "outlives now m s e \<longleftrightarrow> \<not> expired now (sd_time_to_live_seconds (st_def s)) e
     \<and> \<not> (sd_discard_exported (st_def s) \<and> int (en_sequence e) \<le> mt_exported m)"

definition load_result :: "nat \<Rightarrow> meta \<Rightarrow> records \<Rightarrow> stream \<Rightarrow> sdisk \<Rightarrow> sdisk \<Rightarrow> (stream_error, stream) result \<Rightarrow> records \<Rightarrow> stream \<Rightarrow> bool" where
  "load_result now m F s d d' r F' s'' \<longleftrightarrow> log_ok F' s'' d' \<and> st_next s \<le> st_next s'' \<and> st_def s'' = st_def s \<and> r \<noteq> Inl SSpins
     \<and> (\<forall>s'. r = Inr s' \<longrightarrow> s'' = s' \<and> (\<forall>e \<in> set (st_entries s). outlives now m s e \<longrightarrow> e \<in> set (st_entries s') \<and> content e d' = content e d))
     \<and> (dk_io d = [] \<longrightarrow> (\<exists>s'. r = Inr s'))"

lemma load_finishes:
  assumes ok: "log_ok F s d" and m: "dk_meta d = MetaFile m" and st: "stored G T X F s d"
    and d3: "dk_meta d3 = MetaFile m" "dk_segs d3 = seal G []"
    and ev: "evict_until (sd_max_size (st_def (restored m G))) (restored m G) = Some s4" and lok: "log_ok G s4 d3"
    and sub: "set (st_entries s) \<subseteq> set (st_entries s4)" and nx: "st_next s \<le> st_next s4"
    and eq: "st_def s4 = st_def s" "st_exported s4 = mt_exported m" "st_torn s4 = None"
    and run: "retire now s4 d3 = (s5, d5, r5)" and io: "dk_io d = [] \<Longrightarrow> dk_io d3 = []"
  shows "\<exists>F'. load_result now m F s d d5 (res_bind r5 (\<lambda>_. Inr s5)) F' s5"
proof -
  note o = log_okD [OF ok]
  obtain F' where F': "suffix F' G" "log_ok F' s5 d5" "keeps_messages (retire_entries now s4) s5" using retire_ok [OF lok run] by blast
  note mem4 = log_okD(1) [OF lok]
  note n5 = retire_next [OF mem4 F'(3)]
  have keep: "e \<in> set (st_entries s5)" if "e \<in> set (st_entries s)" "outlives now m s e" for e
  proof -
    have "st_entries s5 = dropWhile (exported_already s4) (dropWhile (expired now (sd_time_to_live_seconds (st_def s4))) (st_entries s4))"
      using F'(3) retire_entries_spec [OF mem4] by (simp add: keeps_messages_def)
    moreover have "\<not> expired now (sd_time_to_live_seconds (st_def s4)) e" "\<not> exported_already s4 e"
      using that(2) by (auto simp: outlives_def exported_already_def eq)
    moreover have "e \<in> set (st_entries s4)" using that(1) sub by blast
    ultimately show ?thesis by (simp add: suffix_dropWhile_mem)
  qed
  have same: "content e d5 = content e d" if e: "e \<in> set (st_entries s)" "e \<in> set (st_entries s5)" for e
  proof -
    obtain x where x: "content e d5 = Inr x" "(en_sequence e, en_appended_ms e, x) \<in> set (frames F')"
      using content_retained [OF _ e(2)] log_okD(4) [OF F'(2)] by blast
    have inG: "(en_sequence e, en_appended_ms e, x) \<in> set (frames G)" using x(2) F'(1) by (auto simp: suffix_def)
    have "suffix (st_entries s4) (all_entries G)" using log_okD(4) [OF lok] by (simp add: log_core_def)
    then have "e \<in> set (all_entries G)" using e(1) sub by (auto simp: suffix_def)
    then obtain f rs where f: "(f, rs) \<in> set G" "e \<in> set (entries_at f 0 rs)" by (auto simp: entry_in_records)
    have lay: "layout (max (st_next s) (next_after G)) G" and segs: "dk_segs d = seal G T" using st by (auto simp: stored_def)
    have "\<exists>T'. map_of (seal G T) f = Some (body rs @ T')"
    proof -
      obtain G0 g zs where G: "G = G0 @ [(g, zs)]" using f(1) by (metis append_butlast_last_id prod.collapse empty_iff empty_set)
      have lt: "\<forall>x \<in> set G0. fst x < g" using lay G by (simp add: layout_snoc)
      have gf: "map_of G f = Some rs" using lay f(1) by (simp add: layout_def bt_get_iff)
      show ?thesis
      proof (cases "f = g")
        case True
        have "map_of G0 g = None" using lt by (auto simp: map_of_eq_None_iff)
        then show ?thesis using True gf by (simp add: G seal_snoc_get [OF lt] map_add_def)
      next
        case False
        then show ?thesis using gf by (simp add: G seal_snoc_get [OF lt] map_add_def split: option.splits)
      qed
    qed
    then obtain T' where "map_of (dk_segs d) f = Some (body rs @ T')" using segs by auto
    then obtain y where y: "content e d = Inr y" "(en_sequence e, en_appended_ms e, y) \<in> set rs"
      using content_entry [OF f(2)] by blast
    have "(en_sequence e, en_appended_ms e, y) \<in> set (frames G)" unfolding set_frames using y(2) f(1) by (metis snd_conv)
    then have "y = x" using frames_unique [OF lay inG] by blast
    then show ?thesis using x y by simp
  qed
  have "r5 \<noteq> Inl SSpins" using run by (auto simp: retire_def drop_segments_def Let_def dest!: drop_dead_error split: if_splits prod.splits)
  moreover have "\<exists>u. r5 = Inr u" if "dk_io d = []"
    using retire_succeeds [OF lok io [OF that], of now] run by auto
  ultimately have "load_result now m F s d d5 (res_bind r5 (\<lambda>_. Inr s5)) F' s5"
    unfolding load_result_def using F'(2) n5 nx eq keep same by (cases r5) auto
  then show ?thesis by blast
qed

lemma load_ok:
  assumes ok: "log_ok F s d" and m: "dk_meta d = MetaFile m" and run: "load now True d = (d', r)"
  shows "\<exists>F' s''. load_result now m F s d d' r F' s''"
proof -
  note o = log_okD [OF ok]
  have cov: "meta_covers F s m" using ok m by (auto simp: log_ok_def meta_ok_def)
  then have md: "mt_definition m = st_def s" "\<not> mt_retired m" by (auto simp: meta_covers_def)
  have failed: ?thesis if "r = Inl SIo" "log_ok F' s'' d'" "st_next s \<le> st_next s''" "st_def s'' = st_def s" "dk_io d \<noteq> []" for F' s''
    using that by (auto simp: load_result_def)
  obtain io1 d1 where io1: "sio_take d = (io1, d1)" by fastforce
  note f1 = sio_take_frame [OF io1]
  have e1: "dk_io d = [] \<Longrightarrow> io1 = SioOk \<and> dk_io d1 = []" using io1 by (auto simp: sio_take_def)
  have ok1: "log_ok F s d1" using ok log_ok_take [OF io1] by simp
  show ?thesis
  proof (cases "io1 = SioOk")
    case False
    then have "r = Inl SIo" "d' = d1" using run io1 by (auto simp: load_def split: sio.splits meta_file.splits)
    then show ?thesis using failed ok1 e1 False by blast
  next
    case True
    obtain io2 d2 where io2: "sio_take d1 = (io2, d2)" by fastforce
    note f2 = sio_take_frame [OF io2]
    have e2: "dk_io d = [] \<Longrightarrow> io2 = SioOk \<and> dk_io d2 = []" using io2 e1 by (auto simp: sio_take_def)
    have ok2: "log_ok F s d2" using ok1 log_ok_take [OF io2] by simp
    have pf: "sd_persistence (st_def (empty_stream m)) \<noteq> PMemory" using o(3) md by (simp add: empty_stream_def)
    show ?thesis
    proof (cases "io2 = SioOk")
      case False
      then have "r = Inl SIo" "d' = d2" using run io1 io2 True f1 m pf by (auto simp: load_def Let_def)
      then show ?thesis using failed ok2 e2 False by blast
    next
      case True2: True
      obtain G T X where st: "stored G T X F s d" using log_ok_stored [OF ok] by blast
      then have g: "dk_segs d = seal G T" "tail_ok T" "layout (max (st_next s) (next_after G)) G" by (auto simp: stored_def)
      obtain s3 d3 l3 okk where ls: "load_segments True (mt_oldest m) (dk_segs d2) None (empty_stream m) d2 = (s3, d3, l3, okk)"
        by (metis prod_cases4)
      have "load_segments True (mt_oldest m) (seal G T) None (empty_stream m) d2 = (s3, d3, l3, okk)" using ls f1 f2 g(1) by simp
      then have seg: "dk_meta d3 = dk_meta d2" "dk_segs d3 = dk_segs d2 \<and> (T = [] \<or> G = [] \<or> \<not> okk) \<or>
          G \<noteq> [] \<and> dk_segs d3 = bt_insert (fst (last G)) (body (snd (last G))) (dk_segs d2)"
        "okk \<longrightarrow> s3 = loaded (mt_oldest m) G (empty_stream m) \<and> l3 = last_of None (frames G)" "dk_io d2 = [] \<longrightarrow> okk \<and> dk_io d3 = []"
        using load_segments_seal [of _ "[]" G T None "empty_stream m" "mt_oldest m" d2 s3 d3 l3 okk] g(2,3) md
        by (simp_all add: above_def empty_stream_def)
      have meta3: "dk_meta d3 = MetaFile m" using seg(1) f1 f2 m by simp
      have cut: "dk_segs d3 = dk_segs d2 \<and> (T = [] \<or> G = [] \<or> \<not> okk) \<or> dk_segs d3 = seal G []"
        using seg(2) bt_insert_last [of G T] g f1 f2 by (auto simp: layout_def)
      show ?thesis
      proof (cases okk)
        case False
        then have out: "r = Inl SIo" "d' = d3" using run io1 io2 True True2 f1 m pf ls by (auto simp: load_def Let_def f2)
        have io: "dk_io d \<noteq> []" using False seg(4) e2 by auto
        show ?thesis
        proof (cases "dk_segs d3 = dk_segs d2")
          case True
          then have "log_ok F s d3" using ok2 seg(1) log_core_segs [OF True] by (simp add: log_ok_def meta_ok_def)
          then show ?thesis using failed out io by blast
        next
          case cutd: False
          then have "dk_segs d3 = seal G []" using cut by blast
          from restored_fits [OF ok m st meta3 this] obtain s4 where "log_ok G s4 d3" "st_next s \<le> st_next s4" "st_def s4 = st_def s"
            by metis
          then show ?thesis using failed out io by blast
        qed
      next
        case okt: True
        have d3: "dk_segs d3 = seal G []"
          using cut okt g(1) f1 f2 by (cases G) auto
        from restored_fits [OF ok m st meta3 d3] obtain s4 where s4:
          "evict_until (sd_max_size (st_def (restored m G))) (restored m G) = Some s4" "log_ok G s4 d3"
          "set (st_entries s) \<subseteq> set (st_entries s4)" "st_next s \<le> st_next s4" "st_def s4 = st_def s" "st_exported s4 = mt_exported m"
          "st_torn s4 = None" by metis
        obtain s5 d5 r5 where ret: "retire now s4 d3 = (s5, d5, r5)" by (metis prod_cases3)
        have rs: "settle_counters l3 (mt_oldest m) s3 = restored m G" using seg(3) okt by (simp add: restored_def)
        have nr: "\<not> st_retired (restored m G)" using md by (simp add: restored_simps)
        have "d' = d5" "r = res_bind r5 (\<lambda>_. Inr s5)"
          using run io1 io2 True True2 f1 m pf ls okt rs nr s4(1) ret by (auto simp: load_def Let_def f2)
        moreover have "dk_io d = [] \<Longrightarrow> dk_io d3 = []" using e2 seg(4) by simp
        ultimately show ?thesis using load_finishes [OF ok m st meta3 d3 s4 ret] by blast
      qed
    qed
  qed
qed

section \<open>Reading, acknowledging, closing\<close>

lemma read_data_frame: "read_data e d = (d', r) \<Longrightarrow> dk_segs d' = dk_segs d \<and> dk_meta d' = dk_meta d"
  by (auto simp: read_data_def dest!: sio_take_frame split: location.splits prod.splits)

lemma read_all_frame: "read_all es d = (d', r) \<Longrightarrow> dk_segs d' = dk_segs d \<and> dk_meta d' = dk_meta d"
proof (induction es arbitrary: d d' r)
  case (Cons e es)
  obtain d1 r1 where 1: "read_data e d = (d1, r1)" by fastforce
  obtain d2 r2 where 2: "read_all es d1 = (d2, r2)" by fastforce
  show ?case using Cons.prems read_data_frame [OF 1] Cons.IH [OF 2] 1 2 by (auto split: sum.splits)
qed simp

lemma log_ok_disk: "dk_segs d' = dk_segs d \<Longrightarrow> dk_meta d' = dk_meta d \<Longrightarrow> log_ok F s d' = log_ok F s d"
  unfolding log_ok_def meta_ok_def by (metis log_core_segs)

lemma read_messages_ok:
  assumes ok: "log_ok F s d" and run: "read_messages start lo hi now s d = (s', d', r)"
  shows "(\<exists>F'. log_ok F' s' d') \<and> st_next s' = st_next s \<and> st_def s' = st_def s"
proof -
  obtain s1 d1 r1 where ret: "retire now s d = (s1, d1, r1)" by (metis prod_cases3)
  from retire_ok [OF ok ret] obtain F1 where F1: "log_ok F1 s1 d1" "keeps_messages (retire_entries now s) s1" by blast
  note n1 = retire_next [OF log_okD(1) [OF ok] F1(2)]
  consider "s' = s" "d' = d" | "s' = s1" "dk_segs d' = dk_segs d1" "dk_meta d' = dk_meta d1"
    using run ret by (auto simp: read_messages_def Let_def split: if_splits sum.splits prod.splits dest!: read_all_frame)
  then show ?thesis
  proof cases
    case 1
    then show ?thesis using ok by auto
  next
    case 2
    then show ?thesis using F1(1) n1 log_ok_disk [OF 2(2,3)] by auto
  qed
qed

lemma export_batch_ok:
  assumes ok: "log_ok F s d" and run: "export_batch n b now s d = (s', d', r)"
  shows "(\<exists>F'. log_ok F' s' d') \<and> st_next s' = st_next s \<and> st_def s' = st_def s"
proof -
  obtain s1 d1 r1 where ret: "retire now s d = (s1, d1, r1)" by (metis prod_cases3)
  from retire_ok [OF ok ret] obtain F1 where F1: "log_ok F1 s1 d1" "keeps_messages (retire_entries now s) s1" by blast
  note n1 = retire_next [OF log_okD(1) [OF ok] F1(2)]
  have 2: "s' = s1" "dk_segs d' = dk_segs d1" "dk_meta d' = dk_meta d1"
    using run ret by (auto simp: export_batch_def Let_def split: sum.splits prod.splits dest!: read_all_frame)
  then show ?thesis using F1(1) n1 log_ok_disk [OF 2(2,3)] by auto
qed

lemma export_ack_ok:
  assumes ok: "log_ok F s d" and run: "export_ack q now s d = (s', d', r)"
  shows "(\<exists>F'. log_ok F' s' d') \<and> st_next s' = st_next s \<and> st_def s' = st_def s"
proof (cases "st_next s \<le> q \<or> \<not> st_exported s < int q")
  case True
  then show ?thesis using run ok by (auto simp: export_ack_def split: if_splits)
next
  case False
  let ?s = "s\<lparr>st_exported := int q\<rparr>"
  note o = log_okD [OF ok]
  obtain d1 sv where save: "save_meta ?s d = (d1, sv)" by fastforce
  then have d1: "dk_segs d1 = dk_segs d" "dk_meta d1 = dk_meta d \<or> dk_meta d1 = MetaFile (meta_of ?s)"
    "sv \<Longrightarrow> dk_meta d1 = MetaFile (meta_of ?s)" using write_meta_frame by (auto simp: save_meta_def)
  have core: "log_core F s d1" using o(4) log_core_segs [OF d1(1)] by simp
  have cov: "meta_covers F ?s (meta_of ?s)" by (rule meta_of_covers) (use o in auto)
  then have "meta_covers F s (meta_of ?s)" using False by (auto simp: meta_covers_def meta_of_def)
  then have keep: "log_ok F s d1" using ok d1(2) core o by (auto simp: log_ok_def meta_ok_def)
  show ?thesis
  proof (cases sv)
    case no: False
    then show ?thesis using run save False keep by (auto simp: export_ack_def Let_def)
  next
    case True
    have "log_ok F ?s d1" using core o cov d1(3) True by (auto simp: log_ok_def meta_ok_def log_core_counters)
    moreover obtain s2 d2 r2 where ret: "retire now ?s d1 = (s2, d2, r2)" by (metis prod_cases3)
    ultimately obtain F1 where F1: "log_ok F1 s2 d2" "keeps_messages (retire_entries now ?s) s2" using retire_ok by blast
    have "mem_ok ?s" using o(1) by (simp add: mem_ok_def)
    note n1 = retire_next [OF this F1(2)]
    show ?thesis using run save False True ret F1(1) n1 by (auto simp: export_ack_def Let_def)
  qed
qed

lemma close_stream_ok:
  assumes ok: "log_ok F s d" and run: "close_stream s d = (s', d')"
  shows "log_ok F s' d' \<and> st_next s' = st_next s \<and> st_def s' = st_def s"
proof -
  let ?s = "s\<lparr>st_reserved := st_next s\<rparr>"
  note o = log_okD [OF ok]
  obtain d1 sv where save: "save_meta ?s d = (d1, sv)" by fastforce
  then have d1: "dk_segs d1 = dk_segs d" "dk_meta d1 = dk_meta d \<or> dk_meta d1 = MetaFile (meta_of ?s)"
    using write_meta_frame by (auto simp: save_meta_def)
  have core: "log_core F ?s d1" using o(4) log_core_segs [OF d1(1)] by (simp add: log_core_counters)
  have "meta_covers F ?s (meta_of ?s)" by (rule meta_of_covers) (use o in auto)
  moreover obtain m where "dk_meta d = MetaFile m" "meta_covers F s m" using ok by (auto simp: log_ok_def meta_ok_def)
  moreover from this(2) have "meta_covers F ?s m" by (auto simp: meta_covers_def)
  ultimately have "meta_ok F ?s d1" using d1(2) by (auto simp: meta_ok_def)
  then show ?thesis using run save core o by (auto simp: close_stream_def Let_def log_ok_def)
qed

section \<open>Runs\<close>

text \<open>
  Requests to a stream, each with the outcomes of its file operations. \<open>Restart\<close> is a crash followed
  by loading the directory; when that fails the stream stays down until a later restart. The state
  records the sequence numbers acknowledged to callers. A stream stops before \<open>u64\<close> is exhausted.
\<close>

datatype stream_op =
    DoAppend string u64 | DoRead nat nat nat u64 | DoAck nat u64 | DoBatch nat nat u64 | DoClose | Restart u64

type_synonym stream_state = "stream option \<times> sdisk \<times> nat list"

definition running :: "stream_op \<Rightarrow> stream \<Rightarrow> sdisk \<Rightarrow> stream \<times> sdisk \<times> nat list" where
  "running x s d = (case x of
     DoAppend data now \<Rightarrow>
       (if Suc (st_next s) < 2 ^ 64 then
          (case append_message data (unat now) s d of (s, d, r) \<Rightarrow> (s, d, case r of Inl _ \<Rightarrow> [] | Inr q \<Rightarrow> [q]))
        else (s, d, []))
   | DoRead start lo hi now \<Rightarrow> (case read_messages start lo hi (unat now) s d of (s, d, _) \<Rightarrow> (s, d, []))
   | DoAck q now \<Rightarrow> (case export_ack q (unat now) s d of (s, d, _) \<Rightarrow> (s, d, []))
   | DoBatch n b now \<Rightarrow> (case export_batch n b (unat now) s d of (s, d, _) \<Rightarrow> (s, d, []))
   | DoClose \<Rightarrow> (case close_stream s d of (s, d) \<Rightarrow> (s, d, []))
   | Restart _ \<Rightarrow> (s, d, []))"

definition stream_step :: "stream_op \<times> sio list \<Rightarrow> stream_state \<Rightarrow> stream_state" where
  "stream_step x \<sigma> = (case (x, \<sigma>) of ((op, ios), (up, d, acks)) \<Rightarrow>
     (let d = d\<lparr>dk_io := ios\<rparr> in
      case op of
        Restart now \<Rightarrow> (case load (unat now) True d of (d, r) \<Rightarrow> (case r of Inl _ \<Rightarrow> None | Inr s \<Rightarrow> Some s, d, acks))
      | _ \<Rightarrow> (case up of None \<Rightarrow> (None, d, acks)
              | Some s \<Rightarrow> (case running op s d of (s, d, new) \<Rightarrow> (Some s, d, acks @ new)))))"

definition stream_inv :: "stream_def \<Rightarrow> stream_state \<Rightarrow> bool" where
  "stream_inv def \<sigma> \<longleftrightarrow> (case \<sigma> of (up, d, acks) \<Rightarrow>
     \<exists>F s. log_ok F s d \<and> (up = None \<or> up = Some s) \<and> st_def s = def \<and> sorted_wrt (<) acks \<and> (\<forall>q \<in> set acks. q < st_next s))"

lemma unat_u64_small: "unat (w :: u64) < 256 ^ 8"
  using unat_u64_le [of w] by (simp add: u64_max_def)

lemma running_inv:
  assumes ok: "log_ok F s d" and run: "running x s d = (s', d', new)"
  shows "(\<exists>F'. log_ok F' s' d') \<and> st_def s' = st_def s \<and> st_next s \<le> st_next s' \<and>
    (new = [] \<or> (\<exists>q. new = [q] \<and> st_next s \<le> q \<and> q < st_next s'))"
proof (cases x)
  case (DoAppend data now)
  show ?thesis
  proof (cases "Suc (st_next s) < 2 ^ 64")
    case False
    then show ?thesis using run DoAppend ok by (auto simp: running_def)
  next
    case True
    then have lim: "st_next s < 256 ^ 8" by simp
    obtain s1 d1 r where ap: "append_message data (unat now) s d = (s1, d1, r)" by (metis prod_cases3)
    from append_ok [OF ok lim unat_u64_small ap] show ?thesis
      using run DoAppend True ap by (cases r) (auto simp: running_def)
  qed
next
  case (DoRead start lo hi now)
  then obtain r where "read_messages start lo hi (unat now) s d = (s', d', r)" "new = []"
    using run by (auto simp: running_def split: prod.splits)
  then show ?thesis using read_messages_ok [OF ok] by fastforce
next
  case (DoAck q now)
  then obtain r where "export_ack q (unat now) s d = (s', d', r)" "new = []"
    using run by (auto simp: running_def split: prod.splits)
  then show ?thesis using export_ack_ok [OF ok] by fastforce
next
  case (DoBatch n b now)
  then obtain r where "export_batch n b (unat now) s d = (s', d', r)" "new = []"
    using run by (auto simp: running_def split: prod.splits)
  then show ?thesis using export_batch_ok [OF ok] by fastforce
next
  case DoClose
  then have "close_stream s d = (s', d')" "new = []" using run by (auto simp: running_def split: prod.splits)
  then show ?thesis using close_stream_ok [OF ok] by fastforce
next
  case (Restart now)
  then show ?thesis using run ok by (auto simp: running_def)
qed

lemma stream_step_inv:
  assumes "stream_inv def \<sigma>"
  shows "stream_inv def (stream_step x \<sigma>)"
proof -
  obtain op ios where x: "x = (op, ios)" by fastforce
  obtain up d0 acks where \<sigma>: "\<sigma> = (up, d0, acks)" by (metis prod_cases3)
  obtain F s where inv: "log_ok F s d0" "up = None \<or> up = Some s" "st_def s = def" "sorted_wrt (<) acks" "\<forall>q \<in> set acks. q < st_next s"
    using assms by (auto simp: \<sigma> stream_inv_def)
  let ?d = "d0\<lparr>dk_io := ios\<rparr>"
  have ok: "log_ok F s ?d" using inv(1) log_ok_disk [of ?d d0] by simp
  show ?thesis
  proof (cases "\<exists>now. op = Restart now")
    case True
    then obtain now where op: "op = Restart now" by blast
    obtain m where m: "dk_meta ?d = MetaFile m" using ok by (auto simp: log_ok_def meta_ok_def)
    obtain d' r where ld: "load (unat now) True ?d = (d', r)" by fastforce
    from load_ok [OF ok m ld] obtain F' s'' where lr: "load_result (unat now) m F s ?d d' r F' s''" by blast
    have "stream_step x \<sigma> = (case r of Inl _ \<Rightarrow> None | Inr s \<Rightarrow> Some s, d', acks)"
      by (simp add: stream_step_def x \<sigma> op ld)
    moreover have "log_ok F' s'' d'" "st_next s \<le> st_next s''" "st_def s'' = st_def s" "\<forall>s'. r = Inr s' \<longrightarrow> s'' = s'"
      using lr by (auto simp: load_result_def)
    ultimately show ?thesis using inv unfolding stream_inv_def by (cases r) (auto intro!: exI [of _ F'] exI [of _ s''])
  next
    case False
    then have nr: "\<And>now. op \<noteq> Restart now" by blast
    show ?thesis
    proof (cases up)
      case None
      then have "stream_step x \<sigma> = (None, ?d, acks)" using nr by (cases op) (auto simp: stream_step_def x \<sigma>)
      then show ?thesis using inv ok by (auto simp: stream_inv_def)
    next
      case (Some s0)
      then have s0: "s0 = s" using inv(2) by simp
      obtain s' d' new where run: "running op s ?d = (s', d', new)" by (metis prod_cases3)
      then have "stream_step x \<sigma> = (Some s', d', acks @ new)" using nr Some s0 by (cases op) (auto simp: stream_step_def x \<sigma>)
      moreover obtain F' where "log_ok F' s' d'" "st_def s' = def" "st_next s \<le> st_next s'"
        "new = [] \<or> (\<exists>q. new = [q] \<and> st_next s \<le> q \<and> q < st_next s')"
        using running_inv [OF ok run] inv(3) by blast
      ultimately show ?thesis
        using inv unfolding stream_inv_def by (auto simp: sorted_wrt_append intro!: exI [of _ F'] dest: less_le_trans)
    qed
  qed
qed

interpretation stream_machine: machine stream_step "stream_inv def"
  by unfold_locales (rule stream_step_inv)

end
