(* ===== verification/StreamStore.thy ===== *)
theory StreamStore
  imports StreamRun
begin

text \<open>
  The store of all streams (\<open>suifleet-edge/src/streams.rs\<close>, \<open>Store\<close>): quotas, creation and
  deletion, activation of operator definitions with rollback, and the requests components make over
  IPC. The disk is one directory per stream under the hash of its name.
\<close>

section \<open>Data\<close>

record sdir =
  di_meta :: meta_file
  di_segs :: "(nat, string) btree"

record sroot =
  ro_dirs :: "(string, sdir) btree"
  ro_io :: "sio list"

record quota =
  qu_max_streams :: nat
  qu_max_total_bytes :: nat

record store =
  so_quota :: quota
  so_streams :: "(string, stream) btree"
  so_staged :: bool

definition dir_name :: "stream_env \<Rightarrow> string \<Rightarrow> string" where
  "dir_name env name = hex_encode (sha256 env name)"

definition root_take :: "sroot \<Rightarrow> sio \<times> sroot" where
  "root_take fs = (case ro_io fs of [] \<Rightarrow> (SioOk, fs) | x # xs \<Rightarrow> (x, fs\<lparr>ro_io := xs\<rparr>))"

definition enter_dir :: "string \<Rightarrow> sroot \<Rightarrow> sdisk" where
  "enter_dir key fs = (case map_of (ro_dirs fs) key of
     None \<Rightarrow> \<lparr>dk_meta = NoMeta, dk_segs = [], dk_io = ro_io fs\<rparr>
   | Some x \<Rightarrow> \<lparr>dk_meta = di_meta x, dk_segs = di_segs x, dk_io = ro_io fs\<rparr>)"

definition leave_dir :: "string \<Rightarrow> sdisk \<Rightarrow> sroot \<Rightarrow> sroot" where
  "leave_dir key d fs =
     fs\<lparr>ro_dirs := bt_insert key \<lparr>di_meta = dk_meta d, di_segs = dk_segs d\<rparr> (ro_dirs fs), ro_io := dk_io d\<rparr>"

text \<open>\<open>self.get(name)?\<close> followed by an operation of the stream on its directory.\<close>

definition on_stream :: "stream_env \<Rightarrow> string \<Rightarrow> (stream \<Rightarrow> sdisk \<Rightarrow> stream \<times> sdisk \<times> (stream_error, 'a) result) \<Rightarrow>
  store \<Rightarrow> sroot \<Rightarrow> store \<times> sroot \<times> (stream_error, 'a) result" where
  "on_stream env name f st fs = (case map_of (so_streams st) name of
     None \<Rightarrow> (st, fs, Inl SNotFound)
   | Some s \<Rightarrow> (case f s (enter_dir (dir_name env name) fs) of (s, d, r) \<Rightarrow>
       (st\<lparr>so_streams := bt_insert name s (so_streams st)\<rparr>, leave_dir (dir_name env name) d fs, r)))"

section \<open>Quotas\<close>

definition checked_sum :: "nat list \<Rightarrow> nat option" where
  "checked_sum xs = fold (\<lambda>b acc. Option.bind acc (\<lambda>a. if a + b \<le> u64_max then Some (a + b) else None)) xs (Some 0)"

type_synonym inventory = "(string, nat \<times> bool) btree"

definition inventory_sum :: "inventory \<Rightarrow> bool \<Rightarrow> (stream_error, nat) result" where
  "inventory_sum entries active =
     (case checked_sum (map fst (filter (\<lambda>(_, retired). \<not> active \<or> \<not> retired) (bt_values entries))) of
        None \<Rightarrow> Inl SQuota | Some n \<Rightarrow> Inr n)"

definition next_inventory :: "inventory \<Rightarrow> stream_def list \<Rightarrow> string list \<Rightarrow> inventory" where
  "next_inventory previous defs retiring =
     fold (\<lambda>def. bt_insert (sd_name def) (sd_max_size def, False)) defs
       (fold (\<lambda>name. bt_adjust name (\<lambda>(b, _). (b, True))) retiring previous)"

definition check_inventory :: "inventory \<Rightarrow> quota \<Rightarrow> stream_def list \<Rightarrow> string list \<Rightarrow> (stream_error, unit) result" where
  "check_inventory previous quota defs retiring =
     (let nxt = next_inventory previous defs retiring in
      res_bind (inventory_sum nxt False) (\<lambda>total.
        let active = length (filter (\<lambda>(_, retired). \<not> retired) (bt_values nxt));
            fits_all = length nxt \<le> qu_max_streams quota \<and> total \<le> qu_max_total_bytes quota in
        res_bind
          (if active \<le> qu_max_streams quota then
             res_bind (inventory_sum nxt True) (\<lambda>active_sum.
               if active_sum \<le> qu_max_total_bytes quota \<and> length nxt \<le> length previous
               then res_bind (inventory_sum previous False) (\<lambda>before. Inr (total \<le> before))
               else Inr False)
           else Inr False)
          (\<lambda>retained_only. ensure (fits_all \<or> retained_only) SQuota (Inr ()))))"

definition live_inventory :: "store \<Rightarrow> inventory" where
  "live_inventory st = map (\<lambda>(n, s). (n, (sd_max_size (st_def s), st_retired s))) (so_streams st)"

definition preflight_definition :: "stream_env \<Rightarrow> store \<Rightarrow> sroot \<Rightarrow> bool \<Rightarrow> stream_def \<Rightarrow> (stream_error, unit) result" where
  "preflight_definition env st fs recovery def =
     res_bind (validate_stream env def) (\<lambda>_.
       case map_of (so_streams st) (sd_name def) of
         Some old \<Rightarrow>
           ensure (sd_persistence (st_def old) = sd_persistence def) SConflict
             (ensure (recovery \<or> st_bytes old \<le> sd_max_size def) SConflict (Inr ()))
       | None \<Rightarrow> ensure (\<not> bt_has (ro_dirs fs) (dir_name env (sd_name def))) SConflict (Inr ()))"

definition preflight_transition :: "stream_env \<Rightarrow> store \<Rightarrow> sroot \<Rightarrow> quota \<Rightarrow> stream_def list \<Rightarrow> string list \<Rightarrow> bool \<Rightarrow>
  (stream_error, unit) result" where
  "preflight_transition env st fs quota defs retiring recovery =
     res_bind (res_fold (\<lambda>def _. preflight_definition env st fs recovery def) defs ()) (\<lambda>_.
       check_inventory (live_inventory st) quota defs retiring)"

definition disk_entry :: "stream_def list \<Rightarrow> bool \<Rightarrow> string \<times> sdir \<Rightarrow> inventory \<Rightarrow> (stream_error, inventory) result" where
  "disk_entry defs recovery e sizes = (case di_meta (snd e) of
     NoMeta \<Rightarrow> Inr sizes
   | BadMeta \<Rightarrow> Inl SIo
   | MetaFile m \<Rightarrow>
       (let insert' = Inr (bt_insert (sd_name (mt_definition m)) (sd_max_size (mt_definition m), mt_retired m) sizes) in
        case find (\<lambda>d. sd_name d = sd_name (mt_definition m)) defs of
          None \<Rightarrow> insert'
        | Some nxt \<Rightarrow>
            ensure (sd_persistence nxt = sd_persistence (mt_definition m)
                    \<and> (recovery \<or> sd_max_size (mt_definition m) \<le> sd_max_size nxt)) SConflict insert'))"

definition preflight_disk_projection :: "stream_env \<Rightarrow> sroot \<Rightarrow> quota \<Rightarrow> stream_def list \<Rightarrow> bool \<Rightarrow> string list \<Rightarrow>
  (stream_error, unit) result" where
  "preflight_disk_projection env fs quota defs recovery retiring =
     res_bind (res_fold (disk_entry defs recovery) (ro_dirs fs) []) (\<lambda>sizes.
       res_bind (res_fold (\<lambda>def _. res_bind (validate_stream env def) (\<lambda>_.
           ensure (bt_has sizes (sd_name def) \<or> \<not> bt_has (ro_dirs fs) (dir_name env (sd_name def))) SConflict (Inr ()))) defs ()) (\<lambda>_.
         check_inventory sizes quota defs retiring))"

section \<open>Operations\<close>

definition store_names :: "store \<Rightarrow> string list" where
  "store_names st = bt_keys (so_streams st)"

definition reserved_bytes :: "store \<Rightarrow> nat" where
  "reserved_bytes st = sum_list (map (\<lambda>s. sd_max_size (st_def s)) (bt_values (so_streams st)))"

definition has_meta :: "sroot \<Rightarrow> string \<Rightarrow> bool" where
  "has_meta fs key = (case map_of (ro_dirs fs) key of None \<Rightarrow> False | Some x \<Rightarrow> di_meta x \<noteq> NoMeta)"

definition store_create :: "stream_env \<Rightarrow> stream_def \<Rightarrow> store \<Rightarrow> sroot \<Rightarrow> store \<times> sroot \<times> (stream_error, unit) result" where
  "store_create env def st fs =
     (let name = sd_name def; key = dir_name env name in
      if bt_has (so_streams st) name then (st, fs, Inl SExists)
      else case validate_stream env def of Inl e \<Rightarrow> (st, fs, Inl e)
      | Inr _ \<Rightarrow>
        if qu_max_streams (so_quota st) \<le> length (so_streams st)
           \<or> qu_max_total_bytes (so_quota st) < reserved_bytes st + sd_max_size def then (st, fs, Inl SQuota)
        else if has_meta fs key then (st, fs, Inl SExists)
        else case root_take fs of (r, fs) \<Rightarrow>
          if r \<noteq> SioOk then (st, fs, Inl SIo)
          else case save_meta (new_stream def) (enter_dir key fs) of (d, ok) \<Rightarrow>
            (let fs = leave_dir key d fs in
             if \<not> ok then (st, fs, Inl SIo)
             else case root_take fs of (r, fs) \<Rightarrow>
               if r \<noteq> SioOk then (st, fs, Inl SIo)
               else (st\<lparr>so_streams := bt_insert name (new_stream def) (so_streams st)\<rparr>, fs, Inr ())))"

definition apply_definition :: "stream_def \<Rightarrow> nat \<Rightarrow> stream \<Rightarrow> sdisk \<Rightarrow> stream \<times> sdisk \<times> (stream_error, unit) result" where
  "apply_definition def now s d =
     (if st_def s = def \<and> \<not> st_retired s then (s, d, Inr ())
      else let s = s\<lparr>st_def := def, st_retired := False\<rparr> in
        case evict_until (sd_max_size def) s of None \<Rightarrow> (s, d, Inl SSpins)
        | Some s \<Rightarrow> (case save_meta s d of (d, ok) \<Rightarrow> if ok then retire now s d else (s, d, Inl SIo)))"

definition store_apply :: "stream_env \<Rightarrow> stream_def \<Rightarrow> nat \<Rightarrow> store \<Rightarrow> sroot \<Rightarrow> store \<times> sroot \<times> (stream_error, unit) result" where
  "store_apply env def now = on_stream env (sd_name def) (apply_definition def now)"

text \<open>A removal that fails part way has taken \<open>meta.json\<close> and some first segments.\<close>

definition remove_dir :: "string \<Rightarrow> sroot \<Rightarrow> sroot \<times> bool" where
  "remove_dir key fs = (case root_take fs of (r, fs) \<Rightarrow>
     (case r of SioOk \<Rightarrow> (fs\<lparr>ro_dirs := bt_remove key (ro_dirs fs)\<rparr>, True)
      | SioErr \<Rightarrow> (fs, False)
      | SioPartial n \<Rightarrow> (fs\<lparr>ro_dirs := bt_adjust key (\<lambda>x. \<lparr>di_meta = NoMeta, di_segs = drop n (di_segs x)\<rparr>) (ro_dirs fs)\<rparr>, False)))"

definition store_delete :: "stream_env \<Rightarrow> string \<Rightarrow> store \<Rightarrow> sroot \<Rightarrow> store \<times> sroot \<times> (stream_error, unit) result" where
  "store_delete env name st fs = (case map_of (so_streams st) name of
     None \<Rightarrow> (st, fs, Inl SNotFound)
   | Some _ \<Rightarrow>
       (let st = st\<lparr>so_streams := bt_remove name (so_streams st)\<rparr> in
        case remove_dir (dir_name env name) fs of (fs, ok) \<Rightarrow> (st, fs, if ok then Inr () else Inl SIo)))"

definition store_append :: "stream_env \<Rightarrow> string \<Rightarrow> string \<Rightarrow> nat \<Rightarrow> store \<Rightarrow> sroot \<Rightarrow> store \<times> sroot \<times> (stream_error, nat) result" where
  "store_append env name data now = on_stream env name (append_message data now)"

definition store_read :: "stream_env \<Rightarrow> string \<Rightarrow> nat \<Rightarrow> nat \<Rightarrow> nat \<Rightarrow> nat \<Rightarrow> store \<Rightarrow> sroot \<Rightarrow>
  store \<times> sroot \<times> (stream_error, smessage list) result" where
  "store_read env name start lo hi now = on_stream env name (read_messages start lo hi now)"

definition store_export_ack :: "stream_env \<Rightarrow> string \<Rightarrow> nat \<Rightarrow> nat \<Rightarrow> store \<Rightarrow> sroot \<Rightarrow> store \<times> sroot \<times> (stream_error, int) result" where
  "store_export_ack env name sequence now = on_stream env name (export_ack sequence now)"

definition store_export_batch :: "stream_env \<Rightarrow> string \<Rightarrow> nat \<Rightarrow> nat \<Rightarrow> nat \<Rightarrow> store \<Rightarrow> sroot \<Rightarrow>
  store \<times> sroot \<times> (stream_error, (nat \<times> smessage list) option) result" where
  "store_export_batch env name max_messages max_bytes now = on_stream env name (export_batch max_messages max_bytes now)"

definition validate_walrus :: "string \<Rightarrow> store \<Rightarrow> (stream_error, unit) result" where
  "validate_walrus name st = (case map_of (so_streams st) name of
     None \<Rightarrow> Inl SNotFound
   | Some s \<Rightarrow> (let def = st_def s in
       ensure (sd_walrus_export def \<and> sd_persistence def = PFile \<and> sd_strategy_on_full def = RejectNewData
         \<and> sd_time_to_live_seconds def = None \<and> sd_export def = None \<and> \<not> sd_external_export def) SInvalid (Inr ())))"

definition set_export_status :: "string \<Rightarrow> json \<Rightarrow> store \<Rightarrow> store" where
  "set_export_status name status st =
     st\<lparr>so_streams := bt_adjust name (\<lambda>s. s\<lparr>st_export_status := status\<rparr>) (so_streams st)\<rparr>"

definition redact_url :: "stream_env \<Rightarrow> string \<Rightarrow> string" where
  "redact_url env url = (case parse_url env url of None \<Rightarrow> [] | Some u \<Rightarrow> url_without_query u)"

definition jint :: "int \<Rightarrow> json" where
  "jint i = (if 0 \<le> i then jnat (nat i) else JNum (NegInt i))"

definition strategy_json :: "strategy \<Rightarrow> json" where
  "strategy_json x = JStr (case x of RejectNewData \<Rightarrow> ''RejectNewData'' | OverwriteOldestData \<Rightarrow> ''OverwriteOldestData'')"

definition persistence_json :: "persistence \<Rightarrow> json" where
  "persistence_json x = JStr (case x of PFile \<Rightarrow> ''File'' | PMemory \<Rightarrow> ''Memory'')"

definition describe_stream :: "stream_env \<Rightarrow> stream \<Rightarrow> json" where
  "describe_stream env s = (let def = st_def s in
     jobj [(''retired'', JBool (st_retired s)), (''name'', JStr (sd_name def)), (''max_size'', jnat (sd_max_size def)),
       (''strategy_on_full'', strategy_json (sd_strategy_on_full def)), (''persistence'', persistence_json (sd_persistence def)),
       (''time_to_live_seconds'', opt_json (map_option jnat (sd_time_to_live_seconds def))),
       (''external_export'', JBool (sd_external_export def)), (''discard_exported'', JBool (sd_discard_exported def)),
       (''oldest'', jnat (st_oldest s)),
       (''newest'', jint (case st_entries s of [] \<Rightarrow> int (st_next s) - 1 | es \<Rightarrow> int (en_sequence (last es)))),
       (''exported'', jint (st_exported s)), (''bytes'', jnat (st_bytes s)), (''messages'', jnat (length (st_entries s))),
       (''corrupt_segments'', jnat (st_corrupt s)),
       (''export'', opt_json (map_option (\<lambda>e. jobj [(''url'', JStr (redact_url env (ex_url e))), (''status'', st_export_status s)]) (sd_export def))),
       (''external_export_status'', if sd_external_export def then st_export_status s else JNull)])"

definition store_describe :: "stream_env \<Rightarrow> string \<Rightarrow> nat \<Rightarrow> store \<Rightarrow> sroot \<Rightarrow> store \<times> sroot \<times> (stream_error, json) result" where
  "store_describe env name now = on_stream env name (\<lambda>s d. case retire now s d of (s, d, r) \<Rightarrow>
     (s, d, res_bind r (\<lambda>_. Inr (describe_stream env s))))"

section \<open>Opening, closing and reconfiguring\<close>

text \<open>A loop over the streams in name order that stops at the first error.\<close>

fun each_stream :: "stream_env \<Rightarrow> (stream \<Rightarrow> sdisk \<Rightarrow> stream \<times> sdisk \<times> (stream_error, unit) result) \<Rightarrow> string list \<Rightarrow>
  store \<Rightarrow> sroot \<Rightarrow> store \<times> sroot \<times> (stream_error, unit) result" where
  "each_stream env f [] st fs = (st, fs, Inr ())"
| "each_stream env f (name # names) st fs =
     (case on_stream env name f st fs of (st, fs, r) \<Rightarrow>
        (case r of Inl e \<Rightarrow> (st, fs, Inl e) | Inr _ \<Rightarrow> each_stream env f names st fs))"

definition saved :: "stream \<Rightarrow> sdisk \<Rightarrow> stream \<times> sdisk \<times> (stream_error, unit) result" where
  "saved s d = (case save_meta s d of (d, ok) \<Rightarrow> (s, d, if ok then Inr () else Inl SIo))"

definition store_close :: "stream_env \<Rightarrow> store \<Rightarrow> sroot \<Rightarrow> store \<times> sroot" where
  "store_close env st fs =
     (case each_stream env (\<lambda>s d. case close_stream s d of (s, d) \<Rightarrow> (s, d, Inr ())) (store_names st) st fs of (st, fs, _) \<Rightarrow> (st, fs))"

definition store_drop :: "stream_env \<Rightarrow> store \<Rightarrow> sroot \<Rightarrow> sroot" where
  "store_drop env st fs = (if so_staged st then fs else snd (store_close env st fs))"

fun open_dirs :: "nat \<Rightarrow> bool \<Rightarrow> string list \<Rightarrow> (string, stream) btree \<Rightarrow> sroot \<Rightarrow> (string, stream) btree \<times> sroot" where
  "open_dirs now recover [] streams fs = (streams, fs)"
| "open_dirs now recover (key # keys) streams fs =
     (if \<not> has_meta fs key then open_dirs now recover keys streams fs
      else case load now recover (enter_dir key fs) of (d, r) \<Rightarrow>
        open_dirs now recover keys (case r of Inl _ \<Rightarrow> streams | Inr s \<Rightarrow> bt_insert (sd_name (st_def s)) s streams) (leave_dir key d fs))"

definition open_mode :: "quota \<Rightarrow> nat \<Rightarrow> bool \<Rightarrow> sroot \<Rightarrow> sroot \<times> (stream_error, store) result" where
  "open_mode quota now recover fs = (case root_take fs of (r, fs) \<Rightarrow>
     if r \<noteq> SioOk then (fs, Inl SIo)
     else case open_dirs now recover (bt_keys (ro_dirs fs)) [] fs of (streams, fs) \<Rightarrow>
       (fs, Inr \<lparr>so_quota = quota, so_streams = streams, so_staged = \<not> recover\<rparr>))"

fun each_definition :: "(stream_def \<Rightarrow> store \<Rightarrow> sroot \<Rightarrow> store \<times> sroot \<times> (stream_error, unit) result) \<Rightarrow> stream_def list \<Rightarrow>
  store \<Rightarrow> sroot \<Rightarrow> store \<times> sroot \<times> (stream_error, unit) result" where
  "each_definition f [] st fs = (st, fs, Inr ())"
| "each_definition f (def # defs) st fs =
     (case f def st fs of (st, fs, r) \<Rightarrow> (case r of Inl e \<Rightarrow> (st, fs, Inl e) | Inr _ \<Rightarrow> each_definition f defs st fs))"

definition store_start :: "stream_env \<Rightarrow> quota \<Rightarrow> stream_def list \<Rightarrow> nat \<Rightarrow> sroot \<Rightarrow> sroot \<times> (stream_error, store) result" where
  "store_start env quota defs now fs =
     (case open_mode quota now True fs of (fs, r) \<Rightarrow>
        (case r of Inl e \<Rightarrow> (fs, Inl e)
         | Inr st \<Rightarrow>
           (case preflight_transition env st fs quota defs [] True of Inl e \<Rightarrow> (fs, Inl e)
            | Inr _ \<Rightarrow>
              (let (existing, new) = partition (\<lambda>d. bt_has (so_streams st) (sd_name d)) defs in
               case each_definition (\<lambda>d. store_apply env d now) existing st fs of (st, fs, r) \<Rightarrow>
                 (case r of Inl e \<Rightarrow> (fs, Inl e)
                  | Inr _ \<Rightarrow> (case each_definition (store_create env) new st fs of (st, fs, r) \<Rightarrow>
                       (fs, res_bind r (\<lambda>_. Inr st))))))))"

text \<open>
  \<open>reconfigure_transition\<close>: metadata only. Streams not declared any more lose their exports, the
  declared ones get their definition, new ones are created, and everything is saved.
\<close>

definition withdraw :: "string list \<Rightarrow> stream \<Rightarrow> stream" where
  "withdraw retiring s =
     (let s = (if sd_name (st_def s) \<in> set retiring then s\<lparr>st_retired := True\<rparr> else s) in
      s\<lparr>st_def := (st_def s)\<lparr>sd_export := None, sd_external_export := False, sd_discard_exported := False\<rparr>\<rparr>)"

definition redefine :: "stream_def \<Rightarrow> (string, stream) btree \<Rightarrow> (string, stream) btree" where
  "redefine def = bt_adjust (sd_name def) (\<lambda>s. s\<lparr>st_def := def, st_retired := False\<rparr>)"

definition create_missing :: "stream_env \<Rightarrow> stream_def \<Rightarrow> store \<Rightarrow> sroot \<Rightarrow> store \<times> sroot \<times> (stream_error, unit) result" where
  "create_missing env def st fs = (if bt_has (so_streams st) (sd_name def) then (st, fs, Inr ()) else store_create env def st fs)"

definition reconfigure_body :: "stream_env \<Rightarrow> stream_def list \<Rightarrow> string list \<Rightarrow> store \<Rightarrow> sroot \<Rightarrow>
  store \<times> sroot \<times> (stream_error, unit) result" where
  "reconfigure_body env defs retiring st fs =
     (let st = st\<lparr>so_streams := map (\<lambda>(n, s). (n, withdraw retiring s)) (so_streams st)\<rparr>;
          st = st\<lparr>so_streams := fold redefine (filter (\<lambda>d. bt_has (so_streams st) (sd_name d)) defs) (so_streams st)\<rparr> in
      case each_definition (create_missing env) defs st fs of (st, fs, r) \<Rightarrow>
        (case r of Inl e \<Rightarrow> (st, fs, Inl e) | Inr _ \<Rightarrow> each_stream env saved (store_names st) st fs))"

fun delete_each :: "stream_env \<Rightarrow> string list \<Rightarrow> store \<Rightarrow> sroot \<Rightarrow> store \<times> sroot \<times> (stream_error, unit) result" where
  "delete_each env [] st fs = (st, fs, Inr ())"
| "delete_each env (name # names) st fs =
     (case store_delete env name st fs of (st, fs, r) \<Rightarrow> (case r of Inl e \<Rightarrow> (st, fs, Inl e) | Inr _ \<Rightarrow> delete_each env names st fs))"

fun restore_each :: "stream_env \<Rightarrow> (stream_def \<times> bool) list \<Rightarrow> store \<Rightarrow> sroot \<Rightarrow> store \<times> sroot \<times> (stream_error, unit) result" where
  "restore_each env [] st fs = (st, fs, Inr ())"
| "restore_each env ((def, retired) # ps) st fs =
     (case on_stream env (sd_name def) (\<lambda>s d. saved (s\<lparr>st_def := def, st_retired := retired\<rparr>) d) st fs of (st, fs, r) \<Rightarrow>
        (case r of Inl e \<Rightarrow> (st, fs, Inl e) | Inr _ \<Rightarrow> restore_each env ps st fs))"

definition rollback :: "stream_env \<Rightarrow> quota \<Rightarrow> (stream_def \<times> bool) list \<Rightarrow> store \<Rightarrow> sroot \<Rightarrow> store \<times> sroot \<times> (stream_error, unit) result" where
  "rollback env old_quota previous st fs =
     (let st = st\<lparr>so_quota := old_quota\<rparr>;
          added = filter (\<lambda>n. n \<notin> (\<lambda>(d, _). sd_name d) ` set previous) (store_names st) in
      case delete_each env added st fs of (st, fs, r) \<Rightarrow>
        (case r of Inl e \<Rightarrow> (st, fs, Inl e) | Inr _ \<Rightarrow> restore_each env previous st fs))"

definition reconfigure_transition :: "stream_env \<Rightarrow> quota \<Rightarrow> stream_def list \<Rightarrow> string list \<Rightarrow> bool \<Rightarrow> store \<Rightarrow> sroot \<Rightarrow>
  store \<times> sroot \<times> (stream_error, unit) result" where
  "reconfigure_transition env quota defs retiring recovery st fs =
     (case preflight_transition env st fs quota defs retiring recovery of Inl e \<Rightarrow> (st, fs, Inl e)
      | Inr _ \<Rightarrow>
        (let previous = map (\<lambda>s. (st_def s, st_retired s)) (bt_values (so_streams st)); old_quota = so_quota st in
         case reconfigure_body env defs retiring (st\<lparr>so_quota := quota\<rparr>) fs of (st, fs, r) \<Rightarrow>
           (case r of
              Inr _ \<Rightarrow> (st, fs, Inr ())
            | Inl e \<Rightarrow> (case rollback env old_quota previous st fs of (st, fs, r') \<Rightarrow>
                (st, fs, res_bind r' (\<lambda>_. Inl e))))))"

definition stage_projection :: "stream_env \<Rightarrow> quota \<Rightarrow> stream_def list \<Rightarrow> nat \<Rightarrow> bool \<Rightarrow> string list \<Rightarrow> sroot \<Rightarrow>
  sroot \<times> (stream_error, store) result" where
  "stage_projection env quota defs now recovery retiring fs =
     (case preflight_disk_projection env fs quota defs recovery retiring of Inl e \<Rightarrow> (fs, Inl e)
      | Inr _ \<Rightarrow> (case open_mode quota now False fs of (fs, r) \<Rightarrow>
          (case r of Inl e \<Rightarrow> (fs, Inl e)
           | Inr st \<Rightarrow> (case reconfigure_transition env quota defs retiring recovery st fs of (st, fs, r) \<Rightarrow>
               (fs, res_bind r (\<lambda>_. Inr st))))))"

definition reread_meta :: "stream \<Rightarrow> sdisk \<Rightarrow> stream \<times> sdisk \<times> (stream_error, unit) result" where
  "reread_meta s d = (case sio_take d of (r, d) \<Rightarrow>
     (case (r, dk_meta d) of
        (SioOk, MetaFile m) \<Rightarrow> (s\<lparr>st_def := mt_definition m, st_retired := mt_retired m\<rparr>, d, Inr ())
      | _ \<Rightarrow> (s, d, Inl SIo)))"

definition restore_metadata :: "stream_env \<Rightarrow> store \<Rightarrow> sroot \<Rightarrow> store \<times> sroot \<times> (stream_error, unit) result" where
  "restore_metadata env st fs = each_stream env reread_meta (store_names st) st fs"

definition promote_stream :: "nat \<Rightarrow> stream \<Rightarrow> sdisk \<Rightarrow> stream \<times> sdisk \<times> (stream_error, unit) result" where
  "promote_stream now s d =
     (if st_retired s then (s, d, Inr ())
      else case evict_until (sd_max_size (st_def s)) s of None \<Rightarrow> (s, d, Inl SSpins)
      | Some s \<Rightarrow> (case save_meta s d of (d, ok) \<Rightarrow> if ok then retire now s d else (s, d, Inl SIo)))"

definition promote :: "stream_env \<Rightarrow> nat \<Rightarrow> store \<Rightarrow> sroot \<Rightarrow> store \<times> sroot \<times> (stream_error, unit) result" where
  "promote env now st fs = each_stream env (promote_stream now) (store_names st) (st\<lparr>so_staged := False\<rparr>) fs"

definition discard_uncommitted :: "stream_env \<Rightarrow> string list \<Rightarrow> store \<Rightarrow> sroot \<Rightarrow> store \<times> sroot \<times> (stream_error, unit) result" where
  "discard_uncommitted env directories st fs =
     delete_each env (filter (\<lambda>name. dir_name env name \<in> set directories) (store_names st)) st fs"

section \<open>Health\<close>

record stream_facts =
  sf_name :: string
  sf_bytes :: nat
  sf_max_size :: nat
  sf_messages :: nat
  sf_oldest :: "nat option"
  sf_newest :: "nat option"
  sf_checkpoint :: "nat option"
  sf_overwrite :: bool
  sf_rejected :: nat
  sf_lost :: nat
  sf_export :: "(nat \<times> json) option"

definition stream_health :: "nat \<Rightarrow> stream \<Rightarrow> stream_facts" where
  "stream_health now s = (let live = drop (retirable now s) (st_entries s) in
     \<lparr>sf_name = sd_name (st_def s), sf_bytes = sum_list (map entry_cost live), sf_max_size = sd_max_size (st_def s),
      sf_messages = length live,
      sf_oldest = (case live of [] \<Rightarrow> None | e # _ \<Rightarrow> Some (en_sequence e)),
      sf_newest = (if live = [] then None else Some (en_sequence (last live))),
      sf_checkpoint = (if 0 \<le> st_exported s then Some (nat (st_exported s)) else None),
      sf_overwrite = (sd_strategy_on_full (st_def s) = OverwriteOldestData),
      sf_rejected = st_rejected s, sf_lost = st_lost s,
      sf_export = (if sd_export (st_def s) \<noteq> None \<or> sd_external_export (st_def s)
         then Some (length (takeWhile (\<lambda>e. st_exported s < int (en_sequence e)) (rev live)), st_export_status s) else None)\<rparr>)"

definition store_health :: "nat \<Rightarrow> store \<Rightarrow> stream_facts list" where
  "store_health now st = map (stream_health now) (bt_values (so_streams st))"

section \<open>Requests\<close>

definition create_payload :: "stream_env \<Rightarrow> string \<Rightarrow> json \<Rightarrow> (stream_error, stream_def) result" where
  "create_payload env name payload = (case as_object payload of
     None \<Rightarrow> Inl SInvalid
   | Some obj \<Rightarrow>
       if bt_has obj ''export'' \<or> bt_has obj ''external_export'' \<or> bt_has obj ''walrus_export'' then Inl SInvalid
       else if (case map_of obj ''name'' of None \<Rightarrow> False | Some n \<Rightarrow> n \<noteq> JStr name) then Inl SInvalid
       else (case definition_from_value env (JObj (bt_insert ''name'' (JStr name) obj)) of
               None \<Rightarrow> Inl SInvalid | Some def \<Rightarrow> Inr def))"

definition number_field :: "json \<Rightarrow> string \<Rightarrow> nat \<Rightarrow> (stream_error, nat) result" where
  "number_field payload key dflt = (case Option.bind (as_object payload) (\<lambda>m. map_of m key) of
     None \<Rightarrow> Inr dflt
   | Some JNull \<Rightarrow> Inr dflt
   | Some v \<Rightarrow> (case value_u64 v of None \<Rightarrow> Inl SInvalid | Some n \<Rightarrow> Inr n))"

definition message_json :: "stream_env \<Rightarrow> smessage \<Rightarrow> json" where
  "message_json env m = jobj [(''sequence'', jnat (sm_sequence m)), (''appended_ms'', jnat (sm_appended_ms m)),
     (case json_from_slice env (sm_data m) of
        Some v \<Rightarrow> (''payload'', v) | None \<Rightarrow> (''data_base64'', JStr (base64_encode env (sm_data m))))]"

definition external_exporter :: "string \<Rightarrow> store \<Rightarrow> (stream_error, unit) result" where
  "external_exporter name st = (case map_of (so_streams st) name of
     None \<Rightarrow> Inl SNotFound | Some s \<Rightarrow> ensure (sd_external_export (st_def s)) SInvalid (Inr ()))"

definition counter_field :: "json \<Rightarrow> string \<Rightarrow> (stream_error, json) result" where
  "counter_field payload key = (case Option.bind (as_object payload) (\<lambda>m. map_of m key) of
     None \<Rightarrow> Inl SInvalid
   | Some v \<Rightarrow> if v = JNull \<and> key = ''last_success_ms'' then Inr v
               else (case value_u64 v of None \<Rightarrow> Inl SInvalid | Some n \<Rightarrow> Inr (jnat n)))"

definition exporter_status :: "json \<Rightarrow> (stream_error, json) result" where
  "exporter_status payload =
     res_bind (counter_field payload ''batches'') (\<lambda>batches.
     res_bind (counter_field payload ''failures'') (\<lambda>failures.
     res_bind (counter_field payload ''consecutive_failures'') (\<lambda>consecutive.
     res_bind (counter_field payload ''last_success_ms'') (\<lambda>success.
       ensure (\<not> (case (value_u64 consecutive, value_u64 failures) of (Some c, Some f) \<Rightarrow> f < c | (Some _, None) \<Rightarrow> True | _ \<Rightarrow> False)) SInvalid
        (Inr (jobj [(''batches'', batches), (''failures'', failures), (''consecutive_failures'', consecutive),
           (''last_success_ms'', success),
           (''last_error'', if 0 < (case value_u64 consecutive of None \<Rightarrow> 0 | Some c \<Rightarrow> c) then JStr ''customer export failed'' else JNull)]))))))"

definition stream_handle :: "stream_env \<Rightarrow> string list \<Rightarrow> string \<Rightarrow> string \<Rightarrow> json \<Rightarrow> (string \<Rightarrow> bool) \<Rightarrow> nat \<Rightarrow>
  store \<Rightarrow> sroot \<Rightarrow> store \<times> sroot \<times> (stream_error, json) result" where
  "stream_handle env declared operation name payload visible now st fs =
     (if operation = ''stream_list'' then
        (st, fs, Inr (jobj [(''streams'', JArr (map JStr (filter visible (store_names st))))]))
      else if operation = ''stream_create'' then
        (case create_payload env name payload of Inl e \<Rightarrow> (st, fs, Inl e)
         | Inr def \<Rightarrow> (case store_create env def st fs of (st, fs, r) \<Rightarrow>
             (st, fs, res_bind r (\<lambda>_. Inr (jobj [(''created'', JStr name)])))))
      else if operation = ''stream_delete'' then
        (if name \<in> set declared then (st, fs, Inl SDeclared)
         else case store_delete env name st fs of (st, fs, r) \<Rightarrow> (st, fs, res_bind r (\<lambda>_. Inr (jobj [(''deleted'', JStr name)]))))
      else if operation = ''stream_append'' then
        (case store_append env name (json_to_vec env payload) now st fs of (st, fs, r) \<Rightarrow>
           (st, fs, res_bind r (\<lambda>q. Inr (jobj [(''sequence'', jnat q)]))))
      else if operation = ''stream_read'' then
        (case res_bind (number_field payload ''start'' 0) (\<lambda>a. res_bind (number_field payload ''min'' 1) (\<lambda>b.
                res_bind (number_field payload ''max'' 1) (\<lambda>c. Inr (a, b, c)))) of
           Inl e \<Rightarrow> (st, fs, Inl e)
         | Inr (start, lo, hi) \<Rightarrow> (case store_read env name start lo hi now st fs of (st, fs, r) \<Rightarrow>
             (st, fs, res_bind r (\<lambda>ms. Inr (jobj [(''messages'', JArr (map (message_json env) ms))])))))
      else if operation = ''stream_export_status'' then
        (case res_bind (external_exporter name st) (\<lambda>_. exporter_status payload) of
           Inl e \<Rightarrow> (st, fs, Inl e)
         | Inr status \<Rightarrow> (set_export_status name status st, fs, Inr (jobj [(''updated'', JBool True)])))
      else if operation = ''stream_export_ack'' then
        (case external_exporter name st of Inl e \<Rightarrow> (st, fs, Inl e)
         | Inr _ \<Rightarrow> (case Option.bind (Option.bind (as_object payload) (\<lambda>m. map_of m ''sequence'')) value_u64 of
             None \<Rightarrow> (st, fs, Inl SInvalid)
           | Some q \<Rightarrow> (case store_export_ack env name q now st fs of (st, fs, r) \<Rightarrow>
               (st, fs, res_bind r (\<lambda>x. Inr (jobj [(''exported'', jint x)]))))))
      else if operation = ''stream_describe'' then store_describe env name now st fs
      else (st, fs, Inl SUnknown))"

end
