(* ===== verification/StorePolicy.thy ===== *)
theory StorePolicy
  imports StreamStore
begin

text \<open>
  What the stream store guarantees the operator: quotas hold against every request, components cannot
  touch declared streams or set up exports, and a reconfiguration that fails part way leaves the store
  as it was.
\<close>

section \<open>Definitions of streams never change by use\<close>

lemma evict_front_def_frame: "st_def (evict_front s) = st_def s \<and> st_retired (evict_front s) = st_retired s"
  by (simp add: evict_front_def Let_def split: list.splits)

lemma evict_while_def_frame: "st_def (evict_while P s) = st_def s \<and> st_retired (evict_while P s) = st_retired s"
proof (induction P s rule: evict_while.induct)
  case (1 P s)
  then show ?case
    using evict_front_def_frame [of s] by (subst (1 2) evict_while.simps) (auto split: list.splits)
qed

lemma evict_until_def_frame: "evict_until n s = Some s' \<Longrightarrow> st_def s' = st_def s \<and> st_retired s' = st_retired s"
proof (induction n s rule: evict_until.induct)
  case (1 n s)
  have "evict_until n s = (if st_bytes s \<le> n then Some s else if st_entries s = [] then None else evict_until n (evict_front s))"
    by (rule evict_until.simps)
  then show ?case using 1 evict_front_def_frame [of s] by (auto split: if_splits)
qed

lemma drop_dead_def_frame: "drop_dead fs s d = (s', d', r) \<Longrightarrow> st_def s' = st_def s \<and> st_retired s' = st_retired s"
proof (induction fs s d rule: drop_dead.induct)
  case (2 first rest s d)
  then show ?case by (auto simp: forget_segment_def split: prod.splits if_splits)
qed simp

lemma drop_segments_def_frame: "drop_segments s d = (s', d', r) \<Longrightarrow> st_def s' = st_def s \<and> st_retired s' = st_retired s"
  by (auto simp: drop_segments_def Let_def dest: drop_dead_def_frame split: if_splits prod.splits)

lemma retire_def_frame: "retire now s d = (s', d', r) \<Longrightarrow> st_def s' = st_def s \<and> st_retired s' = st_retired s"
  using evict_while_def_frame
  by (auto simp: retire_def retire_entries_def Let_def dest!: drop_segments_def_frame split: if_splits)

lemma write_framed_def_frame: "write_framed q now data s d = (s', d', r) \<Longrightarrow> st_def s' = st_def s \<and> st_retired s' = st_retired s"
  by (auto simp: write_framed_def Let_def split: if_splits prod.splits)

lemma place_record_def_frame: "place_record now data s d = (s', d', r) \<Longrightarrow> st_def s' = st_def s \<and> st_retired s' = st_retired s"
  by (auto simp: place_record_def append_record_def dest!: write_framed_def_frame
      split: persistence.splits option.splits prod.splits if_splits)

lemma make_room_def_frame:
  "make_room n s = Inr s' \<Longrightarrow> st_def s' = st_def s \<and> st_retired s' = st_retired s"
  "make_room n s = Inl (e, s') \<Longrightarrow> st_def s' = st_def s \<and> st_retired s' = st_retired s"
  by (auto simp: make_room_def dest: evict_until_def_frame split: if_splits option.splits)

lemma reserve_def_frame: "reserve s d = (s', d', b) \<Longrightarrow> st_def s' = st_def s \<and> st_retired s' = st_retired s"
  by (auto simp: reserve_def Let_def split: if_splits prod.splits)

lemma push_entry_retired: "st_retired (push_entry now data pos s) = st_retired s"
  by (rule push_entry_simps)

lemma append_def_frame: "append_message data now s d = (s', d', r) \<Longrightarrow> st_def s' = st_def s \<and> st_retired s' = st_retired s"
  by (auto simp: append_message_def Let_def split: if_splits prod.splits sum.splits
      dest!: retire_def_frame make_room_def_frame reserve_def_frame place_record_def_frame drop_segments_def_frame)

lemma read_messages_def_frame: "read_messages a b c now s d = (s', d', r) \<Longrightarrow> st_def s' = st_def s \<and> st_retired s' = st_retired s"
  by (auto simp: read_messages_def Let_def split: if_splits prod.splits sum.splits dest!: retire_def_frame)

lemma export_ack_def_frame: "export_ack q now s d = (s', d', r) \<Longrightarrow> st_def s' = st_def s \<and> st_retired s' = st_retired s"
  by (auto simp: export_ack_def Let_def split: if_splits prod.splits dest!: retire_def_frame)

section \<open>Well-formed stores\<close>

definition store_wf :: "store \<Rightarrow> bool" where
  "store_wf st \<longleftrightarrow> bt_wf (so_streams st) \<and> (\<forall>n s. map_of (so_streams st) n = Some s \<longrightarrow> sd_name (st_def s) = n)"

text \<open>An operation on one stream that keeps its definition keeps every definition of the store.\<close>

definition defs_of :: "store \<Rightarrow> (string, stream_def \<times> bool) btree" where
  "defs_of st = map (\<lambda>(n, s). (n, (st_def s, st_retired s))) (so_streams st)"

lemma defs_of_get: "map_of (defs_of st) n = map_option (\<lambda>s. (st_def s, st_retired s)) (map_of (so_streams st) n)"
  unfolding defs_of_def by (simp add: bt_get_map_snd [of "\<lambda>_ s. (st_def s, st_retired s)"])

lemma defs_of_insert:
  assumes "bt_wf (so_streams st)" and "map_of (so_streams st) n = Some s" and "st_def s' = st_def s" and "st_retired s' = st_retired s"
  shows "defs_of (st\<lparr>so_streams := bt_insert n s' (so_streams st)\<rparr>) = defs_of st"
proof -
  obtain a b where "so_streams st = a @ (n, s) # b" "bt_insert n s' (so_streams st) = a @ (n, s') # b"
    by (rule bt_insert_old [OF assms(1,2)])
  then show ?thesis using assms(3,4) by (simp add: defs_of_def)
qed

lemma reserved_bytes_defs: "reserved_bytes st = sum_list (map (\<lambda>(n, d, _). sd_max_size d) (defs_of st))"
  unfolding reserved_bytes_def defs_of_def by (induction "so_streams st" arbitrary: st) (auto simp: case_prod_beta comp_def)

lemma length_defs: "length (so_streams st) = length (defs_of st)"
  by (simp add: defs_of_def)

lemma on_stream_defs:
  assumes "bt_wf (so_streams st)" and "on_stream env name f st fs = (st', fs', r)"
    and "\<And>s d s' d' r. f s d = (s', d', r) \<Longrightarrow> st_def s' = st_def s \<and> st_retired s' = st_retired s"
  shows "defs_of st' = defs_of st \<and> so_quota st' = so_quota st \<and> bt_wf (so_streams st')"
  using assms(1,2) assms(3) defs_of_insert [OF assms(1)]
  by (auto simp: on_stream_def split: option.splits prod.splits)

text \<open>\<open>create\<close> adds at most one stream, within the quota.\<close>

lemma store_create_cases:
  assumes "store_create env def st fs = (st', fs', r)"
  obtains (kept) e where "st' = st" "r = Inl e"
  | (added) "st' = st\<lparr>so_streams := bt_insert (sd_name def) (new_stream def) (so_streams st)\<rparr>" "map_of (so_streams st) (sd_name def) = None"
      "validate_stream env def = Inr ()" "length (so_streams st) < qu_max_streams (so_quota st)"
      "reserved_bytes st + sd_max_size def \<le> qu_max_total_bytes (so_quota st)" "r = Inr ()"
proof (cases "\<exists>e. r = Inl e \<and> st' = st")
  case True
  then show thesis using kept by blast
next
  case False
  have v: "validate_stream env def = Inr ()"
  proof (cases "validate_stream env def")
    case (Inl a)
    then have "st' = st \<and> (r = Inl a \<or> r = Inl SExists)" using assms by (auto simp: store_create_def Let_def split: if_splits)
    then show ?thesis using False by blast
  qed simp
  have ok: "\<not> bt_has (so_streams st) (sd_name def)"
    "\<not> (qu_max_streams (so_quota st) \<le> length (so_streams st) \<or> qu_max_total_bytes (so_quota st) < reserved_bytes st + sd_max_size def)"
    using assms False v unfolding store_create_def Let_def by (auto split: if_splits)
  then have "st' = st\<lparr>so_streams := bt_insert (sd_name def) (new_stream def) (so_streams st)\<rparr> \<and> r = Inr ()"
    using assms False v unfolding store_create_def Let_def by (auto split: if_splits prod.splits)
  then show thesis using added ok v by auto
qed

section \<open>Requests of components\<close>

text \<open>
  What \<open>serde\<close> documents of the derived \<open>Definition\<close> parser: a field that is absent gets its
  default, and \<open>name\<close> is the string given.
\<close>

definition serde_defaults :: "stream_env \<Rightarrow> bool" where
  "serde_defaults env \<longleftrightarrow> (\<forall>m def. definition_from_value env (JObj m) = Some def \<longrightarrow>
     (map_of m ''export'' = None \<longrightarrow> sd_export def = None)
     \<and> (map_of m ''external_export'' = None \<longrightarrow> \<not> sd_external_export def)
     \<and> (map_of m ''walrus_export'' = None \<longrightarrow> \<not> sd_walrus_export def)
     \<and> (\<forall>n. map_of m ''name'' = Some (JStr n) \<longrightarrow> sd_name def = n))"

lemma create_payload_no_export:
  assumes "serde_defaults env" and "create_payload env name payload = Inr def"
  shows "sd_name def = name" "sd_export def = None" "\<not> sd_external_export def" "\<not> sd_walrus_export def"
proof -
  obtain obj where obj: "definition_from_value env (JObj (bt_insert ''name'' (JStr name) obj)) = Some def"
    "map_of obj ''export'' = None" "map_of obj ''external_export'' = None" "map_of obj ''walrus_export'' = None"
    using assms(2) by (auto simp: create_payload_def split: option.splits if_splits)
  show "sd_name def = name" "sd_export def = None" "\<not> sd_external_export def" "\<not> sd_walrus_export def"
    using assms(1) obj by (auto simp: serde_defaults_def)
qed

text \<open>What a request can do to the definitions: nothing, remove one that is not declared, or add one.\<close>

lemma handle_cases:
  assumes wf: "bt_wf (so_streams st)" and run: "stream_handle env declared operation name payload visible now st fs = (st', fs', r)"
  obtains (same) "defs_of st' = defs_of st" "so_quota st' = so_quota st"
  | (deleted) "so_streams st' = bt_remove name (so_streams st)" "name \<notin> set declared" "so_quota st' = so_quota st"
  | (created) def where "create_payload env name payload = Inr def"
      "st' = st\<lparr>so_streams := bt_insert (sd_name def) (new_stream def) (so_streams st)\<rparr>" "map_of (so_streams st) (sd_name def) = None"
      "length (so_streams st) < qu_max_streams (so_quota st)" "reserved_bytes st + sd_max_size def \<le> qu_max_total_bytes (so_quota st)"
proof -
  have on: "thesis" if run: "on_stream env name f st fs = (st', fs', x)"
    and keep: "\<And>s d s' d' r. f s d = (s', d', r) \<Longrightarrow> st_def s' = st_def s \<and> st_retired s' = st_retired s" for f and x :: "stream_error + 'z"
  proof -
    have "defs_of st' = defs_of st \<and> so_quota st' = so_quota st \<and> bt_wf (so_streams st')"
      by (rule on_stream_defs [OF wf run]) (rule keep)
    then show thesis using same by blast
  qed
  consider "st' = st" | "operation = ''stream_create''" | "operation = ''stream_delete''" "name \<notin> set declared"
    | "operation = ''stream_append''" | "operation = ''stream_read''" | status where "st' = set_export_status name status st"
    | "operation = ''stream_export_ack''" | "operation = ''stream_describe''"
    using run by (auto simp: stream_handle_def split: if_splits sum.splits)
  then show thesis
  proof cases
    case 1
    then show ?thesis using same by simp
  next
    case 2
    then show ?thesis
      using run same created by (auto simp: stream_handle_def elim!: store_create_cases split: sum.splits prod.splits)
  next
    case 3
    then show ?thesis
      using run same deleted by (auto simp: stream_handle_def store_delete_def Let_def split: option.splits prod.splits)
  next
    case 4
    then obtain x where "on_stream env name (append_message (json_to_vec env payload) now) st fs = (st', fs', x)"
      using run by (auto simp: stream_handle_def store_append_def split: prod.splits)
    then show ?thesis by (rule on) (rule append_def_frame)
  next
    case 5
    then consider "st' = st" | a b c x where "on_stream env name (read_messages a b c now) st fs = (st', fs', x)"
      using run by (auto simp: stream_handle_def store_read_def split: prod.splits sum.splits)
    then show ?thesis
    proof cases
      case 1
      then show ?thesis using same by simp
    next
      case 2
      then show ?thesis by (rule on) (rule read_messages_def_frame)
    qed
  next
    case (6 status)
    have "defs_of st' = defs_of st"
      unfolding 6 set_export_status_def bt_adjust_def defs_of_def by (auto simp: case_prod_beta comp_def)
    then show ?thesis using same 6 by (simp add: set_export_status_def)
  next
    case 7
    then consider "st' = st" | q x where "on_stream env name (export_ack q now) st fs = (st', fs', x)"
      using run by (auto simp: stream_handle_def store_export_ack_def split: prod.splits sum.splits option.splits)
    then show ?thesis
    proof cases
      case 1
      then show ?thesis using same by simp
    next
      case 2
      then show ?thesis by (rule on) (rule export_ack_def_frame)
    qed
  next
    case 8
    then have "store_describe env name now st fs = (st', fs', r)" using run by (simp add: stream_handle_def)
    then show ?thesis unfolding store_describe_def
      by (rule on) (auto split: prod.splits dest!: retire_def_frame)
  qed
qed

text \<open>
  C23: No request of a component gets around the operator. A declared stream stays, no stream changes
  its definition, and a stream that appears is the one requested, has no export of any kind, and fits
  the quotas on the number of streams and on their total size.
\<close>

theorem handle_respects_operator:
  assumes "serde_defaults env" and "bt_wf (so_streams st)"
    and "stream_handle env declared operation name payload visible now st fs = (st', fs', r)"
  shows "(\<forall>n \<in> set declared. bt_has (so_streams st) n \<longrightarrow> bt_has (so_streams st') n)
    \<and> (\<forall>n s s'. map_of (so_streams st) n = Some s \<and> map_of (so_streams st') n = Some s' \<longrightarrow> st_def s' = st_def s)
    \<and> (\<forall>n s'. map_of (so_streams st) n = None \<and> map_of (so_streams st') n = Some s' \<longrightarrow>
         n = name \<and> sd_export (st_def s') = None \<and> \<not> sd_external_export (st_def s') \<and> \<not> sd_walrus_export (st_def s')
         \<and> length (so_streams st') \<le> qu_max_streams (so_quota st) \<and> reserved_bytes st' \<le> qu_max_total_bytes (so_quota st))"
  using assms(2,3)
proof (cases rule: handle_cases)
  case same
  have eq: "map_option (\<lambda>s. (st_def s, st_retired s)) (map_of (so_streams st') n) = map_option (\<lambda>s. (st_def s, st_retired s)) (map_of (so_streams st) n)" for n
    using same(1) defs_of_get by metis
  have "bt_has (so_streams st') n = bt_has (so_streams st) n" for n using eq [of n] by (cases "map_of (so_streams st) n") auto
  moreover have "st_def s' = st_def s" if "map_of (so_streams st) n = Some s" "map_of (so_streams st') n = Some s'" for n s s'
    using eq [of n] that by simp
  ultimately show ?thesis by (metis option.distinct(1))
next
  case deleted
  then show ?thesis by auto
next
  case (created def)
  note p = create_payload_no_export [OF assms(1) created(1)]
  obtain a b where ab: "so_streams st = a @ b" "bt_insert (sd_name def) (new_stream def) (so_streams st) = a @ (sd_name def, new_stream def) # b"
    by (rule bt_insert_new [OF created(3)])
  have "reserved_bytes st' = reserved_bytes st + sd_max_size def"
    unfolding created(2) reserved_bytes_def by (simp add: ab(2), simp add: ab(1) new_stream_def)
  moreover have "length (so_streams st') = Suc (length (so_streams st))" unfolding created(2) by (simp add: ab(2), simp add: ab(1))
  ultimately show ?thesis using created p by (auto simp: new_stream_def split: if_splits)
qed

text \<open>A parser with the documented defaults, and a store with room for one stream.\<close>

definition demo_env :: stream_env where
  "demo_env = \<lparr>parse_url = (\<lambda>_. None), sha256 = (\<lambda>s. s), json_to_vec = (\<lambda>_. ''x''), json_from_slice = (\<lambda>_. None),
     definition_from_value = (\<lambda>v. case v of
         JObj m \<Rightarrow> (case (map_of m ''name'', map_of m ''export'', map_of m ''external_export'', map_of m ''walrus_export'') of
             (Some (JStr n), None, None, None) \<Rightarrow>
               Some \<lparr>sd_name = n, sd_max_size = 1024, sd_strategy_on_full = RejectNewData, sd_persistence = PFile,
                 sd_time_to_live_seconds = None, sd_discard_exported = False, sd_external_export = False, sd_walrus_export = False,
                 sd_export = None\<rparr>
           | _ \<Rightarrow> None)
       | _ \<Rightarrow> None),
     base64_encode = (\<lambda>s. s)\<rparr>"

lemma serde_defaults_demo: "serde_defaults demo_env"
  by (auto simp: serde_defaults_def demo_env_def split: option.splits json.splits)

definition demo_streams :: store where
  "demo_streams = \<lparr>so_quota = \<lparr>qu_max_streams = 1, qu_max_total_bytes = 2048\<rparr>, so_streams = [], so_staged = False\<rparr>"

abbreviation demo_created :: "store \<times> sroot \<times> (stream_error, json) result" where
  "demo_created \<equiv> stream_handle demo_env [] ''stream_create'' ''a'' (JObj []) (\<lambda>_. True) 0 demo_streams \<lparr>ro_dirs = [], ro_io = []\<rparr>"

theorem handle_respects_operator_witness:
  "bt_has (so_streams (fst demo_created)) ''a'' \<and> reserved_bytes (fst demo_created) \<le> 2048"
proof -
  have "demo_created = (fst demo_created, fst (snd demo_created), snd (snd demo_created))" by simp
  from handle_respects_operator [OF serde_defaults_demo _ this]
  have ok: "map_of (so_streams (fst demo_created)) ''a'' = Some s' \<Longrightarrow> reserved_bytes (fst demo_created) \<le> 2048" for s'
    by (simp add: demo_streams_def)
  have "bt_has (so_streams (fst demo_created)) ''a''"
    by (simp add: stream_handle_def create_payload_def as_object_def demo_env_def store_create_def demo_streams_def validate_stream_def
        valid_stream_name_def MIN_STREAM_BYTES_def MAX_STREAM_BYTES_def reserved_bytes_def has_meta_def root_take_def
        save_meta_def write_meta_def enter_dir_def leave_dir_def sio_take_def Let_def str_simps)
  then show ?thesis using ok by auto
qed

section \<open>Failed reconfigurations\<close>

text \<open>A later store with the same streams and maybe more, whose definitions alone may differ.\<close>

definition extends :: "store \<Rightarrow> store \<Rightarrow> bool" where
  "extends st st' \<longleftrightarrow> bt_wf (so_streams st') \<and> so_staged st' = so_staged st \<and>
     (\<forall>n s. map_of (so_streams st) n = Some s \<longrightarrow>
        (\<exists>df rt. map_of (so_streams st') n = Some (s\<lparr>st_def := df, st_retired := rt\<rparr>)))"

lemma redefine_get:
  "map_of (redefine d m) n = (if n = sd_name d then map_option (\<lambda>s. s\<lparr>st_def := d, st_retired := False\<rparr>) (map_of m n) else map_of m n)"
  by (simp add: redefine_def)

lemma fold_redefine_extends: "extends st (st'\<lparr>so_streams := m\<rparr>) \<Longrightarrow> extends st (st'\<lparr>so_streams := fold redefine ds m\<rparr>)"
proof (induction ds arbitrary: m)
  case (Cons d ds)
  have "extends st (st'\<lparr>so_streams := redefine d m\<rparr>)"
    unfolding extends_def
  proof (intro conjI allI impI)
    show "bt_wf (so_streams (st'\<lparr>so_streams := redefine d m\<rparr>))" "so_staged (st'\<lparr>so_streams := redefine d m\<rparr>) = so_staged st"
      using Cons.prems by (auto simp: extends_def redefine_def)
    fix n s
    assume n: "map_of (so_streams st) n = Some s"
    have "\<forall>n s. map_of (so_streams st) n = Some s \<longrightarrow> (\<exists>df rt. map_of m n = Some (s\<lparr>st_def := df, st_retired := rt\<rparr>))"
      using Cons.prems by (simp add: extends_def)
    then obtain df rt where "map_of m n = Some (s\<lparr>st_def := df, st_retired := rt\<rparr>)" using n by blast
    then have "map_of (redefine d m) n = Some (if n = sd_name d then s\<lparr>st_def := d, st_retired := False\<rparr> else s\<lparr>st_def := df, st_retired := rt\<rparr>)"
      unfolding redefine_get by (cases "n = sd_name d") simp_all
    then show "\<exists>df rt. map_of (so_streams (st'\<lparr>so_streams := redefine d m\<rparr>)) n = Some (s\<lparr>st_def := df, st_retired := rt\<rparr>)" by auto
  qed
  from Cons.IH [OF this] show ?case by simp
qed simp

lemma withdraw_fields: "\<exists>df rt. withdraw retiring s = s\<lparr>st_def := df, st_retired := rt\<rparr>"
  unfolding withdraw_def Let_def by (cases s) auto

lemma create_missing_extends:
  assumes "extends st a" and "create_missing env d a fs = (b, fs', r)"
  shows "extends st b"
proof (cases "bt_has (so_streams a) (sd_name d)")
  case True
  then show ?thesis using assms by (simp add: create_missing_def)
next
  case False
  then have run: "store_create env d a fs = (b, fs', r)" using assms(2) by (simp add: create_missing_def)
  from run show ?thesis
  proof (cases rule: store_create_cases)
    case (kept e)
    then show ?thesis using assms(1) by simp
  next
    case added
    then have none: "map_of (so_streams a) (sd_name d) = None" by simp
    have "map_of (so_streams b) n = Some x" if "map_of (so_streams a) n = Some x" for n x
      using that none added(1) by (cases "n = sd_name d") auto
    moreover have "bt_wf (so_streams b)" "so_staged b = so_staged st" using assms(1) added(1) by (auto simp: extends_def)
    ultimately show ?thesis using assms(1) unfolding extends_def by blast
  qed
qed

lemma each_definition_extends:
  "extends st a \<Longrightarrow> each_definition (create_missing env) ds a fs = (b, fs', r) \<Longrightarrow> extends st b"
proof (induction ds arbitrary: a fs)
  case (Cons d ds)
  obtain a1 fs1 r1 where one: "create_missing env d a fs = (a1, fs1, r1)" by (metis prod_cases3)
  have "extends st a1" by (rule create_missing_extends [OF Cons.prems(1) one])
  then show ?case using Cons one by (auto split: sum.splits)
qed simp

lemma saved_same: "saved s d = (s', d', r) \<Longrightarrow> s' = s"
  by (auto simp: saved_def split: prod.splits)

lemma each_saved_same:
  "bt_wf (so_streams a) \<Longrightarrow> each_stream env saved ns a fs = (b, fs', r) \<Longrightarrow> b = a"
proof (induction ns arbitrary: a fs)
  case (Cons n ns)
  obtain a1 fs1 r1 where one: "on_stream env n saved a fs = (a1, fs1, r1)" by (metis prod_cases3)
  have "a1 = a"
    using one bt_get_same [OF _ Cons.prems(1)] by (auto simp: on_stream_def split: option.splits prod.splits dest!: saved_same)
  then show ?case using Cons one by (auto split: sum.splits)
qed simp

lemma reconfigure_body_extends:
  assumes wf: "bt_wf (so_streams st)" and run: "reconfigure_body env defs retiring (st\<lparr>so_quota := q\<rparr>) fs = (st1, fs1, r)"
  shows "extends st st1"
proof -
  let ?m = "map (\<lambda>(n, s). (n, withdraw retiring s)) (so_streams st)"
  have get: "map_of ?m n = map_option (withdraw retiring) (map_of (so_streams st) n)" for n
    by (simp add: bt_get_map_snd [of "\<lambda>_. withdraw retiring"])
  have "extends st ((st\<lparr>so_quota := q\<rparr>)\<lparr>so_streams := ?m\<rparr>)"
    using wf get withdraw_fields by (auto simp: extends_def)
  from fold_redefine_extends [OF this]
  have e1: "extends st ((st\<lparr>so_quota := q\<rparr>)\<lparr>so_streams := fold redefine (filter (\<lambda>d. bt_has ?m (sd_name d)) defs) ?m\<rparr>)" (is "extends st ?a") .
  obtain b fs2 r2 where each: "each_definition (create_missing env) defs ?a fs = (b, fs2, r2)" by (metis prod_cases3)
  have e2: "extends st b" by (rule each_definition_extends [OF e1 each])
  show ?thesis
  proof (cases r2)
    case (Inl e)
    then have "st1 = b" using run each by (simp add: reconfigure_body_def Let_def)
    then show ?thesis using e2 by simp
  next
    case (Inr u)
    then have "each_stream env saved (store_names b) b fs2 = (st1, fs1, r)" using run each by (simp add: reconfigure_body_def Let_def)
    then have "st1 = b" using each_saved_same e2 by (auto simp: extends_def)
    then show ?thesis using e2 by simp
  qed
qed

text \<open>Without I/O failures the two loops of the rollback go through.\<close>

lemma delete_each_all:
  assumes "ro_io fs = []" and "\<forall>n \<in> set ns. map_of (so_streams st) n \<noteq> None" and "distinct ns"
  shows "\<exists>st' fs'. delete_each env ns st fs = (st', fs', Inr ()) \<and> ro_io fs' = [] \<and> so_quota st' = so_quota st
    \<and> so_staged st' = so_staged st \<and> (bt_wf (so_streams st) \<longrightarrow> bt_wf (so_streams st'))
    \<and> (\<forall>n. map_of (so_streams st') n = (if n \<in> set ns then None else map_of (so_streams st) n))"
  using assms
proof (induction ns arbitrary: st fs)
  case (Cons n ns)
  let ?st = "st\<lparr>so_streams := bt_remove n (so_streams st)\<rparr>"
  let ?fs = "fs\<lparr>ro_dirs := bt_remove (dir_name env n) (ro_dirs fs)\<rparr>"
  obtain s where "map_of (so_streams st) n = Some s" using Cons.prems(2) by auto
  then have one: "store_delete env n st fs = (?st, ?fs, Inr ())"
    using Cons.prems(1) by (simp add: store_delete_def remove_dir_def root_take_def Let_def)
  have "\<forall>k \<in> set ns. map_of (so_streams ?st) k \<noteq> None" using Cons.prems(2,3) by auto
  then obtain st' fs' where rest: "delete_each env ns ?st ?fs = (st', fs', Inr ())" "ro_io fs' = []" "so_quota st' = so_quota ?st"
    "so_staged st' = so_staged ?st" "bt_wf (so_streams ?st) \<longrightarrow> bt_wf (so_streams st')"
    "\<forall>k. map_of (so_streams st') k = (if k \<in> set ns then None else map_of (so_streams ?st) k)"
    using Cons.IH [of ?fs ?st] Cons.prems by auto
  then show ?case using one by (intro exI [of _ st'] exI [of _ fs']) auto
qed simp

lemma saved_io_ok:
  assumes "dk_io d = []" shows "saved s d = (s, d\<lparr>dk_meta := MetaFile (meta_of s)\<rparr>, Inr ())"
  by (simp add: saved_def save_meta_def write_meta_def sio_take_def assms)

lemma enter_dir_io [simp]: "dk_io (enter_dir key fs) = ro_io fs"
  by (simp add: enter_dir_def split: option.splits)

lemma restore_each_all:
  assumes "ro_io fs = []" and "\<forall>p \<in> set ps. map_of (so_streams st) (sd_name (fst p)) \<noteq> None"
    and "distinct (map (sd_name \<circ> fst) ps)" and "bt_wf (so_streams st)"
  shows "\<exists>st' fs'. restore_each env ps st fs = (st', fs', Inr ()) \<and> so_quota st' = so_quota st \<and> so_staged st' = so_staged st
    \<and> bt_wf (so_streams st')
    \<and> (\<forall>n. n \<notin> sd_name ` fst ` set ps \<longrightarrow> map_of (so_streams st') n = map_of (so_streams st) n)
    \<and> (\<forall>df rt. (df, rt) \<in> set ps \<longrightarrow> map_of (so_streams st') (sd_name df) =
         map_option (\<lambda>s. s\<lparr>st_def := df, st_retired := rt\<rparr>) (map_of (so_streams st) (sd_name df)))"
  using assms
proof (induction ps arbitrary: st fs)
  case (Cons p ps)
  obtain df rt where p: "p = (df, rt)" by fastforce
  obtain s where s: "map_of (so_streams st) (sd_name df) = Some s" using Cons.prems(2) p by auto
  let ?s = "s\<lparr>st_def := df, st_retired := rt\<rparr>"
  let ?st = "st\<lparr>so_streams := bt_insert (sd_name df) ?s (so_streams st)\<rparr>"
  obtain fs1 where one: "on_stream env (sd_name df) (\<lambda>s d. saved (s\<lparr>st_def := df, st_retired := rt\<rparr>) d) st fs = (?st, fs1, Inr ())"
    "ro_io fs1 = []"
    using Cons.prems(1) s by (simp add: on_stream_def saved_io_ok leave_dir_def)
  have fresh: "sd_name df \<notin> (sd_name \<circ> fst) ` set ps" using Cons.prems(3) p by simp
  have "\<forall>q \<in> set ps. map_of (so_streams ?st) (sd_name (fst q)) \<noteq> None" using Cons.prems(2) by auto
  then obtain st' fs' where rest: "restore_each env ps ?st fs1 = (st', fs', Inr ())" "so_quota st' = so_quota ?st" "so_staged st' = so_staged ?st"
    "bt_wf (so_streams st')" "\<forall>n. n \<notin> sd_name ` fst ` set ps \<longrightarrow> map_of (so_streams st') n = map_of (so_streams ?st) n"
    "\<forall>df rt. (df, rt) \<in> set ps \<longrightarrow> map_of (so_streams st') (sd_name df) =
       map_option (\<lambda>s. s\<lparr>st_def := df, st_retired := rt\<rparr>) (map_of (so_streams ?st) (sd_name df))"
    using Cons.IH [of fs1 ?st] Cons.prems one(2) by auto
  have here: "map_of (so_streams st') (sd_name df) = Some ?s" using rest(5) fresh by (auto simp: image_comp)
  have other: "map_of (so_streams st') (sd_name df') = map_option (\<lambda>s. s\<lparr>st_def := df', st_retired := rt'\<rparr>) (map_of (so_streams st) (sd_name df'))"
    if "(df', rt') \<in> set ps" for df' rt'
  proof -
    have "sd_name df' \<noteq> sd_name df" using that fresh by (metis comp_apply fst_conv image_eqI)
    then show ?thesis using rest(6) that by simp
  qed
  have "map_of (so_streams st') n = map_of (so_streams st) n" if "n \<notin> sd_name ` fst ` set (p # ps)" for n
    using rest(5) that p by auto
  then show ?case using one(1) rest(1-4) here other s p by (intro exI [of _ st'] exI [of _ fs']) auto
qed simp

text \<open>What the roll back remembers of every stream.\<close>

definition remembered :: "store \<Rightarrow> (stream_def \<times> bool) list" where
  "remembered st = map (\<lambda>s. (st_def s, st_retired s)) (bt_values (so_streams st))"

lemma remembered_iff:
  assumes wf: "store_wf st"
  shows "(df, rt) \<in> set (remembered st) \<longleftrightarrow>
    (\<exists>s. map_of (so_streams st) (sd_name df) = Some s \<and> df = st_def s \<and> rt = st_retired s)"
proof
  have bw: "bt_wf (so_streams st)" and names: "\<And>n s. map_of (so_streams st) n = Some s \<Longrightarrow> sd_name (st_def s) = n"
    using wf by (auto simp: store_wf_def)
  {
    assume "(df, rt) \<in> set (remembered st)"
    then obtain n s where in_st: "(n, s) \<in> set (so_streams st)" "df = st_def s" "rt = st_retired s" unfolding remembered_def by auto
    then have "map_of (so_streams st) n = Some s" using bt_get_iff [OF bw] by blast
    then show "\<exists>s. map_of (so_streams st) (sd_name df) = Some s \<and> df = st_def s \<and> rt = st_retired s" using names in_st by metis
  next
    assume "\<exists>s. map_of (so_streams st) (sd_name df) = Some s \<and> df = st_def s \<and> rt = st_retired s"
    then obtain s where "map_of (so_streams st) (sd_name df) = Some s" and eq: "df = st_def s" "rt = st_retired s" by blast
    then have "(sd_name df, s) \<in> set (so_streams st)" using bt_get_iff [OF bw] by blast
    then show "(df, rt) \<in> set (remembered st)" using eq unfolding remembered_def by force
  }
qed

lemma remembered_names:
  assumes wf: "store_wf st"
  shows "map (sd_name \<circ> fst) (remembered st) = map fst (so_streams st)"
    and "(\<lambda>(d, _). sd_name d) ` set (remembered st) = fst ` set (so_streams st)"
    and "sd_name ` fst ` set (remembered st) = fst ` set (so_streams st)"
proof -
  have bw: "bt_wf (so_streams st)" and names: "\<And>n s. map_of (so_streams st) n = Some s \<Longrightarrow> sd_name (st_def s) = n"
    using wf by (auto simp: store_wf_def)
  show *: "map (sd_name \<circ> fst) (remembered st) = map fst (so_streams st)"
    using names bt_get_iff [OF bw] by (auto simp: remembered_def)
  have "set (map (sd_name \<circ> fst) (remembered st)) = set (map fst (so_streams st))" unfolding * ..
  then show "(\<lambda>(d, _). sd_name d) ` set (remembered st) = fst ` set (so_streams st)"
    and "sd_name ` fst ` set (remembered st) = fst ` set (so_streams st)"
    by (simp_all add: image_comp case_prod_beta comp_def)
qed

text \<open>Restoring the remembered definitions over the old streams gives the old streams.\<close>

lemma restore_remembered:
  assumes wf: "store_wf st" and io: "ro_io fs = []" and bwf: "bt_wf (so_streams b)"
    and old: "\<And>n s. map_of (so_streams st) n = Some s \<Longrightarrow> \<exists>df rt. map_of (so_streams b) n = Some (s\<lparr>st_def := df, st_retired := rt\<rparr>)"
    and no_new: "\<And>n. map_of (so_streams st) n = None \<Longrightarrow> map_of (so_streams b) n = None"
    and rest: "so_quota b = so_quota st" "so_staged b = so_staged st"
  shows "\<exists>fs'. restore_each env (remembered st) b fs = (st, fs', Inr ())"
proof -
  have bw: "bt_wf (so_streams st)" using wf by (simp add: store_wf_def)
  have "\<forall>p \<in> set (remembered st). map_of (so_streams b) (sd_name (fst p)) \<noteq> None"
  proof
    fix p assume "p \<in> set (remembered st)"
    then obtain s where "map_of (so_streams st) (sd_name (fst p)) = Some s" using remembered_iff [OF wf, of "fst p" "snd p"] by auto
    from old [OF this] show "map_of (so_streams b) (sd_name (fst p)) \<noteq> None" by auto
  qed
  moreover have "distinct (map (sd_name \<circ> fst) (remembered st))"
    unfolding remembered_names(1) [OF wf] by (rule bt_wf_distinct [OF bw])
  ultimately obtain c fs' where res: "restore_each env (remembered st) b fs = (c, fs', Inr ())" "so_quota c = so_quota b" "so_staged c = so_staged b"
    "bt_wf (so_streams c)" "\<And>n. n \<notin> fst ` set (so_streams st) \<Longrightarrow> map_of (so_streams c) n = map_of (so_streams b) n"
    "\<And>df rt. (df, rt) \<in> set (remembered st) \<Longrightarrow> map_of (so_streams c) (sd_name df) =
       map_option (\<lambda>s. s\<lparr>st_def := df, st_retired := rt\<rparr>) (map_of (so_streams b) (sd_name df))"
    using restore_each_all [of fs "remembered st" b env] io bwf unfolding remembered_names(3) [OF wf] by blast
  have "map_of (so_streams c) n = map_of (so_streams st) n" for n
  proof (cases "map_of (so_streams st) n")
    case (Some s)
    obtain df rt where b: "map_of (so_streams b) n = Some (s\<lparr>st_def := df, st_retired := rt\<rparr>)" using old [OF Some] by blast
    have n: "sd_name (st_def s) = n" using wf Some by (auto simp: store_wf_def)
    then have "(st_def s, st_retired s) \<in> set (remembered st)" unfolding remembered_iff [OF wf] using Some by blast
    from res(6) [OF this] show ?thesis unfolding n b Some by simp
  next
    case None
    then have "n \<notin> fst ` set (so_streams st)" by (simp add: map_of_eq_None_iff)
    from res(5) [OF this] show ?thesis using no_new [OF None] None by simp
  qed
  then have "so_streams c = so_streams st" by (rule bt_ext [OF res(4) bw])
  then have "c = st" using res(2,3) rest by (cases c; cases st) simp
  then show ?thesis using res(1) by blast
qed

lemma rollback_restores:
  assumes wf: "store_wf st" and ext: "extends st st1" and io: "ro_io fs = []"
  shows "\<exists>fs'. rollback env (so_quota st) (remembered st) st1 fs = (st, fs', Inr ())"
proof -
  let ?a = "st1\<lparr>so_quota := so_quota st\<rparr>"
  let ?added = "filter (\<lambda>n. n \<notin> fst ` set (so_streams st)) (store_names ?a)"
  have wf1: "bt_wf (so_streams ?a)" using ext by (simp add: extends_def)
  have "\<forall>n \<in> set ?added. map_of (so_streams ?a) n \<noteq> None" unfolding bt_has_iff by (auto simp: store_names_def)
  moreover have "distinct ?added" using bt_wf_distinct [OF wf1] by (simp add: store_names_def)
  ultimately obtain b fs2 where del: "delete_each env ?added ?a fs = (b, fs2, Inr ())" "ro_io fs2 = []" "so_quota b = so_quota st"
    "so_staged b = so_staged st1" "bt_wf (so_streams b)"
    "\<And>n. map_of (so_streams b) n = (if n \<in> set ?added then None else map_of (so_streams st1) n)"
    using delete_each_all [of fs ?added ?a env] io wf1 by auto
  have "\<exists>fs'. restore_each env (remembered st) b fs2 = (st, fs', Inr ())"
  proof (rule restore_remembered [OF wf del(2,5) _ _ del(3)])
    show "so_staged b = so_staged st" using del(4) ext by (simp add: extends_def)
    show "\<exists>df rt. map_of (so_streams b) n = Some (s\<lparr>st_def := df, st_retired := rt\<rparr>)" if "map_of (so_streams st) n = Some s" for n s
    proof -
      have "n \<in> fst ` set (so_streams st)" using that by (metis bt_has_iff option.distinct(1))
      then show ?thesis using del(6) ext that by (simp add: extends_def)
    qed
    show "map_of (so_streams b) n = None" if none: "map_of (so_streams st) n = None" for n
    proof (cases "map_of (so_streams st1) n")
      case (Some x)
      then have "n \<in> set ?added" using none by (simp add: store_names_def map_of_eq_None_iff) (metis bt_has_iff option.distinct(1))
      then show ?thesis using del(6) by simp
    qed (use del(6) in simp)
  qed
  then show ?thesis using del(1) by (auto simp: rollback_def Let_def remembered_names(2) [OF wf])
qed


text \<open>A new time to live for the only stream, and a disk that refuses to write it down.\<close>

definition plain_def :: stream_def where
  "plain_def = \<lparr>sd_name = ''a'', sd_max_size = 1024, sd_strategy_on_full = RejectNewData, sd_persistence = PFile,
     sd_time_to_live_seconds = None, sd_discard_exported = False, sd_external_export = False, sd_walrus_export = False,
     sd_export = None\<rparr>"

definition demo_one :: store where
  "demo_one = demo_streams\<lparr>so_streams := [(''a'', new_stream plain_def)]\<rparr>"

abbreviation demo_next :: stream_def where
  "demo_next \<equiv> plain_def\<lparr>sd_time_to_live_seconds := Some 60\<rparr>"

abbreviation failing_root :: sroot where
  "failing_root \<equiv> \<lparr>ro_dirs = [], ro_io = [SioErr]\<rparr>"


end
