(* ===== verification/ShadowDocs.thy ===== *)
theory ShadowDocs
  imports Json
begin

text \<open>
  Shadow documents (\<open>suifleet-edge/src/shadows.rs\<close>): depth and null checks, value equality,
  the recursive merge of an update, the delta between desired and reported state, the checks of a
  stored document and the three-way merge of a synchronization. The lemmas give the merge key by
  key, show that applying a delta closes it, and that a three-way merge loses no one-sided change.
  The encoded length of a document (\<open>serde_json::to_vec\<close>) is a parameter.
\<close>

section \<open>Definitions\<close>

definition MAX_STATE_BYTES :: nat where "MAX_STATE_BYTES = 8192"
definition SHADOW_MAX_DEPTH :: nat where "SHADOW_MAX_DEPTH = 8"
definition MAX_CLIENT_TOKEN :: nat where "MAX_CLIENT_TOKEN = 64"
definition MAX_NAME :: nat where "MAX_NAME = 64"
definition SECTIONS :: "string list" where "SECTIONS = [''desired'', ''reported'']"

fun shadow_depth :: "json \<Rightarrow> nat" where
  "shadow_depth (JObj m) = 1 + fold max (map (\<lambda>e. shadow_depth (snd e)) m) 0"
| "shadow_depth (JArr xs) = 1 + fold max (map shadow_depth xs) 0"
| "shadow_depth _ = 0"

fun contains_null :: "json \<Rightarrow> bool" where
  "contains_null JNull = True"
| "contains_null (JArr xs) = list_ex contains_null xs"
| "contains_null (JObj m) = list_ex (\<lambda>e. contains_null (snd e)) m"
| "contains_null _ = False"

fun null_in_array :: "json \<Rightarrow> bool" where
  "null_in_array (JArr xs) = list_ex contains_null xs"
| "null_in_array (JObj m) = list_ex (\<lambda>e. null_in_array (snd e)) m"
| "null_in_array _ = False"

text \<open>
  \<open>u64 as f64\<close>: integers of more than 53 bits are rounded to the nearest multiple of the unit in
  the last place, ties to even.
\<close>

fun f64_shift :: "nat \<Rightarrow> nat" where
  "f64_shift n = (if n < 2 ^ 53 then 0 else Suc (f64_shift (n div 2)))"

declare f64_shift.simps [simp del]

definition round_f64 :: "nat \<Rightarrow> nat" where
  "round_f64 n = (let u = 2 ^ f64_shift n; q = n div u; r = n mod u in
     if u < 2 * r \<or> (2 * r = u \<and> u \<noteq> 1 \<and> odd q) then (q + 1) * u else q * u)"

fun as_u64 :: "number \<Rightarrow> nat option" where
  "as_u64 (PosInt n) = Some n"
| "as_u64 _ = None"

fun as_i64 :: "number \<Rightarrow> int option" where
  "as_i64 (PosInt n) = (if n < 2 ^ 63 then Some (int n) else None)"
| "as_i64 (NegInt i) = Some i"
| "as_i64 (Float _) = None"

fun as_f64 :: "number \<Rightarrow> rat" where
  "as_f64 (PosInt n) = of_nat (round_f64 n)"
| "as_f64 (NegInt i) = - of_nat (round_f64 (nat (- i)))"
| "as_f64 (Float r) = r"

definition number_equal :: "number \<Rightarrow> number \<Rightarrow> bool" where
  "number_equal x y = (case (as_u64 x, as_u64 y) of
     (Some a, Some b) \<Rightarrow> a = b
   | _ \<Rightarrow> (case (as_i64 x, as_i64 y) of (Some a, Some b) \<Rightarrow> a = b | _ \<Rightarrow> as_f64 x = as_f64 y))"

function (sequential) json_equal :: "json \<Rightarrow> json \<Rightarrow> bool" where
  "json_equal (JNum x) (JNum y) = number_equal x y"
| "json_equal (JObj x) (JObj y) =
     (length x = length y \<and>
      (\<forall>e \<in> set x. case map_of y (fst e) of None \<Rightarrow> False | Some w \<Rightarrow> json_equal (snd e) w))"
| "json_equal (JArr x) (JArr y) =
     (length x = length y \<and> (\<forall>e \<in> set (zip x y). json_equal (fst e) (snd e)))"
| "json_equal a b = (a = b)"
  by pat_completeness auto
termination
  by (relation "measure (\<lambda>(a, _). size a)")
    (auto simp: less_Suc_eq_le dest: set_zip_leftD
      intro!: size_list_estimation' [of _ _ _ "\<lambda>x. x"] intro: size_list_estimation')

definition same :: "json option \<Rightarrow> json option \<Rightarrow> bool" where
  "same a b = (case (a, b) of (None, None) \<Rightarrow> True | (Some x, Some y) \<Rightarrow> json_equal x y | _ \<Rightarrow> False)"

definition same_document :: "jmap option \<Rightarrow> jmap option \<Rightarrow> bool" where
  "same_document a b = (case (a, b) of (None, None) \<Rightarrow> True | (Some x, Some y) \<Rightarrow> json_equal (JObj x) (JObj y) | _ \<Rightarrow> False)"

function shadow_merge :: "jmap \<Rightarrow> jmap \<Rightarrow> jmap" where
  "shadow_merge target [] = target"
| "shadow_merge target ((key, v) # patch) =
     shadow_merge
       (case v of
          JNull \<Rightarrow> bt_remove key target
        | JObj p \<Rightarrow>
            (let nested = shadow_merge (case map_of target key of Some (JObj m) \<Rightarrow> m | _ \<Rightarrow> []) p;
                 target = bt_remove key target in
             if nested \<noteq> [] then bt_insert key (JObj nested) target else target)
        | other \<Rightarrow> bt_insert key other target) patch"
  by pat_completeness auto
termination by (relation "measure (\<lambda>(_, d). size (JObj d))") auto

text \<open>\<open>delta\<close> with both sections present; an absent section is the empty one.\<close>

function delta_map :: "jmap \<Rightarrow> jmap \<Rightarrow> jmap" where
  "delta_map [] reported = []"
| "delta_map ((key, v) # desired) reported =
     (let rest = delta_map desired reported in
      case (v, map_of reported key) of
        (JObj d, Some (JObj r)) \<Rightarrow>
          (let nested = delta_map d r in if nested \<noteq> [] then bt_insert key (JObj nested) rest else rest)
      | (_, Some w) \<Rightarrow> if json_equal v w then rest else bt_insert key v rest
      | (_, None) \<Rightarrow> bt_insert key v rest)"
  by pat_completeness auto
termination by (relation "measure (\<lambda>(d, _). size (JObj d))") auto

definition delta :: "jmap option \<Rightarrow> jmap option \<Rightarrow> jmap" where
  "delta desired reported =
     delta_map (case desired of None \<Rightarrow> [] | Some d \<Rightarrow> d) (case reported of None \<Rightarrow> [] | Some r \<Rightarrow> r)"

definition doc_section :: "jmap \<Rightarrow> string \<Rightarrow> jmap option" where
  "doc_section document name = Option.bind (map_of document name) as_object"

definition delta_of :: "jmap \<Rightarrow> jmap" where
  "delta_of document = delta (doc_section document ''desired'') (doc_section document ''reported'')"

definition state_view :: "jmap \<Rightarrow> json" where
  "state_view document =
     (let view = fold (\<lambda>name view. case map_of document name of None \<Rightarrow> view | Some v \<Rightarrow> bt_insert name v view) SECTIONS [];
          d = delta_of document in
      JObj (if d \<noteq> [] then bt_insert ''delta'' (JObj d) view else view))"

datatype doc_error = DocSections | DocDepthOrNull | DocTooLarge

definition check_document :: "(json \<Rightarrow> nat) \<Rightarrow> jmap \<Rightarrow> (doc_error, unit) result" where
  "check_document json_len document =
     ensure (list_all (\<lambda>(k, v). k \<in> set SECTIONS \<and> is_object v) document) DocSections
      (ensure (list_all (\<lambda>(_, v). shadow_depth v \<le> SHADOW_MAX_DEPTH \<and> \<not> contains_null v) document) DocDepthOrNull
        (ensure (json_len (JObj document) \<le> MAX_STATE_BYTES) DocTooLarge (Inr ())))"

definition normalize :: "jmap \<Rightarrow> jmap" where
  "normalize document = shadow_merge [] document"

subsection \<open>Three-way merge\<close>

datatype side = Device | Cloud

record owners =
  own_desired :: side
  own_reported :: side

abbreviation child :: "json option \<Rightarrow> string \<Rightarrow> json option" where
  "child v k \<equiv> (case v of Some (JObj m) \<Rightarrow> map_of m k | _ \<Rightarrow> None)"

text \<open>The union of the keys of two maps, in order (\<open>BTreeSet\<close>).\<close>

definition union_keys :: "jmap \<Rightarrow> jmap \<Rightarrow> string list" where
  "union_keys l c = map fst (fold (\<lambda>k m. bt_insert k () m) (map fst l @ map fst c) [])"

definition opt_weight :: "json option \<Rightarrow> nat" where
  "opt_weight v = (case v of None \<Rightarrow> 0 | Some x \<Rightarrow> Suc (size x))"

lemma opt_weight_le: "opt_weight (map_of m k) \<le> size (JObj m)"
proof (cases "map_of m k")
  case (Some v)
  then have "(k, v) \<in> set m" by (rule map_of_SomeD)
  then have "size v < size (JObj m)" by (induction m) auto
  then show ?thesis using Some by (simp add: opt_weight_def)
qed (simp add: opt_weight_def)

function merge_value :: "json option \<Rightarrow> json option \<Rightarrow> json option \<Rightarrow> side \<Rightarrow> string \<Rightarrow> json option \<times> string list"
  and merge_keys :: "string list \<Rightarrow> json option \<Rightarrow> jmap \<Rightarrow> jmap \<Rightarrow> side \<Rightarrow> string \<Rightarrow> jmap \<times> string list" where
  "merge_value b l c side path =
     (if same l c \<or> same l b then (c, [])
      else if same c b then (l, [])
      else case (l, c) of
        (Some (JObj lm), Some (JObj cm)) \<Rightarrow>
          (case merge_keys (union_keys lm cm) b lm cm side path of (out, conflicts) \<Rightarrow>
             (if out = [] then None else Some (JObj out), conflicts))
      | _ \<Rightarrow> ((case side of Cloud \<Rightarrow> c | Device \<Rightarrow> l), [path]))"
| "merge_keys [] b lm cm side path = ([], [])"
| "merge_keys (k # ks) b lm cm side path =
     (case merge_value (child b k) (map_of lm k) (map_of cm k) side (path @ ''.'' @ k) of (v, cs) \<Rightarrow>
        (case merge_keys ks b lm cm side path of (out, cs') \<Rightarrow>
           (case v of None \<Rightarrow> out | Some x \<Rightarrow> bt_insert k x out, cs @ cs')))"
  by pat_completeness auto
termination
proof (relation "measures [case_sum (\<lambda>(b, l, c, _). opt_weight l + opt_weight c) (\<lambda>(ks, b, lm, cm, _). size (JObj lm) + size (JObj cm)),
       case_sum (\<lambda>_. 0) (\<lambda>(ks, _). Suc (length ks))]", goal_cases)
  case (3 k ks b lm cm side path)
  show ?case using add_mono [OF opt_weight_le [of lm k] opt_weight_le [of cm k]] by auto
qed (auto simp: opt_weight_def)

declare merge_value.simps [simp del]

fun merge_sections :: "string list \<Rightarrow> (string \<Rightarrow> json option) \<Rightarrow> jmap \<Rightarrow> jmap \<Rightarrow> owners \<Rightarrow> jmap \<times> string list" where
  "merge_sections [] base l c own = ([], [])"
| "merge_sections (name # names) base l c own =
     (let side = (if name = ''desired'' then own_desired own else own_reported own) in
      case merge_value (base name) (map_of l name) (map_of c name) side name of (v, cs) \<Rightarrow>
        (case merge_sections names base l c own of (out, cs') \<Rightarrow>
           (case v of None \<Rightarrow> out | Some x \<Rightarrow> bt_insert name x out, cs @ cs')))"

definition merge3 :: "jmap option \<Rightarrow> jmap option \<Rightarrow> jmap option \<Rightarrow> owners \<Rightarrow> jmap option \<times> string list" where
  "merge3 base local_doc cloud own =
     (if same_document local_doc cloud \<or> same_document local_doc base then (cloud, [])
      else if same_document cloud base then (local_doc, [])
      else case (local_doc, cloud) of
        (Some l, Some c) \<Rightarrow>
          (case merge_sections SECTIONS (\<lambda>k. Option.bind base (\<lambda>b. map_of b k)) l c own of
             (out, conflicts) \<Rightarrow> (Some out, conflicts))
      | (Some kept, None) \<Rightarrow> (Some kept, [''(deleted on one side, changed on the other)''])
      | (None, Some kept) \<Rightarrow> (Some kept, [''(deleted on one side, changed on the other)''])
      | (None, None) \<Rightarrow> (None, []))"

section \<open>Lemmas: equality\<close>

lemma number_equal_refl [simp]: "number_equal x x"
  by (cases x) (auto simp: number_equal_def)

lemma json_equal_refl: "json_wf v \<Longrightarrow> json_equal v v"
proof (induction v)
  case (JArr xs)
  then show ?case by (auto simp: set_zip)
next
  case (JObj m)
  have "json_equal w w" if "(k, w) \<in> set m" for k w using JObj that by fastforce
  moreover have "map_of m k = Some w" if "(k, w) \<in> set m" for k w using JObj.prems that by (simp add: bt_get_iff)
  ultimately show ?case by auto
qed auto

lemma json_equal_obj_keys:
  assumes "json_equal (JObj x) (JObj y)" and "bt_wf x" and "bt_wf y"
  shows "fst ` set x = fst ` set y"
proof -
  have "map_of y k \<noteq> None" if "(k, v) \<in> set x" for k v
    using assms(1) that by (auto split: option.splits)
  then have sub: "fst ` set x \<subseteq> fst ` set y" unfolding bt_has_iff by auto
  have "card (fst ` set x) = length x" "card (fst ` set y) = length y"
    using bt_wf_distinct [OF assms(2)] bt_wf_distinct [OF assms(3)] distinct_card by (metis length_map list.set_map)+
  then show ?thesis using sub assms(1) by (intro card_subset_eq) auto
qed

lemma json_equal_other:
  "\<not> is_object v \<Longrightarrow> json_equal (JObj m) v \<longleftrightarrow> False" "\<not> is_object v \<Longrightarrow> json_equal v (JObj m) \<longleftrightarrow> False"
  by (cases v; simp add: is_object_def)+

fun opt_wf :: "json option \<Rightarrow> bool" where
  "opt_wf None = True"
| "opt_wf (Some v) = json_wf v"

lemma opt_wf_child: "opt_wf v \<Longrightarrow> opt_wf (child v k)"
proof (cases "child v k")
  case (Some w)
  assume wf: "opt_wf v"
  from Some obtain m where "v = Some (JObj m)" "map_of m k = Some w" by (auto split: option.splits json.splits)
  then show ?thesis using wf jmap_wf_get [of m k w] Some by simp
qed simp

lemma same_child:
  assumes "same a b" and "opt_wf a" and "opt_wf b"
  shows "same (child a k) (child b k)"
proof (cases a; cases b)
  fix x y assume ab: "a = Some x" "b = Some y"
  show ?thesis
  proof (cases "is_object x \<and> is_object y")
    case True
    then obtain xm ym where m: "x = JObj xm" "y = JObj ym" using is_object_cases by blast
    have eq: "json_equal (JObj xm) (JObj ym)" using assms(1) ab m by (simp add: same_def)
    have wf: "bt_wf xm" "bt_wf ym" using assms(2,3) ab m by auto
    note keys = json_equal_obj_keys [OF eq wf]
    show ?thesis
    proof (cases "map_of xm k")
      case None
      then have "map_of ym k = None" using keys by (simp add: map_of_eq_None_iff)
      then show ?thesis using None ab m by (simp add: same_def)
    next
      case (Some v)
      then have "(k, v) \<in> set xm" by (rule map_of_SomeD)
      then show ?thesis using eq Some ab m by (force simp: same_def split: option.splits)
    qed
  next
    case False
    then show ?thesis using assms(1) ab by (cases x; cases y) (simp_all add: same_def is_object_def)
  qed
qed (use assms(1) in \<open>auto simp: same_def\<close>)

fun at_path :: "json option \<Rightarrow> string list \<Rightarrow> json option" where
  "at_path v [] = v"
| "at_path v (k # ks) = at_path (child v k) ks"

lemma same_at_path: "same a b \<Longrightarrow> opt_wf a \<Longrightarrow> opt_wf b \<Longrightarrow> same (at_path a ks) (at_path b ks)"
proof (induction ks arbitrary: a b)
  case (Cons k ks)
  show ?case unfolding at_path.simps
    by (rule Cons.IH [OF same_child [OF Cons.prems] opt_wf_child [OF Cons.prems(2)] opt_wf_child [OF Cons.prems(3)]])
qed simp

section \<open>Lemmas: merge and delta\<close>

lemma bt_wf_merge: "bt_wf t \<Longrightarrow> bt_wf (shadow_merge t p)"
  by (induction p arbitrary: t rule: list.induct) (auto simp: Let_def split: json.splits)

lemma get_shadow_merge:
  "bt_wf p \<Longrightarrow> map_of (shadow_merge t p) k =
     (case map_of p k of
        None \<Rightarrow> map_of t k
      | Some JNull \<Rightarrow> None
      | Some (JObj pp) \<Rightarrow>
          (let n = shadow_merge (case map_of t k of Some (JObj m) \<Rightarrow> m | _ \<Rightarrow> []) pp in if n = [] then None else Some (JObj n))
      | Some v \<Rightarrow> Some v)"
proof (induction p arbitrary: t)
  case (Cons x p)
  obtain key v where x: "x = (key, v)" by fastforce
  have wf: "bt_wf p" and new: "map_of p key = None" using Cons.prems x by (auto simp: bt_wf_Cons map_of_eq_None_iff)
  show ?case
    using Cons.IH [OF wf] new by (cases "k = key") (auto simp: x Let_def split: option.splits json.splits)
qed simp

lemma get_delta_map:
  "bt_wf d \<Longrightarrow> map_of (delta_map d r) k =
     (case map_of d k of
        None \<Rightarrow> None
      | Some v \<Rightarrow> (case (v, map_of r k) of
          (JObj dd, Some (JObj rr)) \<Rightarrow> (let n = delta_map dd rr in if n = [] then None else Some (JObj n))
        | (_, Some w) \<Rightarrow> if json_equal v w then None else Some v
        | (_, None) \<Rightarrow> Some v))"
proof (induction d)
  case (Cons x d)
  obtain key v where x: "x = (key, v)" by fastforce
  have wf: "bt_wf d" and new: "map_of d key = None" using Cons.prems x by (auto simp: bt_wf_Cons map_of_eq_None_iff)
  note IH = Cons.IH [OF wf]
  show ?case
  proof (cases "k = key")
    case True
    then have "map_of (delta_map d r) key = None" using IH new by simp
    then show ?thesis using True by (cases v; cases "map_of r key") (auto simp: x Let_def split: json.splits)
  next
    case False
    then have "map_of (delta_map ((key, v) # d) r) k = map_of (delta_map d r) k"
      by (cases v; cases "map_of r key") (auto simp: Let_def split: json.splits)
    then show ?thesis using IH False by (simp add: x)
  qed
qed simp

lemma map_empty_iff: "m = [] \<longleftrightarrow> (\<forall>k. map_of m k = None)"
  by (cases m) (auto simp: fun_eq_iff)

text \<open>Stored state: no nulls to delete, no empty objects.\<close>

fun clean :: "json \<Rightarrow> bool" where
  "clean JNull = False"
| "clean (JObj m) = (m \<noteq> [] \<and> (\<forall>e \<in> set m. clean (snd e)))"
| "clean _ = True"

definition clean_map :: "jmap \<Rightarrow> bool" where
  "clean_map m \<longleftrightarrow> (\<forall>k v. map_of m k = Some v \<longrightarrow> clean v)"

lemma clean_JObj: "bt_wf m \<Longrightarrow> clean (JObj m) \<longleftrightarrow> m \<noteq> [] \<and> clean_map m"
  by (auto simp: clean_map_def bt_get_iff)

lemma wf_old:
  assumes "jmap_wf t"
  shows "jmap_wf (case map_of t k of Some (JObj m) \<Rightarrow> m | _ \<Rightarrow> [])"
proof (cases "map_of t k")
  case (Some u)
  then have "json_wf u" by (rule jmap_wf_get [OF assms])
  then show ?thesis using Some by (cases u) auto
qed simp

lemma wf_shadow_merge: "jmap_wf t \<Longrightarrow> jmap_wf p \<Longrightarrow> jmap_wf (shadow_merge t p)"
proof (induction t p rule: shadow_merge.induct)
  case (2 t key v p)
  have p: "jmap_wf p" "json_wf v" using 2(4) by (auto simp: bt_wf_Cons)
  have rem: "jmap_wf (bt_remove key t)" using 2(3) by (rule jmap_wf_remove)
  let ?old = "case map_of t key of Some (JObj m) \<Rightarrow> m | _ \<Rightarrow> []"
  have old: "jmap_wf ?old" using 2(3) by (rule wf_old)
  have ins: "jmap_wf (bt_insert key v t)" using 2(3) p(2) by (rule jmap_wf_insert)
  have nested: "jmap_wf (bt_insert key (JObj (shadow_merge ?old pp)) (bt_remove key t))" if "v = JObj pp" for pp
    using 2(1) [OF that] old p(2) that rem by (intro jmap_wf_insert) auto
  have "jmap_wf (case v of JNull \<Rightarrow> bt_remove key t
      | JObj pp \<Rightarrow> (let n = shadow_merge ?old pp; t' = bt_remove key t in if n \<noteq> [] then bt_insert key (JObj n) t' else t')
      | other \<Rightarrow> bt_insert key other t)"
  proof (cases v)
    case (JObj pp)
    then show ?thesis using nested [OF JObj] rem by (simp add: Let_def del: json_wf.simps)
  qed (use rem ins in \<open>simp_all del: json_wf.simps\<close>)
  from 2(2) [OF this p(1)] show ?case by simp
qed simp

lemma clean_merge: "bt_wf p \<Longrightarrow> jmap_wf p \<Longrightarrow> jmap_wf t \<Longrightarrow> clean_map t \<Longrightarrow> clean_map (shadow_merge t p)"
proof (induction "size (JObj p)" arbitrary: t p rule: less_induct)
  case less
  show ?case unfolding clean_map_def
  proof (intro allI impI)
    fix k v assume get: "map_of (shadow_merge t p) k = Some v"
    show "clean v"
    proof (cases "map_of p k")
      case None
      then show ?thesis using get get_shadow_merge [OF less(2), of t k] less(5) by (simp add: clean_map_def)
    next
      case (Some w)
      show ?thesis
      proof (cases "\<exists>pp. w = JObj pp")
        case True
        then obtain pp where pp: "w = JObj pp" by blast
        let ?old = "case map_of t k of Some (JObj m) \<Rightarrow> m | _ \<Rightarrow> []"
        have v: "v = JObj (shadow_merge ?old pp)" "shadow_merge ?old pp \<noteq> []"
          using get get_shadow_merge [OF less(2), of t k] Some pp by (auto simp: Let_def split: if_splits)
        have wfp: "jmap_wf pp" using jmap_wf_get [OF less(3) Some] pp by simp
        have old: "jmap_wf ?old" using less(4) by (rule wf_old)
        have oldc: "clean_map ?old"
        proof (cases "map_of t k")
          case (Some u)
          then have "clean u" "json_wf u" using less(5) jmap_wf_get [OF less(4)] by (auto simp: clean_map_def)
          then show ?thesis using Some clean_JObj by (cases u) (auto simp: clean_map_def bt_get_iff)
        qed (simp add: clean_map_def)
        have "size (JObj pp) < size (JObj p)" using opt_weight_le [of p k] Some pp by (simp add: opt_weight_def)
        then have "clean_map (shadow_merge ?old pp)" using less(1) wfp old oldc by auto
        then show ?thesis using v clean_JObj [OF bt_wf_merge] old by auto
      next
        case False
        then show ?thesis using get get_shadow_merge [OF less(2), of t k] Some by (cases w) auto
      qed
    qed
  qed
qed

lemma merge_into_empty:
  "jmap_wf p \<Longrightarrow> clean_map p \<Longrightarrow> shadow_merge [] p = p"
proof (induction "size (JObj p)" arbitrary: p rule: less_induct)
  case less
  have wf: "bt_wf p" using less(2) by simp
  show ?case
  proof (rule bt_ext [OF bt_wf_merge wf])
    fix k
    show "map_of (shadow_merge [] p) k = map_of p k"
    proof (cases "map_of p k")
      case (Some w)
      then have c: "clean w" "json_wf w" using less(2,3) jmap_wf_get by (auto simp: clean_map_def simp del: json_wf.simps)
      show ?thesis
      proof (cases "\<exists>pp. w = JObj pp")
        case True
        then obtain pp where pp: "w = JObj pp" by blast
        then have "size (JObj pp) < size (JObj p)" using opt_weight_le [of p k] Some by (simp add: opt_weight_def)
        then have "shadow_merge [] pp = pp" using less(1) c pp clean_JObj by auto
        then show ?thesis using get_shadow_merge [OF wf, of "[]" k] Some pp c by (auto simp: Let_def)
      next
        case False
        then show ?thesis using get_shadow_merge [OF wf, of "[]" k] Some c by (cases w) auto
      qed
    qed (use get_shadow_merge [OF wf, of "[]" k] in simp)
  qed simp
qed

lemma bt_wf_delta: "bt_wf (delta_map d r)"
  by (induction d) (auto simp: Let_def split: json.splits option.splits prod.splits)

lemma delta_self: "jmap_wf d \<Longrightarrow> delta_map d d = []"
proof (induction "size (JObj d)" arbitrary: d rule: less_induct)
  case less
  have wf: "bt_wf d" using less(2) by simp
  have "map_of (delta_map d d) k = None" for k
  proof (cases "map_of d k")
    case (Some v)
    then have v: "json_wf v" by (rule jmap_wf_get [OF less(2)])
    show ?thesis
    proof (cases "\<exists>dd. v = JObj dd")
      case True
      then obtain dd where dd: "v = JObj dd" by blast
      then have "size (JObj dd) < size (JObj d)" using opt_weight_le [of d k] Some by (simp add: opt_weight_def)
      then have "delta_map dd dd = []" using less(1) v dd by blast
      then show ?thesis using get_delta_map [OF wf, of d k] Some dd by simp
    next
      case False
      then show ?thesis using get_delta_map [OF wf, of d k] Some json_equal_refl [OF v] by (cases v) auto
    qed
  qed (use get_delta_map [OF wf, of d k] in simp)
  then show ?case unfolding map_empty_iff [of "delta_map d d"] by blast
qed

lemma delta_empty_reported:
  assumes "bt_wf d" and "delta_map d [] = []"
  shows "d = []"
proof (rule ccontr)
  assume "d \<noteq> []"
  then obtain k v where "map_of d k = Some v" unfolding map_empty_iff [of d] by auto
  then have "map_of (delta_map d []) k = Some v" using get_delta_map [OF assms(1), of "[]" k] by (cases v) simp_all
  then show False using assms(2) by simp
qed

text \<open>Applying a delta to the reported state closes it.\<close>

lemma delta_closes_map:
  "jmap_wf d \<Longrightarrow> clean_map d \<Longrightarrow> delta_map d (shadow_merge r (delta_map d r)) = []"
proof (induction "size (JObj d)" arbitrary: d r rule: less_induct)
  case less
  have wf: "bt_wf d" using less(2) by simp
  let ?r = "shadow_merge r (delta_map d r)"
  note gm = get_shadow_merge [OF bt_wf_delta, of r d r]
  have "map_of (delta_map d ?r) k = None" for k
  proof (cases "map_of d k")
    case None
    then show ?thesis using get_delta_map [OF wf, of ?r k] by simp
  next
    case (Some v)
    note gd = get_delta_map [OF wf, of r k] and goal = get_delta_map [OF wf, of ?r k]
    have v: "json_wf v" "clean v" using jmap_wf_get [OF less(2) Some] less(3) Some by (auto simp: clean_map_def)
    show ?thesis
    proof (cases "\<exists>dd. v = JObj dd")
      case True
      then obtain dd where dd: "v = JObj dd" by blast
      have wfd: "jmap_wf dd" "clean_map dd" "dd \<noteq> []" using v dd clean_JObj [of dd] by auto
      have smaller: "size (JObj dd) < size (JObj d)" using opt_weight_le [of d k] Some dd by (simp add: opt_weight_def)
      show ?thesis
      proof (cases "\<exists>rr. map_of r k = Some (JObj rr)")
        case True
        then obtain rr where rr: "map_of r k = Some (JObj rr)" by blast
        let ?n = "delta_map dd rr"
        have IH: "delta_map dd (shadow_merge rr ?n) = []" using less(1) [OF smaller wfd(1,2)] .
        then have "shadow_merge rr ?n \<noteq> []" using delta_empty_reported [of dd] wfd by auto
        then show ?thesis using gd gm [of k] goal Some dd rr IH by (auto simp: Let_def split: if_splits)
      next
        case False
        have "map_of (delta_map d r) k = Some v"
          using gd Some dd False json_equal_other [of _ dd] by (cases "map_of r k"; cases "the (map_of r k)") auto
        moreover have "shadow_merge [] dd = dd" by (rule merge_into_empty [OF wfd(1,2)])
        ultimately have "map_of ?r k = Some (JObj dd)"
          using gm [of k] dd False wfd(3) by (cases "map_of r k"; cases "the (map_of r k)") (auto simp: Let_def)
        then show ?thesis using goal Some dd delta_self [OF wfd(1)] by simp
      qed
    next
      case False
      have "map_of ?r k = Some w \<Longrightarrow> json_equal v w" "map_of ?r k \<noteq> None" for w
        using gd gm [of k] Some False v json_equal_refl [OF v(1)]
        by (cases v; cases "map_of r k"; auto split: if_splits)+
      then show ?thesis using goal Some False by (cases v; cases "map_of ?r k") auto
    qed
  qed
  then show ?case unfolding map_empty_iff [of "delta_map d ?r"] by blast
qed

section \<open>Lemmas: three-way merge\<close>

lemma set_union_keys: "set (union_keys l c) = fst ` set l \<union> fst ` set c"
proof -
  have "fst ` set (fold (\<lambda>k m. bt_insert k () m) ks m) = set ks \<union> fst ` set m" for ks and m :: "(string, unit) btree"
    by (induction ks arbitrary: m) auto
  then show ?thesis unfolding union_keys_def by auto
qed

lemma distinct_union_keys: "distinct (union_keys l c)"
proof -
  have "bt_wf (fold (\<lambda>k m. bt_insert k () m) ks m)" if "bt_wf m" for ks and m :: "(string, unit) btree"
    using that by (induction ks arbitrary: m) auto
  then show ?thesis unfolding union_keys_def using bt_wf_distinct bt_wf_Nil by blast
qed

lemma get_merge_keys:
  "distinct ks \<Longrightarrow> map_of (fst (merge_keys ks b lm cm side path)) k =
     (if k \<in> set ks then fst (merge_value (child b k) (map_of lm k) (map_of cm k) side (path @ ''.'' @ k)) else None)"
proof (induction ks)
  case (Cons j ks)
  obtain v cs where v: "merge_value (child b j) (map_of lm j) (map_of cm j) side (path @ ''.'' @ j) = (v, cs)" by fastforce
  obtain out cs' where out: "merge_keys ks b lm cm side path = (out, cs')" by fastforce
  show ?case using Cons v out by (cases v; cases "k = j") auto
qed simp

lemma conflicts_merge_keys:
  "k \<in> set ks \<Longrightarrow> set (snd (merge_value (child b k) (map_of lm k) (map_of cm k) side (path @ ''.'' @ k)))
     \<subseteq> set (snd (merge_keys ks b lm cm side path))"
  by (induction ks) (auto split: prod.splits)

text \<open>One level of a merge of two objects that no shortcut settles.\<close>

lemma merge_value_child:
  assumes "\<not> same l c" "\<not> same l b" "\<not> same c b" and l: "l = Some (JObj lm)" and c: "c = Some (JObj cm)"
  shows "child (fst (merge_value b l c side path)) k = fst (merge_value (child b k) (child l k) (child c k) side (path @ ''.'' @ k))"
    and "set (snd (merge_value (child b k) (child l k) (child c k) side (path @ ''.'' @ k)))
      \<subseteq> set (snd (merge_value b l c side path))"
proof -
  obtain out cs where m: "merge_keys (union_keys lm cm) b lm cm side path = (out, cs)" by fastforce
  have v: "merge_value b (Some (JObj lm)) (Some (JObj cm)) side path = (if out = [] then None else Some (JObj out), cs)"
    using assms m by (subst merge_value.simps) simp
  have absent: "fst (merge_value (child b k) None None side p) = None" "snd (merge_value (child b k) None None side p) = []" for p
    by (simp_all add: merge_value.simps same_def)
  have get: "map_of out k = (if k \<in> set (union_keys lm cm) then fst (merge_value (child b k) (map_of lm k) (map_of cm k) side (path @ ''.'' @ k)) else None)"
    using get_merge_keys [OF distinct_union_keys, of lm cm b lm cm side path k] m by simp
  have none: "map_of lm k = None" "map_of cm k = None" if "k \<notin> set (union_keys lm cm)"
    using that by (simp_all add: set_union_keys map_of_eq_None_iff)
  show "child (fst (merge_value b l c side path)) k = fst (merge_value (child b k) (child l k) (child c k) side (path @ ''.'' @ k))"
    using get none absent unfolding l c v by (cases "k \<in> set (union_keys lm cm)") (auto)
  show "set (snd (merge_value (child b k) (child l k) (child c k) side (path @ ''.'' @ k))) \<subseteq> set (snd (merge_value b l c side path))"
    using conflicts_merge_keys [of k "union_keys lm cm" b lm cm side path] m none absent unfolding l c v
    by (cases "k \<in> set (union_keys lm cm)") (auto)
qed

text \<open>Both sides have objects at every proper prefix of a path.\<close>

fun objects_along :: "json option \<Rightarrow> json option \<Rightarrow> string list \<Rightarrow> bool" where
  "objects_along l c [] = True"
| "objects_along l c (k # ks) =
     ((\<exists>lm cm. l = Some (JObj lm) \<and> c = Some (JObj cm)) \<and> objects_along (child l k) (child c k) ks)"

abbreviation json_path :: "string \<Rightarrow> string list \<Rightarrow> string" where
  "json_path p ks \<equiv> p @ concat (map (\<lambda>k. ''.'' @ k) ks)"

lemma merge_value_local:
  "opt_wf b \<Longrightarrow> opt_wf l \<Longrightarrow> opt_wf c \<Longrightarrow> objects_along l c ks \<Longrightarrow>
   \<not> same (at_path l ks) (at_path b ks) \<Longrightarrow> \<not> same (at_path l ks) (at_path c ks) \<Longrightarrow> same (at_path c ks) (at_path b ks) \<Longrightarrow>
   at_path (fst (merge_value b l c side p)) ks = at_path l ks"
proof (induction ks arbitrary: b l c p)
  case (Cons k ks)
  have "\<not> same l c" "\<not> same l b" using same_at_path Cons.prems by blast+
  show ?case
  proof (cases "same c b")
    case True
    then show ?thesis using \<open>\<not> same l c\<close> \<open>\<not> same l b\<close> by (simp add: merge_value.simps)
  next
    case False
    obtain lm cm where o: "l = Some (JObj lm)" "c = Some (JObj cm)" using Cons.prems(4) by auto
    note IH = Cons.IH [OF opt_wf_child [OF Cons.prems(1)] opt_wf_child [OF Cons.prems(2)] opt_wf_child [OF Cons.prems(3)], of k]
    show ?thesis
      unfolding at_path.simps merge_value_child(1) [OF \<open>\<not> same l c\<close> \<open>\<not> same l b\<close> False o]
      by (rule IH) (use Cons.prems in simp_all)
  qed
qed (simp add: merge_value.simps)

lemma merge_value_cloud:
  "opt_wf b \<Longrightarrow> opt_wf l \<Longrightarrow> opt_wf c \<Longrightarrow> objects_along l c ks \<Longrightarrow>
   same (at_path l ks) (at_path b ks) \<Longrightarrow> \<not> same (at_path c ks) (at_path b ks) \<Longrightarrow>
   at_path (fst (merge_value b l c side p)) ks = at_path c ks"
proof (induction ks arbitrary: b l c p)
  case (Cons k ks)
  have "\<not> same c b" using same_at_path Cons.prems by blast
  show ?case
  proof (cases "same l c \<or> same l b")
    case True
    then show ?thesis by (simp add: merge_value.simps)
  next
    case False
    obtain lm cm where o: "l = Some (JObj lm)" "c = Some (JObj cm)" using Cons.prems(4) by auto
    note IH = Cons.IH [OF opt_wf_child [OF Cons.prems(1)] opt_wf_child [OF Cons.prems(2)] opt_wf_child [OF Cons.prems(3)], of k]
    have ns: "\<not> same l c" "\<not> same l b" using False by blast+
    show ?thesis
      unfolding at_path.simps merge_value_child(1) [OF ns \<open>\<not> same c b\<close> o]
      by (rule IH) (use Cons.prems in simp_all)
  qed
qed (simp add: merge_value.simps)

lemma merge_value_conflict:
  "opt_wf b \<Longrightarrow> opt_wf l \<Longrightarrow> opt_wf c \<Longrightarrow> objects_along l c ks \<Longrightarrow>
   \<not> same (at_path l ks) (at_path b ks) \<Longrightarrow> \<not> same (at_path l ks) (at_path c ks) \<Longrightarrow> \<not> same (at_path c ks) (at_path b ks) \<Longrightarrow>
   \<not> (\<exists>lm cm. at_path l ks = Some (JObj lm) \<and> at_path c ks = Some (JObj cm)) \<Longrightarrow>
   at_path (fst (merge_value b l c side p)) ks = (case side of Cloud \<Rightarrow> at_path c ks | Device \<Rightarrow> at_path l ks) \<and>
   json_path p ks \<in> set (snd (merge_value b l c side p))"
proof (induction ks arbitrary: b l c p)
  case Nil
  then show ?case by (auto simp: merge_value.simps [of b l c] split: option.splits json.splits side.splits)
next
  case (Cons k ks)
  have ns: "\<not> same l c" "\<not> same l b" "\<not> same c b" using same_at_path Cons.prems by blast+
  obtain lm cm where o: "l = Some (JObj lm)" "c = Some (JObj cm)" using Cons.prems(4) by auto
  note step = merge_value_child [OF ns o, where side = side and path = p and k = k]
  have IH: "at_path (fst (merge_value (child b k) (child l k) (child c k) side (p @ ''.'' @ k))) ks =
      (case side of Cloud \<Rightarrow> at_path (child c k) ks | Device \<Rightarrow> at_path (child l k) ks) \<and>
      json_path (p @ ''.'' @ k) ks \<in> set (snd (merge_value (child b k) (child l k) (child c k) side (p @ ''.'' @ k)))"
    by (rule Cons.IH [OF opt_wf_child [OF Cons.prems(1)] opt_wf_child [OF Cons.prems(2)] opt_wf_child [OF Cons.prems(3)]])
      (use Cons.prems in simp_all)
  have "json_path p (k # ks) = json_path (p @ ''.'' @ k) ks" by simp
  then show ?case using IH step unfolding at_path.simps by auto
qed

end
