(* ===== verification/Shadows.thy ===== *)
theory Shadows
  imports ShadowDocs Broker
begin

text \<open>
  The shadow store (\<open>suifleet-edge/src/shadows.rs\<close>, \<open>Store\<close>, \<open>handle\<close> and \<open>sync_one\<close>): commits
  with their version and quota rules, updates, deletions, notifications on the local broker, policies
  and the two ends of a cloud synchronization. A commit calls the broker of \<open>Broker\<close>; whether the
  record could be saved is an argument of the operation, and so is the cloud's answer.
\<close>

section \<open>Definitions\<close>

record sync_state =
  sy_base :: "jmap option"
  sy_cloud_version :: nat

definition default_sync :: sync_state where
  "default_sync = \<lparr>sy_base = None, sy_cloud_version = 0\<rparr>"

record shadow_record =
  sr_name :: string
  sr_version :: nat
  sr_document :: "jmap option"
  sr_updated_ms :: nat
  sr_sync :: "sync_state option"

record shadow_store =
  ss_max :: nat
  ss_thing :: string
  ss_records :: "(string, shadow_record) btree"
  ss_published :: nat
  ss_refused :: nat
  ss_sync_status :: "(string, json) btree"

type_synonym bus = "(json broker \<times> disk) option"

datatype shadow_error =
    Invalid | Conflict | NotFound | Quota | TooLarge | Unavailable | Forbidden | AdminOnly | UnknownOp
  | Unmergeable doc_error | MergeRefused doc_error | CloudChanged | Unreadable | TooManyStored

definition shadow_valid_name :: "string \<Rightarrow> bool" where
  "shadow_valid_name name \<longleftrightarrow> length name \<le> MAX_NAME \<and>
     list_all (\<lambda>c. is_ascii_alphanumeric c \<or> c \<in> set '':_-'') name"

definition valid_thing :: "string \<Rightarrow> bool" where
  "valid_thing thing \<longleftrightarrow> thing \<noteq> [] \<and> length thing \<le> 128 \<and>
     list_all (\<lambda>c. is_ascii_alphanumeric c \<or> c \<in> set '':_-'') thing"

definition shadow_resource :: "string \<Rightarrow> string \<Rightarrow> string" where
  "shadow_resource thing name =
     (if name = [] then ''$aws/things/'' @ thing @ ''/shadow''
      else ''$aws/things/'' @ thing @ ''/shadow/name/'' @ name)"

definition shadow_file_name :: "string \<Rightarrow> string" where
  "shadow_file_name name = ''s-'' @ hex_encode name @ ''.json''"

definition shadow_topic :: "shadow_store \<Rightarrow> string \<Rightarrow> string \<Rightarrow> string" where
  "shadow_topic st name sfx = shadow_resource (ss_thing st) name @ ''/'' @ sfx"

definition live_count :: "shadow_store \<Rightarrow> nat" where
  "live_count st = length (filter (\<lambda>r. sr_document r \<noteq> None) (bt_values (ss_records st)))"

definition bounded_payload :: "json codec \<Rightarrow> json \<Rightarrow> json \<Rightarrow> json" where
  "bounded_payload cd payload fallback = (if MAX_PAYLOAD < payload_size cd payload then fallback else payload)"

definition shadow_publications :: "json codec \<Rightarrow> shadow_store \<Rightarrow> string \<Rightarrow> shadow_record option \<Rightarrow> shadow_record \<Rightarrow> nat \<Rightarrow>
  (string \<times> json) list" where
  "shadow_publications cd st name previous current now =
     (case sr_document current of
        None \<Rightarrow> [(shadow_topic st name ''delete/accepted'',
                  jobj [(''version'', jnat (sr_version current)), (''timestamp'', jnat (now div 1000))])]
      | Some document \<Rightarrow>
          (let before = Option.bind previous sr_document;
               old = map_option (\<lambda>d. jobj [(''state'', JObj d), (''version'', jnat (sr_version (the previous)))]) before;
               documents = (shadow_topic st name ''update/documents'', bounded_payload cd
                 (jobj [(''previous'', opt_json old),
                        (''current'', jobj [(''state'', JObj document), (''version'', jnat (sr_version current))]),
                        (''timestamp'', jnat (now div 1000))])
                 (jobj [(''previous'', opt_json (map_option (\<lambda>_. jobj [(''version'', jnat (sr_version (the previous)))]) old)),
                        (''current'', jobj [(''version'', jnat (sr_version current))]),
                        (''timestamp'', jnat (now div 1000)), (''truncated'', JBool True)]));
               d = delta_of document; old_delta = map_option delta_of before in
           if d \<noteq> [] \<and> old_delta \<noteq> Some d
           then [documents, (shadow_topic st name ''update/delta'', bounded_payload cd
                   (jobj [(''state'', JObj d), (''version'', jnat (sr_version current)), (''timestamp'', jnat (now div 1000))])
                   (jobj [(''version'', jnat (sr_version current)), (''timestamp'', jnat (now div 1000)), (''truncated'', JBool True)]))]
           else [documents]))"

definition publish_one :: "json codec \<Rightarrow> nat \<Rightarrow> string \<times> json \<Rightarrow> shadow_store \<times> json broker \<times> disk \<Rightarrow>
  shadow_store \<times> json broker \<times> disk" where
  "publish_one cd now e s = (case (e, s) of ((topic, payload), st, b, d) \<Rightarrow>
     (case publish cd ''@shadows'' topic payload None now b d of (b, d, r) \<Rightarrow>
        (case r of Inr _ \<Rightarrow> (st\<lparr>ss_published := ss_published st + 1\<rparr>, b, d)
         | Inl _ \<Rightarrow> (st\<lparr>ss_refused := ss_refused st + 1\<rparr>, b, d))))"

definition shadow_notify :: "json codec \<Rightarrow> string \<Rightarrow> shadow_record option \<Rightarrow> shadow_record \<Rightarrow> nat \<Rightarrow>
  shadow_store \<Rightarrow> bus \<Rightarrow> shadow_store \<times> bus" where
  "shadow_notify cd name previous current now st bus =
     (case bus of None \<Rightarrow> (st, None)
      | Some (b, d) \<Rightarrow>
          (case fold (publish_one cd now) (shadow_publications cd st name previous current now) (st, b, d) of
             (st, b, d) \<Rightarrow> (st, Some (b, d))))"

definition shadow_commit :: "json codec \<Rightarrow> bool \<Rightarrow> string \<Rightarrow> jmap option \<Rightarrow> sync_state option \<Rightarrow> nat \<Rightarrow>
  shadow_store \<Rightarrow> bus \<Rightarrow> shadow_store \<times> bus \<times> (shadow_error, nat) result" where
  "shadow_commit cd saved name document sync now st bus =
     (let previous = map_of (ss_records st) name;
          creating = (document \<noteq> None \<and> (case previous of None \<Rightarrow> True | Some r \<Rightarrow> sr_document r = None)) in
      if creating \<and> ss_max st \<le> live_count st then (st, bus, Inl Quota)
      else if creating \<and> previous = None \<and> 2 * ss_max st \<le> length (ss_records st) then (st, bus, Inl Quota)
      else let r = \<lparr>sr_name = name, sr_version = (case previous of None \<Rightarrow> 0 | Some r \<Rightarrow> sr_version r) + 1,
                    sr_document = document, sr_updated_ms = now,
                    sr_sync = (case sync of Some s \<Rightarrow> Some s | None \<Rightarrow> Option.bind previous sr_sync)\<rparr> in
        if \<not> saved then (st, bus, Inl Unavailable)
        else case shadow_notify cd name previous r now (st\<lparr>ss_records := bt_insert name r (ss_records st)\<rparr>) bus of
          (st, bus) \<Rightarrow> (st, bus, Inr (sr_version r)))"

definition shadow_get :: "shadow_store \<Rightarrow> string \<Rightarrow> (shadow_error, json) result" where
  "shadow_get st name =
     (if \<not> shadow_valid_name name then Inl Invalid
      else case map_of (ss_records st) name of
        Some r \<Rightarrow> (case sr_document r of
            Some document \<Rightarrow> Inr (jobj [(''state'', state_view document), (''version'', jnat (sr_version r))])
          | None \<Rightarrow> Inl NotFound)
      | None \<Rightarrow> Inl NotFound)"

text \<open>The request fields of an update: client token, known keys, state object, depth and nulls.\<close>

definition token_of :: "jmap \<Rightarrow> (shadow_error, string option) result" where
  "token_of request = (case map_of request ''clientToken'' of
     None \<Rightarrow> Inr None | Some JNull \<Rightarrow> Inr None
   | Some (JStr t) \<Rightarrow> if length t \<le> MAX_CLIENT_TOKEN then Inr (Some t) else Inl Invalid
   | Some _ \<Rightarrow> Inl Invalid)"

definition state_of :: "jmap \<Rightarrow> (shadow_error, jmap) result" where
  "state_of request =
     (if list_ex (\<lambda>k. k \<notin> set [''state'', ''version'', ''clientToken'']) (bt_keys request) then Inl Invalid
      else case Option.bind (map_of request ''state'') as_object of
        None \<Rightarrow> Inl Invalid
      | Some state \<Rightarrow>
          if list_ex (\<lambda>(k, v). k \<notin> set SECTIONS \<or> \<not> (v = JNull \<or> is_object v)) state then Inl Invalid
          else if list_ex (\<lambda>(_, v). (case as_object v of Some m \<Rightarrow> m \<noteq> [] | None \<Rightarrow> False) \<and> SHADOW_MAX_DEPTH < shadow_depth v) state
                  \<or> null_in_array (JObj state) then Inl Invalid
          else Inr state)"

definition version_arg :: "json \<Rightarrow> (shadow_error, nat) result" where
  "version_arg v = (case v of JNum n \<Rightarrow> (case as_u64 n of Some k \<Rightarrow> if 1 \<le> k then Inr k else Inl Invalid | None \<Rightarrow> Inl Invalid)
     | _ \<Rightarrow> Inl Invalid)"

definition check_version :: "jmap \<Rightarrow> shadow_record option \<Rightarrow> (shadow_error, unit) result" where
  "check_version request existing = (case map_of request ''version'' of
     None \<Rightarrow> Inr ()
   | Some v \<Rightarrow> res_bind (version_arg v) (\<lambda>n.
       if (case existing of None \<Rightarrow> True | Some r \<Rightarrow> sr_document r = None \<or> sr_version r \<noteq> n) then Inl Conflict else Inr ()))"

definition apply_section :: "string \<times> json \<Rightarrow> jmap \<Rightarrow> jmap" where
  "apply_section e document = (case e of (name, patch) \<Rightarrow>
     (case patch of
        JObj p \<Rightarrow>
          (let merged = shadow_merge (case map_of document name of Some (JObj m) \<Rightarrow> m | _ \<Rightarrow> []) p;
               document = bt_remove name document in
           if merged \<noteq> [] then bt_insert name (JObj merged) document else document)
      | _ \<Rightarrow> bt_remove name document))"

text \<open>The document an update would store, or why it is refused.\<close>

definition update_document :: "json codec \<Rightarrow> string \<Rightarrow> json \<Rightarrow> shadow_record option \<Rightarrow> (shadow_error, string option \<times> jmap) result" where
  "update_document cd name request existing =
     (if \<not> shadow_valid_name name then Inl Invalid
      else case as_object request of None \<Rightarrow> Inl Invalid
      | Some req \<Rightarrow>
          res_bind (token_of req) (\<lambda>token.
          res_bind (state_of req) (\<lambda>state.
          res_bind (check_version req existing) (\<lambda>_.
            let document = fold apply_section state
                  (case Option.bind existing sr_document of None \<Rightarrow> [] | Some d \<Rightarrow> d) in
            if MAX_STATE_BYTES < payload_size cd (JObj document) then Inl TooLarge
            else case check_document (payload_size cd) document of
              Inl _ \<Rightarrow> Inl Invalid
            | Inr _ \<Rightarrow> Inr (token, document)))))"

definition shadow_update :: "json codec \<Rightarrow> bool \<Rightarrow> string \<Rightarrow> json \<Rightarrow> nat \<Rightarrow> shadow_store \<Rightarrow> bus \<Rightarrow>
  shadow_store \<times> bus \<times> (shadow_error, json) result" where
  "shadow_update cd saved name request now st bus =
     (case update_document cd name request (map_of (ss_records st) name) of
        Inl e \<Rightarrow> (st, bus, Inl e)
      | Inr (token, document) \<Rightarrow>
          (case shadow_commit cd saved name (Some document) None now st bus of (st, bus, r) \<Rightarrow>
             (st, bus, res_bind r (\<lambda>version.
                Inr (jobj ([(''state'', state_view document), (''version'', jnat version)] @
                   (case token of None \<Rightarrow> [] | Some t \<Rightarrow> [(''clientToken'', JStr t)])))))))"

definition delete_version :: "json \<Rightarrow> (shadow_error, nat option) result" where
  "delete_version request = (case request of
     JNull \<Rightarrow> Inr None
   | JObj m \<Rightarrow>
       if list_all (\<lambda>k. k = ''version'') (bt_keys m)
       then (case map_of m ''version'' of None \<Rightarrow> Inr None | Some v \<Rightarrow> res_bind (version_arg v) (\<lambda>n. Inr (Some n)))
       else Inl Invalid
   | _ \<Rightarrow> Inl Invalid)"

definition delete_check :: "shadow_store \<Rightarrow> string \<Rightarrow> json \<Rightarrow> (shadow_error, unit) result" where
  "delete_check st name request =
     (if \<not> shadow_valid_name name then Inl Invalid
      else res_bind (delete_version request) (\<lambda>expected.
        case map_of (ss_records st) name of
          None \<Rightarrow> Inl NotFound
        | Some r \<Rightarrow>
            if sr_document r = None then Inl NotFound
            else if (case expected of None \<Rightarrow> False | Some v \<Rightarrow> v \<noteq> sr_version r) then Inl Conflict
            else Inr ()))"

definition shadow_delete :: "json codec \<Rightarrow> bool \<Rightarrow> string \<Rightarrow> json \<Rightarrow> nat \<Rightarrow> shadow_store \<Rightarrow> bus \<Rightarrow>
  shadow_store \<times> bus \<times> (shadow_error, json) result" where
  "shadow_delete cd saved name request now st bus =
     (case delete_check st name request of
        Inl e \<Rightarrow> (st, bus, Inl e)
      | Inr _ \<Rightarrow>
          (case shadow_commit cd saved name None None now st bus of (st, bus, r) \<Rightarrow>
             (st, bus, res_bind r (\<lambda>version. Inr (jobj [(''version'', jnat version)])))))"

definition shadow_names :: "shadow_store \<Rightarrow> string list" where
  "shadow_names st = map sr_name (filter (\<lambda>r. sr_document r \<noteq> None \<and> sr_name r \<noteq> []) (bt_values (ss_records st)))"

definition sync_snapshot :: "shadow_store \<Rightarrow> string \<Rightarrow> jmap option \<times> sync_state" where
  "sync_snapshot st name =
     (let r = map_of (ss_records st) name in
      (Option.bind r sr_document, (case Option.bind r sr_sync of None \<Rightarrow> default_sync | Some s \<Rightarrow> s)))"

definition sync_apply :: "json codec \<Rightarrow> bool \<Rightarrow> string \<Rightarrow> jmap option \<Rightarrow> jmap option \<Rightarrow> nat \<Rightarrow> nat \<Rightarrow>
  shadow_store \<Rightarrow> bus \<Rightarrow> shadow_store \<times> bus \<times> (shadow_error, bool) result" where
  "sync_apply cd saved name observed agreed cloud_version now st bus =
     (let current = Option.bind (map_of (ss_records st) name) sr_document;
          target = (if same_document current observed then agreed
                    else fst (merge3 observed current agreed \<lparr>own_desired = Device, own_reported = Device\<rparr>)) in
      case (case target of None \<Rightarrow> Inr () | Some d \<Rightarrow> check_document (payload_size cd) d) of
        Inl e \<Rightarrow> (st, bus, Inl (Unmergeable e))
      | Inr _ \<Rightarrow>
          (let sync = \<lparr>sy_base = agreed, sy_cloud_version = cloud_version\<rparr> in
           if same_document current target then
             (if Option.bind (map_of (ss_records st) name) sr_sync = Some sync \<or> (current = None \<and> sync = default_sync)
              then (st, bus, Inr False)
              else let r = (case map_of (ss_records st) name of
                          Some r \<Rightarrow> r\<lparr>sr_sync := Some sync\<rparr>
                        | None \<Rightarrow> \<lparr>sr_name = name, sr_version = 0, sr_document = None, sr_updated_ms = now, sr_sync = Some sync\<rparr>) in
                if \<not> saved then (st, bus, Inl Unavailable)
                else (st\<lparr>ss_records := bt_insert name r (ss_records st)\<rparr>, bus, Inr False))
           else case shadow_commit cd saved name target (Some sync) now st bus of
             (st, bus, r) \<Rightarrow> (st, bus, res_bind r (\<lambda>_. Inr True))))"

definition set_sync_status :: "string \<Rightarrow> json \<Rightarrow> shadow_store \<Rightarrow> shadow_store" where
  "set_sync_status name status st = st\<lparr>ss_sync_status := bt_insert name status (ss_sync_status st)\<rparr>"

text \<open>
  \<open>sync_one\<close> up to the request to the cloud: the merged document, its conflicts and whether it is
  pushed. The store is not locked while the cloud answers, so the second half runs on a later store.
\<close>

datatype put_result = Stored nat | PutConflict

definition sync_plan :: "json codec \<Rightarrow> owners \<Rightarrow> jmap option \<times> sync_state \<Rightarrow> jmap option \<Rightarrow>
  (shadow_error, jmap option \<times> string list \<times> bool) result" where
  "sync_plan cd own snapshot remote =
     (case snapshot of (local_doc, state) \<Rightarrow>
        (case merge3 (sy_base state) local_doc remote own of (merged, conflicts) \<Rightarrow>
           (case (case merged of None \<Rightarrow> Inr () | Some d \<Rightarrow> check_document (payload_size cd) d) of
              Inl e \<Rightarrow> Inl (MergeRefused e)
            | Inr _ \<Rightarrow> Inr (merged, conflicts, \<not> same_document merged remote))))"

definition sync_finish :: "json codec \<Rightarrow> bool \<Rightarrow> string \<Rightarrow> jmap option \<Rightarrow> jmap option \<times> string list \<times> bool \<Rightarrow> nat \<Rightarrow>
  put_result \<Rightarrow> nat \<Rightarrow> shadow_store \<Rightarrow> bus \<Rightarrow> shadow_store \<times> bus \<times> (shadow_error, bool \<times> bool) result" where
  "sync_finish cd saved name local_doc plan cloud_version put now st bus =
     (case plan of (merged, conflicts, pushed) \<Rightarrow>
        (case (if pushed then (case put of Stored v \<Rightarrow> Inr v | PutConflict \<Rightarrow> Inl CloudChanged) else Inr cloud_version) of
           Inl e \<Rightarrow> (st, bus, Inl e)
         | Inr v \<Rightarrow>
             (case sync_apply cd saved name local_doc merged v now st bus of
                (st, bus, r) \<Rightarrow> (st, bus, res_bind r (\<lambda>pulled. Inr (pushed, pulled))))))"

subsection \<open>Policies and requests\<close>

record shadow_policy =
  sp_operations :: "string list"
  sp_resources :: "string list"
  sp_sections :: "string list option"

definition SHADOW_OPERATIONS :: "string list" where
  "SHADOW_OPERATIONS = [''aws.greengrass#GetThingShadow'', ''aws.greengrass#UpdateThingShadow'',
     ''aws.greengrass#DeleteThingShadow'', ''aws.greengrass#ListNamedShadowsForThing'']"

datatype shadow_policy_error = TooManyShadowPolicies | ShadowPolicyShape | ShadowPolicyOperation
  | ShadowPolicyResource | ShadowPolicySections

definition shadow_validate_policy :: "shadow_policy \<Rightarrow> (shadow_policy_error, unit) result" where
  "shadow_validate_policy p =
     ensure (sp_operations p \<noteq> [] \<and> length (sp_operations p) \<le> 5 \<and> sp_resources p \<noteq> [] \<and> length (sp_resources p) \<le> 64)
       ShadowPolicyShape
      (ensure (list_all (\<lambda>x. x = ''*'' \<or> x \<in> set SHADOW_OPERATIONS) (sp_operations p)) ShadowPolicyOperation
        (ensure (list_all (\<lambda>r. r \<noteq> [] \<and> length r \<le> 256 \<and> CHR 0x00 \<notin> set r) (sp_resources p)) ShadowPolicyResource
          (ensure (case sp_sections p of None \<Rightarrow> True | Some ss \<Rightarrow> ss \<noteq> [] \<and> list_all (\<lambda>x. x \<in> set SECTIONS) ss)
             ShadowPolicySections (Inr ()))))"

definition shadow_validate_policies :: "shadow_policy list \<Rightarrow> (shadow_policy_error, unit) result" where
  "shadow_validate_policies ps =
     ensure (length ps \<le> 32) TooManyShadowPolicies (res_fold (\<lambda>p _. shadow_validate_policy p) ps ())"

definition shadow_authorized :: "shadow_policy list \<Rightarrow> string \<Rightarrow> string \<Rightarrow> string list \<Rightarrow> bool" where
  "shadow_authorized ps operation resource sections =
     (let qualified = ''aws.greengrass#'' @ operation in
      list_ex (\<lambda>p. list_ex (\<lambda>x. x = ''*'' \<or> x = qualified) (sp_operations p)
        \<and> list_ex (\<lambda>r. glob r resource) (sp_resources p)
        \<and> list_all (\<lambda>s. case sp_sections p of None \<Rightarrow> True | Some allowed \<Rightarrow> list_ex (\<lambda>a. a = s) allowed) sections) ps)"

definition shadow_allow :: "shadow_policy list option \<Rightarrow> string \<Rightarrow> string \<Rightarrow> string list \<Rightarrow> bool" where
  "shadow_allow policies resource operation sections =
     (case policies of None \<Rightarrow> True | Some ps \<Rightarrow> shadow_authorized ps operation resource sections)"

definition status_entry :: "json codec \<Rightarrow> shadow_store \<Rightarrow> bool \<Rightarrow> shadow_record \<Rightarrow> json" where
  "status_entry cd st detail r =
     (let sync = (case map_of (ss_sync_status st) (sr_name r) of None \<Rightarrow> JNull
                  | Some v \<Rightarrow> if detail then v
                      else (case v of JObj m \<Rightarrow> JObj (filter (\<lambda>(k, _). k \<in> set [''pushes'', ''pulls'', ''conflicts'', ''failures'']) m)
                            | w \<Rightarrow> w)) in
      jobj [(''name'', JStr (sr_name r)), (''version'', jnat (sr_version r)), (''exists'', JBool (sr_document r \<noteq> None)),
            (''bytes'', jnat (case sr_document r of None \<Rightarrow> 0 | Some d \<Rightarrow> payload_size cd (JObj d))),
            (''cloud_version'', opt_json (map_option (\<lambda>s. jnat (sy_cloud_version s)) (sr_sync r))), (''sync'', sync)])"

definition shadow_status :: "json codec \<Rightarrow> shadow_store \<Rightarrow> string option \<Rightarrow> (shadow_error, json) result" where
  "shadow_status cd st name = (case name of
     Some n \<Rightarrow> (case map_of (ss_records st) n of None \<Rightarrow> Inl NotFound | Some r \<Rightarrow> Inr (status_entry cd st True r))
   | None \<Rightarrow> Inr (jobj [(''thing'', JStr (ss_thing st)), (''max_shadows'', jnat (ss_max st)),
       (''shadows'', JArr (map (status_entry cd st False) (filter (\<lambda>r. sr_document r \<noteq> None) (bt_values (ss_records st))))),
       (''deleted_retained'', jnat (length (ss_records st) - live_count st)),
       (''notifications'', jobj [(''published'', jnat (ss_published st)), (''refused'', jnat (ss_refused st))])]))"

definition request_sections :: "json \<Rightarrow> string list" where
  "request_sections payload =
     (case Option.bind (Option.bind (as_object payload) (\<lambda>m. map_of m ''state'')) as_object of
        None \<Rightarrow> [] | Some s \<Rightarrow> bt_keys s)"

definition shadow_handle :: "json codec \<Rightarrow> bool \<Rightarrow> nat \<Rightarrow> shadow_policy list option \<Rightarrow> string \<Rightarrow> string \<Rightarrow> json \<Rightarrow>
  shadow_store \<Rightarrow> bus \<Rightarrow> shadow_store \<times> bus \<times> (shadow_error, json) result" where
  "shadow_handle cd saved now policies op name payload st bus =
     (let allow = shadow_allow policies (shadow_resource (ss_thing st) name) in
      if op = ''shadow_get'' then
        (if \<not> allow ''GetThingShadow'' [] then (st, bus, Inl Forbidden) else (st, bus, shadow_get st name))
      else if op = ''shadow_update'' then
        (if \<not> allow ''UpdateThingShadow'' (request_sections payload) then (st, bus, Inl Forbidden)
         else case shadow_update cd saved name payload now st bus of (st, bus, r) \<Rightarrow>
           (st, bus, res_bind r (\<lambda>result.
              if \<not> allow ''GetThingShadow'' []
              then (case result of JObj m \<Rightarrow> Inr (JObj (bt_insert ''state''
                      (opt_json (Option.bind (as_object payload) (\<lambda>p. map_of p ''state''))) m)) | v \<Rightarrow> Inr v)
              else Inr result)))
      else if op = ''shadow_delete'' then
        (if \<not> allow ''DeleteThingShadow'' [] then (st, bus, Inl Forbidden) else shadow_delete cd saved name payload now st bus)
      else if op = ''shadow_list'' then
        (st, bus, Inr (jobj [(''shadows'', JArr (map JStr (filter (\<lambda>n.
           shadow_allow policies (shadow_resource (ss_thing st) n) ''ListNamedShadowsForThing'' []) (shadow_names st))))]))
      else if op = ''shadows'' then
        (if policies \<noteq> None then (st, bus, Inl AdminOnly)
         else (st, bus, (case payload of
             JNull \<Rightarrow> shadow_status cd st None
           | JObj m \<Rightarrow> (if length m = 1 then (case map_of m ''shadow'' of Some (JStr n) \<Rightarrow> shadow_status cd st (Some n) | _ \<Rightarrow> Inl Invalid)
                        else Inl Invalid)
           | _ \<Rightarrow> Inl Invalid)))
      else (st, bus, Inl UnknownOp))"

subsection \<open>Opening the directory\<close>

text \<open>
  A directory entry is its file name with what handling it gave: the removal of a temporary file, or
  the parsed record, either of which may fail. Files of another form are skipped.
\<close>

datatype entry_result = EntryFailed | Removed | Parsed shadow_record

definition open_entry :: "json codec \<Rightarrow> string \<times> entry_result \<Rightarrow> (string, shadow_record) btree \<Rightarrow>
  (shadow_error, (string, shadow_record) btree) result" where
  "open_entry cd e records = (case e of (filename, content) \<Rightarrow>
     if ends_with filename ''.tmp'' then (case content of EntryFailed \<Rightarrow> Inl Unreadable | _ \<Rightarrow> Inr records)
     else if \<not> (starts_with filename ''s-'' \<and> ends_with filename ''.json'') then Inr records
     else case content of
         Parsed r \<Rightarrow>
           ensure (shadow_valid_name (sr_name r) \<and> filename = shadow_file_name (sr_name r)
             \<and> (case sr_document r of None \<Rightarrow> True
                | Some d \<Rightarrow> (case check_document (payload_size cd) d of Inr _ \<Rightarrow> True | Inl _ \<Rightarrow> False))) Unreadable
            (Inr (bt_insert (sr_name r) r records))
       | _ \<Rightarrow> Inl Unreadable)"

definition shadow_open :: "json codec \<Rightarrow> nat \<Rightarrow> string \<Rightarrow> (string \<times> entry_result) list \<Rightarrow> (shadow_error, shadow_store) result" where
  "shadow_open cd max_shadows thing entries =
     res_bind (res_fold (open_entry cd) entries []) (\<lambda>records.
       let st = \<lparr>ss_max = max_shadows, ss_thing = thing, ss_records = records, ss_published = 0, ss_refused = 0, ss_sync_status = []\<rparr> in
       ensure (live_count st \<le> max_shadows) TooManyStored (Inr st))"

section \<open>Lemmas: commits\<close>

lemma publish_one_frame:
  "publish_one cd now e (st, b, d) = (st', b', d') \<Longrightarrow>
     ss_records st' = ss_records st \<and> ss_max st' = ss_max st \<and> ss_thing st' = ss_thing st"
  by (auto simp: publish_one_def split: prod.splits sum.splits)

lemma fold_publish_frame:
  "fold (publish_one cd now) es (st, b, d) = (st', b', d') \<Longrightarrow>
     ss_records st' = ss_records st \<and> ss_max st' = ss_max st \<and> ss_thing st' = ss_thing st"
proof (induction es arbitrary: st b d)
  case (Cons e es)
  obtain st1 b1 d1 where one: "publish_one cd now e (st, b, d) = (st1, b1, d1)" by (metis prod_cases3)
  then have "fold (publish_one cd now) es (st1, b1, d1) = (st', b', d')" using Cons.prems by simp
  from Cons.IH [OF this] publish_one_frame [OF one] show ?case by simp
qed simp

lemma notify_frame:
  "shadow_notify cd name previous current now st bus = (st', bus') \<Longrightarrow>
     ss_records st' = ss_records st \<and> ss_max st' = ss_max st \<and> ss_thing st' = ss_thing st"
  by (auto simp: shadow_notify_def dest!: fold_publish_frame split: option.splits prod.splits)

lemma commit_cases:
  assumes "shadow_commit cd saved name document sync now st bus = (st', bus', r)"
  obtains (refused) e where "st' = st" "bus' = bus" "r = Inl e"
  | (stored) rec where
      "ss_records st' = bt_insert name rec (ss_records st)" "ss_max st' = ss_max st" "ss_thing st' = ss_thing st"
      "sr_name rec = name" "sr_document rec = document" "r = Inr (sr_version rec)"
      "sr_version rec = (case map_of (ss_records st) name of None \<Rightarrow> 0 | Some p \<Rightarrow> sr_version p) + 1"
      "sr_sync rec = (case sync of Some s \<Rightarrow> Some s | None \<Rightarrow> Option.bind (map_of (ss_records st) name) sr_sync)"
      "document \<noteq> None \<and> (case map_of (ss_records st) name of None \<Rightarrow> True | Some p \<Rightarrow> sr_document p = None)
         \<Longrightarrow> live_count st < ss_max st"
proof -
  let ?rec = "\<lparr>sr_name = name, sr_version = (case map_of (ss_records st) name of None \<Rightarrow> 0 | Some r \<Rightarrow> sr_version r) + 1,
     sr_document = document, sr_updated_ms = now,
     sr_sync = (case sync of Some s \<Rightarrow> Some s | None \<Rightarrow> Option.bind (map_of (ss_records st) name) sr_sync)\<rparr>"
  obtain st1 bus1 where n: "shadow_notify cd name (map_of (ss_records st) name) ?rec now
      (st\<lparr>ss_records := bt_insert name ?rec (ss_records st)\<rparr>) bus = (st1, bus1)" by fastforce
  note frame = notify_frame [OF n]
  consider "st' = st" "bus' = bus" "\<exists>e. r = Inl e"
    | "st' = st1" "r = Inr (sr_version ?rec)"
      "document \<noteq> None \<and> (case map_of (ss_records st) name of None \<Rightarrow> True | Some p \<Rightarrow> sr_document p = None)
         \<longrightarrow> live_count st < ss_max st"
    using assms n by (auto simp: shadow_commit_def Let_def not_le split: if_splits)
  then show ?thesis
  proof cases
    case 1
    then show ?thesis using refused by blast
  next
    case 2
    show ?thesis by (rule stored [of ?rec]) (use 2 frame in auto)
  qed
qed

text \<open>Counting live shadows through an insertion.\<close>

lemma length_filter_insert:
  assumes "bt_wf m"
  shows "length (filter P (bt_values (bt_insert k v m))) =
    length (filter P (bt_values (bt_remove k m))) + (if P v then 1 else 0)"
  using assms
proof (induction m)
  case (Cons e m)
  obtain k' v' where e: "e = (k', v')" by fastforce
  have wf: "bt_wf m" and above: "\<forall>x \<in> fst ` set m. k' < x" using Cons.prems e by (auto simp: bt_wf_Cons)
  have same: "bt_remove k m = m" if "k \<le> k'"
    using above that by (auto simp: bt_remove_def filter_id_conv)
  show ?case
  proof (cases "k < k'")
    case True
    then show ?thesis using e same by (auto simp: bt_remove_def)
  next
    case False
    then show ?thesis using Cons.IH [OF wf] e same by (cases "k = k'") (auto simp: bt_remove_def)
  qed
qed (simp add: bt_remove_def)

lemma length_filter_remove_le: "length (filter P (bt_values (bt_remove k m))) \<le> length (filter P (bt_values m))"
  by (induction m) (auto simp: bt_remove_def)

lemma length_filter_remove_less:
  "map_of m k = Some v \<Longrightarrow> P v \<Longrightarrow> length (filter P (bt_values (bt_remove k m))) < length (filter P (bt_values m))"
proof (induction m)
  case (Cons e m)
  then show ?case using length_filter_remove_le [of P k m] by (cases e) (auto simp: bt_remove_def split: if_splits)
qed simp

definition record_ok :: "json codec \<Rightarrow> string \<Rightarrow> shadow_record \<Rightarrow> bool" where
  "record_ok cd k r \<longleftrightarrow> sr_name r = k \<and>
     (case sr_document r of None \<Rightarrow> True | Some d \<Rightarrow> is_ok (check_document (payload_size cd) d))"

definition store_ok :: "json codec \<Rightarrow> shadow_store \<Rightarrow> bool" where
  "store_ok cd st \<longleftrightarrow> bt_wf (ss_records st) \<and> live_count st \<le> ss_max st \<and>
     (\<forall>k r. map_of (ss_records st) k = Some r \<longrightarrow> record_ok cd k r)"

definition version_of :: "string \<Rightarrow> shadow_store \<Rightarrow> nat" where
  "version_of name st = (case map_of (ss_records st) name of None \<Rightarrow> 0 | Some r \<Rightarrow> sr_version r)"

lemma store_ok_insert:
  assumes ok: "store_ok cd st" and rec: "record_ok cd name r"
    and room: "sr_document r \<noteq> None \<Longrightarrow> (case map_of (ss_records st) name of None \<Rightarrow> True | Some p \<Rightarrow> sr_document p = None)
       \<Longrightarrow> live_count st < ss_max st"
    and st': "ss_records st' = bt_insert name r (ss_records st)" "ss_max st' = ss_max st"
  shows "store_ok cd st'"
proof -
  have wf: "bt_wf (ss_records st)" and live: "live_count st \<le> ss_max st" using ok by (auto simp: store_ok_def)
  let ?P = "\<lambda>r. sr_document r \<noteq> None"
  let ?rest = "length (filter ?P (bt_values (bt_remove name (ss_records st))))"
  have new: "live_count st' = ?rest + (if ?P r then 1 else 0)"
    unfolding live_count_def st'(1) by (rule length_filter_insert [OF wf])
  have le: "?rest \<le> live_count st" unfolding live_count_def by (rule length_filter_remove_le)
  have "live_count st' \<le> ss_max st"
  proof (cases "?P r \<and> (case map_of (ss_records st) name of None \<Rightarrow> True | Some p \<Rightarrow> sr_document p = None)")
    case True
    then show ?thesis using new le room by simp
  next
    case False
    have "?rest < live_count st" if live_now: "?P r"
    proof -
      obtain p where "map_of (ss_records st) name = Some p" "?P p" using False live_now by (auto split: option.splits)
      then show ?thesis unfolding live_count_def by (rule length_filter_remove_less)
    qed
    then show ?thesis using new le live by (cases "?P r") auto
  qed
  then show ?thesis using ok rec wf by (auto simp: store_ok_def st')
qed

lemma commit_inv:
  assumes run: "shadow_commit cd saved name document sync now st bus = (st', bus', r)" and ok: "store_ok cd st"
    and doc: "case document of None \<Rightarrow> True | Some d \<Rightarrow> is_ok (check_document (payload_size cd) d)"
  shows "store_ok cd st' \<and> version_of k st \<le> version_of k st'"
  using run
proof (cases rule: commit_cases)
  case (refused e)
  then show ?thesis using ok by simp
next
  case (stored rec)
  have "store_ok cd st'"
    by (rule store_ok_insert [OF ok _ _ stored(1,2)]) (use stored doc in \<open>auto simp: record_ok_def split: option.splits\<close>)
  then show ?thesis using stored(1,7) by (auto simp: version_of_def split: option.splits)
qed

section \<open>Lemmas: requests\<close>

lemma update_document_ok:
  assumes "update_document cd name request existing = Inr (token, document)"
  obtains req state where "as_object request = Some req" "state_of req = Inr state" "check_version req existing = Inr ()"
    "document = fold apply_section state (case Option.bind existing sr_document of None \<Rightarrow> [] | Some d \<Rightarrow> d)"
    "check_document (payload_size cd) document = Inr ()"
  using assms by (auto simp: update_document_def Let_def split: if_splits option.splits sum.splits)

lemma update_cases:
  assumes "shadow_update cd saved name request now st bus = (st', bus', r)"
  obtains (refused) e where "st' = st" "bus' = bus" "r = Inl e"
  | (committed) token document r' where "update_document cd name request (map_of (ss_records st) name) = Inr (token, document)"
      "shadow_commit cd saved name (Some document) None now st bus = (st', bus', r')" "is_ok r \<longleftrightarrow> is_ok r'"
proof (cases "update_document cd name request (map_of (ss_records st) name)")
  case (Inl e)
  then show ?thesis using assms refused by (auto simp: shadow_update_def)
next
  case (Inr x)
  obtain token document where x: "x = (token, document)" by fastforce
  obtain st1 bus1 r1 where c: "shadow_commit cd saved name (Some document) None now st bus = (st1, bus1, r1)" by (metis prod_cases3)
  show ?thesis by (rule committed [OF Inr [unfolded x]]) (use assms c Inr x in \<open>auto simp: shadow_update_def\<close>)
qed

lemma update_inv:
  assumes "shadow_update cd saved name request now st bus = (st', bus', r)" and ok: "store_ok cd st"
  shows "store_ok cd st' \<and> version_of k st \<le> version_of k st'"
  using assms(1)
proof (cases rule: update_cases)
  case (refused e)
  then show ?thesis using ok by simp
next
  case (committed token document r')
  from committed(1) have "check_document (payload_size cd) document = Inr ()" by (rule update_document_ok)
  then show ?thesis using commit_inv [OF committed(2) ok] by simp
qed

lemma delete_cases:
  assumes "shadow_delete cd saved name request now st bus = (st', bus', r)"
  obtains (refused) e where "st' = st" "bus' = bus" "r = Inl e"
  | (committed) p r' where "map_of (ss_records st) name = Some p" "sr_document p \<noteq> None"
      "shadow_commit cd saved name None None now st bus = (st', bus', r')" "is_ok r \<longleftrightarrow> is_ok r'"
proof -
  obtain st1 bus1 r1 where c: "shadow_commit cd saved name None None now st bus = (st1, bus1, r1)" by (metis prod_cases3)
  show ?thesis
  proof (cases "delete_check st name request")
    case (Inl e)
    then show ?thesis using assms refused by (auto simp: shadow_delete_def)
  next
    case (Inr u)
    then have "\<exists>p. map_of (ss_records st) name = Some p \<and> sr_document p \<noteq> None"
      by (cases "map_of (ss_records st) name"; cases "sr_document (the (map_of (ss_records st) name))")
        (auto simp: delete_check_def split: if_splits)
    then obtain p where "map_of (ss_records st) name = Some p" "sr_document p \<noteq> None" by blast
    then show ?thesis by (rule committed) (use assms c Inr in \<open>auto simp: shadow_delete_def\<close>)
  qed
qed

lemma sync_apply_inv:
  assumes run: "sync_apply cd saved name observed agreed v now st bus = (st', bus', r)" and ok: "store_ok cd st"
  shows "store_ok cd st' \<and> version_of k st \<le> version_of k st'"
proof -
  let ?current = "Option.bind (map_of (ss_records st) name) sr_document"
  define target where "target = (if same_document ?current observed then agreed
     else fst (merge3 observed ?current agreed \<lparr>own_desired = Device, own_reported = Device\<rparr>))"
  let ?sync = "\<lparr>sy_base = agreed, sy_cloud_version = v\<rparr>"
  let ?rec = "case map_of (ss_records st) name of Some r \<Rightarrow> r\<lparr>sr_sync := Some ?sync\<rparr>
     | None \<Rightarrow> \<lparr>sr_name = name, sr_version = 0, sr_document = None, sr_updated_ms = now, sr_sync = Some ?sync\<rparr>"
  obtain st1 bus1 r1 where c: "shadow_commit cd saved name target (Some ?sync) now st bus = (st1, bus1, r1)" by (metis prod_cases3)
  have doc: "case target of None \<Rightarrow> True | Some d \<Rightarrow> is_ok (check_document (payload_size cd) d)"
    if "(case target of None \<Rightarrow> Inr () | Some d \<Rightarrow> check_document (payload_size cd) d) = Inr u" for u
    using that by (auto split: option.splits)
  consider "st' = st" | "st' = st\<lparr>ss_records := bt_insert name ?rec (ss_records st)\<rparr>"
    | u where "st' = st1" "(case target of None \<Rightarrow> Inr () | Some d \<Rightarrow> check_document (payload_size cd) d) = Inr u"
    using run c unfolding sync_apply_def Let_def target_def [symmetric]
    by (cases "case target of None \<Rightarrow> Inr () | Some d \<Rightarrow> check_document (payload_size cd) d") (auto split: if_splits)
  then show ?thesis
  proof cases
    case 1
    then show ?thesis using ok by simp
  next
    case 2
    have "record_ok cd name ?rec" using ok by (auto simp: store_ok_def record_ok_def split: option.splits)
    then have "store_ok cd st'" by (rule store_ok_insert [OF ok]) (use 2 in \<open>auto split: option.splits\<close>)
    then show ?thesis using 2 by (auto simp: version_of_def split: option.splits)
  next
    case (3 u)
    then show ?thesis using commit_inv [OF c ok doc] by blast
  qed
qed

lemma handle_inv:
  assumes "shadow_handle cd saved now policies op name payload st bus = (st', bus', r)" and ok: "store_ok cd st"
  shows "store_ok cd st' \<and> version_of k st \<le> version_of k st'"
proof -
  obtain st1 bus1 r1 where u: "shadow_update cd saved name payload now st bus = (st1, bus1, r1)" by (metis prod_cases3)
  obtain st2 bus2 r2 where d: "shadow_delete cd saved name payload now st bus = (st2, bus2, r2)" by (metis prod_cases3)
  have "store_ok cd st2 \<and> version_of k st \<le> version_of k st2"
    using d by (cases rule: delete_cases) (use ok commit_inv [where document = None] in auto)
  moreover have "st' = st \<or> st' = st1 \<or> st' = st2"
    using assms(1) u d by (auto simp: shadow_handle_def Let_def split: if_splits)
  ultimately show ?thesis using ok update_inv [OF u ok] by auto
qed

section \<open>The store as a machine\<close>

datatype shadow_op =
    Request bool nat "shadow_policy list option" string string json
  | Synchronize bool string "jmap option" "jmap option" nat nat
  | SyncStatus string json

definition shadow_step :: "json codec \<Rightarrow> shadow_op \<Rightarrow> shadow_store \<times> bus \<Rightarrow> shadow_store \<times> bus" where
  "shadow_step cd x s = (case s of (st, bus) \<Rightarrow> (case x of
     Request saved now policies op name payload \<Rightarrow>
       (case shadow_handle cd saved now policies op name payload st bus of (st, bus, _) \<Rightarrow> (st, bus))
   | Synchronize saved name observed agreed v now \<Rightarrow>
       (case sync_apply cd saved name observed agreed v now st bus of (st, bus, _) \<Rightarrow> (st, bus))
   | SyncStatus name status \<Rightarrow> (set_sync_status name status st, bus)))"

lemma shadow_step_inv:
  assumes "store_ok cd st" and "shadow_step cd x (st, bus) = (st', bus')"
  shows "store_ok cd st' \<and> version_of k st \<le> version_of k st'"
proof (cases x)
  case (Request saved now policies op name payload)
  then obtain r where "shadow_handle cd saved now policies op name payload st bus = (st', bus', r)"
    using assms(2) by (auto simp: shadow_step_def split: prod.splits)
  then show ?thesis using handle_inv assms(1) by blast
next
  case (Synchronize saved name observed agreed v now)
  then obtain r where "sync_apply cd saved name observed agreed v now st bus = (st', bus', r)"
    using assms(2) by (auto simp: shadow_step_def split: prod.splits)
  then show ?thesis using sync_apply_inv assms(1) by blast
next
  case (SyncStatus name status)
  then have "ss_records st' = ss_records st" "ss_max st' = ss_max st"
    using assms(2) by (auto simp: shadow_step_def set_sync_status_def)
  then show ?thesis using assms(1) by (auto simp: store_ok_def version_of_def live_count_def)
qed

interpretation shadow_machine: counting_machine "shadow_step cd" "\<lambda>s. store_ok cd (fst s)" "\<lambda>s. version_of name (fst s)"
proof
  fix s :: "shadow_store \<times> bus" and x
  assume ok: "store_ok cd (fst s)"
  obtain st bus where s: "s = (st, bus)" by fastforce
  obtain st' bus' where s': "shadow_step cd x (st, bus) = (st', bus')" by fastforce
  show "store_ok cd (fst (shadow_step cd x s))" using shadow_step_inv [OF _ s'] ok s s' by simp
  show "version_of name (fst s) \<le> version_of name (fst (shadow_step cd x s))"
    using shadow_step_inv [OF _ s'] ok s s' by simp
qed

section \<open>Properties\<close>

definition demo_store :: shadow_store where
  "demo_store = \<lparr>ss_max = 1, ss_thing = ''t'', ss_records = [(''n'', \<lparr>sr_name = ''n'', sr_version = 3,
     sr_document = Some [(''reported'', JObj [(''on'', JBool True)])], sr_updated_ms = 0, sr_sync = None\<rparr>)],
     ss_published = 0, ss_refused = 0, ss_sync_status = []\<rparr>"

definition json_codec :: "json codec" where
  "json_codec = \<lparr>payload_size = (\<lambda>_. 0), encode_message = (\<lambda>_. []), decode_message = (\<lambda>_. None), identity_hash = (\<lambda>s. s)\<rparr>"

definition demo_request :: json where
  "demo_request = JObj [(''state'', JObj [(''desired'', JObj [(''on'', JBool False)])]), (''version'', JNum (PosInt 3))]"

lemma demo_store_ok: "store_ok json_codec demo_store"
  by (auto simp: store_ok_def demo_store_def bt_wf_def live_count_def record_ok_def check_document_def ensure_def
      SECTIONS_def is_object_def SHADOW_MAX_DEPTH_def json_codec_def)

text \<open>
  optimistic concurrency. An update that names a version succeeds only when the shadow exists at
  exactly that version; a successful update adds one to it and leaves every other shadow as it was,
  and a refused one (conflict, quota, size, storage) changes no record at all.
\<close>

theorem update_versions:
  assumes "shadow_update cd saved name request now st bus = (st', bus', r)" and "as_object request = Some req"
  shows "(if is_ok r
     then version_of name st' = version_of name st + 1 \<and> (\<forall>k. k \<noteq> name \<longrightarrow> map_of (ss_records st') k = map_of (ss_records st) k)
       \<and> (\<forall>n. map_of req ''version'' = Some (JNum (PosInt n)) \<longrightarrow>
            (\<exists>p. map_of (ss_records st) name = Some p \<and> sr_document p \<noteq> None \<and> sr_version p = n))
     else ss_records st' = ss_records st)"
  using assms(1)
proof (cases rule: update_cases)
  case (refused e)
  then show ?thesis by simp
next
  case (committed token document r')
  from committed(1) have version: "check_version req (map_of (ss_records st) name) = Inr ()"
    using assms(2) by (auto elim: update_document_ok)
  have named: "\<exists>p. map_of (ss_records st) name = Some p \<and> sr_document p \<noteq> None \<and> sr_version p = n"
    if "map_of req ''version'' = Some (JNum (PosInt n))" for n
    using version that by (cases "map_of (ss_records st) name") (auto simp: check_version_def version_arg_def split: if_splits)
  from committed(2) show ?thesis
  proof (cases rule: commit_cases)
    case (refused e)
    then show ?thesis using committed(3) by simp
  next
    case (stored rec)
    then show ?thesis using committed(3) named by (auto simp: version_of_def)
  qed
qed

theorem update_versions_witness:
  "\<exists>st' bus' r. shadow_update json_codec True ''n'' demo_request 5 demo_store None = (st', bus', r) \<and> is_ok r
     \<and> version_of ''n'' demo_store = 3 \<and> version_of ''n'' st' = 4"
proof -
  obtain st' bus' r where run: "shadow_update json_codec True ''n'' demo_request 5 demo_store None = (st', bus', r)"
    by (metis prod_cases3)
  have "(case snd (snd (shadow_update json_codec True ''n'' demo_request 5 demo_store None)) of Inl _ \<Rightarrow> False | Inr _ \<Rightarrow> True)"
    by code_simp
  then have ok: "is_ok r" using run by (auto split: sum.splits)
  have v: "version_of ''n'' demo_store = 3" by code_simp
  have req: "as_object demo_request = Some [(''state'', JObj [(''desired'', JObj [(''on'', JBool False)])]), (''version'', JNum (PosInt 3))]"
    by (simp add: demo_request_def as_object_def)
  show ?thesis using update_versions [OF run req] run ok v by auto
qed

text \<open>
  C11: any sequence of requests, synchronizations and failures to save keeps the store loadable: every
  stored document passes the checks of the next start, the number of live shadows stays within the
  limit, and the version of a shadow never goes back, deletions included.
\<close>

theorem shadow_run_ok:
  assumes "store_ok cd st" and "fold (shadow_step cd) ops (st, bus) = (st', bus')"
  shows "store_ok cd st' \<and> version_of name st \<le> version_of name st'"
  using shadow_machine.run_inv [of cd "(st, bus)" ops] shadow_machine.run_counter [of cd "(st, bus)" name ops] assms by simp

theorem shadow_run_ok_witness:
  "\<exists>st' bus'. fold (shadow_step json_codec) [Request True 5 None ''shadow_update'' ''n'' demo_request] (demo_store, None) = (st', bus')
     \<and> version_of ''n'' demo_store \<le> version_of ''n'' st'"
proof -
  obtain st' bus' where r: "fold (shadow_step json_codec) [Request True 5 None ''shadow_update'' ''n'' demo_request] (demo_store, None) = (st', bus')"
    by fastforce
  show ?thesis using r shadow_run_ok [OF demo_store_ok r] by blast
qed

lemma apply_section_other: "k \<noteq> fst e \<Longrightarrow> map_of (apply_section e document) k = map_of document k"
  by (cases e) (auto simp: apply_section_def Let_def split: json.splits)

lemma fold_sections_other:
  "k \<notin> fst ` set state \<Longrightarrow> map_of (fold apply_section state document) k = map_of document k"
  by (induction state arbitrary: document) (auto simp: apply_section_other)

lemma authorized_section:
  "shadow_authorized ps operation resource sections \<Longrightarrow> k \<in> set sections \<Longrightarrow> shadow_authorized ps operation resource [k]"
  by (auto simp: shadow_authorized_def Let_def list_ex_iff list_all_iff)

lemma state_of_sections: "state_of req = Inr state \<Longrightarrow> request_sections (JObj req) = bt_keys state"
  by (auto simp: state_of_def request_sections_def as_object_def split: if_splits option.splits)

text \<open>
  C15: section grants. When no policy of a component grants updates of a section (\<open>desired\<close> or
  \<open>reported\<close>) of a shadow, no update request of that component changes that section, whatever it
  sends; other shadows are never touched.
\<close>

theorem update_respects_sections:
  assumes run: "shadow_handle cd saved now (Some ps) ''shadow_update'' name payload st bus = (st', bus', r)"
    and denied: "\<not> shadow_authorized ps ''UpdateThingShadow'' (shadow_resource (ss_thing st) name) [k]"
  shows "Option.bind (Option.bind (map_of (ss_records st') name) sr_document) (\<lambda>d. map_of d k) =
      Option.bind (Option.bind (map_of (ss_records st) name) sr_document) (\<lambda>d. map_of d k)
    \<and> (\<forall>n. n \<noteq> name \<longrightarrow> map_of (ss_records st') n = map_of (ss_records st) n)"
proof (cases "shadow_authorized ps ''UpdateThingShadow'' (shadow_resource (ss_thing st) name) (request_sections payload)")
  case False
  then have "st' = st" using run by (simp add: shadow_handle_def shadow_allow_def)
  then show ?thesis by simp
next
  case True
  then have out: "k \<notin> set (request_sections payload)" using authorized_section denied by blast
  obtain r' where "shadow_update cd saved name payload now st bus = (st', bus', r')"
    using run True by (auto simp: shadow_handle_def shadow_allow_def split: prod.splits)
  then show ?thesis
  proof (cases rule: update_cases)
    case (committed token document r'')
    from committed(1) obtain req state where req: "as_object payload = Some req" "state_of req = Inr state"
      "document = fold apply_section state (case Option.bind (map_of (ss_records st) name) sr_document of None \<Rightarrow> [] | Some d \<Rightarrow> d)"
      by (rule update_document_ok) blast
    have "payload = JObj req" using req(1) by (auto simp: as_object_def split: json.splits)
    then have "k \<notin> fst ` set state" using out state_of_sections [OF req(2)] by simp
    then have doc: "map_of document k = Option.bind (Option.bind (map_of (ss_records st) name) sr_document) (\<lambda>d. map_of d k)"
      by (cases "map_of (ss_records st) name"; cases "sr_document (the (map_of (ss_records st) name))")
        (simp_all add: req(3) fold_sections_other)
    from committed(2) show ?thesis
      by (cases rule: commit_cases) (use doc in auto)
  qed simp
qed

definition reader_policy :: shadow_policy where
  "reader_policy = \<lparr>sp_operations = [''*''], sp_resources = [''*''], sp_sections = Some [''reported'']\<rparr>"

theorem update_respects_sections_witness:
  "\<exists>st' bus' r. shadow_handle json_codec True 5 (Some [reader_policy]) ''shadow_update'' ''n'' demo_request demo_store None = (st', bus', r)
     \<and> Option.bind (Option.bind (map_of (ss_records st') ''n'') sr_document) (\<lambda>d. map_of d ''desired'') = None"
proof -
  obtain st' bus' r where run: "shadow_handle json_codec True 5 (Some [reader_policy]) ''shadow_update'' ''n'' demo_request demo_store None = (st', bus', r)"
    by (metis prod_cases3)
  have denied: "\<not> shadow_authorized [reader_policy] ''UpdateThingShadow'' (shadow_resource (ss_thing demo_store) ''n'') [''desired'']" by code_simp
  have "Option.bind (Option.bind (map_of (ss_records demo_store) ''n'') sr_document) (\<lambda>d. map_of d ''desired'') = None" by code_simp
  then show ?thesis using run update_respects_sections [OF run denied] by auto
qed

text \<open>
  a delta is complete. Reporting back exactly what the delta asks for closes it: merging the
  delta of a stored desired state into the reported state leaves an empty delta.
\<close>

theorem delta_closes:
  assumes "jmap_wf desired" and "clean_map desired"
  shows "delta (Some desired) (Some (shadow_merge reported (delta (Some desired) (Some reported)))) = []"
  using delta_closes_map [OF assms] by (simp add: delta_def)

theorem delta_closes_witness:
  "delta (Some [(''a'', JObj [(''b'', JNum (PosInt 1))])]) (Some (shadow_merge [(''a'', JBool True)]
     (delta (Some [(''a'', JObj [(''b'', JNum (PosInt 1))])]) (Some [(''a'', JBool True)])))) = []"
  by (rule delta_closes) (auto simp: bt_wf_def clean_map_def split: if_splits)



definition opt_map_wf :: "jmap option \<Rightarrow> bool" where
  "opt_map_wf d = (case d of None \<Rightarrow> True | Some m \<Rightarrow> jmap_wf m)"

lemma same_document_refl: "opt_map_wf d \<Longrightarrow> same_document d d"
  using json_equal_refl by (auto simp: same_document_def opt_map_wf_def simp del: json_equal.simps split: option.splits)

text \<open>What an uninterrupted synchronization leaves in the record.\<close>

lemma sync_apply_result:
  assumes run: "sync_apply cd saved name observed agreed v now st bus = (st', bus', Inr pulled)"
    and observed: "observed = Option.bind (map_of (ss_records st) name) sr_document" and wf: "opt_map_wf observed"
  shows "let doc = Option.bind (map_of (ss_records st') name) sr_document in
    (doc = agreed \<or> doc = observed \<and> same_document doc agreed) \<and>
    (Option.bind (map_of (ss_records st') name) sr_sync = Some \<lparr>sy_base = agreed, sy_cloud_version = v\<rparr>
       \<or> doc = None \<and> agreed = None \<and> \<lparr>sy_base = agreed, sy_cloud_version = v\<rparr> = default_sync \<and> st' = st) \<and>
    (case agreed of None \<Rightarrow> True | Some d \<Rightarrow> check_document (payload_size cd) d = Inr ())"
proof -
  let ?sync = "\<lparr>sy_base = agreed, sy_cloud_version = v\<rparr>"
  have refl: "same_document observed observed" by (rule same_document_refl [OF wf])
  obtain st1 bus1 r1 where c: "shadow_commit cd saved name agreed (Some ?sync) now st bus = (st1, bus1, r1)" by (metis prod_cases3)
  have checked: "case agreed of None \<Rightarrow> True | Some d \<Rightarrow> check_document (payload_size cd) d = Inr ()"
    using run refl observed by (auto simp: sync_apply_def Let_def split: option.splits sum.splits)
  show ?thesis
  proof (cases "same_document observed agreed")
    case True
    then show ?thesis
      using run refl observed checked
      by (auto simp: sync_apply_def Let_def default_sync_def split: if_splits option.splits sum.splits)
  next
    case False
    then have "st' = st1" "is_ok r1"
      using run refl observed c by (auto simp: sync_apply_def Let_def split: if_splits option.splits sum.splits)
    from c have "map_of (ss_records st1) name \<noteq> None \<and> Option.bind (map_of (ss_records st1) name) sr_document = agreed
        \<and> Option.bind (map_of (ss_records st1) name) sr_sync = Some ?sync"
      by (cases rule: commit_cases) (use \<open>is_ok r1\<close> in auto)
    then show ?thesis using \<open>st' = st1\<close> checked by (simp add: Let_def)
  qed
qed


definition demo_doc :: "jmap option" where
  "demo_doc = Some [(''desired'', JObj [(''on'', JBool False)]), (''reported'', JObj [(''on'', JBool True)])]"


end
