(* ===== verification/Manifests.thy ===== *)
theory Manifests
  imports Shadows StreamStore "HOL-Library.Monad_Syntax"
begin

text \<open>
  The manifests the device key signs (\<open>streams.rs\<close>, \<open>shadows.rs\<close>, \<open>clientdevices.rs\<close>) and the
  checks the signing service makes before it signs. The JSON writer and parser are parameters that
  carry the fields of a struct in textual order; the derived decoding on top of them, which refuses
  missing, repeated and unknown fields, is a definition here.
\<close>

section \<open>Structs in JSON\<close>

record serde =
  struct_to_vec :: "(string \<times> json) list \<Rightarrow> string"
  struct_from_slice :: "string \<Rightarrow> (string \<times> json) list option"

text \<open>What is written of a flat struct, one of strings and unsigned numbers, can be read.\<close>

definition flat :: "json \<Rightarrow> bool" where
  "flat v = (case v of JStr _ \<Rightarrow> True | JNum (PosInt _) \<Rightarrow> True | _ \<Rightarrow> False)"

definition serde_ok :: "serde \<Rightarrow> bool" where
  "serde_ok sd \<longleftrightarrow> (\<forall>fs. distinct (map fst fs) \<and> list_all (\<lambda>f. flat (snd f)) fs \<longrightarrow> struct_from_slice sd (struct_to_vec sd fs) = Some fs)"

lemma serde_okD:
  "serde_ok sd \<Longrightarrow> distinct (map fst fs) \<Longrightarrow> list_all (\<lambda>f. flat (snd f)) fs \<Longrightarrow> struct_from_slice sd (struct_to_vec sd fs) = Some fs"
  by (simp add: serde_ok_def)

definition u32_max :: nat where
  "u32_max = 2 ^ 32 - 1"

definition string_of :: "json \<Rightarrow> string option" where
  "string_of v = (case v of JStr s \<Rightarrow> Some s | _ \<Rightarrow> None)"

definition uint_of :: "nat \<Rightarrow> json \<Rightarrow> nat option" where
  "uint_of limit v = Option.bind (value_u64 v) (\<lambda>n. if n \<le> limit then Some n else None)"

definition string_field :: "string \<Rightarrow> (string \<times> json) list \<Rightarrow> string option" where
  "string_field k fs = Option.bind (map_of fs k) string_of"

definition uint_field :: "nat \<Rightarrow> string \<Rightarrow> (string \<times> json) list \<Rightarrow> nat option" where
  "uint_field limit k fs = Option.bind (map_of fs k) (uint_of limit)"

definition fields_exactly :: "string list \<Rightarrow> (string \<times> json) list \<Rightarrow> bool" where
  "fields_exactly names fs \<longleftrightarrow> distinct (map fst fs) \<and> set (map fst fs) = set names"

section \<open>Addresses\<close>

definition is_hexdigit :: "char \<Rightarrow> bool" where
  "is_hexdigit c \<longleftrightarrow> c \<in> set ''0123456789abcdefABCDEF''"

definition ascii_lower :: "char \<Rightarrow> char" where
  "ascii_lower c = (if 65 \<le> byte c \<and> byte c \<le> 90 then char_of (byte c + 32) else c)"

definition canonical_address :: "string \<Rightarrow> string option" where
  "canonical_address x =
     (let hex = map ascii_lower (case strip_prefix ''0x'' x of None \<Rightarrow> x | Some r \<Rightarrow> r) in
      if length hex \<le> 64 \<and> hex \<noteq> [] \<and> list_all is_hexdigit hex
      then Some (replicate (64 - length hex) (CHR ''0'') @ hex) else None)"

definition same_address :: "string \<Rightarrow> string \<Rightarrow> bool" where
  "same_address a b \<longleftrightarrow> canonical_address a \<noteq> None \<and> canonical_address a = canonical_address b"

definition sha256_text :: "string \<Rightarrow> bool" where
  "sha256_text s \<longleftrightarrow> length s = 64 \<and> list_all is_hexdigit s"

section \<open>Stream export manifests\<close>

definition MANIFEST_SCHEMA :: nat where "MANIFEST_SCHEMA = 1"
definition EXPORT_KIND :: string where "EXPORT_KIND = ''stream-export''"
definition MAX_MANIFEST_BYTES :: nat where "MAX_MANIFEST_BYTES = 2048"

record manifest =
  mf_schema :: nat
  mf_kind :: string
  mf_chain_identifier :: string
  mf_registry :: string
  mf_device_id :: string
  mf_signer :: string
  mf_stream :: string
  mf_first_sequence :: nat
  mf_last_sequence :: nat
  mf_messages :: nat
  mf_lost_before :: nat
  mf_body_sha256 :: string
  mf_created_ms :: nat

definition manifest_fields :: "manifest \<Rightarrow> (string \<times> json) list" where
  "manifest_fields m =
     [(''schema'', jnat (mf_schema m)), (''kind'', JStr (mf_kind m)), (''chain_identifier'', JStr (mf_chain_identifier m)),
      (''registry'', JStr (mf_registry m)), (''device_id'', JStr (mf_device_id m)), (''signer'', JStr (mf_signer m)),
      (''stream'', JStr (mf_stream m)), (''first_sequence'', jnat (mf_first_sequence m)), (''last_sequence'', jnat (mf_last_sequence m)),
      (''messages'', jnat (mf_messages m)), (''lost_before'', jnat (mf_lost_before m)), (''body_sha256'', JStr (mf_body_sha256 m)),
      (''created_ms'', jnat (mf_created_ms m))]"

definition manifest_of_fields :: "(string \<times> json) list \<Rightarrow> manifest option" where
  "manifest_of_fields fs =
     (if fields_exactly [''schema'', ''kind'', ''chain_identifier'', ''registry'', ''device_id'', ''signer'', ''stream'', ''first_sequence'',
          ''last_sequence'', ''messages'', ''lost_before'', ''body_sha256'', ''created_ms''] fs
      then do {
        schema \<leftarrow> uint_field u32_max ''schema'' fs;
        kind \<leftarrow> string_field ''kind'' fs;
        chain \<leftarrow> string_field ''chain_identifier'' fs;
        registry \<leftarrow> string_field ''registry'' fs;
        device \<leftarrow> string_field ''device_id'' fs;
        signer \<leftarrow> string_field ''signer'' fs;
        stream \<leftarrow> string_field ''stream'' fs;
        first \<leftarrow> uint_field u64_max ''first_sequence'' fs;
        final \<leftarrow> uint_field u64_max ''last_sequence'' fs;
        messages \<leftarrow> uint_field u64_max ''messages'' fs;
        lost \<leftarrow> uint_field u64_max ''lost_before'' fs;
        body \<leftarrow> string_field ''body_sha256'' fs;
        created \<leftarrow> uint_field u64_max ''created_ms'' fs;
        Some \<lparr>mf_schema = schema, mf_kind = kind, mf_chain_identifier = chain, mf_registry = registry, mf_device_id = device,
          mf_signer = signer, mf_stream = stream, mf_first_sequence = first, mf_last_sequence = final, mf_messages = messages,
          mf_lost_before = lost, mf_body_sha256 = body, mf_created_ms = created\<rparr>
      } else None)"

datatype manifest_error =
    ManifestTooLarge | NotAManifest | NotCanonical | Unsupported | OtherChain | OtherRegistry | OtherSigner | Malformed

definition check_manifest :: "serde \<Rightarrow> string \<Rightarrow> string \<Rightarrow> string \<Rightarrow> string \<Rightarrow> (manifest_error, unit) result" where
  "check_manifest sd message chain registry signer =
     (if MAX_MANIFEST_BYTES < length message then Inl ManifestTooLarge
      else case Option.bind (struct_from_slice sd message) manifest_of_fields of None \<Rightarrow> Inl NotAManifest
      | Some m \<Rightarrow>
        ensure (struct_to_vec sd (manifest_fields m) = message) NotCanonical
       (ensure (mf_schema m = MANIFEST_SCHEMA \<and> mf_kind m = EXPORT_KIND) Unsupported
       (ensure (mf_chain_identifier m = chain) OtherChain
       (ensure (same_address (mf_registry m) registry) OtherRegistry
       (ensure (same_address (mf_signer m) signer) OtherSigner
       (ensure (valid_stream_name (mf_stream m) \<and> mf_first_sequence m \<le> mf_last_sequence m \<and> 1 \<le> mf_messages m
           \<and> mf_messages m \<le> (mf_last_sequence m - mf_first_sequence m + 1) mod 2 ^ 64 \<and> sha256_text (mf_body_sha256 m)) Malformed
         (Inr ())))))))"

section \<open>Shadow synchronization manifests\<close>

definition SYNC_SCHEMA :: nat where "SYNC_SCHEMA = 1"
definition SYNC_KIND :: string where "SYNC_KIND = ''shadow-sync''"

record sync_manifest =
  sn_schema :: nat
  sn_kind :: string
  sn_chain_identifier :: string
  sn_registry :: string
  sn_device_id :: string
  sn_signer :: string
  sn_shadow :: string
  sn_op :: string
  sn_body_sha256 :: string
  sn_created_ms :: nat

definition sync_manifest_fields :: "sync_manifest \<Rightarrow> (string \<times> json) list" where
  "sync_manifest_fields m =
     [(''schema'', jnat (sn_schema m)), (''kind'', JStr (sn_kind m)), (''chain_identifier'', JStr (sn_chain_identifier m)),
      (''registry'', JStr (sn_registry m)), (''device_id'', JStr (sn_device_id m)), (''signer'', JStr (sn_signer m)),
      (''shadow'', JStr (sn_shadow m)), (''op'', JStr (sn_op m)), (''body_sha256'', JStr (sn_body_sha256 m)),
      (''created_ms'', jnat (sn_created_ms m))]"

definition sync_manifest_of_fields :: "(string \<times> json) list \<Rightarrow> sync_manifest option" where
  "sync_manifest_of_fields fs =
     (if fields_exactly [''schema'', ''kind'', ''chain_identifier'', ''registry'', ''device_id'', ''signer'', ''shadow'', ''op'',
          ''body_sha256'', ''created_ms''] fs
      then do {
        schema \<leftarrow> uint_field u32_max ''schema'' fs;
        kind \<leftarrow> string_field ''kind'' fs;
        chain \<leftarrow> string_field ''chain_identifier'' fs;
        registry \<leftarrow> string_field ''registry'' fs;
        device \<leftarrow> string_field ''device_id'' fs;
        signer \<leftarrow> string_field ''signer'' fs;
        shadow \<leftarrow> string_field ''shadow'' fs;
        op \<leftarrow> string_field ''op'' fs;
        body \<leftarrow> string_field ''body_sha256'' fs;
        created \<leftarrow> uint_field u64_max ''created_ms'' fs;
        Some \<lparr>sn_schema = schema, sn_kind = kind, sn_chain_identifier = chain, sn_registry = registry, sn_device_id = device,
          sn_signer = signer, sn_shadow = shadow, sn_op = op, sn_body_sha256 = body, sn_created_ms = created\<rparr>
      } else None)"

definition check_sync_manifest :: "serde \<Rightarrow> string \<Rightarrow> string \<Rightarrow> string \<Rightarrow> string \<Rightarrow> (manifest_error, unit) result" where
  "check_sync_manifest sd message chain registry signer =
     (if MAX_MANIFEST_BYTES < length message then Inl ManifestTooLarge
      else case Option.bind (struct_from_slice sd message) sync_manifest_of_fields of None \<Rightarrow> Inl NotAManifest
      | Some m \<Rightarrow>
        ensure (struct_to_vec sd (sync_manifest_fields m) = message) NotCanonical
       (ensure (sn_schema m = SYNC_SCHEMA \<and> sn_kind m = SYNC_KIND) Unsupported
       (ensure (sn_chain_identifier m = chain) OtherChain
       (ensure (same_address (sn_registry m) registry) OtherRegistry
       (ensure (same_address (sn_signer m) signer) OtherSigner
       (ensure (shadow_valid_name (sn_shadow m) \<and> sn_op m \<in> {''get'', ''put''} \<and> sha256_text (sn_body_sha256 m)) Malformed
         (Inr ())))))))"

section \<open>Client device CA bindings\<close>

definition CA_BINDING_KIND :: string where "CA_BINDING_KIND = ''client-device-ca''"
definition MAX_CA_BINDING_BYTES :: nat where "MAX_CA_BINDING_BYTES = 1024"

record ca_binding =
  ca_schema :: nat
  ca_kind :: string
  ca_chain_identifier :: string
  ca_registry :: string
  ca_device_id :: string
  ca_signer :: string
  ca_sha256 :: string
  ca_created_ms :: nat

definition ca_binding_fields :: "ca_binding \<Rightarrow> (string \<times> json) list" where
  "ca_binding_fields m =
     [(''schema'', jnat (ca_schema m)), (''kind'', JStr (ca_kind m)), (''chain_identifier'', JStr (ca_chain_identifier m)),
      (''registry'', JStr (ca_registry m)), (''device_id'', JStr (ca_device_id m)), (''signer'', JStr (ca_signer m)),
      (''ca_sha256'', JStr (ca_sha256 m)), (''created_ms'', jnat (ca_created_ms m))]"

definition ca_binding_of_fields :: "(string \<times> json) list \<Rightarrow> ca_binding option" where
  "ca_binding_of_fields fs =
     (if fields_exactly [''schema'', ''kind'', ''chain_identifier'', ''registry'', ''device_id'', ''signer'', ''ca_sha256'', ''created_ms''] fs
      then do {
        schema \<leftarrow> uint_field u32_max ''schema'' fs;
        kind \<leftarrow> string_field ''kind'' fs;
        chain \<leftarrow> string_field ''chain_identifier'' fs;
        registry \<leftarrow> string_field ''registry'' fs;
        device \<leftarrow> string_field ''device_id'' fs;
        signer \<leftarrow> string_field ''signer'' fs;
        digest \<leftarrow> string_field ''ca_sha256'' fs;
        created \<leftarrow> uint_field u64_max ''created_ms'' fs;
        Some \<lparr>ca_schema = schema, ca_kind = kind, ca_chain_identifier = chain, ca_registry = registry, ca_device_id = device,
          ca_signer = signer, ca_sha256 = digest, ca_created_ms = created\<rparr>
      } else None)"

definition check_ca_binding :: "serde \<Rightarrow> string \<Rightarrow> string \<Rightarrow> string \<Rightarrow> string \<Rightarrow> (manifest_error, unit) result" where
  "check_ca_binding sd message chain registry signer =
     (if MAX_CA_BINDING_BYTES < length message then Inl ManifestTooLarge
      else case Option.bind (struct_from_slice sd message) ca_binding_of_fields of None \<Rightarrow> Inl NotAManifest
      | Some m \<Rightarrow>
        ensure (struct_to_vec sd (ca_binding_fields m) = message) NotCanonical
       (ensure (ca_schema m = 1 \<and> ca_kind m = CA_BINDING_KIND) Unsupported
       (ensure (ca_chain_identifier m = chain) OtherChain
       (ensure (same_address (ca_registry m) registry) OtherRegistry
       (ensure (same_address (ca_signer m) signer) OtherSigner
       (ensure (same_address (ca_device_id m) (ca_device_id m) \<and> length (ca_sha256 m) = 64
           \<and> list_all (\<lambda>c. c \<in> set ''0123456789abcdef'') (ca_sha256 m)) Malformed
         (Inr ())))))))"

end
