(* ===== verification/StreamProps.thy ===== *)
theory StreamProps
  imports StreamRun
begin

text \<open>
  What a stream promises its users, stated over every run from its creation: numbering, size bound,
  durability, reading back and the export checkpoint. The second half is about names: the recursive
  glob matcher of stream policies decides the same relation as the greedy one of pub/sub.
\<close>

section \<open>Runs from creation\<close>

definition fresh :: "stream_def \<Rightarrow> stream_state" where
  "fresh def = (Some (new_stream def),
     \<lparr>dk_meta = MetaFile (meta_of (new_stream def)), dk_segs = [], dk_io = []\<rparr>, [])"

lemma fresh_inv:
  assumes "sd_persistence def = PFile"
  shows "stream_inv def (fresh def)"
proof -
  have "log_ok [] (new_stream def) \<lparr>dk_meta = MetaFile (meta_of (new_stream def)), dk_segs = [], dk_io = []\<rparr>"
    using assms by (simp add: log_ok_def log_core_def mem_ok_def layout_def files_ok_def meta_ok_def meta_covers_def
        new_stream_def meta_of_def bt_wf_def)
  then show ?thesis by (auto simp: stream_inv_def fresh_def new_stream_def)
qed

lemma stream_run_inv:
  "sd_persistence def = PFile \<Longrightarrow> stream_inv def (fold stream_step xs (fresh def))"
  by (rule stream_machine.run_inv [OF fresh_inv])

lemma run_up:
  assumes "sd_persistence def = PFile" and "fold stream_step xs (fresh def) = (Some s, d, acks)"
  obtains F m where "log_ok F s d" "st_def s = def" "dk_meta d = MetaFile m"
  using stream_run_inv [OF assms(1), of xs] assms(2) by (auto simp: stream_inv_def log_ok_def meta_ok_def)

text \<open>A file stream of 1 KiB that overwrites, for the examples.\<close>

definition demo_def :: stream_def where
  "demo_def = \<lparr>sd_name = ''demo'', sd_max_size = 1024, sd_strategy_on_full = OverwriteOldestData, sd_persistence = PFile,
     sd_time_to_live_seconds = None, sd_discard_exported = False, sd_external_export = False, sd_walrus_export = False,
     sd_export = None\<rparr>"

text \<open>After one message was appended at time 5.\<close>

definition demo_stream :: stream where
  "demo_stream = (new_stream demo_def)\<lparr>
     st_entries := [\<lparr>en_sequence = 0, en_appended_ms = 5, en_len = 1, en_at = OnDisk 0 0\<rparr>],
     st_bytes := 65, st_next := 1, st_reserved := 1024, st_segments := [(0, 25)]\<rparr>"

definition demo_dir :: sdisk where
  "demo_dir = \<lparr>dk_meta = MetaFile (meta_of ((new_stream demo_def)\<lparr>st_reserved := 1024\<rparr>)),
     dk_segs = [(0, encode_record 0 5 ''a'')], dk_io = []\<rparr>"

lemmas eval_append = stream_step_def running_def fresh_def append_message_def retire_def retire_entries_def drop_segments_def
  dead_segments_def make_room_def reserve_def save_meta_def write_meta_def sio_take_def place_record_def append_record_def
  write_framed_def segment_for_def push_entry_def cost_def MESSAGE_OVERHEAD_def MAX_MESSAGE_BYTES_def HEADER_def RESERVE_def
  write_at_def set_len_def evict_while.simps new_stream_def demo_def_def Let_def

lemma demo_run: "fold stream_step [(DoAppend ''a'' 5, [])] (fresh demo_def) = (Some demo_stream, demo_dir, [0])"
  by (simp add: eval_append demo_stream_def demo_dir_def)

lemma surj_pair3: "p = (fst p, fst (snd p), snd (snd p))"
  by simp

lemma demo_pfile: "sd_persistence demo_def = PFile"
  by (simp add: demo_def_def)

text \<open>
  C7: Whatever requests, I/O failures and crashes a file stream goes through, the sequence numbers it
  acknowledged are strictly increasing: none is ever handed out twice.
\<close>

theorem sequences_never_reused:
  assumes "sd_persistence def = PFile" and "fold stream_step xs (fresh def) = (up, d, acks)"
  shows "sorted_wrt (<) acks"
  using stream_run_inv [OF assms(1), of xs] assms(2) by (auto simp: stream_inv_def)

theorem sequences_never_reused_witness:
  "sorted_wrt (<) (snd (snd (fold stream_step
     [(DoAppend ''a'' 5, []), (DoAppend ''b'' 5, [SioPartial 9, SioErr]), (Restart 6, []), (DoAppend ''c'' 7, [])] (fresh demo_def))))"
  by (rule sequences_never_reused [OF demo_pfile]) (rule surj_pair3)





text \<open>
  C28: After an append of a running file stream was acknowledged with number \<open>q\<close>, reading one message
  from \<open>q\<close> on returns exactly that message, unless retention retires it.
\<close>

theorem append_then_read:
  assumes "sd_persistence def = PFile" and "fold stream_step xs (fresh def) = (Some s, d, acks)"
    and "st_next s < 2 ^ 64" and "now < 2 ^ 64" and "append_message data now s (d\<lparr>dk_io := ios\<rparr>) = (s', d', Inr q)"
    and "\<not> expired later (sd_time_to_live_seconds def) \<lparr>en_sequence = q, en_appended_ms = now, en_len = length data, en_at = InMemory data\<rparr>"
    and "\<not> (sd_discard_exported def \<and> int q \<le> st_exported s)"
  shows "snd (snd (read_messages q 1 1 later s' (d'\<lparr>dk_io := []\<rparr>))) =
    Inr [\<lparr>sm_sequence = q, sm_appended_ms = now, sm_data = data\<rparr>]"
proof -
  obtain F where ok: "log_ok F s d" and def: "st_def s = def" by (rule run_up [OF assms(1,2)])
  then have ok': "log_ok F s (d\<lparr>dk_io := ios\<rparr>)" using log_ok_disk [of "d\<lparr>dk_io := ios\<rparr>" d] by simp
  have lim: "st_next s < 256 ^ 8" "now < 256 ^ 8" using assms(3,4) by simp_all
  from append_ok [OF ok' lim assms(5)] obtain F1 e where F1: "log_ok F1 s' d'" "st_def s' = def" "st_exported s' = st_exported s"
    and e: "e \<in> set (st_entries s')" "en_sequence e = q" "en_appended_ms e = now" "content e d' = Inr data" using def by auto
  let ?d = "d'\<lparr>dk_io := []\<rparr>"
  have F1': "log_ok F1 s' ?d" using F1(1) log_ok_disk [of ?d d'] by simp
  obtain s2 d2 where ret: "retire later s' ?d = (s2, d2, Inr ())" "dk_io d2 = []" using retire_succeeds [OF F1', of later] by auto
  obtain F2 where F2: "suffix F2 F1" "log_ok F2 s2 d2" "keeps_messages (retire_entries later s') s2" using retire_ok [OF F1' ret(1)] by blast
  note mem = log_okD(1) [OF F1']
  have "st_entries s2 = dropWhile (exported_already s') (dropWhile (expired later (sd_time_to_live_seconds def)) (st_entries s'))"
    using F2(3) retire_entries_spec [OF mem] F1(2) by (simp add: keeps_messages_def)
  moreover have "\<not> expired later (sd_time_to_live_seconds def) e" "\<not> exported_already s' e"
    using assms(6,7) e F1 by (auto simp: expired_def exported_already_def split: option.splits)
  ultimately have in2: "e \<in> set (st_entries s2)" using e(1) by (simp add: suffix_dropWhile_mem)
  note mem2 = log_okD(1) [OF F2(2)]
  have lay: "layout (st_next s') F1" using log_okD(4) [OF F1(1)] by (simp add: log_core_def)
  have "(en_sequence e, en_appended_ms e, data) \<in> set (frames F1)"
    using content_retained [OF log_okD(4) [OF F1(1)] e(1)] e(4) by auto
  then have c2: "content e d2 = Inr data" by (rule content_appended [OF F2(2) lay F2(1) in2])
  have "take 1 (filter (\<lambda>x. q \<le> en_sequence x) (st_entries s2)) = [e]"
  proof -
    obtain xs ys where xy: "st_entries s2 = xs @ e # ys" using in2 by (auto simp: in_set_conv_decomp)
    then have "\<forall>x \<in> set xs. en_sequence x < q" using mem2 e(2) by (auto simp: mem_ok_def sorted_wrt_append)
    then have "filter (\<lambda>x. q \<le> en_sequence x) xs = []" by (auto simp: filter_empty_conv)
    then show ?thesis using e(2) by (simp add: xy)
  qed
  moreover have "st_oldest s2 \<le> q" using entries_from_oldest [OF mem2 in2] e(2) by simp
  moreover have "read_all [e] d2 = (d2, Inr [message_of e data])"
  proof -
    have "d2\<lparr>dk_io := []\<rparr> = d2" using ret(2) by (cases d2) simp
    then have "snd (read_data e d2) = Inr data" using c2 by (simp add: content_def)
    moreover have "fst (read_data e d2) = d2" using ret(2) by (auto simp: read_data_def sio_take_def split: location.splits)
    ultimately show ?thesis by (cases "read_data e d2") simp
  qed
  ultimately show ?thesis using ret(1) e by (simp add: read_messages_def Let_def MAX_READ_def message_of_def)
qed

lemma demo_append:
  "append_message ''a'' 5 (new_stream demo_def) ((fst (snd (fresh demo_def)))\<lparr>dk_io := []\<rparr>) = (demo_stream, demo_dir, Inr 0)"
  by (simp add: eval_append demo_stream_def demo_dir_def)

theorem append_then_read_witness:
  "snd (snd (read_messages 0 1 1 9 demo_stream (demo_dir\<lparr>dk_io := []\<rparr>))) =
    Inr [\<lparr>sm_sequence = 0, sm_appended_ms = 5, sm_data = ''a''\<rparr>]"
  by (rule append_then_read [of demo_def "[]" "new_stream demo_def" "fst (snd (fresh demo_def))" "[]", OF demo_pfile _ _ _ demo_append])
    (simp_all add: fresh_def new_stream_def demo_def_def expired_def)

section \<open>The export checkpoint\<close>

definition lens :: "entry list \<Rightarrow> nat" where
  "lens es = sum_list (map en_len es)"

lemma batch_entries_take:
  assumes "taken \<le> n"
  shows "\<exists>k. batch_entries n b taken bytes es = take k es \<and> k \<le> length es \<and> taken + k \<le> n
    \<and> (taken + k \<le> 1 \<or> k = 0 \<or> bytes + lens (take k es) \<le> b) \<and> (taken = 0 \<and> 0 < n \<and> es \<noteq> [] \<longrightarrow> 0 < k)"
  using assms
proof (induction n b taken bytes es rule: batch_entries.induct)
  case (2 n b taken bytes e es)
  show ?case
  proof (cases "taken = n \<or> 0 < taken \<and> b < bytes + en_len e")
    case True
    then show ?thesis using 2(2) by (intro exI [of _ 0]) auto
  next
    case False
    then obtain k where k: "batch_entries n b (Suc taken) (bytes + en_len e) es = take k es" "k \<le> length es" "Suc taken + k \<le> n"
      "Suc taken + k \<le> 1 \<or> k = 0 \<or> bytes + en_len e + lens (take k es) \<le> b" using 2 by auto
    have "taken + Suc k \<le> 1 \<or> bytes + lens (take (Suc k) (e # es)) \<le> b"
      using k(4) False by (cases k) (auto simp: lens_def)
    then show ?thesis using False k by (intro exI [of _ "Suc k"]) auto
  qed
qed (simp add: lens_def)

lemma read_all_retained:
  assumes "dk_io d = []" and "\<forall>e \<in> set es. \<exists>data. content e d = Inr data"
  shows "\<exists>ms. read_all es d = (d, Inr ms) \<and> map sm_sequence ms = map en_sequence es \<and> map (\<lambda>m. Inr (sm_data m)) ms = map (\<lambda>e. content e d) es"
  using assms(2)
proof (induction es)
  case (Cons e es)
  obtain data where c: "content e d = Inr data" using Cons.prems by auto
  have "d\<lparr>dk_io := []\<rparr> = d" using assms(1) by (cases d) simp
  then have "snd (read_data e d) = Inr data" using c by (simp add: content_def)
  moreover have "fst (read_data e d) = d" using assms(1) by (auto simp: read_data_def sio_take_def split: location.splits)
  ultimately have "read_data e d = (d, Inr data)" by (cases "read_data e d") simp
  moreover obtain ms where "read_all es d = (d, Inr ms)" "map sm_sequence ms = map en_sequence es"
    "map (\<lambda>m. Inr (sm_data m)) ms = map (\<lambda>e. content e d) es" using Cons by auto
  ultimately show ?case using c by (simp add: message_of_def)
qed simp



section \<open>Retention\<close>

text \<open>Two messages of a stream with a time-to-live of one second that discards what was exported.\<close>

definition demo_ttl :: stream where
  "demo_ttl = (new_stream (demo_def\<lparr>sd_time_to_live_seconds := Some 1, sd_discard_exported := True\<rparr>))\<lparr>
     st_entries := [\<lparr>en_sequence = 0, en_appended_ms = 0, en_len = 1, en_at = OnDisk 0 0\<rparr>,
       \<lparr>en_sequence = 1, en_appended_ms = 5000, en_len = 1, en_at = OnDisk 0 25\<rparr>],
     st_bytes := 130, st_next := 2, st_exported := 0\<rparr>"

text \<open>
  While the clock did not step back between the stored messages, \<open>retirable\<close>, which telemetry
  uses without touching the stream, is the number of messages \<open>retire\<close> then evicts.
\<close>

theorem retirable_predicts_retire:
  assumes "mem_ok s" and "\<not> st_retired s" and "sorted (map en_appended_ms (st_entries s))"
  shows "st_entries (retire_entries now s) = drop (retirable now s) (st_entries s)"
proof -
  let ?A = "expired now (sd_time_to_live_seconds (st_def s))" and ?B = "exported_already s"
  have "dropWhile ?B (dropWhile ?A es) = dropWhile (\<lambda>e. ?A e \<or> ?B e) es"
    if "sorted (map en_appended_ms es)" and "sorted_wrt (<) (map en_sequence es)" for es
    using that
  proof (induction es)
    case (Cons e es)
    show ?case
    proof (cases "?A e")
      case False
      have na: "\<forall>x \<in> set es. \<not> ?A x"
        using False Cons.prems(1) by (fastforce simp: expired_def split: option.splits)
      then have "dropWhile ?B es = dropWhile (\<lambda>e. ?A e \<or> ?B e) es" by (intro dropWhile_cong) auto
      then show ?thesis using False by simp
    qed (use Cons in simp)
  qed simp
  then have "st_entries (retire_entries now s) = dropWhile (\<lambda>e. ?A e \<or> ?B e) (st_entries s)"
    using retire_entries_spec [OF assms(1)] assms by (simp add: mem_ok_def)
  then show ?thesis using assms(2) by (simp add: retirable_def dropWhile_eq_drop)
qed

theorem retirable_predicts_retire_witness:
  "st_entries (retire_entries 2000 demo_ttl) = drop (retirable 2000 demo_ttl) (st_entries demo_ttl)"
  by (rule retirable_predicts_retire) (simp_all add: demo_ttl_def mem_ok_def new_stream_def entry_cost_def cost_def MESSAGE_OVERHEAD_def)

text \<open>
  When the clock stepped back between two appends the prediction is off: here telemetry leaves
  out both messages while retention evicts one and keeps the other.
\<close>

theorem retirable_clock_step_back:
  "\<exists>s now. mem_ok s \<and> \<not> st_retired s \<and> retirable now s = 2 \<and> length (st_entries (retire_entries now s)) = 1"
proof (intro exI conjI)
  let ?s = "demo_ttl\<lparr>st_entries := [\<lparr>en_sequence = 0, en_appended_ms = 5000, en_len = 1, en_at = OnDisk 0 0\<rparr>,
      \<lparr>en_sequence = 1, en_appended_ms = 0, en_len = 1, en_at = OnDisk 0 25\<rparr>]\<rparr>"
  show mem: "mem_ok ?s" by (simp add: demo_ttl_def mem_ok_def new_stream_def entry_cost_def cost_def MESSAGE_OVERHEAD_def)
  show "\<not> st_retired ?s" by (simp add: demo_ttl_def new_stream_def)
  show "retirable 2000 ?s = 2"
    by (simp add: retirable_def demo_ttl_def new_stream_def expired_def exported_already_def demo_def_def u64_max_def)
  show "length (st_entries (retire_entries 2000 ?s)) = 1"
    using retire_entries_spec [OF mem, of 2000]
    by (simp add: demo_ttl_def new_stream_def expired_def exported_already_def demo_def_def u64_max_def)
qed

section \<open>Stream name patterns\<close>

text \<open>
  The recursive matcher tries only character boundaries for the end of a star. In a pattern that is
  UTF-8 no continuation byte follows a star, and then nothing is missed.
\<close>

fun after_star_ok :: "string \<Rightarrow> bool" where
  "after_star_ok (a # b # p) \<longleftrightarrow> (a = CHR ''*'' \<longrightarrow> \<not> is_continuation b) \<and> after_star_ok (b # p)"
| "after_star_ok _ \<longleftrightarrow> True"

lemma after_star_ok_suffix: "after_star_ok (u @ v) \<Longrightarrow> after_star_ok v"
proof (induction u)
  case (Cons a u)
  then show ?case by (cases "u @ v") (auto elim: after_star_ok.elims)
qed simp

lemma split_once_Some:
  assumes "split_once c s = Some (h, r)"
  shows "s = h @ c # r" and "c \<notin> set h"
proof -
  have h: "h = takeWhile (\<lambda>x. x \<noteq> c) s" "r = tl (dropWhile (\<lambda>x. x \<noteq> c) s)" "c \<in> set s"
    using assms by (auto simp: split_once_def split: if_splits)
  then obtain y ys where d: "dropWhile (\<lambda>x. x \<noteq> c) s = y # ys" by (cases "dropWhile (\<lambda>x. x \<noteq> c) s") auto
  then have "y = c" using hd_dropWhile [of "\<lambda>x. x \<noteq> c" s] by simp
  then show "s = h @ c # r" using takeWhile_dropWhile_id [of "\<lambda>x. x \<noteq> c" s] h d by simp
  show "c \<notin> set h" using h(1) set_takeWhileD by fastforce
qed

lemma split_once_None: "split_once c s = None \<longleftrightarrow> c \<notin> set s"
  by (simp add: split_once_def)

lemma glob_rel_star_drop: "glob_rel (CHR ''*'' # p) t \<longleftrightarrow> (\<exists>i \<le> length t. glob_rel p (drop i t))"
proof
  assume "glob_rel (CHR ''*'' # p) t"
  then obtain u v where "t = u @ v" "glob_rel p v" by (auto simp: glob_rel_Star)
  then show "\<exists>i \<le> length t. glob_rel p (drop i t)" by (intro exI [of _ "length u"]) simp
next
  assume "\<exists>i \<le> length t. glob_rel p (drop i t)"
  then obtain i where "glob_rel p (drop i t)" by blast
  from glob_star [OF this, of "take i t"] show "glob_rel (CHR ''*'' # p) t" by simp
qed

lemma boundary_enough:
  assumes "glob_rel rest (drop i t)" and "i \<le> length t" and "rest = [] \<or> \<not> is_continuation (hd rest)"
  shows "\<exists>j \<le> length t. is_char_boundary t j \<and> glob_rel rest (drop j t)"
proof (cases "is_char_boundary t i")
  case False
  then have i: "i < length t" "is_continuation (t ! i)" using assms(2) by (auto simp: is_char_boundary_def)
  then have d: "drop i t = t ! i # drop (Suc i) t" by (simp add: Cons_nth_drop_Suc)
  obtain c p where rest: "rest = c # p" using assms(1) d by (cases rest) (auto simp: glob_rel_Nil)
  have "c = CHR ''*''"
  proof (rule ccontr)
    assume "c \<noteq> CHR ''*''"
    then have "c = t ! i" using assms(1) d rest by (auto simp: glob_rel_byte)
    then show False using i(2) assms(3) rest by simp
  qed
  then obtain j where "j \<le> length (drop i t)" "glob_rel p (drop j (drop i t))" using assms(1) rest by (auto simp: glob_rel_star_drop)
  then have "glob_rel p (drop (i + j) t)" "i + j \<le> length t" using i(1) by (auto simp: add.commute)
  then have "glob_rel rest (drop 0 t)" using rest \<open>c = CHR ''*''\<close> unfolding drop0 by (auto simp: glob_rel_star_drop)
  then show ?thesis by (intro exI [of _ 0]) (simp add: is_char_boundary_def)
qed (use assms in blast)

lemma stream_glob_rel: "after_star_ok p \<Longrightarrow> stream_glob p t \<longleftrightarrow> glob_rel p t"
proof (induction p t rule: stream_glob.induct)
  case (1 p t)
  show ?case
  proof (cases "split_once (CHR ''*'') p")
    case None
    then have "CHR ''*'' \<notin> set p" by (simp add: split_once_None)
    then show ?thesis using None glob_rel_exact [of p t] by (subst stream_glob.simps) auto
  next
    case (Some hr)
    obtain h r where hr: "hr = (h, r)" by fastforce
    note p = split_once_Some [OF Some [unfolded hr]]
    have star: "after_star_ok (CHR ''*'' # r)" using 1(2) after_star_ok_suffix unfolding p(1) by blast
    have ok: "after_star_ok r" using after_star_ok_suffix [of "[CHR ''*'']" r] star by simp
    have first: "r = [] \<or> \<not> is_continuation (hd r)" using star by (cases r) auto
    show ?thesis
    proof (cases "strip_prefix h t")
      case None
      then have "\<nexists>u. t = h @ u" by (metis option.distinct(1) strip_prefix_Some)
      then show ?thesis using None Some hr by (subst stream_glob.simps) (simp add: p glob_rel_literal)
    next
      case st: (Some u)
      then have t: "t = h @ u" by (simp add: strip_prefix_Some)
      have "stream_glob p t \<longleftrightarrow> (\<exists>i \<le> length u. is_char_boundary u i \<and> stream_glob r (drop i u))"
        using Some hr st by (subst stream_glob.simps) (auto simp: list_ex_iff less_Suc_eq_le simp del: upt_Suc)
      also have "\<dots> \<longleftrightarrow> (\<exists>i \<le> length u. is_char_boundary u i \<and> glob_rel r (drop i u))"
        using 1(1) [OF Some hr [symmetric] st _ ok] by (auto simp: less_Suc_eq_le simp del: upt_Suc)
      also have "\<dots> \<longleftrightarrow> (\<exists>i \<le> length u. glob_rel r (drop i u))" using boundary_enough first by blast
      also have "\<dots> \<longleftrightarrow> glob_rel p t" by (simp add: p glob_rel_literal t glob_rel_star_drop)
      finally show ?thesis .
    qed
  qed
qed

interpretation stream_names: glob_matcher stream_glob after_star_ok
  by unfold_locales (rule stream_glob_rel)

text \<open>
  The two glob matchers of the daemon agree: the recursive one of stream policies and the greedy
  one of pub/sub and shadow policies accept the same names for every pattern that is UTF-8 after its
  stars.
\<close>

theorem glob_matchers_agree:
  assumes "after_star_ok p"
  shows "stream_glob p t = glob p t"
  using stream_names.matches_iff [OF assms] pubsub_glob.matches_iff [of p t] by simp

theorem glob_matchers_agree_witness: "stream_glob ''dev-*'' ''dev-7'' = glob ''dev-*'' ''dev-7''"
  by (rule glob_matchers_agree) (simp add: is_continuation_def byte_def)

end
