(* ===== verification/Exporter.thy ===== *)
theory Exporter
  imports Manifests StreamProps
begin

text \<open>
  The loops that talk to a destination: the HTTP exporter of a stream (\<open>streams.rs\<close>: \<open>build_batch\<close>,
  \<open>Exporter::step\<close>, \<open>Exporter::run\<close>) and the shadow synchronizer (\<open>shadows.rs\<close>: \<open>request\<close>,
  \<open>sync_one\<close>, \<open>run_sync\<close>). The network, the signing key, error texts and the clock are parameters;
  what other threads do to a store while it is unlocked is a function argument.
\<close>

section \<open>Texts\<close>

fun decimal :: "nat \<Rightarrow> string" where
  "decimal n = (if n < 10 then [char_of (48 + n)] else decimal (n div 10) @ [char_of (48 + n mod 10)])"

declare decimal.simps [simp del]

text \<open>\<open>telemetry::bounded\<close>: the loop that looks for a character boundary, from the cut downwards.\<close>

fun boundary_below :: "string \<Rightarrow> nat \<Rightarrow> nat" where
  "boundary_below t i = (if is_char_boundary t i then i else case i of 0 \<Rightarrow> 0 | Suc j \<Rightarrow> boundary_below t j)"

declare boundary_below.simps [simp del]

definition bounded :: "string \<Rightarrow> nat \<Rightarrow> string" where
  "bounded t limit = (if length t \<le> limit then t else take (boundary_below t (limit - 3)) t @ ''...'')"

section \<open>Export batches\<close>

record binding =
  bn_chain_identifier :: string
  bn_registry :: string
  bn_device_id :: string

record signer =
  sg_address :: string
  sg_sign :: "string \<Rightarrow> string option"

record batch =
  ba_idempotency_key :: string
  ba_body :: string
  ba_manifest :: string
  ba_signature :: string
  ba_last_sequence :: nat

datatype export_error =
    EmptyBatch | ExportManifestTooLarge | SigningFailed | NoToken string | Transport string | Answered nat | InStore stream_error

definition message_fields :: "stream_env \<Rightarrow> smessage \<Rightarrow> json" where
  "message_fields env m = jobj [(''sequence'', jnat (sm_sequence m)), (''appended_ms'', jnat (sm_appended_ms m)),
     (''data'', JStr (base64_encode env (sm_data m)))]"

definition export_body :: "stream_env \<Rightarrow> string \<Rightarrow> string \<Rightarrow> nat \<Rightarrow> smessage list \<Rightarrow> string" where
  "export_body env device stream lost messages =
     json_to_vec env (jobj [(''schema'', jnat MANIFEST_SCHEMA), (''device_id'', JStr device), (''stream'', JStr stream),
       (''lost_before'', jnat lost), (''messages'', JArr (map (message_fields env) messages))])"

definition export_manifest :: "stream_env \<Rightarrow> binding \<Rightarrow> signer \<Rightarrow> string \<Rightarrow> nat \<Rightarrow> smessage list \<Rightarrow> nat \<Rightarrow> manifest" where
  "export_manifest env bn sg stream lost messages now =
     \<lparr>mf_schema = MANIFEST_SCHEMA, mf_kind = EXPORT_KIND, mf_chain_identifier = bn_chain_identifier bn,
      mf_registry = bn_registry bn, mf_device_id = bn_device_id bn, mf_signer = sg_address sg, mf_stream = stream,
      mf_first_sequence = sm_sequence (hd messages), mf_last_sequence = sm_sequence (last messages),
      mf_messages = length messages, mf_lost_before = lost,
      mf_body_sha256 = hex_encode (sha256 env (export_body env (bn_device_id bn) stream lost messages)), mf_created_ms = now\<rparr>"

definition idempotency_key :: "string \<Rightarrow> string \<Rightarrow> nat \<Rightarrow> nat \<Rightarrow> string" where
  "idempotency_key device stream first final = device @ '':'' @ hex_encode stream @ '':'' @ decimal first @ ''-'' @ decimal final"

definition build_export :: "stream_env \<Rightarrow> serde \<Rightarrow> binding \<Rightarrow> signer \<Rightarrow> string \<Rightarrow> nat \<Rightarrow> smessage list \<Rightarrow> nat \<Rightarrow>
  (export_error, batch) result" where
  "build_export env sd bn sg stream lost messages now =
     (if messages = [] then Inl EmptyBatch
      else let manifest = struct_to_vec sd (manifest_fields (export_manifest env bn sg stream lost messages now));
               first = sm_sequence (hd messages); final = sm_sequence (last messages) in
        if MAX_MANIFEST_BYTES < length manifest then Inl ExportManifestTooLarge
        else case sg_sign sg manifest of None \<Rightarrow> Inl SigningFailed
        | Some signature \<Rightarrow> Inr \<lparr>ba_idempotency_key = idempotency_key (bn_device_id bn) stream first final,
            ba_body = export_body env (bn_device_id bn) stream lost messages, ba_manifest = manifest,
            ba_signature = signature, ba_last_sequence = final\<rparr>)"

section \<open>Delivery\<close>

record http_request =
  rq_url :: string
  rq_headers :: "(string \<times> string) list"
  rq_bearer :: "string option"
  rq_body :: string

record network =
  read_to_string :: "string \<Rightarrow> (string, string) result"
  trim :: "string \<Rightarrow> string"
  transmit :: "http_request \<Rightarrow> (string, nat) result"

definition bearer_token :: "network \<Rightarrow> string option \<Rightarrow> (export_error, string option) result" where
  "bearer_token net path = (case path of None \<Rightarrow> Inr None
     | Some p \<Rightarrow> (case read_to_string net p of Inl e \<Rightarrow> Inl (NoToken e) | Inr t \<Rightarrow> Inr (Some (trim net t))))"

definition export_request :: "stream_env \<Rightarrow> export_config \<Rightarrow> string option \<Rightarrow> batch \<Rightarrow> http_request" where
  "export_request env cfg token b =
     \<lparr>rq_url = ex_url cfg,
      rq_headers = [(''content-type'', ''application/json''), (''idempotency-key'', ba_idempotency_key b),
        (''x-suifleet-manifest'', base64_encode env (ba_manifest b)), (''x-suifleet-signature'', base64_encode env (ba_signature b))],
      rq_bearer = token, rq_body = ba_body b\<rparr>"

definition send_batch :: "stream_env \<Rightarrow> network \<Rightarrow> export_config \<Rightarrow> batch \<Rightarrow> (export_error, unit) result" where
  "send_batch env net cfg b =
     res_bind (bearer_token net (ex_bearer_token_file cfg)) (\<lambda>token.
       case transmit net (export_request env cfg token b) of
         Inl e \<Rightarrow> Inl (Transport e)
       | Inr status \<Rightarrow> ensure (200 \<le> status \<and> status < 300) (Answered status) (Inr ()))"

record exporter =
  xp_stream :: string
  xp_config :: export_config
  xp_binding :: binding
  xp_signer :: signer

definition exporter_step :: "stream_env \<Rightarrow> serde \<Rightarrow> network \<Rightarrow> exporter \<Rightarrow> nat \<Rightarrow> (store \<times> sroot \<Rightarrow> store \<times> sroot) \<Rightarrow> nat \<Rightarrow>
  store \<Rightarrow> sroot \<Rightarrow> store \<times> sroot \<times> (export_error, bool) result" where
  "exporter_step env sd net x now meanwhile later st fs =
     (let cfg = xp_config x in
      case store_export_batch env (xp_stream x) (ex_batch_max_messages cfg) (ex_batch_max_bytes cfg) now st fs of (st, fs, r) \<Rightarrow>
        (case r of
           Inl e \<Rightarrow> (st, fs, Inl (InStore e))
         | Inr None \<Rightarrow> (st, fs, Inr False)
         | Inr (Some (lost, messages)) \<Rightarrow>
           (case build_export env sd (xp_binding x) (xp_signer x) (xp_stream x) lost messages now of
              Inl e \<Rightarrow> (st, fs, Inl e)
            | Inr b \<Rightarrow>
              (case send_batch env net cfg b of
                 Inl e \<Rightarrow> (st, fs, Inl e)
               | Inr _ \<Rightarrow>
                 (case meanwhile (st, fs) of (st, fs) \<Rightarrow>
                    (case store_export_ack env (xp_stream x) (ba_last_sequence b) later st fs of (st, fs, r) \<Rightarrow>
                       (st, fs, case r of Inl e \<Rightarrow> Inl (InStore e) | Inr _ \<Rightarrow> Inr True)))))))"

section \<open>The export loop\<close>

record export_loop =
  lo_backoff :: nat
  lo_batches :: nat
  lo_failures :: nat
  lo_consecutive :: nat
  lo_last_success_ms :: "nat option"

definition export_loop_start :: export_loop where
  "export_loop_start = \<lparr>lo_backoff = 1, lo_batches = 0, lo_failures = 0, lo_consecutive = 0, lo_last_success_ms = None\<rparr>"

text \<open>One turn after \<open>step\<close> returned: the counters and how long to sleep.\<close>

definition export_turn :: "export_config \<Rightarrow> (export_error, bool) result \<Rightarrow> nat \<Rightarrow> export_loop \<Rightarrow> export_loop \<times> nat" where
  "export_turn cfg r now lo =
     (let lo = (case r of Inr _ \<Rightarrow> lo\<lparr>lo_consecutive := 0, lo_last_success_ms := Some now\<rparr> | Inl _ \<Rightarrow> lo) in
      case r of
        Inr True \<Rightarrow> (lo\<lparr>lo_batches := lo_batches lo + 1, lo_backoff := 1\<rparr>, 0)
      | Inr False \<Rightarrow> (lo, ex_batch_interval_seconds cfg)
      | Inl _ \<Rightarrow> (lo\<lparr>lo_failures := lo_failures lo + 1, lo_consecutive := lo_consecutive lo + 1,
                    lo_backoff := min (lo_backoff lo * 2) (ex_max_backoff_seconds cfg)\<rparr>, lo_backoff lo))"

definition export_loop_status :: "(export_error \<Rightarrow> string) \<Rightarrow> (export_error, bool) result \<Rightarrow> nat \<Rightarrow> export_loop \<Rightarrow> json" where
  "export_loop_status texts r now lo =
     jobj [(''batches'', jnat (lo_batches lo)), (''failures'', jnat (lo_failures lo)), (''consecutive_failures'', jnat (lo_consecutive lo)),
       (''last_success_ms'', opt_json (map_option jnat (lo_last_success_ms lo))),
       (''last_error'', case r of Inl e \<Rightarrow> JStr (bounded (texts e) 300) | Inr _ \<Rightarrow> JNull),
       (''updated_ms'', jnat now)]"

definition export_round :: "stream_env \<Rightarrow> serde \<Rightarrow> network \<Rightarrow> (export_error \<Rightarrow> string) \<Rightarrow> exporter \<Rightarrow> nat \<Rightarrow>
  (store \<times> sroot \<Rightarrow> store \<times> sroot) \<Rightarrow> nat \<Rightarrow> store \<Rightarrow> sroot \<Rightarrow> export_loop \<Rightarrow> store \<times> sroot \<times> export_loop \<times> nat" where
  "export_round env sd net texts x now meanwhile later st fs lo =
     (case exporter_step env sd net x now meanwhile later st fs of (st, fs, r) \<Rightarrow>
        (case export_turn (xp_config x) r later lo of (lo, delay) \<Rightarrow>
           (set_export_status (xp_stream x) (export_loop_status texts r later lo) st, fs, lo, delay)))"

section \<open>Shadow synchronization\<close>

record sync_config =
  sc_url :: string
  sc_bearer_token_file :: "string option"
  sc_shadows :: "string list"
  sc_interval_seconds :: nat
  sc_max_backoff_seconds :: nat
  sc_desired_conflict :: side
  sc_reported_conflict :: side

datatype sync_config_error = SyncUrl | SyncCount | SyncName | SyncDuplicate | SyncInterval | SyncBackoff

fun check_sync_names :: "string list \<Rightarrow> string list \<Rightarrow> (sync_config_error, unit) result" where
  "check_sync_names seen [] = Inr ()"
| "check_sync_names seen (name # names) =
     ensure (shadow_valid_name name) SyncName (ensure (name \<notin> set seen) SyncDuplicate (check_sync_names (name # seen) names))"

definition validate_sync :: "string list \<Rightarrow> nat \<Rightarrow> nat \<Rightarrow> nat \<Rightarrow> (sync_config_error, unit) result" where
  "validate_sync shadows interval backoff max_shadows =
     ensure (shadows \<noteq> [] \<and> length shadows \<le> max_shadows) SyncCount
       (res_bind (check_sync_names [] shadows) (\<lambda>_.
         ensure (1 \<le> interval \<and> interval \<le> 3600) SyncInterval
           (ensure (1 \<le> backoff \<and> backoff \<le> 3600) SyncBackoff (Inr ()))))"

definition validate_sync_config :: "stream_env \<Rightarrow> sync_config \<Rightarrow> nat \<Rightarrow> (sync_config_error, unit) result" where
  "validate_sync_config env cfg max_shadows =
     (case parse_url env (sc_url cfg) of None \<Rightarrow> Inl SyncUrl
      | Some u \<Rightarrow>
        ensure (url_scheme u \<in> {''http'', ''https''} \<and> url_has_host u) SyncUrl
         (ensure (url_username u = [] \<and> url_password u = None) SyncUrl
           (validate_sync (sc_shadows cfg) (sc_interval_seconds cfg) (sc_max_backoff_seconds cfg) max_shadows)))"

definition sync_owners :: "sync_config \<Rightarrow> owners" where
  "sync_owners cfg = \<lparr>own_desired = sc_desired_conflict cfg, own_reported = sc_reported_conflict cfg\<rparr>"

definition sync_request :: "stream_env \<Rightarrow> serde \<Rightarrow> binding \<Rightarrow> signer \<Rightarrow> string \<Rightarrow> string \<Rightarrow> jmap \<Rightarrow> nat \<Rightarrow>
  (export_error, string \<times> string \<times> string) result" where
  "sync_request env sd bn sg op shadow request now =
     (let request = bt_insert ''schema'' (jnat SYNC_SCHEMA) request;
          request = bt_insert ''op'' (JStr op) request;
          request = bt_insert ''device_id'' (JStr (bn_device_id bn)) request;
          request = bt_insert ''shadow'' (JStr shadow) request;
          request = json_to_vec env (JObj request);
          manifest = struct_to_vec sd (sync_manifest_fields
            \<lparr>sn_schema = SYNC_SCHEMA, sn_kind = SYNC_KIND, sn_chain_identifier = bn_chain_identifier bn, sn_registry = bn_registry bn,
             sn_device_id = bn_device_id bn, sn_signer = sg_address sg, sn_shadow = shadow, sn_op = op,
             sn_body_sha256 = hex_encode (sha256 env request), sn_created_ms = now\<rparr>) in
      if MAX_MANIFEST_BYTES < length manifest then Inl ExportManifestTooLarge
      else case sg_sign sg manifest of None \<Rightarrow> Inl SigningFailed | Some signature \<Rightarrow> Inr (request, manifest, signature))"

datatype sync_error = CloudFailed string | InShadows shadow_error

type_synonym sync_outcome = "bool \<times> bool \<times> string list"

definition sync_one :: "json codec \<Rightarrow> bool \<Rightarrow> owners \<Rightarrow> (string, nat \<times> jmap option) result \<Rightarrow>
  (nat \<Rightarrow> jmap option \<Rightarrow> jmap option \<Rightarrow> (string, put_result) result) \<Rightarrow> (shadow_store \<times> bus \<Rightarrow> shadow_store \<times> bus) \<Rightarrow> nat \<Rightarrow> string \<Rightarrow>
  shadow_store \<Rightarrow> bus \<Rightarrow> shadow_store \<times> bus \<times> (sync_error, sync_outcome) result" where
  "sync_one cd save_ok own fetch put meanwhile now shadow st bus =
     (case fetch of Inl e \<Rightarrow> (st, bus, Inl (CloudFailed e))
      | Inr (cloud_version, remote) \<Rightarrow>
        (case sync_plan cd own (sync_snapshot st shadow) remote of Inl e \<Rightarrow> (st, bus, Inl (InShadows e))
         | Inr (merged, conflicts, pushed) \<Rightarrow>
           (case (if pushed then put cloud_version remote merged else Inr (Stored cloud_version)) of
              Inl e \<Rightarrow> (st, bus, Inl (CloudFailed e))
            | Inr answer \<Rightarrow>
              (case meanwhile (st, bus) of (st', bus') \<Rightarrow>
                 (case sync_finish cd save_ok shadow (fst (sync_snapshot st shadow)) (merged, conflicts, pushed) cloud_version answer now st' bus' of
                    (st', bus', r) \<Rightarrow>
                      (st', bus', case r of Inl e \<Rightarrow> Inl (InShadows e) | Inr (pushed, pulled) \<Rightarrow> Inr (pushed, pulled, conflicts)))))))"

record sync_counters =
  cn_pushes :: nat
  cn_pulls :: nat
  cn_conflicts :: nat
  cn_failures :: nat
  cn_consecutive :: nat
  cn_last_success_ms :: "nat option"

definition no_counters :: sync_counters where
  "no_counters = \<lparr>cn_pushes = 0, cn_pulls = 0, cn_conflicts = 0, cn_failures = 0, cn_consecutive = 0, cn_last_success_ms = None\<rparr>"

definition sync_count :: "(sync_error, sync_outcome) result \<Rightarrow> nat \<Rightarrow> sync_counters \<Rightarrow> sync_counters" where
  "sync_count r now c = (case r of
     Inr (pushed, pulled, conflicts) \<Rightarrow>
       c\<lparr>cn_consecutive := 0, cn_last_success_ms := Some now, cn_pushes := cn_pushes c + of_bool pushed,
         cn_pulls := cn_pulls c + of_bool pulled, cn_conflicts := cn_conflicts c + length conflicts\<rparr>
   | Inl _ \<Rightarrow> c\<lparr>cn_consecutive := cn_consecutive c + 1, cn_failures := cn_failures c + 1\<rparr>)"

definition sync_status_json :: "(sync_error \<Rightarrow> string) \<Rightarrow> (sync_error, sync_outcome) result \<Rightarrow> nat \<Rightarrow> sync_counters \<Rightarrow> json" where
  "sync_status_json texts r now c =
     jobj [(''pushes'', jnat (cn_pushes c)), (''pulls'', jnat (cn_pulls c)), (''conflicts'', jnat (cn_conflicts c)),
       (''failures'', jnat (cn_failures c)), (''consecutive_failures'', jnat (cn_consecutive c)),
       (''last_success_ms'', opt_json (map_option jnat (cn_last_success_ms c))),
       (''last_error'', case r of Inl e \<Rightarrow> JStr (bounded (texts e) 300) | Inr _ \<Rightarrow> JNull),
       (''last_conflicts'', case r of Inl _ \<Rightarrow> JNull | Inr (_, _, conflicts) \<Rightarrow> JArr (map JStr (take 16 conflicts))),
       (''updated_ms'', jnat now)]"

text \<open>
  The inner loop of \<open>run_sync\<close> over the configured shadows, given one synchronization as a function of
  its name, and what the outer loop does with the back-off afterwards.
\<close>

fun sync_pass :: "(sync_error \<Rightarrow> string) \<Rightarrow> nat \<Rightarrow>
  (string \<Rightarrow> shadow_store \<Rightarrow> bus \<Rightarrow> shadow_store \<times> bus \<times> (sync_error, sync_outcome) result) \<Rightarrow> string list \<Rightarrow>
  (string, sync_counters) btree \<Rightarrow> bool \<Rightarrow> shadow_store \<Rightarrow> bus \<Rightarrow> shadow_store \<times> bus \<times> (string, sync_counters) btree \<times> bool" where
  "sync_pass texts now one [] counters failed st bus = (st, bus, counters, failed)"
| "sync_pass texts now one (shadow # shadows) counters failed st bus =
     (case one shadow st bus of (st, bus, r) \<Rightarrow>
        (let c = sync_count r now (case map_of counters shadow of None \<Rightarrow> no_counters | Some c \<Rightarrow> c) in
         sync_pass texts now one shadows (bt_insert shadow c counters) (failed \<or> (case r of Inl _ \<Rightarrow> True | Inr _ \<Rightarrow> False))
           (set_sync_status shadow (sync_status_json texts r now c) st) bus))"

definition sync_turn :: "nat \<Rightarrow> nat \<Rightarrow> bool \<Rightarrow> nat \<Rightarrow> nat \<times> nat" where
  "sync_turn interval max_backoff failed backoff =
     (if failed then (min (backoff * 2) max_backoff, backoff) else (1, interval))"

end
