(* ===== verification/ExportProps.thy ===== *)
theory ExportProps
  imports Exporter
begin

text \<open>
  Properties of the signed manifests and of the loops of \<open>Exporter\<close>: the kinds of signed messages are
  separated, what the exporter builds is what the signing service accepts, a checkpoint moves only
  after a delivery, and the back-off is the capped power of two.
\<close>

section \<open>Kinds of signed messages\<close>

text \<open>The contract of a check of the signing service, as far as the other checks are concerned.\<close>

locale message_kind =
  fixes check :: "serde \<Rightarrow> string \<Rightarrow> string \<Rightarrow> string \<Rightarrow> string \<Rightarrow> (manifest_error, unit) result"
    and fields :: "'m \<Rightarrow> (string \<times> json) list"
    and kind :: string
  assumes accepted: "check sd message chain registry signer = Inr () \<Longrightarrow>
      \<exists>m. message = struct_to_vec sd (fields m) \<and> map_of (fields m) ''kind'' = Some (JStr kind)"
    and named: "distinct (map fst (fields m))" "list_all (\<lambda>f. flat (snd f)) (fields m)"
begin

lemma kind_of_accepted:
  assumes "serde_ok sd" and "check sd message chain registry signer = Inr ()"
  shows "\<exists>fs. struct_from_slice sd message = Some fs \<and> map_of fs ''kind'' = Some (JStr kind)"
  using accepted [OF assms(2)] serde_okD [OF assms(1) named] by auto

end

lemma ensure_Inr_iff: "ensure c e k = Inr x \<longleftrightarrow> c \<and> k = Inr x"
  by (simp add: ensure_def)

lemma export_kind_field: "map_of (manifest_fields m) ''kind'' = Some (JStr (mf_kind m))"
  by (simp add: manifest_fields_def)

interpretation export_kind: message_kind check_manifest manifest_fields EXPORT_KIND
proof
  show "\<exists>m. message = struct_to_vec sd (manifest_fields m) \<and> map_of (manifest_fields m) ''kind'' = Some (JStr EXPORT_KIND)"
    if "check_manifest sd message chain registry signer = Inr ()" for sd message chain registry signer
    using that unfolding export_kind_field by (auto simp: check_manifest_def ensure_Inr_iff split: if_splits option.splits)
qed (simp_all add: manifest_fields_def flat_def)

lemma sync_kind_field: "map_of (sync_manifest_fields m) ''kind'' = Some (JStr (sn_kind m))"
  by (simp add: sync_manifest_fields_def)

interpretation sync_kind: message_kind check_sync_manifest sync_manifest_fields SYNC_KIND
proof
  show "\<exists>m. message = struct_to_vec sd (sync_manifest_fields m) \<and> map_of (sync_manifest_fields m) ''kind'' = Some (JStr SYNC_KIND)"
    if "check_sync_manifest sd message chain registry signer = Inr ()" for sd message chain registry signer
    using that unfolding sync_kind_field by (auto simp: check_sync_manifest_def ensure_Inr_iff split: if_splits option.splits)
qed (simp_all add: sync_manifest_fields_def flat_def)

lemma ca_kind_field: "map_of (ca_binding_fields m) ''kind'' = Some (JStr (ca_kind m))"
  by (simp add: ca_binding_fields_def)

interpretation binding_kind: message_kind check_ca_binding ca_binding_fields CA_BINDING_KIND
proof
  show "\<exists>m. message = struct_to_vec sd (ca_binding_fields m) \<and> map_of (ca_binding_fields m) ''kind'' = Some (JStr CA_BINDING_KIND)"
    if "check_ca_binding sd message chain registry signer = Inr ()" for sd message chain registry signer
    using that unfolding ca_kind_field by (auto simp: check_ca_binding_def ensure_Inr_iff split: if_splits option.splits)
qed (simp_all add: ca_binding_fields_def flat_def)

lemmas field_defs = string_field_def uint_field_def string_of_def uint_of_def value_u64_def

lemma manifest_of_fields_inverse:
  assumes "mf_schema m \<le> u32_max" "mf_first_sequence m \<le> u64_max" "mf_last_sequence m \<le> u64_max" "mf_messages m \<le> u64_max"
    "mf_lost_before m \<le> u64_max" "mf_created_ms m \<le> u64_max"
  shows "manifest_of_fields (manifest_fields m) = Some m"
  using assms by (simp add: manifest_of_fields_def manifest_fields_def fields_exactly_def field_defs insert_commute)

lemma same_address_trans: "same_address a b \<Longrightarrow> same_address a c \<longleftrightarrow> same_address b c"
  by (auto simp: same_address_def)

text \<open>
  C29: A message the signing service accepts as a stream export manifest is accepted neither as a shadow
  synchronization manifest nor as a client device CA binding, whatever chain, registry and signer
  those are checked against; and it is an export manifest for no other chain, registry or signer.
\<close>

theorem signed_manifest_separated:
  assumes ok: "serde_ok sd" and acc: "check_manifest sd message chain registry signer = Inr ()"
  shows "check_sync_manifest sd message c r s \<noteq> Inr () \<and> check_ca_binding sd message c r s \<noteq> Inr () \<and>
    (check_manifest sd message c r s = Inr () \<longleftrightarrow> c = chain \<and> same_address registry r \<and> same_address signer s)"
proof (intro conjI)
  obtain fs where fs: "struct_from_slice sd message = Some fs" "map_of fs ''kind'' = Some (JStr EXPORT_KIND)"
    using export_kind.kind_of_accepted [OF ok acc] by blast
  show "check_sync_manifest sd message c r s \<noteq> Inr ()"
    using sync_kind.kind_of_accepted [OF ok] fs by (fastforce simp: EXPORT_KIND_def SYNC_KIND_def)
  show "check_ca_binding sd message c r s \<noteq> Inr ()"
    using binding_kind.kind_of_accepted [OF ok] fs by (fastforce simp: EXPORT_KIND_def CA_BINDING_KIND_def)
  obtain m where m: "Option.bind (struct_from_slice sd message) manifest_of_fields = Some m" "mf_chain_identifier m = chain"
    "same_address (mf_registry m) registry" "same_address (mf_signer m) signer"
    using acc by (auto simp: check_manifest_def ensure_Inr_iff split: if_splits option.splits)
  show "check_manifest sd message c r s = Inr () \<longleftrightarrow> c = chain \<and> same_address registry r \<and> same_address signer s"
    using acc m same_address_trans [OF m(3)] same_address_trans [OF m(4)]
    by (auto simp: check_manifest_def ensure_Inr_iff split: if_splits)
qed

text \<open>A writer and a parser that keep the law: marked bytes and full stops, numbers in unary.\<close>

fun mark :: "string \<Rightarrow> string" where
  "mark [] = ''.''"
| "mark (c # cs) = CHR ''x'' # c # mark cs"

fun unmark :: "string \<Rightarrow> string \<times> string" where
  "unmark (CHR ''x'' # c # cs) = (case unmark cs of (a, b) \<Rightarrow> (c # a, b))"
| "unmark (_ # cs) = ([], cs)"
| "unmark [] = ([], [])"

lemma unmark_mark [simp]: "unmark (mark s @ rest) = (s, rest)"
  by (induction s) auto

definition demo_field :: "string \<times> json \<Rightarrow> string" where
  "demo_field f = (case snd f of JStr s \<Rightarrow> CHR ''s'' # mark (fst f) @ mark s
     | JNum (PosInt n) \<Rightarrow> CHR ''n'' # mark (fst f) @ mark (replicate n (CHR ''i'')) | _ \<Rightarrow> [])"

fun demo_parse :: "nat \<Rightarrow> string \<Rightarrow> (string \<times> json) list" where
  "demo_parse 0 t = []"
| "demo_parse (Suc n) [] = []"
| "demo_parse (Suc n) (c # t) =
     (case unmark t of (k, t) \<Rightarrow> (case unmark t of (v, t) \<Rightarrow>
        (k, if c = CHR ''s'' then JStr v else jnat (length v)) # demo_parse n t))"

definition demo_serde :: serde where
  "demo_serde = \<lparr>struct_to_vec = (\<lambda>fs. concat (map demo_field fs)), struct_from_slice = (\<lambda>t. Some (demo_parse (length t) t))\<rparr>"

lemma flat_cases: "flat v \<Longrightarrow> (\<exists>s. v = JStr s) \<or> (\<exists>n. v = jnat n)"
  by (auto simp: flat_def split: json.splits number.splits)

lemma demo_field_simps [simp]:
  "demo_field (k, JStr s) = CHR ''s'' # mark k @ mark s"
  "demo_field (k, jnat n) = CHR ''n'' # mark k @ mark (replicate n (CHR ''i''))"
  by (simp_all add: demo_field_def)

lemma demo_parse_fields:
  "list_all (\<lambda>f. flat (snd f)) fs \<Longrightarrow> length fs \<le> n \<Longrightarrow> demo_parse n (concat (map demo_field fs)) = fs"
proof (induction fs arbitrary: n)
  case Nil
  then show ?case by (cases n) auto
next
  case (Cons f fs)
  then obtain m where n: "n = Suc m" by (cases n) auto
  obtain k v where f: "f = (k, v)" by fastforce
  have "demo_parse m (concat (map demo_field fs)) = fs" using Cons n by simp
  moreover have "flat v" using Cons.prems(1) f by simp
  ultimately show ?case using flat_cases [of v] f n by auto
qed

lemma demo_field_pos: "flat (snd f) \<Longrightarrow> 1 \<le> length (demo_field f)"
  using flat_cases [of "snd f"] by (cases f) auto

lemma demo_serde_ok: "serde_ok demo_serde"
proof -
  have "length fs \<le> length (concat (map demo_field fs))" if "list_all (\<lambda>f. flat (snd f)) fs" for fs
    using that
  proof (induction fs)
    case (Cons f fs)
    then show ?case using demo_field_pos [of f] by simp
  qed simp
  then show ?thesis using demo_parse_fields by (auto simp: serde_ok_def demo_serde_def)
qed

lemma length_mark [simp]: "length (mark s) = 2 * length s + 1"
  by (induction s) auto

definition demo_manifest :: manifest where
  "demo_manifest = \<lparr>mf_schema = 1, mf_kind = EXPORT_KIND, mf_chain_identifier = ''chain'', mf_registry = ''0x5'', mf_device_id = ''dev'',
     mf_signer = ''0xA1'', mf_stream = ''demo'', mf_first_sequence = 0, mf_last_sequence = 0, mf_messages = 1, mf_lost_before = 0,
     mf_body_sha256 = replicate 64 (CHR ''0''), mf_created_ms = 9\<rparr>"

abbreviation demo_message :: string where
  "demo_message \<equiv> struct_to_vec demo_serde (manifest_fields demo_manifest)"

lemma demo_manifest_accepted: "check_manifest demo_serde demo_message ''chain'' ''0x05'' ''a1'' = Inr ()"
proof -
  have "struct_from_slice demo_serde demo_message = Some (manifest_fields demo_manifest)"
    by (rule serde_okD [OF demo_serde_ok export_kind.named])
  moreover have "manifest_of_fields (manifest_fields demo_manifest) = Some demo_manifest"
    by (rule manifest_of_fields_inverse) (simp_all add: demo_manifest_def u32_max_def u64_max_def)
  moreover have "length demo_message \<le> MAX_MANIFEST_BYTES"
    by (simp add: demo_serde_def manifest_fields_def demo_manifest_def EXPORT_KIND_def MAX_MANIFEST_BYTES_def)
  moreover have "same_address ''0x5'' ''0x05''" "same_address ''0xA1'' ''a1''" by code_simp+
  ultimately show ?thesis
    by (simp add: check_manifest_def ensure_def demo_manifest_def MANIFEST_SCHEMA_def valid_stream_name_def sha256_text_def list_all_iff is_hexdigit_def
        str_simps)
qed

theorem signed_manifest_separated_witness:
  "check_sync_manifest demo_serde demo_message ''chain'' ''0x5'' ''0xa1'' \<noteq> Inr () \<and>
   check_manifest demo_serde demo_message ''other'' ''0x5'' ''0xa1'' \<noteq> Inr ()"
  using signed_manifest_separated [OF demo_serde_ok demo_manifest_accepted, of "''chain''" "''0x5''" "''0xa1''"]
    signed_manifest_separated [OF demo_serde_ok demo_manifest_accepted, of "''other''" "''0x5''" "''0xa1''"]
  by simp

section \<open>What the exporter builds\<close>

lemma byte_less_256: "byte c < 256"
  by (simp add: byte_def)

lemma is_hexdigit_hex_digit: "n < 16 \<Longrightarrow> is_hexdigit (hex_digit n)"
proof -
  have "list_all (\<lambda>n. is_hexdigit (hex_digit n)) [0..<16]" by code_simp
  then show "n < 16 \<Longrightarrow> ?thesis" by (simp only: list_all_iff set_upt atLeastLessThan_iff) simp
qed

lemma length_hex_encode: "length (hex_encode bs) = 2 * length bs"
  by (induction bs) (auto simp: hex_encode_def)

lemma hex_encode_hexdigits: "list_all is_hexdigit (hex_encode bs)"
  by (induction bs) (auto simp: hex_encode_def less_mult_imp_div_less byte_less_256 intro!: is_hexdigit_hex_digit)

lemma sha256_text_hex: "length bs = 32 \<Longrightarrow> sha256_text (hex_encode bs)"
  by (simp add: sha256_text_def length_hex_encode hex_encode_hexdigits)

text \<open>In a strictly ascending list of numbers there are no more elements than numbers in its range.\<close>

lemma sorted_range:
  "sorted_wrt (<) (xs :: nat list) \<Longrightarrow> xs \<noteq> [] \<Longrightarrow> hd xs + length xs \<le> last xs + 1"
proof (induction xs)
  case (Cons x xs)
  then show ?case by (cases xs) auto
qed simp

lemma build_export_accepted:
  assumes ok: "serde_ok sd" and digest: "\<And>t. length (sha256 env t) = 32"
    and addresses: "canonical_address (bn_registry bn) \<noteq> None" "canonical_address (sg_address sg) \<noteq> None"
    and name: "valid_stream_name name" and ms: "sorted_wrt (<) (map sm_sequence ms)" "\<forall>m \<in> set ms. sm_sequence m < u64_max"
    and small: "lost \<le> u64_max" "now \<le> u64_max"
    and built: "build_export env sd bn sg name lost ms now = Inr b"
  shows "check_manifest sd (ba_manifest b) (bn_chain_identifier bn) (bn_registry bn) (sg_address sg) = Inr ()"
proof -
  let ?m = "export_manifest env bn sg name lost ms now"
  have b: "ba_manifest b = struct_to_vec sd (manifest_fields ?m)" "\<not> MAX_MANIFEST_BYTES < length (ba_manifest b)" "ms \<noteq> []"
    using built by (auto simp: build_export_def Let_def split: if_splits option.splits)
  have len: "sm_sequence (hd ms) + length ms \<le> sm_sequence (last ms) + 1"
    using sorted_range [OF ms(1)] b(3) by (simp add: hd_map last_map)
  have top: "sm_sequence (last ms) < u64_max" "sm_sequence (hd ms) < u64_max" using ms(2) b(3) by auto
  have pos: "1 \<le> length ms" using b(3) by (simp add: Suc_le_eq)
  have fields: "manifest_of_fields (manifest_fields ?m) = Some ?m"
    by (rule manifest_of_fields_inverse) (use len top small in \<open>simp_all add: export_manifest_def MANIFEST_SCHEMA_def u32_max_def\<close>)
  have read: "struct_from_slice sd (ba_manifest b) = Some (manifest_fields ?m)"
    unfolding b(1) by (rule serde_okD [OF ok export_kind.named])
  have "(sm_sequence (last ms) - sm_sequence (hd ms) + 1) mod 2 ^ 64 = sm_sequence (last ms) - sm_sequence (hd ms) + 1"
    using top by (intro mod_less) (simp add: u64_max_def)
  then show ?thesis
    using read fields b(1,2) len pos name addresses sha256_text_hex [OF digest]
    by (simp add: check_manifest_def ensure_def export_manifest_def same_address_def)
qed

lemma read_all_sequences: "read_all es d = (d', Inr ms) \<Longrightarrow> map sm_sequence ms = map en_sequence es"
proof (induction es arbitrary: d ms)
  case (Cons e es)
  then obtain data d1 d2 ms' where "read_data e d = (d1, Inr data)" "read_all es d1 = (d2, Inr ms')" "ms = message_of e data # ms'"
    by (auto split: prod.splits sum.splits elim!: res_bind.elims)
  then show ?case using Cons.IH [of d1 ms'] Cons.prems by (auto simp: message_of_def)
qed simp

lemma export_batch_sorted:
  assumes ok: "log_ok F s d" and run: "export_batch n b now s d = (s', d', Inr (Some (lost, ms)))"
  shows "sorted_wrt (<) (map sm_sequence ms)" "\<forall>m \<in> set ms. sm_sequence m < st_next s" "lost \<le> st_next s"
proof -
  obtain s1 d1 r1 where ret: "retire now s d = (s1, d1, r1)" by (metis prod_cases3)
  from retire_ok [OF ok ret] obtain F1 where F1: "log_ok F1 s1 d1" "keeps_messages (retire_entries now s) s1" by blast
  note next1 = retire_next(1) [OF log_okD(1) [OF ok] F1(2)] and mem = log_okD(1) [OF F1(1)]
  let ?es = "batch_entries n b 0 0 (filter (\<lambda>e. nat (st_exported s1 + 1) \<le> en_sequence e) (st_entries s1))"
  obtain d2 where "read_all ?es d1 = (d2, Inr ms)" and lost: "lost = st_oldest s1 - nat (st_exported s1 + 1)"
    using run ret by (auto simp: export_batch_def Let_def split: sum.splits prod.splits if_splits elim!: res_bind.elims)
  then have seqs: "map sm_sequence ms = map en_sequence ?es" using read_all_sequences by blast
  obtain k where k: "?es = take k (filter (\<lambda>e. nat (st_exported s1 + 1) \<le> en_sequence e) (st_entries s1))"
    using batch_entries_take [of 0 n b 0] by blast
  have "sorted_wrt (\<lambda>a b. en_sequence a < en_sequence b) (st_entries s1)" using mem by (simp add: mem_ok_def sorted_wrt_map)
  then show "sorted_wrt (<) (map sm_sequence ms)" unfolding seqs k by (simp add: sorted_wrt_map sorted_wrt_take sorted_wrt_filter)
  have "set (map sm_sequence ms) \<subseteq> en_sequence ` set (st_entries s1)" unfolding seqs k by (auto dest: in_set_takeD)
  then show "\<forall>m \<in> set ms. sm_sequence m < st_next s" using mem next1 by (fastforce simp: mem_ok_def)
  have "st_oldest s1 \<le> st_next s1" using mem by (cases "st_entries s1") (auto simp: mem_ok_def)
  then show "lost \<le> st_next s" using lost next1 by linarith
qed

text \<open>
  C30: Whatever a running file stream went through, the manifest the exporter builds for its next batch
  passes the check of the signing service for the device's own chain, registry and key: with valid
  addresses and a 32-byte digest, an export never fails for a manifest the device would not sign.
\<close>

theorem exporter_manifest_accepted:
  assumes "serde_ok sd" and "\<And>t. length (sha256 env t) = 32"
    and "canonical_address (bn_registry bn) \<noteq> None" and "canonical_address (sg_address sg) \<noteq> None"
    and "validate_stream env def = Inr ()" and "sd_persistence def = PFile"
    and "fold stream_step xs (fresh def) = (Some s, d, acks)" and "st_next s \<le> u64_max" and "now \<le> u64_max"
    and "export_batch n b now s (d\<lparr>dk_io := ios\<rparr>) = (s', d', Inr (Some (lost, ms)))"
    and "build_export env sd bn sg (sd_name def) lost ms now = Inr bt"
  shows "check_manifest sd (ba_manifest bt) (bn_chain_identifier bn) (bn_registry bn) (sg_address sg) = Inr ()"
proof -
  obtain F where ok: "log_ok F s d" by (rule run_up [OF assms(6,7)])
  then have "log_ok F s (d\<lparr>dk_io := ios\<rparr>)" using log_ok_disk [of "d\<lparr>dk_io := ios\<rparr>" d] by simp
  note batch = export_batch_sorted [OF this assms(10)]
  have "valid_stream_name (sd_name def)" using assms(5) by (simp add: validate_stream_def split: if_splits)
  then show ?thesis
    using build_export_accepted [OF assms(1-4) _ batch(1) _ _ assms(9,11)] batch(2,3) assms(8) by fastforce
qed

definition demo_sign_env :: stream_env where
  "demo_sign_env = \<lparr>parse_url = (\<lambda>_. None), sha256 = (\<lambda>_. replicate 32 (CHR 0x00)), json_to_vec = (\<lambda>_. ''x''), json_from_slice = (\<lambda>_. None),
     definition_from_value = (\<lambda>_. None), base64_encode = (\<lambda>s. s)\<rparr>"

definition demo_binding :: binding where
  "demo_binding = \<lparr>bn_chain_identifier = ''chain'', bn_registry = ''0x5'', bn_device_id = ''dev''\<rparr>"

definition demo_signer :: signer where
  "demo_signer = \<lparr>sg_address = ''0xA1'', sg_sign = (\<lambda>m. Some ''sig'')\<rparr>"

abbreviation demo_sent :: "smessage list" where
  "demo_sent \<equiv> [\<lparr>sm_sequence = 0, sm_appended_ms = 5, sm_data = ''a''\<rparr>]"

lemma demo_exports:
  "export_batch 3 1024 9 demo_stream (demo_dir\<lparr>dk_io := []\<rparr>) = (demo_stream, demo_dir, Inr (Some (0, demo_sent)))"
  by (simp add: export_batch_def retire_def retire_entries_def evict_while.simps drop_segments_def dead_segments_def Let_def
      demo_stream_def new_stream_def demo_def_def expired_def exported_already_def demo_dir_def read_data_def sio_take_def
      encode_record_def HEADER_def message_of_def)

definition demo_export :: batch where
  "demo_export = (case build_export demo_sign_env demo_serde demo_binding demo_signer ''demo'' 0 demo_sent 9 of Inr b \<Rightarrow> b)"

lemma demo_builds: "build_export demo_sign_env demo_serde demo_binding demo_signer ''demo'' 0 demo_sent 9 = Inr demo_export"
proof -
  let ?m = "struct_to_vec demo_serde (manifest_fields (export_manifest demo_sign_env demo_binding demo_signer ''demo'' 0 demo_sent 9))"
  have "length ?m \<le> MAX_MANIFEST_BYTES"
    by (simp add: demo_serde_def manifest_fields_def export_manifest_def EXPORT_KIND_def MAX_MANIFEST_BYTES_def MANIFEST_SCHEMA_def
        demo_binding_def demo_signer_def length_hex_encode demo_sign_env_def)
  then show ?thesis by (simp add: demo_export_def build_export_def Let_def demo_signer_def)
qed

theorem exporter_manifest_accepted_witness:
  "check_manifest demo_serde (ba_manifest demo_export) ''chain'' ''0x5'' ''0xA1'' = Inr ()"
proof -
  have digest: "length (sha256 demo_sign_env t) = 32" for t by (simp add: demo_sign_env_def)
  have addresses: "canonical_address (bn_registry demo_binding) \<noteq> None" "canonical_address (sg_address demo_signer) \<noteq> None"
    unfolding demo_binding_def demo_signer_def by code_simp+
  have valid: "validate_stream demo_sign_env demo_def = Inr ()"
    by (simp add: validate_stream_def valid_stream_name_def demo_def_def MIN_STREAM_BYTES_def MAX_STREAM_BYTES_def str_simps)
  have small: "st_next demo_stream \<le> u64_max" "(9 :: nat) \<le> u64_max" by (simp_all add: demo_stream_def u64_max_def)
  have built: "build_export demo_sign_env demo_serde demo_binding demo_signer (sd_name demo_def) 0 demo_sent 9 = Inr demo_export"
    using demo_builds by (simp add: demo_def_def)
  from exporter_manifest_accepted [OF demo_serde_ok digest addresses valid demo_pfile demo_run small demo_exports built]
  show ?thesis by (simp add: demo_binding_def demo_signer_def)
qed

section \<open>Idempotency keys\<close>

lemma hex_digit_inj: "m < 16 \<Longrightarrow> n < 16 \<Longrightarrow> hex_digit m = hex_digit n \<longleftrightarrow> m = n"
proof -
  have "distinct (map hex_digit [0..<16])" by code_simp
  then have "inj_on hex_digit {0..<16}" by (simp only: distinct_map set_upt)
  then show "m < 16 \<Longrightarrow> n < 16 \<Longrightarrow> ?thesis" by (auto simp: inj_on_def)
qed

lemma hex_encode_inj: "hex_encode a = hex_encode b \<longleftrightarrow> a = b"
proof (induction a arbitrary: b)
  case Nil
  then show ?case by (cases b) (auto simp: hex_encode_def)
next
  case (Cons x xs)
  show ?case
  proof (cases b)
    case (Cons y ys)
    have "hex_digit (byte x div 16) = hex_digit (byte y div 16) \<and> hex_digit (byte x mod 16) = hex_digit (byte y mod 16) \<longleftrightarrow> x = y"
      using byte_less_256 [of x] byte_less_256 [of y]
      by (auto simp: hex_digit_inj less_mult_imp_div_less byte_def) (metis div_mod_decomp of_char_eq_iff)
    then show ?thesis using Cons Cons.IH [of ys] by (auto simp: hex_encode_def)
  qed (auto simp: hex_encode_def)
qed

lemma colon_not_hex: "CHR '':'' \<notin> set (hex_encode a)"
proof -
  have "\<not> is_hexdigit (CHR '':'')" by code_simp
  moreover have "list_all is_hexdigit (hex_encode a)" by (rule hex_encode_hexdigits)
  ultimately show ?thesis by (auto simp: list_all_iff)
qed

lemma byte_digit: "k < 10 \<Longrightarrow> byte (char_of (48 + k)) = 48 + k"
  by (simp add: byte_def)

lemma char_of_digit: "m < 10 \<Longrightarrow> n < 10 \<Longrightarrow> (char_of (48 + m) :: char) = char_of (48 + n) \<longleftrightarrow> m = (n :: nat)"
  by (metis add_left_cancel byte_digit)

lemma decimal_digits: "c \<in> set (decimal n) \<Longrightarrow> is_ascii_digit c"
proof (induction n rule: decimal.induct)
  case (1 n)
  show ?case
  proof (cases "n < 10")
    case True
    then show ?thesis using 1(2) by (auto simp: decimal.simps [of n] is_ascii_digit_def byte_digit)
  next
    case False
    then consider "c \<in> set (decimal (n div 10))" | "c = char_of (48 + n mod 10)" using 1(2) by (auto simp: decimal.simps [of n])
    then show ?thesis using 1(1) [OF False] byte_digit [of "n mod 10"] by cases (auto simp: is_ascii_digit_def)
  qed
qed

lemma dash_not_decimal: "CHR ''-'' \<notin> set (decimal n)"
  using decimal_digits [of "CHR ''-''" n] by (auto simp: is_ascii_digit_def byte_def)

lemma split_at_first: "c \<notin> set xs \<Longrightarrow> c \<notin> set ys \<Longrightarrow> xs @ c # u = ys @ c # v \<longleftrightarrow> xs = ys \<and> u = v"
  by (induction xs arbitrary: ys) (case_tac ys, auto)+

lemma decimal_not_Nil: "decimal n \<noteq> []"
  by (simp add: decimal.simps [of n])

lemma decimal_inj: "decimal m = decimal n \<longleftrightarrow> m = n"
proof (induction m arbitrary: n rule: decimal.induct)
  case (1 m)
  consider "m < 10" "n < 10" | "m < 10" "10 \<le> n" | "10 \<le> m" "n < 10" | "10 \<le> m" "10 \<le> n" by linarith
  then show ?case
  proof cases
    case 4
    have "decimal m = decimal n \<longleftrightarrow> m div 10 = n div 10 \<and> m mod 10 = n mod 10"
      using 4 1 [of "n div 10"] by (simp add: decimal.simps [of m] decimal.simps [of n] char_of_digit)
    then show ?thesis by (metis div_mod_decomp)
  qed (auto simp: decimal.simps [of m] decimal.simps [of n] char_of_digit decimal_not_Nil decimal_not_Nil [symmetric])
qed

text \<open>
  Two batches of one device have the same idempotency key exactly when they are of the same stream
  and have the same first and last sequence number: a destination that drops repeated keys drops
  nothing else.
\<close>

theorem idempotency_key_unique:
  "idempotency_key device a m n = idempotency_key device b p q \<longleftrightarrow> a = b \<and> m = p \<and> n = q"
  by (auto simp: idempotency_key_def hex_encode_inj decimal_inj split_at_first colon_not_hex dash_not_decimal)

section \<open>Checkpoints\<close>

text \<open>Retention never moves the checkpoint.\<close>

lemma evict_front_exported [simp]: "st_exported (evict_front s) = st_exported s"
  by (simp add: evict_front_def Let_def split: list.splits)

lemma evict_while_exported [simp]: "st_exported (evict_while P s) = st_exported s"
proof (induction P s rule: evict_while.induct)
  case (1 P s)
  then show ?case by (subst evict_while.simps) (auto split: list.splits)
qed

lemma drop_dead_exported: "drop_dead fs s d = (s', d', r) \<Longrightarrow> st_exported s' = st_exported s"
  by (induction fs s d rule: drop_dead.induct) (auto simp: forget_segment_def split: prod.splits if_splits)

lemma retire_exported: "retire now s d = (s', d', r) \<Longrightarrow> st_exported s' = st_exported s"
  by (auto simp: retire_def retire_entries_def drop_segments_def Let_def dest!: drop_dead_exported split: if_splits prod.splits)

lemma export_batch_exported: "export_batch n b now s d = (s', d', r) \<Longrightarrow> st_exported s' = st_exported s"
  by (auto simp: export_batch_def Let_def split: prod.splits sum.splits dest!: retire_exported)

lemma export_ack_exported: "export_ack q now s d = (s', d', r) \<Longrightarrow> st_exported s' = st_exported s \<or> st_exported s' = int q"
  by (auto simp: export_ack_def Let_def split: prod.splits if_splits dest!: retire_exported)

definition checkpoint :: "string \<Rightarrow> store \<Rightarrow> int option" where
  "checkpoint name st = map_option st_exported (map_of (so_streams st) name)"

lemma on_stream_checkpoint:
  assumes "on_stream env name f st fs = (st', fs', r)"
    and "\<And>s d s' d' r. f s d = (s', d', r) \<Longrightarrow> st_exported s' = st_exported s \<or> P s'"
  shows "checkpoint name st' = checkpoint name st \<or> (\<exists>s'. map_of (so_streams st') name = Some s' \<and> P s')"
  using assms by (fastforce simp: on_stream_def checkpoint_def split: option.splits prod.splits)

lemma build_export_last: "build_export env sd bn sg name lost ms now = Inr b \<Longrightarrow> ba_last_sequence b = sm_sequence (last ms)"
  by (auto simp: build_export_def Let_def split: if_splits option.splits)

lemma send_batch_Inr:
  assumes "send_batch env net cfg b = Inr ()"
  shows "\<exists>token status. transmit net (export_request env cfg token b) = Inr status \<and> 200 \<le> status \<and> status < 300"
proof (cases "bearer_token net (ex_bearer_token_file cfg)")
  case (Inr token)
  then show ?thesis using assms
    by (cases "transmit net (export_request env cfg token b)") (auto simp: send_batch_def ensure_Inr_iff)
qed (use assms in \<open>simp add: send_batch_def\<close>)

text \<open>
  C10: One turn of the exporter moves the checkpoint of its stream only after the destination answered
  the batch with a success status, and only to the last sequence number of that batch. The batch is
  the one the store gave out before it was unlocked, signed and sent as built.
\<close>

theorem checkpoint_after_delivery:
  assumes run: "exporter_step env sd net x now meanwhile later st fs = (st', fs', r)"
    and others: "\<And>\<sigma>. checkpoint (xp_stream x) (fst (meanwhile \<sigma>)) = checkpoint (xp_stream x) (fst \<sigma>)"
    and moved: "checkpoint (xp_stream x) st' \<noteq> checkpoint (xp_stream x) st"
  shows "\<exists>st1 fs1 lost ms b token status.
    store_export_batch env (xp_stream x) (ex_batch_max_messages (xp_config x)) (ex_batch_max_bytes (xp_config x)) now st fs
      = (st1, fs1, Inr (Some (lost, ms))) \<and>
    build_export env sd (xp_binding x) (xp_signer x) (xp_stream x) lost ms now = Inr b \<and>
    transmit net (export_request env (xp_config x) token b) = Inr status \<and> 200 \<le> status \<and> status < 300 \<and>
    checkpoint (xp_stream x) st' = Some (int (sm_sequence (last ms)))"
proof -
  let ?name = "xp_stream x" and ?cfg = "xp_config x"
  obtain st1 fs1 r1 where one: "store_export_batch env ?name (ex_batch_max_messages ?cfg) (ex_batch_max_bytes ?cfg) now st fs = (st1, fs1, r1)"
    by (metis prod_cases3)
  have same1: "checkpoint ?name st1 = checkpoint ?name st"
    using on_stream_checkpoint [OF one [unfolded store_export_batch_def], of "\<lambda>_. False"] export_batch_exported by blast
  obtain lost ms where r1: "r1 = Inr (Some (lost, ms))"
    using run one moved same1 by (auto simp: exporter_step_def Let_def split: sum.splits option.splits)
  obtain b where b: "build_export env sd (xp_binding x) (xp_signer x) ?name lost ms now = Inr b"
    using run one r1 moved same1 by (auto simp: exporter_step_def Let_def split: sum.splits)
  have sent: "send_batch env net ?cfg b = Inr ()"
    using run one r1 b moved same1 by (auto simp: exporter_step_def Let_def split: sum.splits)
  obtain st2 fs2 where mid: "meanwhile (st1, fs1) = (st2, fs2)" by fastforce
  obtain st3 fs3 r3 where ack: "store_export_ack env ?name (ba_last_sequence b) later st2 fs2 = (st3, fs3, r3)" by (metis prod_cases3)
  have "st3 = st'" using run one r1 b sent mid ack by (simp add: exporter_step_def Let_def)
  moreover have "checkpoint ?name st2 = checkpoint ?name st1" using others [of "(st1, fs1)"] mid by simp
  ultimately have "checkpoint ?name st' = Some (int (ba_last_sequence b))"
    using on_stream_checkpoint [OF ack [unfolded store_export_ack_def], of "\<lambda>s. st_exported s = int (ba_last_sequence b)"]
      export_ack_exported moved same1 by (auto simp: checkpoint_def)
  moreover have "ba_last_sequence b = sm_sequence (last ms)" by (rule build_export_last [OF b])
  moreover obtain token status where "transmit net (export_request env ?cfg token b) = Inr status" "200 \<le> status" "status < 300"
    using send_batch_Inr [OF sent] by blast
  ultimately show ?thesis using one r1 b by (metis (no_types, lifting))
qed

definition demo_exporter :: exporter where
  "demo_exporter = \<lparr>xp_stream = ''demo'', xp_config = \<lparr>ex_url = ''u'', ex_bearer_token_file = None, ex_batch_max_messages = 3,
     ex_batch_max_bytes = 1024, ex_batch_interval_seconds = 5, ex_max_backoff_seconds = 300\<rparr>, xp_binding = demo_binding, xp_signer = demo_signer\<rparr>"

definition demo_net :: network where
  "demo_net = \<lparr>read_to_string = (\<lambda>_. Inl ''none''), trim = (\<lambda>s. s), transmit = (\<lambda>_. Inr 204)\<rparr>"

definition demo_sources :: store where
  "demo_sources = \<lparr>so_quota = \<lparr>qu_max_streams = 1, qu_max_total_bytes = 1024\<rparr>, so_streams = [(''demo'', demo_stream)], so_staged = False\<rparr>"

definition demo_files :: sroot where
  "demo_files = \<lparr>ro_dirs = [(dir_name demo_sign_env ''demo'', \<lparr>di_meta = dk_meta demo_dir, di_segs = dk_segs demo_dir\<rparr>)], ro_io = []\<rparr>"

abbreviation demo_turn :: "store \<times> sroot \<times> (export_error, bool) result" where
  "demo_turn \<equiv> exporter_step demo_sign_env demo_serde demo_net demo_exporter 9 id 10 demo_sources demo_files"

lemma demo_enter: "enter_dir (dir_name demo_sign_env ''demo'') demo_files = demo_dir\<lparr>dk_io := []\<rparr>"
  by (simp add: enter_dir_def demo_files_def demo_dir_def)

lemma demo_step1: "store_export_batch demo_sign_env ''demo'' 3 1024 9 demo_sources demo_files = (demo_sources, demo_files, Inr (Some (0, demo_sent)))"
  by (simp add: store_export_batch_def on_stream_def demo_sources_def demo_enter demo_exports,
      simp add: leave_dir_def demo_files_def demo_dir_def)

lemma demo_acks: "export_ack 0 10 demo_stream (demo_dir\<lparr>dk_io := []\<rparr>) =
    (demo_stream\<lparr>st_exported := 0\<rparr>, demo_dir\<lparr>dk_meta := MetaFile (meta_of (demo_stream\<lparr>st_exported := 0\<rparr>))\<rparr>, Inr 0)"
  by (simp add: export_ack_def save_meta_def write_meta_def sio_take_def retire_def retire_entries_def evict_while.simps drop_segments_def
      dead_segments_def Let_def demo_stream_def new_stream_def demo_def_def expired_def exported_already_def demo_dir_def)

lemma demo_moved: "checkpoint ''demo'' (fst demo_turn) = Some 0"
proof -
  have "send_batch demo_sign_env demo_net (xp_config demo_exporter) demo_export = Inr ()"
    by (simp add: send_batch_def bearer_token_def demo_exporter_def demo_net_def ensure_def)
  moreover have "ba_last_sequence demo_export = 0" using build_export_last [OF demo_builds] by simp
  ultimately show ?thesis
    using demo_step1 demo_builds
    by (simp add: exporter_step_def Let_def demo_exporter_def store_export_ack_def on_stream_def demo_enter demo_acks checkpoint_def demo_sources_def)
qed

theorem checkpoint_after_delivery_witness:
  "\<exists>st1 fs1 lost ms. store_export_batch demo_sign_env ''demo'' 3 1024 9 demo_sources demo_files = (st1, fs1, Inr (Some (lost, ms))) \<and>
     checkpoint ''demo'' (fst demo_turn) = Some (int (sm_sequence (last ms)))"
proof -
  have x: "xp_stream demo_exporter = ''demo''" "ex_batch_max_messages (xp_config demo_exporter) = 3"
    "ex_batch_max_bytes (xp_config demo_exporter) = 1024" by (simp_all add: demo_exporter_def)
  have "checkpoint ''demo'' demo_sources = Some (-1)" by (simp add: checkpoint_def demo_sources_def demo_stream_def new_stream_def)
  then have "checkpoint (xp_stream demo_exporter) (fst demo_turn) \<noteq> checkpoint (xp_stream demo_exporter) demo_sources"
    using demo_moved x by simp
  from checkpoint_after_delivery [OF surj_pair3 _ this] show ?thesis unfolding x by auto
qed

section \<open>Backing off\<close>

text \<open>
  A loop that retries: a failed turn doubles the back-off up to a cap, some turns reset it, the others
  leave it alone. The pause after a failure is the back-off before it.
\<close>

locale retry_loop =
  fixes turn :: "'r \<Rightarrow> nat \<Rightarrow> nat"
    and failed :: "'r \<Rightarrow> bool"
    and resets :: "'r \<Rightarrow> bool"
    and cap :: nat
  assumes doubles: "failed r \<Longrightarrow> turn r b = min (b * 2) cap"
    and starts_over: "resets r \<Longrightarrow> turn r b = 1"
    and keeps: "\<not> failed r \<Longrightarrow> \<not> resets r \<Longrightarrow> turn r b = b"
begin

definition streak :: "'r list \<Rightarrow> nat" where
  "streak rs = length (filter failed (takeWhile (\<lambda>r. \<not> resets r) (rev rs)))"

lemma backoff_after:
  assumes cap: "1 \<le> cap"
  shows "fold turn rs 1 = min (2 ^ streak rs) cap"
proof (induction rs rule: rev_induct)
  case Nil
  then show ?case using cap by (simp add: streak_def)
next
  case (snoc r rs)
  consider "resets r" | "\<not> resets r" "failed r" | "\<not> resets r" "\<not> failed r" by blast
  then show ?case
  proof cases
    case 1
    then show ?thesis using cap starts_over by (simp add: streak_def)
  next
    case 2
    then have "streak (rs @ [r]) = Suc (streak rs)" by (simp add: streak_def)
    then show ?thesis using snoc doubles [OF 2(2)] by (simp add: min_def)
  next
    case 3
    then have "streak (rs @ [r]) = streak rs" by (simp add: streak_def)
    then show ?thesis using snoc keeps [OF 3(2,1)] by simp
  qed
qed

end

text \<open>The back-off of the export loop and of the synchronizer as functions of their results.\<close>

definition export_backoff :: "export_config \<Rightarrow> (export_error, bool) result \<times> nat \<Rightarrow> nat \<Rightarrow> nat" where
  "export_backoff cfg t b = lo_backoff (fst (export_turn cfg (fst t) (snd t) (export_loop_start\<lparr>lo_backoff := b\<rparr>)))"

interpretation export_retry: retry_loop "export_backoff cfg" "\<lambda>t. isl (fst t)" "\<lambda>t. fst t = Inr True" "ex_max_backoff_seconds cfg"
  by unfold_locales (auto simp: export_backoff_def export_turn_def export_loop_start_def Let_def isl_def split: sum.splits bool.splits)

interpretation sync_retry: retry_loop "\<lambda>failed b. fst (sync_turn interval max_backoff failed b)" "\<lambda>failed. failed" "\<lambda>failed. \<not> failed" max_backoff
  by unfold_locales (auto simp: sync_turn_def)

lemma lo_backoff_turn: "lo_backoff (fst (export_turn cfg r now lo)) = export_backoff cfg (r, now) (lo_backoff lo)"
  by (auto simp: export_turn_def export_backoff_def export_loop_start_def Let_def split: sum.splits bool.splits)

definition export_turns :: "export_config \<Rightarrow> ((export_error, bool) result \<times> nat) list \<Rightarrow> export_loop" where
  "export_turns cfg ts = fold (\<lambda>(r, now) lo. fst (export_turn cfg r now lo)) ts export_loop_start"

lemma export_turns_backoff: "lo_backoff (export_turns cfg ts) = fold (export_backoff cfg) ts 1"
proof (induction ts rule: rev_induct)
  case (snoc t ts)
  then show ?case by (cases t) (simp add: export_turns_def lo_backoff_turn)
qed (simp add: export_turns_def export_loop_start_def)

definition failures_since_delivery :: "((export_error, bool) result \<times> nat) list \<Rightarrow> nat" where
  "failures_since_delivery ts = length (filter (\<lambda>t. isl (fst t)) (takeWhile (\<lambda>t. fst t \<noteq> Inr True) (rev ts)))"

text \<open>
  After any history of turns the pause the export loop makes on the next failure is two to the
  number of failures since the last delivered batch, in seconds, capped by the configured maximum. With
  a validated configuration it is between one second and an hour, so the doubling never overflows.
\<close>

theorem export_pause_bounded:
  assumes "validate_export env cfg = Inr ()"
  shows "snd (export_turn cfg (Inl e) now (export_turns cfg ts)) = min (2 ^ failures_since_delivery ts) (ex_max_backoff_seconds cfg) \<and>
    1 \<le> snd (export_turn cfg (Inl e) now (export_turns cfg ts)) \<and> snd (export_turn cfg (Inl e) now (export_turns cfg ts)) \<le> 3600"
proof -
  have cap: "1 \<le> ex_max_backoff_seconds cfg" "ex_max_backoff_seconds cfg \<le> 3600"
    using assms by (auto simp: validate_export_def Let_def ensure_def split: if_splits option.splits)
  have "snd (export_turn cfg (Inl e) now (export_turns cfg ts)) = lo_backoff (export_turns cfg ts)"
    by (simp add: export_turn_def Let_def)
  also have "\<dots> = min (2 ^ failures_since_delivery ts) (ex_max_backoff_seconds cfg)"
    unfolding export_turns_backoff export_retry.backoff_after [OF cap(1)]
    by (simp add: export_retry.streak_def failures_since_delivery_def)
  finally show ?thesis using cap by simp
qed

text \<open>The environment of the example with a parser for one URL.\<close>

theorem export_pause_bounded_witness:
  "snd (export_turn (xp_config demo_exporter) (Inl EmptyBatch) 7
     (export_turns (xp_config demo_exporter) [(Inl EmptyBatch, 1), (Inr True, 2), (Inl EmptyBatch, 3), (Inr False, 4), (Inl SigningFailed, 5)])) = 4"
proof -
  have "validate_export (demo_sign_env\<lparr>parse_url := (\<lambda>_. Some \<lparr>url_scheme = ''https'', url_has_host = True, url_username = [],
      url_password = None, url_without_query = []\<rparr>)\<rparr>) (xp_config demo_exporter) = Inr ()"
    by (simp add: validate_export_def demo_exporter_def ensure_def)
  from export_pause_bounded [OF this] show ?thesis by (simp add: failures_since_delivery_def demo_exporter_def)
qed

end
