(* ===== verification/Admission.thy ===== *)
theory Admission
  imports Json
begin

text \<open>
  When a deployment may be applied (\<open>control.rs\<close>): the control a fleet sets on it, recurring weekly
  maintenance windows in a time zone, and the reason it is put off. Times are 64-bit milliseconds. The
  calendar library is a parameter: its zones, the offsets of a local time and the transitions of a
  zone; a date is the number of days since 1 January 1970.
\<close>

section \<open>Controls\<close>

record control =
  ct_revision :: u64
  ct_state :: nat
  ct_not_before_ms :: u64
  ct_expires_ms :: u64
  ct_window_start_ms :: u64
  ct_window_end_ms :: u64
  ct_notice_ms :: u64

fun digits_value :: "nat \<Rightarrow> string \<Rightarrow> nat option" where
  "digits_value acc [] = Some acc"
| "digits_value acc (c # cs) = (if is_ascii_digit c then digits_value (10 * acc + (byte c - 48)) cs else None)"

text \<open>\<open>str::parse::<u64>\<close>.\<close>

definition parse_u64 :: "string \<Rightarrow> nat option" where
  "parse_u64 s =
     (let t = (case s of CHR ''+'' # r \<Rightarrow> r | _ \<Rightarrow> s) in
      if t = [] then None else Option.bind (digits_value 0 t) (\<lambda>n. if n \<le> u64_max then Some n else None))"

definition float_u64 :: "rat \<Rightarrow> nat option" where
  "float_u64 x = (if 0 \<le> x \<and> x \<le> 9007199254740991 \<and> of_int \<lfloor>x\<rfloor> = x then Some (nat \<lfloor>x\<rfloor>) else None)"

definition control_number :: "json \<Rightarrow> nat option" where
  "control_number v = (case v of
     JNum (PosInt n) \<Rightarrow> Some n
   | JStr s \<Rightarrow> parse_u64 s
   | JNum (Float x) \<Rightarrow> float_u64 x
   | _ \<Rightarrow> None)"

definition control_byte :: "json \<Rightarrow> nat option" where
  "control_byte v = Option.bind (control_number v) (\<lambda>n. if n < 256 then Some n else None)"

definition control_minutes :: "json \<Rightarrow> nat option" where
  "control_minutes v = Option.bind (control_number v) (\<lambda>n. if n < 65536 then Some n else None)"

section \<open>Recurring windows\<close>

record weekly_slot =
  ws_days :: nat
  ws_start_minute :: nat
  ws_duration_minutes :: nat

record recurring =
  rc_revision :: u64
  rc_timezone :: string
  rc_slots :: "weekly_slot list"

datatype ambiguous = Unambiguous int | Fold int int | Gap int int

record zone =
  zn_unknown :: bool
  zn_iana_name :: "string option"
  zn_date_at :: "int \<Rightarrow> int"
  zn_offset :: "int \<Rightarrow> nat \<Rightarrow> ambiguous"
  zn_following :: "int \<Rightarrow> int option"

record calendar =
  cal_zone :: "string \<Rightarrow> zone option"
  cal_timestamps :: "int \<times> int"
  cal_dates :: "int \<times> int"

definition DEVICE_LOCAL :: string where
  "DEVICE_LOCAL = ''device-local''"

definition lookup_zone :: "calendar \<Rightarrow> string \<Rightarrow> (string, zone) result" where
  "lookup_zone cal name =
     (if name = DEVICE_LOCAL then Inl ''device-local timezone not supported''
      else case cal_zone cal name of None \<Rightarrow> Inl ''unknown timezone''
      | Some z \<Rightarrow> ensure (\<not> zn_unknown z \<and> zn_iana_name z = Some name) ''unknown timezone'' (Inr z))"

definition in_range :: "int \<times> int \<Rightarrow> int \<Rightarrow> int option" where
  "in_range r x = (if fst r \<le> x \<and> x \<le> snd r then Some x else None)"

text \<open>\<open>Offset::to_timestamp\<close> of a local minute, in milliseconds; the offset is in seconds.\<close>

definition to_timestamp :: "calendar \<Rightarrow> int \<Rightarrow> int \<Rightarrow> nat \<Rightarrow> int option" where
  "to_timestamp cal offset date minute = in_range (cal_timestamps cal) ((date * 86400 + int minute * 60 - offset) * 1000)"

definition slot_opening :: "calendar \<Rightarrow> zone \<Rightarrow> int \<Rightarrow> nat \<Rightarrow> int option" where
  "slot_opening cal z date minute =
     (let earliest = (\<lambda>a b. Option.bind (to_timestamp cal a date minute) (\<lambda>x.
            Option.bind (to_timestamp cal b date minute) (\<lambda>y. Some (min x y)))) in
      case zn_offset z date minute of
        Unambiguous offset \<Rightarrow> to_timestamp cal offset date minute
      | Fold a b \<Rightarrow> earliest a b
      | Gap a b \<Rightarrow> Option.bind (earliest a b) (zn_following z))"

definition slot_valid :: "weekly_slot \<Rightarrow> bool" where
  "slot_valid s \<longleftrightarrow> 1 \<le> ws_days s \<and> ws_days s < 128 \<and> ws_start_minute s < 1440
     \<and> 1 \<le> ws_duration_minutes s \<and> ws_duration_minutes s \<le> 1440"

abbreviation invalid_window :: string where
  "invalid_window \<equiv> ''invalid recurring maintenance window''"

definition recurring_check :: "calendar \<Rightarrow> recurring \<Rightarrow> (string, zone) result" where
  "recurring_check cal r =
     ensure (1 \<le> length (rc_timezone r) \<and> length (rc_timezone r) \<le> 64 \<and> 1 \<le> length (rc_slots r) \<and> length (rc_slots r) \<le> 8
         \<and> list_all slot_valid (rc_slots r)) invalid_window
       (lookup_zone cal (rc_timezone r))"

text \<open>Monday is 0; 1 January 1970 was a Thursday.\<close>

definition weekday :: "int \<Rightarrow> nat" where
  "weekday date = nat ((date + 3) mod 7)"

type_synonym span = "u64 \<times> u64"

definition slot_span :: "calendar \<Rightarrow> zone \<Rightarrow> int \<Rightarrow> weekly_slot \<Rightarrow> (string, span) result" where
  "slot_span cal z date s = (case slot_opening cal z date (ws_start_minute s) of
     None \<Rightarrow> Inl invalid_window
   | Some t \<Rightarrow> ensure (0 \<le> t) invalid_window
       (let opens = of_int t in Inr (opens, opens + of_nat (ws_duration_minutes s) * 60000)))"

definition day_spans :: "calendar \<Rightarrow> zone \<Rightarrow> weekly_slot list \<Rightarrow> int \<Rightarrow> (string, span list) result" where
  "day_spans cal z slots date = res_map (slot_span cal z date) (filter (\<lambda>s. bit (ws_days s) (weekday date)) slots)"

definition date_plus :: "calendar \<Rightarrow> int \<Rightarrow> int \<Rightarrow> (string, int) result" where
  "date_plus cal date n = (case in_range (cal_dates cal) (date + n) of None \<Rightarrow> Inl invalid_window | Some d \<Rightarrow> Inr d)"

fun days_spans :: "calendar \<Rightarrow> zone \<Rightarrow> weekly_slot list \<Rightarrow> nat \<Rightarrow> int \<Rightarrow> (string, span list) result" where
  "days_spans cal z slots 0 date = Inr []"
| "days_spans cal z slots (Suc n) date =
     res_bind (day_spans cal z slots date) (\<lambda>a.
       res_bind (date_plus cal date 1) (\<lambda>date.
         res_bind (days_spans cal z slots n date) (\<lambda>b. Inr (a @ b))))"

definition recurring_spans :: "calendar \<Rightarrow> recurring \<Rightarrow> u64 \<Rightarrow> (string, span list) result" where
  "recurring_spans cal r now =
     res_bind (recurring_check cal r) (\<lambda>z.
       ensure (unat now < 2 ^ 63 \<and> in_range (cal_timestamps cal) (int (unat now)) \<noteq> None) invalid_window
         (res_bind (date_plus cal (zn_date_at z (int (unat now))) (- 1)) (\<lambda>date.
           res_bind (date_plus cal date (- 1)) (\<lambda>date. days_spans cal z (rc_slots r) 10 date))))"

text \<open>The merging loop, with the spans merged so far in reverse order.\<close>

fun merge_spans :: "span list \<Rightarrow> span list \<Rightarrow> span list" where
  "merge_spans acc [] = rev acc"
| "merge_spans [] (s # ss) = merge_spans [s] ss"
| "merge_spans ((a, b) # acc) ((opens, closes) # ss) =
     (if opens \<le> b then merge_spans ((a, max b closes) # acc) ss else merge_spans ((opens, closes) # (a, b) # acc) ss)"

definition sort_spans :: "span list \<Rightarrow> span list" where
  "sort_spans ss = sort_key fst (sort_key snd ss)"

definition occurrence :: "calendar \<Rightarrow> recurring \<Rightarrow> u64 \<Rightarrow> (string, span) result" where
  "occurrence cal r now =
     res_bind (recurring_spans cal r now) (\<lambda>spans.
       case find (\<lambda>s. now < snd s) (merge_spans [] (sort_spans spans)) of
         None \<Rightarrow> Inl invalid_window | Some s \<Rightarrow> Inr s)"

section \<open>Admission\<close>

record deferred =
  df_control :: control
  df_recurring :: "recurring option"
  df_notified_ms :: u64
  df_reason :: string
  df_terminal :: bool
  df_next_window_ms :: "u64 option"
  df_tzdb :: "string option"

datatype control_error = BadState | BadExpiry | BadWindow | BadNotice

definition recurring_reason :: "calendar \<Rightarrow> recurring option \<Rightarrow> u64 \<Rightarrow> string option" where
  "recurring_reason cal rec now = (case rec of None \<Rightarrow> None
     | Some r \<Rightarrow> (case occurrence cal r now of Inl e \<Rightarrow> Some e
         | Inr (opens, _) \<Rightarrow> if now < opens then Some ''outside recurring maintenance window'' else None))"

definition control_reason :: "calendar \<Rightarrow> control \<Rightarrow> u64 \<Rightarrow> u64 \<Rightarrow> recurring option \<Rightarrow> (control_error, string option) result" where
  "control_reason cal c now notified rec =
     ensure (ct_state c \<le> 2) BadState
    (ensure (ct_expires_ms c = 0 \<or> ct_not_before_ms c < ct_expires_ms c) BadExpiry
    (ensure (ct_window_start_ms c = 0 \<and> ct_window_end_ms c = 0 \<or> ct_window_start_ms c < ct_window_end_ms c) BadWindow
    (ensure (ct_notice_ms c \<le> 604800000) BadNotice
      (Inr
        (if ct_state c = 2 then Some ''cancelled''
         else if ct_expires_ms c \<noteq> 0 \<and> ct_expires_ms c \<le> now then Some ''expired''
         else if ct_state c = 1 then Some ''paused''
         else if now < ct_not_before_ms c then Some ''not yet scheduled''
         else if ct_window_end_ms c \<noteq> 0 \<and> (now < ct_window_start_ms c \<or> ct_window_end_ms c \<le> now) then Some ''outside maintenance window''
         else case recurring_reason cal rec now of Some e \<Rightarrow> Some e
         | None \<Rightarrow> if now < saturating_add notified (ct_notice_ms c) then Some ''advance notice'' else None)))))"

section \<open>Merged windows\<close>

text \<open>Membership in a span, the half-open interval of instants.\<close>

definition in_span :: "u64 \<Rightarrow> span \<Rightarrow> bool" where
  "in_span t s \<longleftrightarrow> fst s \<le> t \<and> t < snd s"

text \<open>
  Spans in \<open>merged\<close> stand for the ones in \<open>spans\<close>: they ascend, cover nothing else, and every original
  span lies in one of them.
\<close>

definition stands_for :: "span list \<Rightarrow> span set \<Rightarrow> bool" where
  "stands_for merged spans \<longleftrightarrow> sorted (map fst merged) \<and>
     (\<forall>m \<in> set merged. \<forall>t. in_span t m \<longrightarrow> (\<exists>s \<in> spans. in_span t s)) \<and>
     (\<forall>s \<in> spans. \<exists>m \<in> set merged. fst m \<le> fst s \<and> snd s \<le> snd m)"

lemma stands_forD:
  assumes "stands_for merged spans"
  shows "sorted (map fst merged)" and "m \<in> set merged \<Longrightarrow> in_span t m \<Longrightarrow> \<exists>s \<in> spans. in_span t s"
    and "s \<in> spans \<Longrightarrow> \<exists>m \<in> set merged. fst m \<le> fst s \<and> snd s \<le> snd m"
  using assms unfolding stands_for_def by blast+

lemma stands_for_extend:
  assumes old: "stands_for (xs @ [(a, b)]) S" and "a \<le> opens" and "opens \<le> b"
  shows "stands_for (xs @ [(a, max b closes)]) (insert (opens, closes) S)"
  unfolding stands_for_def
proof (intro conjI ballI allI impI)
  show "sorted (map fst (xs @ [(a, max b closes)]))" using stands_forD(1) [OF old] by simp
  show "\<exists>s \<in> insert (opens, closes) S. in_span t s" if m: "m \<in> set (xs @ [(a, max b closes)])" and t: "in_span t m" for m t
  proof (cases "m \<in> set xs")
    case True
    then show ?thesis using stands_forD(2) [OF old, of m t] t by auto
  next
    case False
    then have t': "a \<le> t" "t < max b closes" using m t by (auto simp: in_span_def)
    show ?thesis
    proof (cases "t < b")
      case True
      then show ?thesis using stands_forD(2) [OF old, of "(a, b)" t] t'(1) by (auto simp: in_span_def)
    next
      case False
      then have "in_span t (opens, closes)" using t' assms(3) by (auto simp: in_span_def max_def split: if_splits)
      then show ?thesis by blast
    qed
  qed
  show "\<exists>m \<in> set (xs @ [(a, max b closes)]). fst m \<le> fst s \<and> snd s \<le> snd m" if s: "s \<in> insert (opens, closes) S" for s
  proof (cases "s = (opens, closes)")
    case True
    then show ?thesis using assms(2) by simp
  next
    case False
    then obtain m where "m \<in> set (xs @ [(a, b)])" "fst m \<le> fst s" "snd s \<le> snd m" using stands_forD(3) [OF old, of s] s by blast
    then show ?thesis by (cases "m \<in> set xs") (auto intro: le_max_iff_disj [THEN iffD2])
  qed
qed

lemma stands_for_append:
  assumes "stands_for xs S" and "\<forall>m \<in> set xs. fst m \<le> fst s"
  shows "stands_for (xs @ [s]) (insert s S)"
  unfolding stands_for_def
proof (intro conjI ballI allI impI)
  show "sorted (map fst (xs @ [s]))" using stands_forD(1) [OF assms(1)] assms(2) by (simp add: sorted_append)
  show "\<exists>q \<in> insert s S. in_span t q" if "m \<in> set (xs @ [s])" "in_span t m" for m t
    using stands_forD(2) [OF assms(1), of m t] that by auto
  show "\<exists>m \<in> set (xs @ [s]). fst m \<le> fst q \<and> snd q \<le> snd m" if "q \<in> insert s S" for q
    using stands_forD(3) [OF assms(1), of q] that by auto
qed

lemma stands_for_merge:
  "stands_for (rev acc) S \<Longrightarrow> sorted (map fst ss) \<Longrightarrow> (\<forall>m \<in> set acc. \<forall>s \<in> set ss. fst m \<le> fst s) \<Longrightarrow>
    stands_for (merge_spans acc ss) (S \<union> set ss)"
proof (induction acc ss arbitrary: S rule: merge_spans.induct)
  case (1 acc)
  then show ?case by simp
next
  case (2 s ss)
  have "stands_for (rev [s]) (insert s S)" using stands_for_append [of "[]" S s] 2(2) by simp
  from 2(1) [OF this] 2(3) show ?case by simp
next
  case (3 a b acc opens closes ss)
  have ord: "sorted (map fst ss)" "\<forall>s \<in> set ss. opens \<le> fst s" "a \<le> opens" "\<forall>m \<in> set (rev ((a, b) # acc)). fst m \<le> opens"
    using 3(4,5) by auto
  show ?case
  proof (cases "opens \<le> b")
    case True
    have "stands_for (rev ((a, max b closes) # acc)) (insert (opens, closes) S)"
      using stands_for_extend [of "rev acc" a b S opens closes] 3(3) True ord(3) by simp
    from 3(1) [OF True this ord(1)] show ?thesis using 3(5) True by simp
  next
    case False
    have "stands_for (rev ((opens, closes) # (a, b) # acc)) (insert (opens, closes) S)"
      using stands_for_append [of "rev ((a, b) # acc)" S "(opens, closes)"] 3(3) ord(4) by simp
    from 3(2) [OF False this ord(1)] show ?thesis using 3(5) False ord(2) by simp
  qed
qed

lemma merge_spans_stands_for: "stands_for (merge_spans [] (sort_spans spans)) (set spans)"
  using stands_for_merge [of "[]" "{}" "sort_spans spans"] by (simp add: stands_for_def sort_spans_def)


text \<open>A zone without offset and an hour every Monday morning; the instant is a Wednesday.\<close>

definition demo_calendar :: calendar where
  "demo_calendar = \<lparr>cal_zone = (\<lambda>n. Some \<lparr>zn_unknown = False, zn_iana_name = Some n, zn_date_at = (\<lambda>t. t div 86400000),
     zn_offset = (\<lambda>_ _. Unambiguous 0), zn_following = (\<lambda>_. None)\<rparr>),
     cal_timestamps = (-1000000000000, 1000000000000), cal_dates = (-10000, 10000)\<rparr>"

definition demo_weekly :: recurring where
  "demo_weekly = \<lparr>rc_revision = 1, rc_timezone = ''Etc/UTC'', rc_slots = [\<lparr>ws_days = 1, ws_start_minute = 0, ws_duration_minutes = 60\<rparr>]\<rparr>"

lemma days_spans_numeral [simp]:
  "days_spans cal z slots (numeral k) date =
     res_bind (day_spans cal z slots date) (\<lambda>a. res_bind (date_plus cal date 1) (\<lambda>date.
       res_bind (days_spans cal z slots (pred_numeral k) date) (\<lambda>b. Inr (a @ b))))"
  by (simp add: numeral_eq_Suc)

lemma demo_spans: "recurring_spans demo_calendar demo_weekly 1728000000 = Inr [(1555200000, 1558800000), (2160000000, 2163600000)]"
  by (simp add: recurring_spans_def recurring_check_def lookup_zone_def demo_calendar_def demo_weekly_def DEVICE_LOCAL_def ensure_def
      slot_valid_def in_range_def date_plus_def day_spans_def weekday_def slot_span_def slot_opening_def to_timestamp_def
      bit_Suc_0_iff Let_def)

lemma demo_occurrence: "occurrence demo_calendar demo_weekly 1728000000 = Inr (2160000000, 2163600000)"
  by (simp add: occurrence_def demo_spans sort_spans_def)


end
