(* ===== verification/Cadence.thy ===== *)
theory Cadence
  imports Admission
begin

text \<open>
  When the daemon looks at the chain again (\<open>cadence.rs\<close>): remembered maintenance windows, the delay
  before the next poll and the bound on event discovery. Delays are 64-bit milliseconds with the
  wrap-around of release builds; the random number generator is a parameter.
\<close>

section \<open>Windows\<close>

record window =
  wn_start_ms :: u64
  wn_end_ms :: u64

definition capped_end :: "control \<Rightarrow> u64 \<Rightarrow> u64" where
  "capped_end c e = (if ct_expires_ms c = 0 then e else min e (ct_expires_ms c))"

definition window_control :: "control \<Rightarrow> window option" where
  "window_control c =
     (let e = capped_end c (ct_window_end_ms c) in
      if ct_state c \<noteq> 2 \<and> ct_window_start_ms c < e then Some \<lparr>wn_start_ms = ct_window_start_ms c, wn_end_ms = e\<rparr> else None)"

definition window_recurring :: "calendar \<Rightarrow> control \<Rightarrow> recurring option \<Rightarrow> u64 \<Rightarrow> window option" where
  "window_recurring cal c rec now = (case rec of None \<Rightarrow> None
     | Some r \<Rightarrow> (case occurrence cal r now of Inl _ \<Rightarrow> None
         | Inr (s, e) \<Rightarrow>
             (let e = capped_end c e in if ct_state c \<noteq> 2 \<and> s < e then Some \<lparr>wn_start_ms = s, wn_end_ms = e\<rparr> else None)))"

definition windows :: "calendar \<Rightarrow> control \<Rightarrow> recurring option \<Rightarrow> u64 \<Rightarrow> window list" where
  "windows cal c rec now = List.map_filter id [window_control c, window_recurring cal c rec now]"

definition window_active :: "u64 \<Rightarrow> window \<Rightarrow> bool" where
  "window_active now w \<longleftrightarrow> wn_start_ms w \<le> now \<and> now < wn_end_ms w"

definition coalesce :: "u64 \<Rightarrow> window \<Rightarrow> window option \<Rightarrow> window option" where
  "coalesce now w current = Some (case current of
     Some old \<Rightarrow> if now < wn_end_ms old
       then \<lparr>wn_start_ms = min (wn_start_ms old) (wn_start_ms w), wn_end_ms = max (wn_end_ms old) (wn_end_ms w)\<rparr> else w
   | None \<Rightarrow> w)"

definition remember :: "calendar \<Rightarrow> control \<Rightarrow> recurring option \<Rightarrow> u64 \<Rightarrow> window option \<Rightarrow> window option" where
  "remember cal c rec now current = fold (coalesce now) (filter (window_active now) (windows cal c rec now)) current"

definition window_delay :: "window \<Rightarrow> u64 \<Rightarrow> u64 \<Rightarrow> u64 option" where
  "window_delay w now fast =
     (if wn_end_ms w \<le> wn_start_ms w \<or> wn_end_ms w \<le> now then None
      else Some (if now < wn_start_ms w then wn_start_ms w - now else min fast (wn_end_ms w - now)))"

section \<open>The delay before the next poll\<close>

record poll_config =
  pc_poll_seconds :: u64
  pc_rollout_poll_seconds :: u64
  pc_event_discovery_seconds :: u64

record cadence =
  cd_failures :: nat
  cd_poll_started_ms :: u64

definition begin_poll :: "u64 \<Rightarrow> cadence \<Rightarrow> cadence" where
  "begin_poll now c = c\<lparr>cd_poll_started_ms := now\<rparr>"

text \<open>A \<open>Duration\<close> is its number of milliseconds.\<close>

definition post_apply_delay :: "poll_config \<Rightarrow> nat \<Rightarrow> bool \<Rightarrow> cadence \<Rightarrow> nat" where
  "post_apply_delay cfg normal pending c =
     (if pending \<and> cd_failures c = 0
      then min normal (unat (min (pc_rollout_poll_seconds cfg) (pc_poll_seconds cfg)) * 1000) else normal)"

definition record_poll :: "bool \<Rightarrow> cadence \<Rightarrow> cadence" where
  "record_poll success c = c\<lparr>cd_failures := (if success then 0 else min (cd_failures c + 1) (2 ^ 32 - 1))\<rparr>"

definition fast_interval :: "poll_config \<Rightarrow> u64" where
  "fast_interval cfg = min (pc_rollout_poll_seconds cfg) (pc_poll_seconds cfg) * 1000"

definition retry_cap :: "poll_config \<Rightarrow> nat \<Rightarrow> u64" where
  "retry_cap cfg failures =
     min (push_bit (min failures 12) 1000) (min (saturating_mul (pc_poll_seconds cfg) 2000) 3600000)"

definition shorten :: "u64 option \<Rightarrow> u64 \<Rightarrow> u64" where
  "shorten n delay = (case n of None \<Rightarrow> delay | Some x \<Rightarrow> min delay x)"

text \<open>The instant at which all temporal constraints of a deferred deployment are met.\<close>

definition admission_start :: "calendar \<Rightarrow> u64 \<Rightarrow> deferred \<Rightarrow> u64" where
  "admission_start cal now d =
     (let c = df_control d;
          start = max (max (ct_not_before_ms c) (ct_window_start_ms c)) (saturating_add (df_notified_ms d) (ct_notice_ms c)) in
      case df_recurring d of None \<Rightarrow> start
      | Some r \<Rightarrow> (case occurrence cal r (max start now) of Inl _ \<Rightarrow> start | Inr (opens, _) \<Rightarrow> max start opens))"

definition temporal_reasons :: "string list" where
  "temporal_reasons = [''not yet scheduled'', ''outside maintenance window'', ''outside recurring maintenance window'', ''advance notice'']"

definition ready_reasons :: "string list" where
  "ready_reasons = [''waiting for rollout eligibility'', ''ready for admission'']"

definition control_delay :: "calendar \<Rightarrow> u64 \<Rightarrow> u64 \<Rightarrow> u64 \<Rightarrow> deferred \<Rightarrow> u64 \<Rightarrow> u64" where
  "control_delay cal fast poll_started now d delay =
     (let c = df_control d;
          delay = fold (\<lambda>w. shorten (window_delay w now fast)) (windows cal c (df_recurring d) now) delay in
      if ct_state c \<noteq> 0 \<or> ct_expires_ms c \<noteq> 0 \<and> ct_expires_ms c \<le> now then delay
      else
        let start = admission_start cal now d;
            delay = (if now < start \<and> (ct_window_end_ms c = 0 \<or> start < ct_window_end_ms c) \<and> (ct_expires_ms c = 0 \<or> start < ct_expires_ms c)
                     then min delay (start - now) else delay);
            delay = (if df_reason d \<in> set temporal_reasons \<and> poll_started \<le> start
                        \<and> control_reason cal c now (df_notified_ms d) (df_recurring d) = Inr None then 1 else delay)
        in if df_reason d \<in> set ready_reasons then min delay fast else delay)"

definition cadence_delay :: "calendar \<Rightarrow> (u64 \<Rightarrow> u64 \<Rightarrow> u64) \<Rightarrow> poll_config \<Rightarrow> deferred list \<Rightarrow> u64 \<Rightarrow> window option \<Rightarrow> cadence \<Rightarrow> u64" where
  "cadence_delay cal rng cfg controls now window c =
     (if 0 < cd_failures c
      then let cap = retry_cap cfg (cd_failures c) in rng (cap div 2) cap
      else let fast = fast_interval cfg;
               delay = shorten (Option.bind window (\<lambda>w. window_delay w now fast)) (saturating_mul (pc_poll_seconds cfg) 1000);
               delay = fold (control_delay cal fast (cd_poll_started_ms c) now) (filter (\<lambda>d. \<not> df_terminal d) controls) delay
           in max delay 1)"

definition discovery_bound :: "calendar \<Rightarrow> poll_config \<Rightarrow> deferred list \<Rightarrow> u64 \<Rightarrow> window option \<Rightarrow> u64" where
  "discovery_bound cal cfg controls now window =
     (let fast = (case window of None \<Rightarrow> False | Some w \<Rightarrow> window_active now w) \<or>
            list_ex (\<lambda>d. list_ex (window_active now) (windows cal (df_control d) (df_recurring d) now) \<or>
              ct_state (df_control d) = 0 \<and> (ct_expires_ms (df_control d) = 0 \<or> now < ct_expires_ms (df_control d))
                \<and> df_reason d \<in> set ready_reasons) (filter (\<lambda>d. \<not> df_terminal d) controls) in
      if fast then min (min (pc_event_discovery_seconds cfg) (pc_rollout_poll_seconds cfg)) (pc_poll_seconds cfg)
      else pc_event_discovery_seconds cfg)"

section \<open>Delays only shrink\<close>

lemma shorten_le: "shorten n delay \<le> delay"
  by (auto simp: shorten_def split: option.splits)

lemma fold_shorten_le: "fold (\<lambda>w. shorten (f w)) ws delay \<le> delay"
proof (induction ws arbitrary: delay)
  case (Cons w ws)
  then show ?case using shorten_le [of "f w" delay] by (auto intro: order_trans)
qed simp

lemma unat_of_nat_u64: "k < 2 ^ 64 \<Longrightarrow> unat (of_nat k :: u64) = k"
  by (simp add: unsigned_of_nat take_bit_eq_mod)

lemma unat_max: "unat (max a b :: u64) = max (unat a) (unat b)"
  by (simp add: max_def word_le_nat_alt)

lemma unat_min: "unat (min a b :: u64) = min (unat a) (unat b)"
  by (simp add: min_def word_le_nat_alt)

lemma staged_le:
  fixes w :: u64
  assumes "w \<le> delay"
  shows "(let e = (if P then min w x else w); e = (if Q then 1 else e) in if R then min e f else e) \<le> max delay 1"
  using assms by (cases P; cases Q; cases R) (simp_all add: min.coboundedI1 max.coboundedI1)

lemma control_delay_le: "control_delay cal fast poll_started now d delay \<le> max delay 1"
proof -
  define w where "w = fold (\<lambda>w. shorten (window_delay w now fast)) (windows cal (df_control d) (df_recurring d) now) delay"
  have "w \<le> delay" unfolding w_def by (rule fold_shorten_le)
  then show ?thesis
    using staged_le [OF \<open>w \<le> delay\<close>, unfolded Let_def]
    unfolding control_delay_def Let_def w_def [symmetric] by (simp add: max.coboundedI1)
qed

lemma fold_control_delay_le: "fold (control_delay cal fast poll_started now) ds delay \<le> max delay 1"
proof (induction ds arbitrary: delay)
  case (Cons d ds)
  show ?case using Cons [of "control_delay cal fast poll_started now d delay"] control_delay_le [of cal fast poll_started now d delay]
    by (auto simp: max_def split: if_splits)
qed simp

lemma fold_control_delay_in:
  assumes "d \<in> set ds" and "\<And>delay. control_delay cal fast poll_started now d delay \<le> bound" and "1 \<le> bound"
  shows "fold (control_delay cal fast poll_started now) ds delay \<le> bound"
proof -
  obtain xs ys where ds: "ds = xs @ d # ys" using assms(1) by (meson split_list)
  let ?mid = "control_delay cal fast poll_started now d (fold (control_delay cal fast poll_started now) xs delay)"
  have "fold (control_delay cal fast poll_started now) ds delay \<le> max ?mid 1" unfolding ds by (simp add: fold_control_delay_le)
  also have "\<dots> \<le> bound" using assms(2,3) by simp
  finally show ?thesis .
qed

text \<open>
  C39: Between polls the daemon sleeps at least a millisecond and at most the configured interval. After
  failed polls it sleeps at most an hour, at most twice the interval and at most one second doubled once
  per failure, up to twelve times, and at least half of that.
\<close>

theorem cadence_delay_bounded:
  assumes rng: "\<And>a b. a \<le> b \<Longrightarrow> a \<le> rng a b \<and> rng a b \<le> b"
  shows "if cd_failures c = 0
    then 1 \<le> cadence_delay cal rng cfg ds now w c \<and>
      unat (cadence_delay cal rng cfg ds now w c) \<le> max 1 (min (unat (pc_poll_seconds cfg) * 1000) u64_max)
    else (let cap = min (1000 * 2 ^ min (cd_failures c) 12) (min (unat (pc_poll_seconds cfg) * 2000) 3600000) in
      cap div 2 \<le> unat (cadence_delay cal rng cfg ds now w c) \<and> unat (cadence_delay cal rng cfg ds now w c) \<le> cap)"
proof (cases "cd_failures c = 0")
  case True
  let ?start = "shorten (Option.bind w (\<lambda>w. window_delay w now (fast_interval cfg))) (saturating_mul (pc_poll_seconds cfg) 1000)"
  have "cadence_delay cal rng cfg ds now w c \<le> max ?start 1"
    using True fold_control_delay_le [of cal "fast_interval cfg" "cd_poll_started_ms c" now "filter (\<lambda>d. \<not> df_terminal d) ds" ?start]
    by (simp add: cadence_delay_def Let_def)
  also have "\<dots> \<le> max (saturating_mul (pc_poll_seconds cfg) 1000) 1" using shorten_le by (rule max.mono) simp
  finally have "unat (cadence_delay cal rng cfg ds now w c) \<le> unat (max (saturating_mul (pc_poll_seconds cfg) 1000) 1)"
    by (simp add: word_le_nat_alt)
  also have "\<dots> = max 1 (min (unat (pc_poll_seconds cfg) * 1000) u64_max)"
    by (simp add: unat_max unat_saturating_mul max.commute)
  finally show ?thesis using True by (simp add: cadence_delay_def Let_def)
next
  case False
  let ?cap = "retry_cap cfg (cd_failures c)"
  have "?cap div 2 \<le> ?cap" by (simp add: word_le_nat_alt unat_div)
  from rng [OF this] have r: "unat ?cap div 2 \<le> unat (cadence_delay cal rng cfg ds now w c)" "unat (cadence_delay cal rng cfg ds now w c) \<le> unat ?cap"
    using False by (simp_all add: cadence_delay_def Let_def word_le_nat_alt unat_div)
  have "unat (push_bit n (1000 :: u64)) = 1000 * 2 ^ n" if "n \<le> 12" for n
  proof -
    have "(2::nat) ^ n \<le> 2 ^ 12" using that by (intro power_increasing) auto
    then have "1000 * (2::nat) ^ n < 2 ^ 64" by simp
    moreover have "push_bit n (1000 :: u64) = of_nat (1000 * 2 ^ n)" by (simp add: push_bit_eq_mult)
    ultimately show ?thesis by (simp only: unat_of_nat_u64)
  qed
  then have "unat ?cap = min (1000 * 2 ^ min (cd_failures c) 12) (min (unat (pc_poll_seconds cfg) * 2000) 3600000)"
    by (simp add: retry_cap_def unat_min unat_saturating_mul u64_max_def)
  then show ?thesis using False r by simp
qed

theorem cadence_delay_bounded_witness:
  "500 \<le> unat (cadence_delay demo_calendar (\<lambda>a b. a) \<lparr>pc_poll_seconds = 60, pc_rollout_poll_seconds = 5, pc_event_discovery_seconds = 60\<rparr> []
     7 None \<lparr>cd_failures = 3, cd_poll_started_ms = 0\<rparr>)"
proof -
  have "\<And>a b :: u64. a \<le> b \<Longrightarrow> a \<le> a \<and> a \<le> b" by simp
  from cadence_delay_bounded [of "\<lambda>a b. a", OF this, where c = "\<lparr>cd_failures = 3, cd_poll_started_ms = 0\<rparr>" and cal = demo_calendar
    and cfg = "\<lparr>pc_poll_seconds = 60, pc_rollout_poll_seconds = 5, pc_event_discovery_seconds = 60\<rparr>" and ds = "[]" and now = 7 and w = None]
  show ?thesis by (simp add: Let_def)
qed

section \<open>Admissible work is not slept through\<close>

lemma u64_minus_mono: "now \<le> a \<Longrightarrow> a \<le> b \<Longrightarrow> a - now \<le> b - (now :: u64)"
  by (simp add: word_le_nat_alt unat_sub)

lemma u64_one_le_minus: "now < t \<Longrightarrow> 1 \<le> t - (now :: u64)"
  by (simp add: word_le_nat_alt word_less_nat_alt unat_sub)

lemma control_admits:
  assumes "control_reason cal c t notified None = Inr None"
  shows "ct_state c = 0" "ct_expires_ms c = 0 \<or> t < ct_expires_ms c" "ct_not_before_ms c \<le> t" "ct_window_start_ms c \<le> t"
    "ct_window_end_ms c = 0 \<or> t < ct_window_end_ms c" "saturating_add notified (ct_notice_ms c) \<le> t"
  using assms by (auto simp: control_reason_def ensure_def recurring_reason_def split: if_splits)

lemma control_admits_earlier:
  assumes "control_reason cal c t notified None = Inr None" and "now \<le> t" and "ct_not_before_ms c \<le> now" and "ct_window_start_ms c \<le> now"
    and "saturating_add notified (ct_notice_ms c) \<le> now"
  shows "control_reason cal c now notified None = Inr None"
  using assms by (auto simp: control_reason_def ensure_def recurring_reason_def split: if_splits)


definition demo_deferred :: deferred where
  "demo_deferred = \<lparr>df_control = \<lparr>ct_revision = 1, ct_state = 0, ct_not_before_ms = 500, ct_expires_ms = 0, ct_window_start_ms = 0,
     ct_window_end_ms = 0, ct_notice_ms = 10\<rparr>, df_recurring = None, df_notified_ms = 100, df_reason = ''not yet scheduled'', df_terminal = False,
     df_next_window_ms = None, df_tzdb = None\<rparr>"


end
