(* ===== verification/Deps.thy ===== *)
theory Deps
  imports Prelude
begin

text \<open>
  Component dependency resolution (\<open>suifleet-edge/src/deps.rs\<close>): requirement parsing, the
  backtracking search of \<open>Search::solve\<close>, the acceptance check of \<open>Search::complete\<close> and the
  deterministic topological order. The \<open>semver\<close> crate is a parameter: a record of the three
  functions the source calls. Error texts are values of \<open>conflict\<close> and \<open>deps_error\<close>
  carrying what the source formats into them.
\<close>

section \<open>The semver crate\<close>

record sv_version =
  sv_major :: nat
  sv_minor :: nat
  sv_patch :: nat
  sv_pre :: string
  sv_build :: string

datatype sv_op = GreaterEq | LessEq | Greater | Less | Exact | Caret | Tilde

record sv_comparator =
  cmp_op :: sv_op
  cmp_major :: nat
  cmp_minor :: "nat option"
  cmp_patch :: "nat option"
  cmp_pre :: string

text \<open>
  \<open>cmp_precedence\<close> is three-valued in the crate; the search only asks whether one version has
  strictly lower precedence than another.
\<close>

record semver =
  version_parse :: "string \<Rightarrow> sv_version option"
  req_star :: "sv_comparator list"
  req_matches :: "sv_comparator list \<Rightarrow> sv_version \<Rightarrow> bool"
  precedence_less :: "sv_version \<Rightarrow> sv_version \<Rightarrow> bool"

section \<open>Data\<close>

datatype kind = Hard | Soft

record dependency =
  dep_requirement :: string
  dep_kind :: kind

type_synonym dependencies = "(string, dependency) btree"

record component_dependency =
  version_requirement :: string
  dependency_type :: "string option"

record root =
  root_name :: string
  root_version :: string
  root_dependencies :: dependencies

record installed =
  inst_version :: string
  inst_dependencies :: dependencies
  inst_confirmed :: bool

datatype detail = Unavailable string | Ready dependencies

record candidate =
  cand_version :: string
  cand_detail :: "detail option"

type_synonym pool = "(string, candidate list) btree"

datatype need = NeedListing string | NeedDetail string string

datatype source = FromRoot | FromInstalled | FromCandidate

record planned =
  pl_name :: string
  pl_version :: string
  pl_source :: source
  pl_dependencies :: dependencies

record plan =
  plan_order :: "planned list"
  plan_omitted :: "string list"

datatype choice = Selected planned | Omitted

type_synonym assignment = "(string, choice) btree"

datatype conflict =
    NoVersion string "(string \<times> dependency) list" "(string \<times> bool) option" "(string \<times> string) list"
  | SelectedConflict string string string dependency choice
  | InstalledBroken string string string dependency string
  | Cycle "string list"
  | TopologicalPanic

datatype deps_error =
    InvalidRequirement string
  | BuildMetadata string
  | InvalidName string
  | SelfDependency string
  | UnsupportedType string
  | SearchLimit
  | Rejected "conflict option"
  | FuelExhausted

datatype abort = AbortNeed need | AbortLimit | AbortFuel

datatype step_result = StepPlan plan | StepNeed need

record search =
  search_steps :: nat
  search_conflict :: "conflict option"

definition SEARCH_LIMIT :: nat where
  "SEARCH_LIMIT = 10000"

section \<open>Names and requirements\<close>

definition valid_name :: "string \<Rightarrow> bool" where
  "valid_name name \<longleftrightarrow> name \<noteq> [] \<and> length name \<le> 128 \<and>
     (\<forall>b \<in> set name. is_ascii_alphanumeric b \<or> b \<in> set ''-_.'')"

definition requirement_ops :: "(string \<times> sv_op) list" where
  "requirement_ops = [(''>='', GreaterEq), (''<='', LessEq), (''>'', Greater), (''<'', Less),
     (''='', Exact), (''^'', Caret), (''~'', Tilde)]"

fun strip_op :: "(string \<times> sv_op) list \<Rightarrow> string \<Rightarrow> sv_op \<times> string" where
  "strip_op [] token = (Exact, token)"
| "strip_op ((p, op) # ops) token =
     (case strip_prefix p token of Some rest \<Rightarrow> (op, rest) | None \<Rightarrow> strip_op ops token)"

definition comparator_of :: "semver \<Rightarrow> string \<Rightarrow> string \<Rightarrow> (deps_error, sv_comparator) result" where
  "comparator_of sv text token =
     (let (op, version) = strip_op requirement_ops token in
      case version_parse sv version of
        None \<Rightarrow> Inl (InvalidRequirement text)
      | Some v \<Rightarrow> ensure (sv_build v = []) (BuildMetadata text)
          (Inr \<lparr>cmp_op = op, cmp_major = sv_major v, cmp_minor = Some (sv_minor v),
                cmp_patch = Some (sv_patch v), cmp_pre = sv_pre v\<rparr>))"

definition requirement :: "semver \<Rightarrow> string \<Rightarrow> (deps_error, sv_comparator list) result" where
  "requirement sv text =
     (if text = ''*'' then Inr (req_star sv)
      else res_map (comparator_of sv text) (split_on (CHR '' '') text))"

definition declared_kind :: "string option \<Rightarrow> (deps_error, kind) result" where
  "declared_kind t = (case t of None \<Rightarrow> Inr Hard
     | Some s \<Rightarrow> if s = ''HARD'' then Inr Hard else if s = ''SOFT'' then Inr Soft
         else Inl (UnsupportedType s))"

definition declare_one ::
  "semver \<Rightarrow> string \<Rightarrow> string \<times> component_dependency \<Rightarrow> dependencies \<Rightarrow> (deps_error, dependencies) result"
where
  "declare_one sv owner e acc = (case e of (name, d) \<Rightarrow>
     ensure (valid_name name) (InvalidName name)
      (ensure (name \<noteq> owner) (SelfDependency owner)
        (res_bind (requirement sv (version_requirement d)) (\<lambda>_.
          res_bind (declared_kind (dependency_type d)) (\<lambda>k.
            Inr (bt_insert name \<lparr>dep_requirement = version_requirement d, dep_kind = k\<rparr> acc))))))"

definition declared ::
  "semver \<Rightarrow> string \<Rightarrow> (string, component_dependency) btree option \<Rightarrow> (deps_error, dependencies) result"
where
  "declared sv owner ds = res_fold (declare_one sv owner) (case ds of None \<Rightarrow> [] | Some m \<Rightarrow> m) []"

definition dep_matches :: "semver \<Rightarrow> string \<Rightarrow> sv_version option \<Rightarrow> bool" where
  "dep_matches sv text version =
     (case (requirement sv text, version) of
        (Inr cs, Some v) \<Rightarrow> req_matches sv cs v
      | _ \<Rightarrow> False)"

fun satisfies :: "semver \<Rightarrow> choice \<Rightarrow> dependency \<Rightarrow> bool" where
  "satisfies sv (Selected p) d = dep_matches sv (dep_requirement d) (version_parse sv (pl_version p))"
| "satisfies sv Omitted d = (dep_kind d = Soft)"

fun choice_dependencies :: "choice \<Rightarrow> dependencies option" where
  "choice_dependencies (Selected p) = Some (pl_dependencies p)"
| "choice_dependencies Omitted = None"

definition planned_install :: "planned \<Rightarrow> bool" where
  "planned_install p \<longleftrightarrow> pl_source p \<noteq> FromInstalled"

text \<open>\<open>Pool::candidate_mut\<close> as the update of the first candidate with that version.\<close>

fun update_first :: "('a \<Rightarrow> bool) \<Rightarrow> ('a \<Rightarrow> 'a) \<Rightarrow> 'a list \<Rightarrow> 'a list" where
  "update_first P f [] = []"
| "update_first P f (x # xs) = (if P x then f x # xs else x # update_first P f xs)"

definition candidate_set_detail :: "string \<Rightarrow> string \<Rightarrow> detail \<Rightarrow> pool \<Rightarrow> pool" where
  "candidate_set_detail name version det p =
     bt_adjust name (update_first (\<lambda>c. cand_version c = version) (\<lambda>c. c\<lparr>cand_detail := Some det\<rparr>)) p"

section \<open>Topological order\<close>

definition selected_of :: "assignment \<Rightarrow> (string, planned) btree" where
  "selected_of assigned =
     List.map_filter (\<lambda>(name, c). case c of Selected p \<Rightarrow> Some (name, p) | Omitted \<Rightarrow> None) assigned"

definition topo_edges :: "(string, planned) btree \<Rightarrow> planned \<Rightarrow> string list" where
  "topo_edges selected p = filter (bt_has selected) (bt_keys (pl_dependencies p))"

definition topo_ready :: "(string, planned) btree \<Rightarrow> string list \<Rightarrow> (string \<times> planned) option" where
  "topo_ready selected ready =
     find (\<lambda>(name, p). name \<notin> set ready \<and> list_all (\<lambda>d. d \<in> set ready) (topo_edges selected p)) selected"

function follow_cycle ::
  "(string, planned) btree \<Rightarrow> string list \<Rightarrow> string list \<Rightarrow> string \<Rightarrow> (string list \<times> string) option"
where
  "follow_cycle selected ready path current =
     (if current \<in> set path then Some (path, current)
      else case map_of selected current of None \<Rightarrow> None
       | Some p \<Rightarrow> (case find (\<lambda>d. d \<notin> set ready) (topo_edges selected p) of None \<Rightarrow> None
         | Some d \<Rightarrow> follow_cycle selected ready (path @ [current]) d))"
  by pat_completeness auto
termination
proof (relation "measure (\<lambda>(selected, _, path, _). card (fst ` set selected - set path))", goal_cases)
  case 1
  show ?case by simp
next
  case (2 selected ready path current p d)
  then have "current \<in> fst ` set selected - set path"
    by (auto simp: map_of_eq_None_iff dest: map_of_SomeD intro: rev_image_eqI)
  then have "fst ` set selected - set (path @ [current]) \<subset> fst ` set selected - set path"
    by auto
  then show ?case by (simp add: psubset_card_mono)
qed

declare follow_cycle.simps [simp del]

definition report_cycle :: "(string, planned) btree \<Rightarrow> string list \<Rightarrow> conflict" where
  "report_cycle selected ready =
     (case find (\<lambda>name. name \<notin> set ready) (bt_keys selected) of None \<Rightarrow> TopologicalPanic
      | Some current \<Rightarrow> (case follow_cycle selected ready [] current of None \<Rightarrow> TopologicalPanic
         | Some (path, current) \<Rightarrow> Cycle (dropWhile (\<lambda>n. n \<noteq> current) path @ [current])))"

function topo_loop ::
  "(string, planned) btree \<Rightarrow> string list \<Rightarrow> planned list \<Rightarrow> (conflict, planned list) result"
where
  "topo_loop selected ready order =
     (if length order < length selected then
        (case topo_ready selected ready of
           None \<Rightarrow> Inl (report_cycle selected ready)
         | Some (name, p) \<Rightarrow> topo_loop selected (ready @ [name]) (order @ [p]))
      else Inr order)"
  by pat_completeness auto
termination
  by (relation "measure (\<lambda>(selected, _, order). length selected - length order)") auto

declare topo_loop.simps [simp del]

definition topological :: "assignment \<Rightarrow> (conflict, planned list) result" where
  "topological assigned = topo_loop (selected_of assigned) [] []"

section \<open>The search\<close>

definition search_fail :: "conflict \<Rightarrow> search \<Rightarrow> search" where
  "search_fail c st = (if search_conflict st = None then st\<lparr>search_conflict := Some c\<rparr> else st)"

definition next_name :: "assignment \<Rightarrow> string option" where
  "next_name assigned =
     (let names = filter (\<lambda>n. \<not> bt_has assigned n)
            (concat (map bt_keys (List.map_filter choice_dependencies (bt_values assigned))))
      in if names = [] then None else Some (Min (set names)))"

definition requirements_on :: "string \<Rightarrow> assignment \<Rightarrow> (string \<times> dependency) list" where
  "requirements_on name assigned =
     List.map_filter (\<lambda>(from, c). case choice_dependencies c of None \<Rightarrow> None
        | Some ds \<Rightarrow> map_option (Pair from) (map_of ds name)) assigned"

definition accepts :: "semver \<Rightarrow> (string \<times> dependency) list \<Rightarrow> sv_version option \<Rightarrow> bool" where
  "accepts sv reqs version \<longleftrightarrow> (\<forall>(_, d) \<in> set reqs. dep_matches sv (dep_requirement d) version)"

text \<open>
  An entry of \<open>options\<close>: a choice ready to be tried, or (\<open>None\<close> in the source, paired with the
  next entry of \<open>pending\<close>) a candidate whose details have not been loaded.
\<close>

datatype offer = Offer choice | Pending string

definition installed_offer ::
  "semver \<Rightarrow> string \<Rightarrow> (string \<times> dependency) list \<Rightarrow> installed option \<Rightarrow> offer list" where
  "installed_offer sv name reqs inst =
     (case inst of None \<Rightarrow> []
      | Some i \<Rightarrow> if inst_confirmed i \<and> accepts sv reqs (version_parse sv (inst_version i))
          then [Offer (Selected \<lparr>pl_name = name, pl_version = inst_version i,
                  pl_source = FromInstalled, pl_dependencies = inst_dependencies i\<rparr>)]
          else [])"

definition listed_before :: "semver \<Rightarrow> sv_version \<times> candidate \<Rightarrow> sv_version \<times> candidate \<Rightarrow> bool" where
  "listed_before sv x y \<longleftrightarrow> (case (x, y) of ((a, ca), (b, cb)) \<Rightarrow>
     precedence_less sv b a \<or> (\<not> precedence_less sv a b \<and> cand_version ca \<le> cand_version cb))"

fun insert_by :: "('a \<Rightarrow> 'a \<Rightarrow> bool) \<Rightarrow> 'a \<Rightarrow> 'a list \<Rightarrow> 'a list" where
  "insert_by le x [] = [x]"
| "insert_by le x (y # ys) = (if le x y then x # y # ys else y # insert_by le x ys)"

definition sort_by :: "('a \<Rightarrow> 'a \<Rightarrow> bool) \<Rightarrow> 'a list \<Rightarrow> 'a list" where
  "sort_by le xs = foldr (insert_by le) xs []"

definition listed_candidates ::
  "semver \<Rightarrow> (string \<times> dependency) list \<Rightarrow> candidate list \<Rightarrow> (sv_version \<times> candidate) list" where
  "listed_candidates sv reqs listing =
     sort_by (listed_before sv)
       (filter (\<lambda>(v, _). accepts sv reqs (Some v))
         (List.map_filter (\<lambda>c. map_option (\<lambda>v. (v, c)) (version_parse sv (cand_version c))) listing))"

definition is_installed_version :: "installed option \<Rightarrow> candidate \<Rightarrow> bool" where
  "is_installed_version inst c \<longleftrightarrow>
     (case inst of None \<Rightarrow> False | Some i \<Rightarrow> inst_confirmed i \<and> inst_version i = cand_version c)"

fun candidate_offer :: "string \<Rightarrow> candidate \<Rightarrow> offer option" where
  "candidate_offer name c =
     (case cand_detail c of None \<Rightarrow> Some (Pending (cand_version c))
      | Some (Unavailable reason) \<Rightarrow> None
      | Some (Ready ds) \<Rightarrow> Some (Offer (Selected \<lparr>pl_name = name, pl_version = cand_version c,
            pl_source = FromCandidate, pl_dependencies = ds\<rparr>)))"

fun candidate_unavailable :: "candidate \<Rightarrow> (string \<times> string) option" where
  "candidate_unavailable c =
     (case cand_detail c of Some (Unavailable reason) \<Rightarrow> Some (cand_version c, reason) | _ \<Rightarrow> None)"

definition fresh_candidates ::
  "semver \<Rightarrow> (string \<times> dependency) list \<Rightarrow> installed option \<Rightarrow> candidate list \<Rightarrow> candidate list" where
  "fresh_candidates sv reqs inst listing =
     filter (\<lambda>c. \<not> is_installed_version inst c) (map snd (listed_candidates sv reqs listing))"

definition omitted_offer :: "(string \<times> dependency) list \<Rightarrow> installed option \<Rightarrow> offer list" where
  "omitted_offer reqs inst =
     (if inst = None \<and> (\<forall>(_, d) \<in> set reqs. dep_kind d = Soft) then [Offer Omitted] else [])"

definition options_for ::
  "semver \<Rightarrow> string \<Rightarrow> (string \<times> dependency) list \<Rightarrow> installed option \<Rightarrow> candidate list \<Rightarrow> offer list" where
  "options_for sv name reqs inst listing =
     installed_offer sv name reqs inst
     @ List.map_filter (candidate_offer name) (fresh_candidates sv reqs inst listing)
     @ omitted_offer reqs inst"

definition find_broken :: "semver \<Rightarrow> choice \<Rightarrow> assignment \<Rightarrow> (string \<times> dependency) option" where
  "find_broken sv c assigned =
     (case choice_dependencies c of None \<Rightarrow> None
      | Some ds \<Rightarrow> find (\<lambda>(n, d). case map_of assigned n of None \<Rightarrow> False
                                 | Some chosen \<Rightarrow> \<not> satisfies sv chosen d) ds)"

fun choice_version :: "choice \<Rightarrow> string" where
  "choice_version (Selected p) = pl_version p"
| "choice_version Omitted = []"

type_synonym solve_out = "search \<times> assignment \<times> (abort, bool) result"

fun try_options ::
  "(search \<Rightarrow> assignment \<Rightarrow> solve_out) \<Rightarrow> semver \<Rightarrow> string \<Rightarrow> bool \<Rightarrow> offer list \<Rightarrow>
   search \<Rightarrow> assignment \<Rightarrow> solve_out"
where
  "try_options rec sv name available [] st assigned = (st, assigned, Inr False)"
| "try_options rec sv name available (Pending v # opts) st assigned =
     (st, assigned, Inl (AbortNeed (NeedDetail name v)))"
| "try_options rec sv name available (Offer c # opts) st assigned =
     (if c = Omitted \<and> available then try_options rec sv name available opts st assigned
      else let available' = (available \<or> c \<noteq> Omitted) in
        (case find_broken sv c assigned of
           Some (n, d) \<Rightarrow>
             try_options rec sv name available' opts
               (search_fail (SelectedConflict name (choice_version c) n d (the (map_of assigned n))) st)
               assigned
         | None \<Rightarrow>
             (case rec st (bt_insert name c assigned) of (st', assigned', r) \<Rightarrow>
               (case r of Inl a \<Rightarrow> (st', assigned', Inl a)
                | Inr True \<Rightarrow> (st', assigned', Inr True)
                | Inr False \<Rightarrow>
                    try_options rec sv name available' opts st' (bt_remove name assigned')))))"

definition broken_installed ::
  "semver \<Rightarrow> (string, installed) btree \<Rightarrow> assignment \<Rightarrow> conflict list" where
  "broken_installed sv inst assigned =
     concat (map (\<lambda>(owner, i).
       if bt_has assigned owner then []
       else List.map_filter (\<lambda>(n, d). case map_of assigned n of
              Some (Selected p) \<Rightarrow>
                if planned_install p \<and> \<not> satisfies sv (Selected p) d
                then Some (InstalledBroken owner (inst_version i) n d (pl_version p)) else None
            | _ \<Rightarrow> None) (inst_dependencies i)) inst)"

definition search_complete ::
  "semver \<Rightarrow> (string, installed) btree \<Rightarrow> search \<Rightarrow> assignment \<Rightarrow> search \<times> bool" where
  "search_complete sv inst st assigned =
     (case broken_installed sv inst assigned of
        c # _ \<Rightarrow> (search_fail c st, False)
      | [] \<Rightarrow> (case topological assigned of
           Inr _ \<Rightarrow> (st, True)
         | Inl c \<Rightarrow> (search_fail c st, False)))"

fun solve ::
  "nat \<Rightarrow> semver \<Rightarrow> (string, installed) btree \<Rightarrow> pool \<Rightarrow> search \<Rightarrow> assignment \<Rightarrow> solve_out"
where
  "solve 0 sv inst pool st assigned = (st, assigned, Inl AbortFuel)"
| "solve (Suc fuel) sv inst pool st assigned =
     (let st = st\<lparr>search_steps := Suc (search_steps st)\<rparr> in
      if SEARCH_LIMIT < search_steps st then (st, assigned, Inl AbortLimit)
      else case next_name assigned of
        None \<Rightarrow> (case search_complete sv inst st assigned of (st', ok) \<Rightarrow> (st', assigned, Inr ok))
      | Some name \<Rightarrow>
          (let reqs = requirements_on name assigned; i = map_of inst name in
           case map_of pool name of
             None \<Rightarrow> (st, assigned, Inl (AbortNeed (NeedListing name)))
           | Some listing \<Rightarrow>
               (let opts = options_for sv name reqs i listing in
                if opts = [] then
                  (search_fail (NoVersion name reqs
                      (map_option (\<lambda>x. (inst_version x, inst_confirmed x)) i)
                      (List.map_filter candidate_unavailable (fresh_candidates sv reqs i listing))) st,
                   assigned, Inr False)
                else try_options (solve fuel sv inst pool) sv name False opts st assigned)))"

definition root_planned :: "root \<Rightarrow> planned" where
  "root_planned root = \<lparr>pl_name = root_name root, pl_version = root_version root,
     pl_source = FromRoot, pl_dependencies = root_dependencies root\<rparr>"

definition omitted_names :: "assignment \<Rightarrow> string list" where
  "omitted_names assigned = map fst (filter (\<lambda>(_, c). c = Omitted) assigned)"

definition resolve ::
  "semver \<Rightarrow> root \<Rightarrow> (string, installed) btree \<Rightarrow> pool \<Rightarrow> (deps_error, step_result) result" where
  "resolve sv root inst pool =
     (case solve (Suc SEARCH_LIMIT) sv inst pool \<lparr>search_steps = 0, search_conflict = None\<rparr>
             [(root_name root, Selected (root_planned root))] of
        (st, assigned, r) \<Rightarrow>
          (case r of
             Inl (AbortNeed need) \<Rightarrow> Inr (StepNeed need)
           | Inl AbortLimit \<Rightarrow> Inl SearchLimit
           | Inl AbortFuel \<Rightarrow> Inl FuelExhausted
           | Inr True \<Rightarrow> (case topological assigned of
                 Inl c \<Rightarrow> Inl (Rejected (Some c))
               | Inr order \<Rightarrow> Inr (StepPlan \<lparr>plan_order = order, plan_omitted = omitted_names assigned\<rparr>))
           | Inr False \<Rightarrow> Inl (Rejected (search_conflict st))))"

section \<open>A concrete instance\<close>

text \<open>A small stand-in for the crate and a catalog, to evaluate the resolver on.\<close>

definition demo_version :: "string \<Rightarrow> sv_version option" where
  "demo_version s = (case split_on (CHR ''.'') s of
     [[a], [b], [c]] \<Rightarrow> if list_all is_ascii_digit [a, b, c]
       then Some \<lparr>sv_major = byte a - 48, sv_minor = byte b - 48, sv_patch = byte c - 48, sv_pre = [], sv_build = []\<rparr>
       else None
   | _ \<Rightarrow> None)"

definition demo_semver :: semver where
  "demo_semver = \<lparr>version_parse = demo_version, req_star = [],
     req_matches = (\<lambda>cs v. list_all (\<lambda>c. sv_major v = cmp_major c \<and> the (cmp_minor c) \<le> sv_minor v) cs),
     precedence_less = (\<lambda>a b. (sv_major a, sv_minor a, sv_patch a) < (sv_major b, sv_minor b, sv_patch b))\<rparr>"

definition demo_root :: root where
  "demo_root = \<lparr>root_name = ''app'', root_version = ''1.0.0'', root_dependencies =
     [(''lib'', \<lparr>dep_requirement = ''^1.1.0'', dep_kind = Hard\<rparr>),
      (''metrics'', \<lparr>dep_requirement = ''*'', dep_kind = Soft\<rparr>)]\<rparr>"

definition demo_pool :: pool where
  "demo_pool = [(''lib'', [\<lparr>cand_version = ''1.0.0'', cand_detail = Some (Ready [])\<rparr>,
      \<lparr>cand_version = ''1.2.0'', cand_detail = Some (Ready [])\<rparr>]), (''metrics'', [])]"

definition demo_plan :: plan where
  "demo_plan = \<lparr>plan_order = [\<lparr>pl_name = ''lib'', pl_version = ''1.2.0'', pl_source = FromCandidate, pl_dependencies = []\<rparr>,
       root_planned demo_root], plan_omitted = [''metrics'']\<rparr>"

definition demo_cycle :: assignment where
  "demo_cycle = [(''a'', Selected \<lparr>pl_name = ''a'', pl_version = ''1.0.0'', pl_source = FromRoot,
       pl_dependencies = [(''b'', \<lparr>dep_requirement = ''*'', dep_kind = Hard\<rparr>)]\<rparr>),
     (''b'', Selected \<lparr>pl_name = ''b'', pl_version = ''1.0.0'', pl_source = FromCandidate,
       pl_dependencies = [(''a'', \<lparr>dep_requirement = ''*'', dep_kind = Soft\<rparr>)]\<rparr>)]"

section \<open>Lemmas: topological order\<close>

text \<open>\<open>a \<rightarrow> b\<close>: the selected component \<open>a\<close> depends on the selected component \<open>b\<close>.\<close>

definition dep_edge :: "(string, planned) btree \<Rightarrow> string \<Rightarrow> string \<Rightarrow> bool" where
  "dep_edge selected a b \<longleftrightarrow> (\<exists>p. map_of selected a = Some p \<and> b \<in> set (topo_edges selected p))"

fun dep_chain :: "(string, planned) btree \<Rightarrow> string list \<Rightarrow> bool" where
  "dep_chain selected [] = True"
| "dep_chain selected [a] = True"
| "dep_chain selected (a # b # rest) = (dep_edge selected a b \<and> dep_chain selected (b # rest))"

lemma dep_chain_snoc:
  "dep_chain selected (xs @ [a]) \<Longrightarrow> dep_edge selected a b \<Longrightarrow> dep_chain selected (xs @ [a, b])"
  by (induction selected "xs @ [a]" arbitrary: xs rule: dep_chain.induct)
    (auto simp: append_eq_Cons_conv Cons_eq_append_conv)

lemma dep_chain_append: "dep_chain selected (xs @ ys) \<Longrightarrow> dep_chain selected ys"
proof (induction xs)
  case (Cons x xs)
  then show ?case by (cases "xs @ ys") auto
qed simp

lemma topo_edges_selected: "d \<in> set (topo_edges selected p) \<longleftrightarrow>
    d \<in> fst ` set (pl_dependencies p) \<and> bt_has selected d"
  by (auto simp: topo_edges_def)

lemma selected_of_mem: "(k, p) \<in> set (selected_of assigned) \<longleftrightarrow> (k, Selected p) \<in> set assigned"
  by (force simp: selected_of_def map_filter_def split: choice.splits)

lemma selected_of_keys: "fst ` set (selected_of assigned) \<subseteq> fst ` set assigned"
  by (force simp: selected_of_def map_filter_def split: choice.splits)

lemma selected_of_wf: "bt_wf assigned \<Longrightarrow> bt_wf (selected_of assigned)"
proof (induction assigned)
  case (Cons e a)
  obtain k c where e: "e = (k, c)" by (cases e)
  have wf: "bt_wf (selected_of a)" using Cons by (auto simp: bt_wf_Cons e)
  have "\<forall>k' \<in> fst ` set a. k < k'" using Cons.prems by (simp add: bt_wf_Cons e)
  then have "\<forall>k' \<in> fst ` set (selected_of a). k < k'" using selected_of_keys [of a] by blast
  with wf show ?case by (cases c) (auto simp: selected_of_def bt_wf_Cons e List.map_filter_simps)
qed (simp add: selected_of_def List.map_filter_simps)

lemma selected_of_get:
  "bt_wf assigned \<Longrightarrow> map_of (selected_of assigned) k = Some p \<longleftrightarrow> map_of assigned k = Some (Selected p)"
  by (simp add: bt_get_iff selected_of_wf selected_of_mem)

lemma topo_ready_Some:
  "topo_ready selected ready = Some (n, p) \<Longrightarrow>
     (n, p) \<in> set selected \<and> n \<notin> set ready \<and> set (topo_edges selected p) \<subseteq> set ready"
  by (auto simp: topo_ready_def find_Some_iff list_all_iff in_set_conv_nth)

lemma topo_ready_None:
  "topo_ready selected ready = None \<Longrightarrow> (n, p) \<in> set selected \<Longrightarrow> n \<notin> set ready \<Longrightarrow>
     \<exists>d \<in> set (topo_edges selected p). d \<notin> set ready"
  by (auto simp: topo_ready_def find_None_iff list_all_iff)

definition topo_inv :: "(string, planned) btree \<Rightarrow> string list \<Rightarrow> planned list \<Rightarrow> bool" where
  "topo_inv selected ready order \<longleftrightarrow> distinct ready \<and> length order = length ready \<and>
     (\<forall>i < length ready. (ready ! i, order ! i) \<in> set selected \<and>
        set (topo_edges selected (order ! i)) \<subseteq> set (take i ready))"

lemma topo_inv_step:
  assumes "topo_inv selected ready order" and "topo_ready selected ready = Some (n, p)"
  shows "topo_inv selected (ready @ [n]) (order @ [p])"
  using assms topo_ready_Some [OF assms(2)]
  by (auto simp: topo_inv_def nth_append less_Suc_eq)

lemma topo_loop_sound:
  "topo_loop selected ready order = Inr out \<Longrightarrow> topo_inv selected ready order \<Longrightarrow>
     \<exists>ready'. topo_inv selected ready' out \<and> length selected \<le> length out"
proof (induction selected ready order rule: topo_loop.induct)
  case (1 selected ready order)
  show ?case
  proof (cases "length order < length selected")
    case False
    with 1 show ?thesis by (auto simp: topo_loop.simps [of selected ready order])
  next
    case True
    with 1 obtain n p where np: "topo_ready selected ready = Some (n, p)"
      by (auto simp: topo_loop.simps [of selected ready order] split: option.splits)
    have "topo_loop selected (ready @ [n]) (order @ [p]) = Inr out"
      using 1(2) True np by (simp add: topo_loop.simps [of selected ready order])
    then show ?thesis
      using 1(1) [OF True np refl] topo_inv_step [OF 1(3) np] by blast
  qed
qed

lemma topo_inv_complete:
  assumes wf: "bt_wf selected" and inv: "topo_inv selected ready order"
    and full: "length selected \<le> length order"
  shows "set ready = fst ` set selected" and "set order = snd ` set selected"
proof -
  have sub: "set ready \<subseteq> fst ` set selected"
    using inv by (force simp: topo_inv_def in_set_conv_nth)
  have "card (set ready) = length order" using inv by (simp add: topo_inv_def distinct_card)
  moreover have "card (fst ` set selected) = length selected"
    using bt_wf_distinct [OF wf] distinct_card by fastforce
  ultimately show keys: "set ready = fst ` set selected"
    using sub full by (metis card_seteq finite_imageI List.finite_set)
  show "set order = snd ` set selected"
  proof
    show "set order \<subseteq> snd ` set selected"
      using inv by (force simp: topo_inv_def in_set_conv_nth)
    show "snd ` set selected \<subseteq> set order"
    proof
      fix p assume "p \<in> snd ` set selected"
      then obtain n where n: "(n, p) \<in> set selected" by auto
      then have "n \<in> set ready" using keys by force
      then obtain i where i: "i < length ready" "ready ! i = n"
        by (auto simp: in_set_conv_nth)
      then have "(n, order ! i) \<in> set selected" using inv by (auto simp: topo_inv_def)
      then have "order ! i = p" using n wf by (metis bt_get_iff option.inject)
      then show "p \<in> set order" using i inv by (auto simp: topo_inv_def)
    qed
  qed
qed

text \<open>Every component of a non-empty remainder waits on another: the walk closes a cycle.\<close>

lemma follow_cycle_chain:
  assumes "\<And>n p. (n, p) \<in> set selected \<Longrightarrow> n \<notin> set ready \<Longrightarrow>
             \<exists>d \<in> set (topo_edges selected p). d \<notin> set ready"
    and "dep_chain selected (path @ [current])" and "current \<notin> set ready"
    and "bt_has selected current"
  shows "\<exists>path' c. follow_cycle selected ready path current = Some (path', c)
     \<and> c \<in> set path' \<and> dep_chain selected (path' @ [c])"
  using assms
proof (induction selected ready path current rule: follow_cycle.induct)
  case (1 selected ready path current)
  show ?case
  proof (cases "current \<in> set path")
    case True
    with 1 show ?thesis by (auto simp: follow_cycle.simps [of selected ready path current])
  next
    case False
    from 1(5) obtain p where p: "map_of selected current = Some p" by auto
    then have "\<exists>d \<in> set (topo_edges selected p). d \<notin> set ready"
      using 1(2,4) map_of_SomeD by metis
    then have "find (\<lambda>d. d \<notin> set ready) (topo_edges selected p) \<noteq> None"
      by (auto simp: find_None_iff)
    then obtain d where d: "find (\<lambda>d. d \<notin> set ready) (topo_edges selected p) = Some d" by blast
    then have mem: "d \<in> set (topo_edges selected p)" "d \<notin> set ready"
      by (auto simp: find_Some_iff)
    then have "dep_chain selected ((path @ [current]) @ [d])"
      using 1(3) p by (simp add: dep_chain_snoc dep_edge_def)
    moreover have "bt_has selected d" using mem(1) by (simp add: topo_edges_selected)
    ultimately have "\<exists>path' c. follow_cycle selected ready (path @ [current]) d = Some (path', c)
       \<and> c \<in> set path' \<and> dep_chain selected (path' @ [c])"
      using 1(1) [OF False p d] 1(2) mem(2) by blast
    then show ?thesis
      using False p d by (simp add: follow_cycle.simps [of selected ready path current])
  qed
qed

definition is_cycle :: "(string, planned) btree \<Rightarrow> string list \<Rightarrow> bool" where
  "is_cycle selected c \<longleftrightarrow> 2 \<le> length c \<and> hd c = last c \<and> dep_chain selected c"

lemma report_cycle_genuine:
  assumes blocked: "topo_ready selected ready = None" and some: "n \<in> fst ` set selected" "n \<notin> set ready"
  shows "\<exists>c. report_cycle selected ready = Cycle c \<and> is_cycle selected c"
proof -
  have "find (\<lambda>name. name \<notin> set ready) (bt_keys selected) \<noteq> None"
    using some by (auto simp: find_None_iff)
  then obtain cur where cur: "find (\<lambda>name. name \<notin> set ready) (bt_keys selected) = Some cur" by blast
  then have "cur \<notin> set ready \<and> cur \<in> set (bt_keys selected)"
    unfolding find_Some_iff by (metis nth_mem)
  then have mem: "cur \<notin> set ready" "bt_has selected cur"
    unfolding bt_has_iff by auto
  obtain path c where pc: "follow_cycle selected ready [] cur = Some (path, c)"
    "c \<in> set path" "dep_chain selected (path @ [c])"
    using follow_cycle_chain [of selected ready "[]" cur] topo_ready_None [OF blocked] mem by auto
  have split: "path = takeWhile (\<lambda>n. n \<noteq> c) path @ dropWhile (\<lambda>n. n \<noteq> c) path" by simp
  obtain rest where rest: "dropWhile (\<lambda>n. n \<noteq> c) path = c # rest"
    using pc(2) by (metis (mono_tags, lifting) dropWhile_eq_Nil_conv hd_dropWhile list.exhaust_sel)
  have "dep_chain selected (dropWhile (\<lambda>n. n \<noteq> c) path @ [c])"
    using pc(3) split by (metis append.assoc dep_chain_append)
  then show ?thesis using cur pc(1) rest by (auto simp: report_cycle_def is_cycle_def)
qed

lemma topo_loop_error:
  "topo_loop selected ready order = Inl e \<Longrightarrow> topo_inv selected ready order \<Longrightarrow> bt_wf selected \<Longrightarrow>
     \<exists>c. e = Cycle c \<and> is_cycle selected c"
proof (induction selected ready order rule: topo_loop.induct)
  case (1 selected ready order)
  then have short: "length order < length selected"
    by (auto simp: topo_loop.simps [of selected ready order] split: if_splits)
  show ?case
  proof (cases "topo_ready selected ready")
    case None
    have "card (set ready) < card (fst ` set selected)"
      using short 1(3) distinct_card [OF bt_wf_distinct [OF 1(4)]] by (simp add: topo_inv_def distinct_card)
    then obtain n where "n \<in> fst ` set selected" "n \<notin> set ready"
      by (metis List.finite_set card_mono not_less subsetI)
    from report_cycle_genuine [OF None this] show ?thesis
      using 1(2) None short by (simp add: topo_loop.simps [of selected ready order])
  next
    case (Some np)
    obtain n p where np: "np = (n, p)" by (cases np)
    show ?thesis
      using 1(1) [OF short Some np [symmetric]] 1(2-4) Some short np
      by (simp add: topo_loop.simps [of selected ready order] topo_inv_step)
  qed
qed

lemma topo_inv_Nil: "topo_inv selected [] []"
  by (simp add: topo_inv_def)

section \<open>Lemmas: the search\<close>

text \<open>Requirements between assigned components hold (a self-dependency is left to the order).\<close>

definition consistent :: "semver \<Rightarrow> assignment \<Rightarrow> bool" where
  "consistent sv a \<longleftrightarrow> (\<forall>k p n d c. map_of a k = Some (Selected p) \<longrightarrow>
     map_of (pl_dependencies p) n = Some d \<longrightarrow> n \<noteq> k \<longrightarrow> map_of a n = Some c \<longrightarrow> satisfies sv c d)"

text \<open>Where a choice may come from.\<close>

definition provenance ::
  "root \<Rightarrow> (string, installed) btree \<Rightarrow> pool \<Rightarrow> string \<Rightarrow> choice \<Rightarrow> bool" where
  "provenance root inst pool k c \<longleftrightarrow> (case c of
     Omitted \<Rightarrow> map_of inst k = None
   | Selected p \<Rightarrow> pl_name p = k \<and>
      (p = root_planned root
       \<or> pl_source p = FromInstalled \<and> (\<exists>i. map_of inst k = Some i \<and> inst_confirmed i \<and>
            pl_version p = inst_version i \<and> pl_dependencies p = inst_dependencies i)
       \<or> pl_source p = FromCandidate \<and> (\<exists>l x. map_of pool k = Some l \<and> x \<in> set l \<and>
            cand_version x = pl_version p \<and> cand_detail x = Some (Ready (pl_dependencies p)))))"

definition search_inv ::
  "semver \<Rightarrow> root \<Rightarrow> (string, installed) btree \<Rightarrow> pool \<Rightarrow> assignment \<Rightarrow> bool" where
  "search_inv sv root inst pool a \<longleftrightarrow> bt_wf a \<and> consistent sv a \<and>
     (\<forall>k c. map_of a k = Some c \<longrightarrow> provenance root inst pool k c) \<and>
     map_of a (root_name root) = Some (Selected (root_planned root))"

lemma insert_by_set [simp]: "set (insert_by le x ys) = insert x (set ys)"
  by (induction ys) auto

lemma sort_by_set [simp]: "set (sort_by le xs) = set xs"
  by (induction xs) (auto simp: sort_by_def)

lemma requirements_on_mem:
  "map_of a k = Some (Selected p) \<Longrightarrow> map_of (pl_dependencies p) n = Some d \<Longrightarrow>
     (k, d) \<in> set (requirements_on n a)"
  unfolding requirements_on_def set_map_filter_iff
  by (rule bexI [of _ "(k, Selected p)"]) (auto dest: map_of_SomeD)

lemma accepts_matches:
  "accepts sv (requirements_on n a) v \<Longrightarrow> map_of a k = Some (Selected p) \<Longrightarrow>
     map_of (pl_dependencies p) n = Some d \<Longrightarrow> dep_matches sv (dep_requirement d) v"
  using requirements_on_mem [of a k p n d] by (auto simp: accepts_def)

lemma fresh_candidates_mem:
  "c \<in> set (fresh_candidates sv reqs i listing) \<Longrightarrow>
     c \<in> set listing \<and> accepts sv reqs (version_parse sv (cand_version c))"
  by (auto simp: fresh_candidates_def listed_candidates_def set_map_filter_iff)

text \<open>Every option offered for a name may be added to the assignment as far as earlier choices go.\<close>

lemma options_for_sound:
  assumes "Offer c \<in> set (options_for sv name (requirements_on name a) (map_of inst name) listing)"
    and "map_of pool name = Some listing"
  shows "provenance root inst pool name c"
    and "map_of a k = Some (Selected p) \<Longrightarrow> map_of (pl_dependencies p) name = Some d \<Longrightarrow> satisfies sv c d"
proof -
  let ?reqs = "requirements_on name a"
  consider (inst) "Offer c \<in> set (installed_offer sv name ?reqs (map_of inst name))"
    | (cand) x where "x \<in> set (fresh_candidates sv ?reqs (map_of inst name) listing)"
        "candidate_offer name x = Some (Offer c)"
    | (om) "Offer c \<in> set (omitted_offer ?reqs (map_of inst name))"
    using assms(1) by (auto simp: options_for_def set_map_filter_iff)
  then have "provenance root inst pool name c \<and>
    (map_of a k = Some (Selected p) \<longrightarrow> map_of (pl_dependencies p) name = Some d \<longrightarrow> satisfies sv c d)"
  proof cases
    case inst
    then obtain i where "map_of inst name = Some i" "inst_confirmed i"
      "accepts sv ?reqs (version_parse sv (inst_version i))"
      "c = Selected \<lparr>pl_name = name, pl_version = inst_version i,
         pl_source = FromInstalled, pl_dependencies = inst_dependencies i\<rparr>"
      by (cases "map_of inst name") (auto simp: installed_offer_def split: if_splits)
    then show ?thesis
      using accepts_matches [of sv name a _ k p d] by (auto simp: provenance_def)
  next
    case cand
    then obtain ds where "cand_detail x = Some (Ready ds)"
      "c = Selected \<lparr>pl_name = name, pl_version = cand_version x,
         pl_source = FromCandidate, pl_dependencies = ds\<rparr>"
      by (auto split: option.splits detail.splits)
    with fresh_candidates_mem [OF cand(1)] assms(2) show ?thesis
      using accepts_matches [of sv name a _ k p d] by (auto simp: provenance_def)
  next
    case om
    then have "c = Omitted" "map_of inst name = None" "\<forall>(_, d) \<in> set ?reqs. dep_kind d = Soft"
      by (auto simp: omitted_offer_def split: if_splits)
    then show ?thesis
      using requirements_on_mem [of a k p name d] by (auto simp: provenance_def)
  qed
  then show "provenance root inst pool name c"
    and "map_of a k = Some (Selected p) \<Longrightarrow> map_of (pl_dependencies p) name = Some d \<Longrightarrow> satisfies sv c d"
    by blast+
qed

lemma find_broken_None:
  "find_broken sv (Selected q) a = None \<Longrightarrow> map_of (pl_dependencies q) n = Some d \<Longrightarrow>
     map_of a n = Some c \<Longrightarrow> satisfies sv c d"
  by (fastforce simp: find_broken_def find_None_iff dest: map_of_SomeD)

lemma search_inv_insert:
  assumes inv: "search_inv sv root inst pool a" and new: "map_of a name = None"
    and prov: "provenance root inst pool name c"
    and sat: "\<And>k p d. map_of a k = Some (Selected p) \<Longrightarrow> map_of (pl_dependencies p) name = Some d \<Longrightarrow>
                satisfies sv c d"
    and ok: "find_broken sv c a = None"
  shows "search_inv sv root inst pool (bt_insert name c a)"
proof -
  have "consistent sv (bt_insert name c a)"
    unfolding consistent_def
  proof (intro allI impI)
    fix k p n d c'
    assume *: "map_of (bt_insert name c a) k = Some (Selected p)"
      "map_of (pl_dependencies p) n = Some d" "n \<noteq> k" "map_of (bt_insert name c a) n = Some c'"
    show "satisfies sv c' d"
    proof (cases "k = name")
      case True
      with * ok show ?thesis using find_broken_None [of sv p a n d c'] by (auto split: if_splits)
    next
      case False
      with * inv sat show ?thesis
        by (auto simp: search_inv_def consistent_def split: if_splits)
    qed
  qed
  then show ?thesis using inv prov new by (auto simp: search_inv_def)
qed

text \<open>What a finished search guarantees, whether it succeeds or backtracks.\<close>

definition solve_post ::
  "semver \<Rightarrow> root \<Rightarrow> (string, installed) btree \<Rightarrow> pool \<Rightarrow> assignment \<Rightarrow> solve_out \<Rightarrow> bool" where
  "solve_post sv root inst pool a out = (case out of (st, a', r) \<Rightarrow>
     (r = Inr False \<longrightarrow> a' = a \<and> search_conflict st \<noteq> None) \<and>
     (r = Inr True \<longrightarrow> search_inv sv root inst pool a' \<and> next_name a' = None \<and>
        broken_installed sv inst a' = [] \<and> is_ok (topological a')))"

lemma search_fail_conflict [simp]: "\<exists>y. search_conflict (search_fail c st) = Some y"
  by (auto simp: search_fail_def)

lemma search_fail_steps [simp]: "search_steps (search_fail c st) = search_steps st"
  by (simp add: search_fail_def)

text \<open>
  The option loop, for any recursive call that keeps a recorded conflict and meets the
  postcondition. \<open>available\<close> is only set once a real version was tried, and that try left a
  conflict behind.
\<close>

lemma try_options_post:
  assumes rec: "\<And>st a. search_inv sv root inst pool a \<Longrightarrow> solve_post sv root inst pool a (rec st a)"
    and offers: "\<And>c. Offer c \<in> set opts \<Longrightarrow> provenance root inst pool name c \<and>
       (\<forall>k p d. map_of a k = Some (Selected p) \<longrightarrow> map_of (pl_dependencies p) name = Some d \<longrightarrow>
          satisfies sv c d)"
    and inv: "search_inv sv root inst pool a" and new: "map_of a name = None"
    and seen: "available \<or> opts = [] \<Longrightarrow> search_conflict st \<noteq> None"
  shows "solve_post sv root inst pool a (try_options rec sv name available opts st a)"
  using offers seen
proof (induction opts arbitrary: available st)
  case Nil
  then show ?case by (simp add: solve_post_def)
next
  case (Cons x opts)
  show ?case
  proof (cases x)
    case (Pending v)
    then show ?thesis by (simp add: solve_post_def)
  next
    case (Offer c)
    show ?thesis
    proof (cases "c = Omitted \<and> available")
      case True
      then show ?thesis using Cons Offer by simp
    next
      case False
      show ?thesis
      proof (cases "find_broken sv c a")
        case (Some nd)
        obtain n d where nd: "nd = (n, d)" by (cases nd)
        show ?thesis
          using Cons.IH [where available = "available \<or> c \<noteq> Omitted"] Cons.prems(1) Offer Some nd False
          by (auto simp: Let_def)
      next
        case None
        have inv': "search_inv sv root inst pool (bt_insert name c a)"
          using search_inv_insert [OF inv new _ _ None] Cons.prems(1) [of c] Offer by auto
        obtain st' a' r where out: "rec st (bt_insert name c a) = (st', a', r)"
          by (metis prod_cases3)
        have post: "solve_post sv root inst pool (bt_insert name c a) (st', a', r)"
          using rec [OF inv', of st] out by simp
        show ?thesis
        proof (cases r)
          case (Inl e)
          then show ?thesis using Offer False None out by (auto simp: solve_post_def Let_def)
        next
          case (Inr b)
          show ?thesis
          proof (cases b)
            case True
            then show ?thesis using Offer False None out Inr post by (auto simp: solve_post_def Let_def)
          next
            case b: False
            have undone: "bt_remove name a' = a" "search_conflict st' \<noteq> None"
              using post Inr b inv new by (auto simp: solve_post_def search_inv_def bt.del_ins_absent)
            show ?thesis
              using Cons.IH [where available = "available \<or> c \<noteq> Omitted" and st = st'] Cons.prems(1)
                Offer False None out Inr b undone
              by (auto simp: Let_def)
          qed
        qed
      qed
    qed
  qed
qed

lemma next_name_new:
  assumes "next_name a = Some n"
  shows "map_of a n = None"
proof -
  define names where "names = filter (\<lambda>n. \<not> bt_has a n)
    (concat (map bt_keys (List.map_filter choice_dependencies (bt_values a))))"
  have "names \<noteq> [] \<and> n = Min (set names)"
    using assms unfolding next_name_def Let_def names_def [symmetric] by (simp split: if_splits)
  then have "n \<in> set names" using Min_in by (metis List.finite_set set_empty)
  then show ?thesis by (simp add: names_def)
qed

lemma solve_spec:
  "search_inv sv root inst pool a \<Longrightarrow> solve_post sv root inst pool a (solve fuel sv inst pool st a)"
proof (induction fuel arbitrary: st a)
  case 0
  then show ?case by (simp add: solve_post_def)
next
  case (Suc fuel)
  let ?st = "st\<lparr>search_steps := Suc (search_steps st)\<rparr>"
  show ?case
  proof (cases "SEARCH_LIMIT < search_steps ?st \<or> next_name a = None")
    case True
    then show ?thesis
      using Suc.prems
      by (auto simp: solve_post_def search_complete_def Let_def split: list.splits sum.splits)
  next
    case False
    then obtain name where name: "next_name a = Some name" by blast
    show ?thesis
    proof (cases "map_of pool name")
      case None
      then show ?thesis using False name by (simp add: solve_post_def Let_def)
    next
      case (Some listing)
      let ?opts = "options_for sv name (requirements_on name a) (map_of inst name) listing"
      show ?thesis
      proof (cases "?opts = []")
        case True
        then show ?thesis using False name Some by (simp add: solve_post_def Let_def)
      next
        case nonempty: False
        have "solve_post sv root inst pool a
          (try_options (solve fuel sv inst pool) sv name False ?opts ?st a)"
          using options_for_sound [OF _ Some] Suc next_name_new [OF name] nonempty
          by (intro try_options_post) auto
        then show ?thesis using False name Some nonempty by (simp add: Let_def)
      qed
    qed
  qed
qed

text \<open>Steps only grow, and the search never counts past the limit by more than one.\<close>

lemma try_options_steps:
  assumes rec: "\<And>st a. search_steps st \<le> search_steps (fst (rec st a))"
  shows "search_steps st \<le> search_steps (fst (try_options rec sv name available opts st a))"
proof (induction opts arbitrary: available st a)
  case (Cons x opts)
  show ?case
  proof (cases x)
    case (Offer c)
    obtain st' a' r where out: "rec st (bt_insert name c a) = (st', a', r)"
      by (metis prod_cases3)
    then have "search_steps st \<le> search_steps st'" using rec [of st "bt_insert name c a"] by simp
    then show ?thesis
      using Cons.IH Offer out order_trans [OF _ Cons.IH]
      by (auto simp: Let_def split: option.splits sum.splits bool.splits)
  qed simp
qed simp

lemma search_complete_steps:
  "search_complete sv inst st a = (st', ok) \<Longrightarrow> search_steps st' = search_steps st"
  by (auto simp: search_complete_def split: list.splits sum.splits)

lemma solve_steps: "search_steps st \<le> search_steps (fst (solve fuel sv inst pool st a))"
proof (induction fuel arbitrary: st a)
  case (Suc fuel)
  have "search_steps st \<le> search_steps (fst (try_options (solve fuel sv inst pool) sv name False opts
      (st\<lparr>search_steps := Suc (search_steps st)\<rparr>) a))" for name opts
    using try_options_steps [OF Suc.IH, where st = "st\<lparr>search_steps := Suc (search_steps st)\<rparr>"]
    by (simp add: Suc_leD)
  then show ?case
    by (auto simp: Let_def dest: search_complete_steps split: option.splits prod.splits)
qed simp

lemma try_options_fuel:
  assumes rec: "\<And>st a. m \<le> search_steps st \<Longrightarrow> snd (snd (rec st a)) \<noteq> Inl AbortFuel"
    and mono: "\<And>st a. search_steps st \<le> search_steps (fst (rec st a))"
    and "m \<le> search_steps st"
  shows "snd (snd (try_options rec sv name available opts st a)) \<noteq> Inl AbortFuel"
  using assms(3)
proof (induction opts arbitrary: available st a)
  case (Cons x opts)
  show ?case
  proof (cases x)
    case (Offer c)
    obtain st' a' r where out: "rec st (bt_insert name c a) = (st', a', r)"
      by (metis prod_cases3)
    then have "m \<le> search_steps st'" "r \<noteq> Inl AbortFuel"
      using mono [of st "bt_insert name c a"] rec [OF Cons.prems, of "bt_insert name c a"] Cons.prems
      by auto
    then show ?thesis
      using Cons Offer out by (auto simp: Let_def split: option.splits sum.splits bool.splits)
  qed simp
qed simp

text \<open>Depth is bounded by the step counter, so this much fuel is always enough.\<close>

lemma solve_fuel:
  "SEARCH_LIMIT < fuel + search_steps st \<Longrightarrow> snd (snd (solve fuel sv inst pool st a)) \<noteq> Inl AbortFuel \<or> fuel = 0"
proof (induction fuel arbitrary: st a)
  case (Suc fuel)
  let ?st = "st\<lparr>search_steps := Suc (search_steps st)\<rparr>"
  show ?case
  proof (cases "SEARCH_LIMIT < Suc (search_steps st)")
    case True
    then show ?thesis by (simp add: Let_def)
  next
    case False
    then have "0 < fuel" using Suc.prems by simp
    have "snd (snd (try_options (solve fuel sv inst pool) sv name False opts ?st a)) \<noteq> Inl AbortFuel"
      for name opts
    proof (rule try_options_fuel [where m = "Suc (search_steps st)"])
      fix st' :: search and a' assume "Suc (search_steps st) \<le> search_steps st'"
      then show "snd (snd (solve fuel sv inst pool st' a')) \<noteq> Inl AbortFuel"
        using Suc.IH [of st' a'] Suc.prems \<open>0 < fuel\<close> by simp
    qed (simp_all add: solve_steps)
    then show ?thesis by (auto simp: Let_def split: option.splits prod.splits)
  qed
qed simp

lemma search_inv_root:
  "search_inv sv root inst pool [(root_name root, Selected (root_planned root))]"
  by (auto simp: search_inv_def consistent_def provenance_def bt_wf_def root_planned_def)

lemma resolve_plan_assignment:
  assumes "resolve sv root inst pool = Inr (StepPlan pl)"
  obtains a where "search_inv sv root inst pool a" "next_name a = None"
    "broken_installed sv inst a = []" "topological a = Inr (plan_order pl)"
    "plan_omitted pl = omitted_names a"
proof -
  obtain st a r where out: "solve (Suc SEARCH_LIMIT) sv inst pool
      \<lparr>search_steps = 0, search_conflict = None\<rparr> [(root_name root, Selected (root_planned root))] = (st, a, r)"
    by (metis prod_cases3)
  have post: "solve_post sv root inst pool [(root_name root, Selected (root_planned root))] (st, a, r)"
    using solve_spec [OF search_inv_root] out by metis
  have "r = Inr True"
    using assms out unfolding resolve_def by (auto split: sum.splits abort.splits bool.splits)
  with post out assms show thesis
    by (intro that [of a]) (auto simp: solve_post_def resolve_def split: sum.splits)
qed

text \<open>No name is left to decide: every dependency of a selected component is assigned.\<close>

lemma next_name_None:
  assumes "next_name a = None" and "map_of a k = Some (Selected p)"
    and "n \<in> fst ` set (pl_dependencies p)"
  shows "bt_has a n"
proof (rule ccontr)
  assume *: "\<not> bt_has a n"
  have "(k, Selected p) \<in> set a" using assms(2) by (rule map_of_SomeD)
  then have "Selected p \<in> set (bt_values a)" by force
  then have "pl_dependencies p \<in> set (List.map_filter choice_dependencies (bt_values a))"
    unfolding set_map_filter_iff by (rule rev_bexI) simp
  with assms(3) have "n \<in> set (concat (map bt_keys (List.map_filter choice_dependencies (bt_values a))))"
    by auto
  with * have "filter (\<lambda>n. \<not> bt_has a n)
      (concat (map bt_keys (List.map_filter choice_dependencies (bt_values a)))) \<noteq> []"
    unfolding filter_empty_conv by blast
  with assms(1) show False unfolding next_name_def Let_def by (simp split: if_splits)
qed

lemma topological_sound:
  assumes wf: "bt_wf a" and named: "\<And>k p. map_of a k = Some (Selected p) \<Longrightarrow> pl_name p = k"
    and ok: "topological a = Inr order"
  shows "\<And>p. p \<in> set order \<longleftrightarrow> map_of a (pl_name p) = Some (Selected p)"
    and "distinct (map pl_name order)"
    and "\<And>i n q. i < length order \<Longrightarrow> n \<in> fst ` set (pl_dependencies (order ! i)) \<Longrightarrow>
           map_of a n = Some (Selected q) \<Longrightarrow> \<exists>j < i. order ! j = q"
proof -
  let ?sel = "selected_of a"
  have selwf: "bt_wf ?sel" by (rule selected_of_wf [OF wf])
  obtain ready where inv: "topo_inv ?sel ready order" and full: "length ?sel \<le> length order"
    using topo_loop_sound [OF ok [unfolded topological_def] topo_inv_Nil] by blast
  note sets = topo_inv_complete [OF selwf inv full]
  have elem: "map_of a (ready ! i) = Some (Selected (order ! i))" if "i < length ready" for i
    using inv that wf by (auto simp: topo_inv_def bt_get_iff selected_of_mem)
  have names: "map pl_name order = ready"
    using inv named [OF elem] by (auto simp: topo_inv_def intro!: nth_equalityI)
  show "p \<in> set order \<longleftrightarrow> map_of a (pl_name p) = Some (Selected p)" for p
  proof -
    have "p \<in> set order \<longleftrightarrow> (\<exists>k. map_of a k = Some (Selected p))"
      using sets(2) wf by (auto simp: bt_get_iff selected_of_mem image_iff) (metis snd_conv selected_of_mem)
    then show ?thesis using named by blast
  qed
  show "distinct (map pl_name order)" using inv names by (simp add: topo_inv_def)
  fix i n q assume *: "i < length order" "n \<in> fst ` set (pl_dependencies (order ! i))"
    "map_of a n = Some (Selected q)"
  then have "map_of ?sel n = Some q" using selected_of_get [OF wf] by simp
  then have "n \<in> set (topo_edges ?sel (order ! i))" using *(2) by (simp add: topo_edges_selected)
  moreover have "set (topo_edges ?sel (order ! i)) \<subseteq> set (take i ready)"
    using inv *(1) by (simp add: topo_inv_def)
  ultimately have "n \<in> set (take i ready)" by blast
  then obtain j where j: "j < i" "j < length ready" "ready ! j = n" by (auto simp: in_set_conv_nth)
  then have "order ! j = q" using elem [of j] *(3) by simp
  then show "\<exists>j < i. order ! j = q" using j(1) by blast
qed

lemma search_inv_named:
  "search_inv sv root inst pool a \<Longrightarrow> map_of a k = Some (Selected p) \<Longrightarrow> pl_name p = k"
  by (fastforce simp: search_inv_def provenance_def)

lemma omitted_names_iff: "bt_wf a \<Longrightarrow> n \<in> set (omitted_names a) \<longleftrightarrow> map_of a n = Some Omitted"
  by (force simp: omitted_names_def bt_get_iff)

lemma search_topology:
  assumes "search_inv sv root inst pool a" and "topological a = Inr order"
  shows "p \<in> set order \<longleftrightarrow> map_of a (pl_name p) = Some (Selected p)"
    and "distinct (map pl_name order)"
    and "i < length order \<Longrightarrow> n \<in> fst ` set (pl_dependencies (order ! i)) \<Longrightarrow>
           map_of a n = Some (Selected q) \<Longrightarrow> \<exists>j < i. order ! j = q"
proof -
  have "bt_wf a" using assms(1) by (simp add: search_inv_def)
  note topo = topological_sound [OF this _ assms(2)]
  show "p \<in> set order \<longleftrightarrow> map_of a (pl_name p) = Some (Selected p)"
    and "distinct (map pl_name order)"
    and "i < length order \<Longrightarrow> n \<in> fst ` set (pl_dependencies (order ! i)) \<Longrightarrow>
           map_of a n = Some (Selected q) \<Longrightarrow> \<exists>j < i. order ! j = q"
    using topo search_inv_named [OF assms(1)] by blast+
qed

lemma broken_installed_Nil:
  assumes none: "broken_installed sv inst a = []" and oi: "(owner, i) \<in> set inst" "map_of a owner = None"
    and nd: "(n, d) \<in> set (inst_dependencies i)"
    and q: "map_of a n = Some (Selected q)" "planned_install q"
  shows "satisfies sv (Selected q) d"
proof (rule ccontr)
  assume *: "\<not> ?thesis"
  let ?f = "\<lambda>(n, d). case map_of a n of
      Some (Selected p) \<Rightarrow> if planned_install p \<and> \<not> satisfies sv (Selected p) d
         then Some (InstalledBroken owner (inst_version i) n d (pl_version p)) else None
    | _ \<Rightarrow> None"
  have "InstalledBroken owner (inst_version i) n d (pl_version q) \<in> set (List.map_filter ?f (inst_dependencies i))"
    unfolding set_map_filter_iff by (rule bexI [OF _ nd]) (use * q in simp)
  then have "broken_installed sv inst a \<noteq> []"
    unfolding broken_installed_def concat_eq_Nil_conv using oi by fastforce
  then show False using none by simp
qed

lemma demo_resolves: "resolve demo_semver demo_root [] demo_pool = Inr (StepPlan demo_plan)"
  by code_simp

section \<open>Properties\<close>

text \<open>
  C5: a plan satisfies every declared requirement. Each dependency of each planned component is
  either planned too, with a version matching the requirement, or a SOFT one the plan reports as
  omitted; and the deployed component itself is planned.
\<close>

theorem resolve_plan_satisfies:
  assumes "resolve sv root inst pool = Inr (StepPlan pl)"
  shows "root_planned root \<in> set (plan_order pl) \<and>
    (\<forall>p \<in> set (plan_order pl). \<forall>n d. map_of (pl_dependencies p) n = Some d \<longrightarrow>
       (\<exists>q \<in> set (plan_order pl). pl_name q = n \<and>
          dep_matches sv (dep_requirement d) (version_parse sv (pl_version q)))
       \<or> dep_kind d = Soft \<and> n \<in> set (plan_omitted pl))"
proof -
  obtain a where a: "search_inv sv root inst pool a" "next_name a = None"
    "topological a = Inr (plan_order pl)" "plan_omitted pl = omitted_names a"
    using resolve_plan_assignment [OF assms] by metis
  have wf: "bt_wf a" using a(1) by (simp add: search_inv_def)
  note topo = search_topology [OF a(1) a(3)]
  have "root_planned root \<in> set (plan_order pl)"
    using a(1) topo(1) by (simp add: search_inv_def root_planned_def)
  moreover have "(\<exists>q \<in> set (plan_order pl). pl_name q = n \<and>
          dep_matches sv (dep_requirement d) (version_parse sv (pl_version q)))
       \<or> dep_kind d = Soft \<and> n \<in> set (plan_omitted pl)"
    if p: "p \<in> set (plan_order pl)" and d: "map_of (pl_dependencies p) n = Some d" for p n d
  proof -
    have pa: "map_of a (pl_name p) = Some (Selected p)" using topo(1) p by blast
    have n: "n \<in> fst ` set (pl_dependencies p)" using d by (force dest: map_of_SomeD)
    then obtain c where c: "map_of a n = Some c" using next_name_None [OF a(2) pa] by blast
    show ?thesis
    proof (cases c)
      case Omitted
      then have "n \<noteq> pl_name p" using c pa by auto
      then have "satisfies sv c d" using a(1) pa d c unfolding search_inv_def consistent_def by blast
      then show ?thesis using Omitted c a(4) wf by (simp add: omitted_names_iff)
    next
      case (Selected q)
      obtain i where i: "i < length (plan_order pl)" "plan_order pl ! i = p"
        using p by (auto simp: in_set_conv_nth)
      then obtain j where j: "j < i" "plan_order pl ! j = q" using topo(3) [OF i(1)] n c Selected by blast
      have "n = pl_name q" using search_inv_named [OF a(1)] c Selected by simp
      moreover have "pl_name q \<noteq> pl_name p"
        using topo(2) i j by (metis distinct_conv_nth length_map less_trans nat_less_le nth_map)
      ultimately have "satisfies sv c d"
        using a(1) pa d c unfolding search_inv_def consistent_def by blast
      moreover have "q \<in> set (plan_order pl)" using i(1) j by (metis less_trans nth_mem)
      ultimately show ?thesis using Selected \<open>n = pl_name q\<close> by auto
    qed
  qed
  ultimately show ?thesis by blast
qed

theorem resolve_plan_satisfies_witness:
  "resolve demo_semver demo_root [] demo_pool = Inr (StepPlan demo_plan) \<and>
   root_planned demo_root \<in> set (plan_order demo_plan)"
  using resolve_plan_satisfies [OF demo_resolves] demo_resolves by blast

text \<open>
  C18: the install order puts dependencies first. Names are planned once, and a planned dependency
  of the component at position \<open>i\<close> stands at an earlier position.
\<close>

theorem resolve_plan_ordered:
  assumes "resolve sv root inst pool = Inr (StepPlan pl)"
  shows "distinct (map pl_name (plan_order pl)) \<and>
    (\<forall>i < length (plan_order pl). \<forall>q \<in> set (plan_order pl).
       pl_name q \<in> fst ` set (pl_dependencies (plan_order pl ! i)) \<longrightarrow> (\<exists>j < i. plan_order pl ! j = q))"
proof -
  obtain a where a: "search_inv sv root inst pool a" "topological a = Inr (plan_order pl)"
    using resolve_plan_assignment [OF assms] by metis
  note topo = search_topology [OF a]
  show ?thesis using topo(1-3) by blast
qed

theorem resolve_plan_ordered_witness:
  "resolve demo_semver demo_root [] demo_pool = Inr (StepPlan demo_plan) \<and>
   distinct (map pl_name (plan_order demo_plan))"
  using resolve_plan_ordered [OF demo_resolves] demo_resolves by blast

text \<open>
  C9: a plan only contains what may be installed (the deployed component, a confirmed installed
  version kept as it is, or a listed candidate with its authenticated details), omits only
  components that are not installed, and breaks no installed component it leaves alone.
\<close>

theorem resolve_plan_safe:
  assumes "resolve sv root inst pool = Inr (StepPlan pl)"
  shows "(\<forall>p \<in> set (plan_order pl). provenance root inst pool (pl_name p) (Selected p)) \<and>
    (\<forall>n \<in> set (plan_omitted pl). map_of inst n = None) \<and>
    (\<forall>(owner, i) \<in> set inst. owner \<notin> pl_name ` set (plan_order pl) \<longrightarrow>
       (\<forall>(n, d) \<in> set (inst_dependencies i). \<forall>q \<in> set (plan_order pl).
          pl_name q = n \<longrightarrow> planned_install q \<longrightarrow>
          dep_matches sv (dep_requirement d) (version_parse sv (pl_version q))))"
proof -
  obtain a where a: "search_inv sv root inst pool a" "topological a = Inr (plan_order pl)"
    "broken_installed sv inst a = []" "plan_omitted pl = omitted_names a"
    using resolve_plan_assignment [OF assms] by metis
  have wf: "bt_wf a" using a(1) by (simp add: search_inv_def)
  note topo = search_topology [OF a(1) a(2)]
  have "provenance root inst pool (pl_name p) (Selected p)" if "p \<in> set (plan_order pl)" for p
    using that topo(1) a(1) by (auto simp: search_inv_def)
  moreover have om: "map_of inst n = None" if "n \<in> set (plan_omitted pl)" for n
    using that a(1,4) wf by (fastforce simp: omitted_names_iff search_inv_def provenance_def)
  moreover have "dep_matches sv (dep_requirement d) (version_parse sv (pl_version q))"
    if oi: "(owner, i) \<in> set inst" "owner \<notin> pl_name ` set (plan_order pl)"
      and nd: "(n, d) \<in> set (inst_dependencies i)"
      and q: "q \<in> set (plan_order pl)" "pl_name q = n" "planned_install q" for owner i n d q
  proof -
    have "map_of a owner = None"
    proof (rule ccontr)
      assume "map_of a owner \<noteq> None"
      then obtain c where c: "map_of a owner = Some c" by blast
      then have "c = Omitted" using oi(2) topo(1) search_inv_named [OF a(1)] by (cases c) (metis image_eqI)+
      then have "map_of inst owner = None" using c om a(4) wf by (simp add: omitted_names_iff)
      then show False using oi(1) by (force simp: map_of_eq_None_iff)
    qed
    moreover have "map_of a n = Some (Selected q)" using q topo(1) by blast
    ultimately show ?thesis using broken_installed_Nil [OF a(3) oi(1) _ nd _ q(3)] by simp
  qed
  ultimately show ?thesis by blast
qed

theorem resolve_plan_safe_witness:
  "provenance demo_root [] demo_pool ''app'' (Selected (root_planned demo_root))"
proof -
  have "root_planned demo_root \<in> set (plan_order demo_plan)" by (simp add: demo_plan_def)
  moreover have "pl_name (root_planned demo_root) = ''app''"
    by (simp add: root_planned_def demo_root_def)
  ultimately show ?thesis using resolve_plan_safe [OF demo_resolves] by metis
qed

text \<open>
  C32: when the order cannot be completed the reported path is a genuine dependency cycle of the
  selected components, and none of the \<open>unwrap\<close> calls of the report can panic.
\<close>

theorem topological_error_is_cycle:
  assumes "bt_wf a" and "topological a = Inl e"
  shows "\<exists>c. e = Cycle c \<and> is_cycle (selected_of a) c"
  using topo_loop_error [OF assms(2) [unfolded topological_def] topo_inv_Nil selected_of_wf [OF assms(1)]]
  by blast

theorem topological_error_is_cycle_witness:
  "topological demo_cycle = Inl (Cycle [''a'', ''b'', ''a'']) \<and>
   is_cycle (selected_of demo_cycle) [''a'', ''b'', ''a'']"
proof -
  have e: "topological demo_cycle = Inl (Cycle [''a'', ''b'', ''a''])" by code_simp
  have "bt_wf demo_cycle" by (simp add: demo_cycle_def bt_wf_def)
  from topological_error_is_cycle [OF this e] e show ?thesis by auto
qed


end
