(* ===== verification/Journal.thy ===== *)
theory Journal
  imports Cadence Deps
begin

text \<open>
  The daemon's journal (\<open>suifleet-edge/src/state.rs\<close>) and the record of announcements it has acted on
  (\<open>heads.rs\<close>): the state, its binding to a device, the receipt bounds, what becomes of deployments an
  interrupted run left open, and saving by writing a temporary file and renaming it. The file system shows
  the contents of \<open>state.json\<close> and keeps, apart, what a power loss would leave: a rename whose
  directory was not synchronized is visible but may be undone.
\<close>

section \<open>Errors\<close>

text \<open>
  An \<open>anyhow\<close> error is the type it can be downcast to and its text; a context puts text in front of
  it and keeps the type.
\<close>

datatype fault_kind = Plain | NotAdmitted | RecoveryRequired | HandoffRequested | HistoryPruned | Indeterminate | Recovered

record fault =
  ft_kind :: fault_kind
  ft_text :: string

abbreviation plain :: "string \<Rightarrow> fault" where
  "plain text \<equiv> \<lparr>ft_kind = Plain, ft_text = text\<rparr>"

definition fault_context :: "string \<Rightarrow> fault \<Rightarrow> fault" where
  "fault_context text f = f\<lparr>ft_text := text @ '': '' @ ft_text f\<rparr>"

section \<open>State\<close>

definition STATUS_APPLIED :: nat where
  "STATUS_APPLIED = 1"

definition STATUS_FAILED :: nat where
  "STATUS_FAILED = 2"

record dep_outcome =
  oc_status :: "nat option"
  oc_reported :: bool
  oc_health_pending :: bool
  oc_health_slow :: bool
  oc_error :: "string option"
  oc_firmware :: "string option"
  oc_indeterminate :: bool
  oc_handoff :: "string option"

text \<open>\<open>Outcome::default()\<close>: no status, nothing reported. The derived default of a missing health sample is false.\<close>

definition default_outcome :: dep_outcome where
  "default_outcome = \<lparr>oc_status = None, oc_reported = False, oc_health_pending = False, oc_health_slow = False,
     oc_error = None, oc_firmware = None, oc_indeterminate = False, oc_handoff = None\<rparr>"

definition fast_rollout_health_pending :: "dep_outcome \<Rightarrow> bool" where
  "fast_rollout_health_pending o1 \<longleftrightarrow> oc_reported o1 \<and> oc_status o1 \<noteq> None \<and> oc_health_pending o1 \<and> \<not> oc_health_slow o1"

record plan_mark =
  pm_deployment :: string
  pm_desired :: string

record component =
  cp_version :: string
  cp_deployment :: string
  cp_catalog :: "string option"
  cp_version_id :: "string option"
  cp_recipe :: string
  cp_artifact :: string
  cp_dependencies :: dependencies
  cp_confirmed :: bool

text \<open>
  Service sections of a recipe (\<open>services.rs\<close>); the sections for pub/sub and streams and the grants of a
  principal are kept as documents.
\<close>

record services =
  se_version :: nat
  se_grants :: "(string, json) btree"
  se_pubsub :: "json option"
  se_streams :: "json option"

datatype generation = Generation (gn_deployment: string) (gn_services: services) (gn_previous: "generation option")

record funding =
  fd_blocked :: "string option"
  fd_blocked_since :: "u64 option"
  fd_balance :: "u64 option"
  fd_last_digest :: "string option"
  fd_last_mist :: "u64 option"
  fd_last_ms :: "u64 option"
  fd_draws :: u64

record head =
  hd_seq :: u64
  hd_next_start :: u64
  hd_components :: "(string, string) btree"

record seen =
  sn_seq :: u64
  sn_since :: u64
  sn_components :: "(string, string) btree"

record heads =
  hs_since :: u64
  hs_seen :: "(string, seen) btree"
  hs_next_start :: u64
  hs_polled :: "u64 option"

record journal_state =
  js_services :: "(string, generation) btree"
  js_binding :: string
  js_deferred :: "(string, deferred) btree"
  js_check_window :: "window option"
  js_cursor :: "json option"
  js_discovery :: "json option"
  js_merge :: "nat option"
  js_initialized :: bool
  js_deployments :: "(string, dep_outcome) btree"
  js_components :: "(string, component) btree"
  js_last_good :: "(string, component) btree"
  js_membership :: "json option"
  js_groups :: "(string, unit) btree"
  js_managed :: "(string, string) btree"
  js_current :: "(string, string) btree"
  js_desired :: "string option"
  js_step :: "plan_mark option"
  js_deferrals :: "(string, u64) btree"
  js_funding :: "funding option"
  js_heads :: "heads option"

definition default_state :: journal_state where
  "default_state = \<lparr>js_services = [], js_binding = [], js_deferred = [], js_check_window = None, js_cursor = None,
     js_discovery = None, js_merge = None, js_initialized = False, js_deployments = [], js_components = [],
     js_last_good = [], js_membership = None, js_groups = [], js_managed = [], js_current = [], js_desired = None,
     js_step = None, js_deferrals = [], js_funding = None, js_heads = None\<rparr>"

section \<open>Binding\<close>

definition SERVICES_READER :: string where
  "SERVICES_READER = ''/services-v1''"

definition binding_matches :: "string \<Rightarrow> string \<Rightarrow> bool" where
  "binding_matches stored_by expected \<longleftrightarrow>
     stored_by = [] \<or> stored_by = expected \<or> strip_suffix SERVICES_READER stored_by = Some expected"

section \<open>Files\<close>

text \<open>The journal file: absent, not readable by this build, or a state.\<close>

datatype state_file = Missing | Unreadable | Holds journal_state

record journal_disk =
  dk_file :: state_file
  dk_durable :: state_file

text \<open>
  The ways a save ends: it succeeds; it fails before the rename (opening, writing or synchronizing the
  temporary file); it fails after the rename, when the directory could not be synchronized.
\<close>

datatype save_io = SaveOk | NotRenamed | NotSynced

definition journal_save :: "save_io \<Rightarrow> journal_state \<Rightarrow> journal_disk \<Rightarrow> journal_disk \<times> bool" where
  "journal_save io s d = (case io of
     SaveOk \<Rightarrow> (\<lparr>dk_file = Holds s, dk_durable = Holds s\<rparr>, True)
   | NotRenamed \<Rightarrow> (d, False)
   | NotSynced \<Rightarrow> (d\<lparr>dk_file := Holds s\<rparr>, False))"

text \<open>A power loss undoes what was not durable.\<close>

definition power_loss :: "journal_disk \<Rightarrow> journal_disk" where
  "power_loss d = d\<lparr>dk_file := dk_durable d\<rparr>"

definition journal_check :: "string \<Rightarrow> journal_disk \<Rightarrow> (fault, unit) result" where
  "journal_check binding d = (case dk_file d of
     Missing \<Rightarrow> Inr ()
   | Unreadable \<Rightarrow> Inl (plain ''journal is not readable by this daemon'')
   | Holds s \<Rightarrow> ensure (binding_matches (js_binding s) binding) (plain ''journal belongs to another network/package/device'') (Inr ()))"

text \<open>What opening finds: whether the directory and the lock file can be made, and whether the lock is free.\<close>

record open_io =
  oi_directory :: bool
  oi_lock_free :: bool
  oi_save :: save_io

definition needs_services :: "bool \<Rightarrow> journal_state \<Rightarrow> bool" where
  "needs_services requested s \<longleftrightarrow> requested \<or> ends_with (js_binding s) SERVICES_READER \<or> js_services s \<noteq> []"

definition bound_state :: "string \<Rightarrow> journal_state \<Rightarrow> journal_state" where
  "bound_state requested s =
     (let binding = (case strip_suffix SERVICES_READER requested of Some b \<Rightarrow> b | None \<Rightarrow> requested) in
      s\<lparr>js_binding := if needs_services (ends_with requested SERVICES_READER) s then binding @ SERVICES_READER else binding\<rparr>)"

definition read_state :: "state_file \<Rightarrow> (fault, journal_state) result" where
  "read_state f = (case f of Missing \<Rightarrow> Inr default_state | Unreadable \<Rightarrow> Inl (plain ''unreadable'') | Holds s \<Rightarrow> Inr s)"

definition journal_open :: "open_io \<Rightarrow> string \<Rightarrow> journal_disk \<Rightarrow> journal_disk \<times> (fault, journal_state) result" where
  "journal_open io requested d =
     (let binding = (case strip_suffix SERVICES_READER requested of Some b \<Rightarrow> b | None \<Rightarrow> requested) in
      if \<not> oi_directory io then (d, Inl (plain ''io''))
      else if \<not> oi_lock_free io then (d, Inl (plain ''another daemon owns this state directory''))
      else case read_state (dk_file d) of
        Inl e \<Rightarrow> (d, Inl e)
      | Inr s \<Rightarrow>
          if \<not> binding_matches (js_binding s) binding
          then (d, Inl (plain ''state belongs to another network/package/device; use a separate state_dir''))
          else case journal_save (oi_save io) (bound_state requested s) d of
            (d, ok) \<Rightarrow> (d, if ok then Inr (bound_state requested s) else Inl (plain ''io'')))"

section \<open>Receipts\<close>

definition unreported :: "journal_state \<Rightarrow> (string, dep_outcome) btree" where
  "unreported s = filter (\<lambda>e. \<not> oc_reported (snd e)) (js_deployments s)"

definition RECEIPT_ITEMS :: nat where
  "RECEIPT_ITEMS = 1024"

definition RECEIPT_BYTES :: int where
  "RECEIPT_BYTES = 8 * 1024 * 1024"

text \<open>The lengths of the JSON texts are parameters.\<close>

record json_sizes =
  sz_outcomes :: "(string, dep_outcome) btree \<Rightarrow> int"
  sz_deferred :: "(string, deferred) btree \<Rightarrow> int"

definition receipt_backlog :: "journal_state \<Rightarrow> nat" where
  "receipt_backlog s = length (unreported s) + length (filter (\<lambda>k. \<not> bt_has (js_deployments s) k) (bt_keys (js_deferred s)))"

definition ensure_receipt_room :: "json_sizes \<Rightarrow> string \<Rightarrow> journal_state \<Rightarrow> (fault, unit) result" where
  "ensure_receipt_room sz d s =
     ensure (bt_has (js_deployments s) d \<or> bt_has (js_deferred s) d \<or> receipt_backlog s < RECEIPT_ITEMS)
       (plain ''receipt queue full (1024); new work paused, existing receipts retained'')
    (ensure (sz_outcomes sz (unreported s) + sz_deferred sz (js_deferred s) \<le> RECEIPT_BYTES - 16384)
       (plain ''receipt queue byte limit (8 MiB); new work paused, export retained data'')
      (Inr ()))"

section \<open>Interrupted deployments\<close>

definition interrupted :: string where
  "interrupted = ''daemon interrupted during apply; inspect device before explicitly redeploying''"

definition settle_outcome :: "(string \<Rightarrow> dep_outcome \<Rightarrow> bool) \<Rightarrow> string \<Rightarrow> dep_outcome \<Rightarrow> dep_outcome" where
  "settle_outcome pend d o1 =
     (if oc_status o1 \<noteq> None \<or> oc_indeterminate o1 \<or> pend d o1 then o1
      else o1\<lparr>oc_indeterminate := oc_firmware o1 = None,
              oc_status := if oc_firmware o1 = None then None else Some STATUS_FAILED,
              oc_error := Some interrupted\<rparr>)"

definition settle_deployments :: "(string \<Rightarrow> dep_outcome \<Rightarrow> bool) \<Rightarrow> journal_state \<Rightarrow> journal_state" where
  "settle_deployments pend s = s\<lparr>js_deployments := map (\<lambda>(d, o1). (d, settle_outcome pend d o1)) (js_deployments s)\<rparr>"

definition confirm_components :: "string \<Rightarrow> journal_state \<Rightarrow> journal_state" where
  "confirm_components d s =
     s\<lparr>js_components := map (\<lambda>(n, c). (n, if cp_deployment c = d then c\<lparr>cp_confirmed := True\<rparr> else c)) (js_components s)\<rparr>"

section \<open>Heads\<close>

definition heads_baseline_of :: "heads \<Rightarrow> u64" where
  "heads_baseline_of h = (case hs_polled h of Some t \<Rightarrow> t | None \<Rightarrow> hs_since h)"

definition merge_fence :: "journal_state \<Rightarrow> json option" where
  "merge_fence s = map_option (\<lambda>c. JObj [(''checkpoint'', JNum (PosInt c))]) (js_merge s)"

definition option_or :: "'a option \<Rightarrow> 'a option \<Rightarrow> 'a option" where
  "option_or a b = (case a of None \<Rightarrow> b | Some _ \<Rightarrow> a)"

definition skip_pruned_deployments :: "json option \<Rightarrow> journal_state \<Rightarrow> journal_state" where
  "skip_pruned_deployments tip s =
     (if js_discovery s \<noteq> None then s\<lparr>js_cursor := tip, js_discovery := tip, js_membership := tip\<rparr>
      else s\<lparr>js_cursor := option_or (merge_fence s) tip\<rparr>)"

definition skip_pruned_memberships :: "json option \<Rightarrow> journal_state \<Rightarrow> journal_state" where
  "skip_pruned_memberships tip s = s\<lparr>js_membership := option_or (merge_fence s) tip\<rparr>"

definition new_heads :: "u64 \<Rightarrow> heads" where
  "new_heads since_ms = \<lparr>hs_since = since_ms, hs_seen = [], hs_next_start = 0, hs_polled = None\<rparr>"

definition begin_heads :: "u64 \<Rightarrow> json option option \<Rightarrow> journal_state \<Rightarrow> journal_state" where
  "begin_heads since_ms pruned_tip s =
     (case pruned_tip of Some tip \<Rightarrow> skip_pruned_deployments tip s | None \<Rightarrow> s)\<lparr>js_heads := Some (new_heads since_ms)\<rparr>"

definition head_changed :: "head \<Rightarrow> seen \<Rightarrow> string list" where
  "head_changed h sn =
     (if hd_seq h = sn_seq sn then []
      else map snd (filter (\<lambda>(n, d). map_of (sn_components sn) n \<noteq> Some d) (hd_components h)))"

definition until_start :: "u64 \<Rightarrow> u64 \<Rightarrow> u64 option" where
  "until_start now next_start = (if now < next_start then Some (next_start - now) else None)"

section \<open>Lemmas\<close>

lemma map_of_map_entry: "map_of (map (\<lambda>(k, v). (k, f k v)) m) k = map_option (f k) (map_of m k)"
  by (induction m) auto

lemma settle_outcome_idem: "settle_outcome pend d (settle_outcome pend d o1) = settle_outcome pend d o1"
  by (simp add: settle_outcome_def)

text \<open>The states a disk may show after a restart, with or without a power loss.\<close>

definition disk_states :: "journal_disk \<Rightarrow> journal_state set" where
  "disk_states d = {s. dk_file d = Holds s \<or> dk_durable d = Holds s}"

lemma disk_states_save: "disk_states (fst (journal_save io s d)) \<subseteq> insert s (disk_states d)"
  by (auto simp: disk_states_def journal_save_def split: save_io.splits)

lemma journal_save_ok: "snd (journal_save io s d) \<Longrightarrow> fst (journal_save io s d) = \<lparr>dk_file = Holds s, dk_durable = Holds s\<rparr>"
  by (auto simp: journal_save_def split: save_io.splits)



end
