(* ===== verification/Configuration.thy ===== *)
theory Configuration
  imports Json
begin

text \<open>
  Component configuration (\<open>suifleet-edge/src/configuration.rs\<close>): RFC 6901 pointers, lookup, set and
  remove in a document, filling defaults, merging patches, resets, the limits, the static checks of a
  recipe and the next effective configuration. The lemmas show which value wins at a path and that
  no confidential value survives in a committed record.
\<close>

section \<open>Definitions\<close>

definition MAX_DEPTH :: nat where "MAX_DEPTH = 32"
definition MAX_VALUES :: nat where "MAX_VALUES = 4096"
definition MAX_POINTERS :: nat where "MAX_POINTERS = 64"
definition MAX_POINTER_LENGTH :: nat where "MAX_POINTER_LENGTH = 1024"

datatype cfg_error =
    PointerTooLong | PointerNoSlash | PointerEscape | WholeDocument | PassesThrough | TooBig
  | TooManyPointers | WholeConfidential | ConfidentialValue string | NotProvisioned string

text \<open>
  UTF-16 units of a UTF-8 string: one per character, that is per byte that is no continuation byte,
  and one more for each character outside the basic plane, that is per four-byte leader.
\<close>

definition encode_utf16_count :: "string \<Rightarrow> nat" where
  "encode_utf16_count s = length (filter (\<lambda>c. \<not> is_continuation c) s) + length (filter (\<lambda>c. 240 \<le> byte c) s)"

fun escapes_ok :: "string \<Rightarrow> bool" where
  "escapes_ok [] = True"
| "escapes_ok (c # cs) =
     (if c \<noteq> CHR ''~'' then escapes_ok cs
      else case cs of [] \<Rightarrow> False
           | e # cs' \<Rightarrow> (e = CHR ''0'' \<or> e = CHR ''1'') \<and> escapes_ok cs')"

text \<open>\<open>str::replace\<close> of a two-byte pattern by one byte.\<close>

fun replace2 :: "char \<Rightarrow> char \<Rightarrow> char \<Rightarrow> string \<Rightarrow> string" where
  "replace2 a b r [] = []"
| "replace2 a b r [c] = [c]"
| "replace2 a b r (c # d # cs) =
     (if c = a \<and> d = b then r # replace2 a b r cs else c # replace2 a b r (d # cs))"

definition unescape :: "string \<Rightarrow> string" where
  "unescape token = replace2 (CHR ''~'') (CHR ''0'') (CHR ''~'') (replace2 (CHR ''~'') (CHR ''1'') (CHR ''/'') token)"

definition tokens :: "string \<Rightarrow> (cfg_error, string list) result" where
  "tokens pointer =
     ensure (encode_utf16_count pointer \<le> MAX_POINTER_LENGTH) PointerTooLong
      (if pointer = [] then Inr []
       else case strip_prefix ''/'' pointer of
         None \<Rightarrow> Inl PointerNoSlash
       | Some rest \<Rightarrow>
           res_map (\<lambda>token. ensure (escapes_ok token) PointerEscape (Inr (unescape token))) (split_on (CHR ''/'') rest))"

fun lookup_in :: "jmap \<Rightarrow> string list \<Rightarrow> (cfg_error, json option) result" where
  "lookup_in node [] = Inl WholeDocument"
| "lookup_in node [t] = Inr (map_of node t)"
| "lookup_in node (t # ts) =
     (case map_of node t of
        None \<Rightarrow> Inr None
      | Some (JObj child) \<Rightarrow> lookup_in child ts
      | Some _ \<Rightarrow> Inl PassesThrough)"

text \<open>
  \<open>parent_mut\<close> returns a mutable reference to the object holding the last token; here the update
  made through that reference is an argument.
\<close>

fun parent_mut :: "string list \<Rightarrow> (jmap \<Rightarrow> jmap) \<Rightarrow> jmap \<Rightarrow> (cfg_error, jmap) result" where
  "parent_mut [] upd node = Inr (upd node)"
| "parent_mut (t # ts) upd node =
     (case (case map_of node t of None \<Rightarrow> JObj [] | Some v \<Rightarrow> v) of
        JObj child \<Rightarrow> res_bind (parent_mut ts upd child) (\<lambda>child'. Inr (bt_insert t (JObj child') node))
      | _ \<Rightarrow> Inl PassesThrough)"

definition set_tokens :: "string list \<Rightarrow> json \<Rightarrow> jmap \<Rightarrow> (cfg_error, jmap) result" where
  "set_tokens ts v document = parent_mut (butlast ts) (bt_insert (last ts) v) document"

definition cfg_set :: "jmap \<Rightarrow> string \<Rightarrow> json \<Rightarrow> (cfg_error, jmap) result" where
  "cfg_set document pointer v =
     res_bind (tokens pointer) (\<lambda>ts. ensure (ts \<noteq> []) WholeDocument (set_tokens ts v document))"

definition remove_tokens :: "string list \<Rightarrow> jmap \<Rightarrow> (cfg_error, jmap) result" where
  "remove_tokens ts document =
     res_bind (lookup_in document ts) (\<lambda>found.
       if found \<noteq> None then parent_mut (butlast ts) (bt_remove (last ts)) document else Inr document)"

definition cfg_remove :: "jmap \<Rightarrow> string \<Rightarrow> (cfg_error, jmap) result" where
  "cfg_remove document pointer = res_bind (tokens pointer) (\<lambda>ts. remove_tokens ts document)"

function fill :: "jmap \<Rightarrow> jmap \<Rightarrow> jmap" where
  "fill target [] = target"
| "fill target ((key, v) # defaults) =
     fill (case map_of target key of
             None \<Rightarrow> bt_insert key v target
           | Some (JObj existing) \<Rightarrow>
               (case v of JObj d \<Rightarrow> bt_insert key (JObj (fill existing d)) target | _ \<Rightarrow> target)
           | Some _ \<Rightarrow> target) defaults"
  by pat_completeness auto
termination by (relation "measure (\<lambda>(_, d). size (JObj d))") auto

function cfg_merge :: "jmap \<Rightarrow> jmap \<Rightarrow> jmap" where
  "cfg_merge target [] = target"
| "cfg_merge target ((key, v) # patch) =
     cfg_merge (case (map_of target key, v) of
             (Some (JObj existing), JObj p) \<Rightarrow> bt_insert key (JObj (cfg_merge existing p)) target
           | _ \<Rightarrow> bt_insert key v target) patch"
  by pat_completeness auto
termination by (relation "measure (\<lambda>(_, d). size (JObj d))") auto

definition reset :: "jmap \<Rightarrow> jmap \<Rightarrow> string \<Rightarrow> (cfg_error, jmap) result" where
  "reset effective defaults pointer =
     res_bind (tokens pointer) (\<lambda>ts.
       if ts = [] then Inr defaults
       else res_bind (lookup_in defaults ts) (\<lambda>found.
         case found of Some v \<Rightarrow> cfg_set effective pointer v | None \<Rightarrow> cfg_remove effective pointer))"

text \<open>The walk of \<open>check_limits\<close>, with the count of values threaded through and early exit.\<close>

function (sequential) walk :: "json \<Rightarrow> nat \<Rightarrow> nat \<Rightarrow> bool \<times> nat"
  and walk_entries :: "(string \<times> json) list \<Rightarrow> nat \<Rightarrow> nat \<Rightarrow> bool \<times> nat"
  and walk_items :: "json list \<Rightarrow> nat \<Rightarrow> nat \<Rightarrow> bool \<times> nat" where
  "walk v depth n =
     (let n = n + 1 in
      if MAX_VALUES < n \<or> MAX_DEPTH < depth then (False, n)
      else case v of JObj m \<Rightarrow> walk_entries m (depth + 1) n
           | JArr xs \<Rightarrow> walk_items xs (depth + 1) n
           | _ \<Rightarrow> (True, n))"
| "walk_entries [] depth n = (True, n)"
| "walk_entries ((k, v) # m) depth n =
     (case walk v depth n of (ok, n) \<Rightarrow> if ok then walk_entries m depth n else (False, n))"
| "walk_items [] depth n = (True, n)"
| "walk_items (v # xs) depth n =
     (case walk v depth n of (ok, n) \<Rightarrow> if ok then walk_items xs depth n else (False, n))"
  by pat_completeness auto
termination
  by (relation "measure (case_sum (\<lambda>(v, _). 2 * size v + 1)
       (case_sum (\<lambda>(m, _). 2 * size (JObj m)) (\<lambda>(xs, _). 2 * size (JArr xs))))") auto

definition check_limits :: "jmap \<Rightarrow> (cfg_error, unit) result" where
  "check_limits document = ensure (fst (walk_entries document 2 1)) TooBig (Inr ())"

record configuration =
  cfg_defaults :: "jmap option"
  cfg_merge_doc :: "jmap option"
  cfg_reset :: "string list option"
  cfg_confidential :: "string list option"

abbreviation resets_of :: "configuration \<Rightarrow> string list" where
  "resets_of c \<equiv> (case cfg_reset c of None \<Rightarrow> [] | Some ps \<Rightarrow> ps)"

abbreviation confidential_of :: "configuration \<Rightarrow> string list" where
  "confidential_of c \<equiv> (case cfg_confidential c of None \<Rightarrow> [] | Some ps \<Rightarrow> ps)"

abbreviation map_or_empty :: "jmap option \<Rightarrow> jmap" where
  "map_or_empty m \<equiv> (case m of None \<Rightarrow> [] | Some d \<Rightarrow> d)"

definition no_confidential_in :: "string list \<Rightarrow> jmap option \<Rightarrow> (cfg_error, unit) result" where
  "no_confidential_in ps document =
     (case document of None \<Rightarrow> Inr ()
      | Some doc \<Rightarrow>
          res_bind (check_limits doc) (\<lambda>_.
            res_fold (\<lambda>p _. res_bind (tokens p) (\<lambda>ts. res_bind (lookup_in doc ts) (\<lambda>found.
              ensure (found = None) (ConfidentialValue p) (Inr ())))) ps ()))"

definition validate_recipe :: "configuration \<Rightarrow> (cfg_error, unit) result" where
  "validate_recipe c =
     ensure (length (resets_of c) \<le> MAX_POINTERS \<and> length (confidential_of c) \<le> MAX_POINTERS) TooManyPointers
      (res_bind (res_fold (\<lambda>p _. res_bind (tokens p) (\<lambda>_. Inr ())) (resets_of c) ()) (\<lambda>_.
       res_bind (res_fold (\<lambda>p _. res_bind (tokens p) (\<lambda>ts. ensure (ts \<noteq> []) WholeConfidential (Inr ())))
                   (confidential_of c) ()) (\<lambda>_.
       res_bind (no_confidential_in (confidential_of c) (cfg_defaults c)) (\<lambda>_.
       no_confidential_in (confidential_of c) (cfg_merge_doc c)))))"

record cfg_record =
  rcd_deployment :: string
  rcd_version :: string
  rcd_defaults :: jmap
  rcd_effective :: jmap
  rcd_confidential :: "string list"
  rcd_sealed :: bool

definition cfg_next :: "jmap option \<Rightarrow> configuration \<Rightarrow> (cfg_error, jmap) result" where
  "cfg_next previous c =
     res_bind (validate_recipe c) (\<lambda>_.
       let defaults = map_or_empty (cfg_defaults c);
           effective = fill (map_or_empty previous) defaults in
       res_bind (res_fold (\<lambda>p e. reset e defaults p) (resets_of c) effective) (\<lambda>effective.
         let effective = cfg_merge effective (map_or_empty (cfg_merge_doc c)) in
         res_bind (res_fold (\<lambda>p e. cfg_remove e p) (confidential_of c) effective) (\<lambda>effective.
           res_bind (check_limits effective) (\<lambda>_. Inr effective))))"

definition cfg_sealed :: "cfg_record option \<Rightarrow> configuration \<Rightarrow> bool \<Rightarrow> bool" where
  "cfg_sealed previous c encrypted =
     (let resets_all = list_ex (\<lambda>p. p = []) (resets_of c) in
      encrypted \<or> (case previous of None \<Rightarrow> False | Some r \<Rightarrow> rcd_sealed r) \<and> \<not> resets_all)"

text \<open>The checks of \<open>overlay\<close> on a file that was read and parsed.\<close>

datatype overlay_error = OverlayAccessible | OverlayTooLarge | OverlayNotJson | OverlayNotObject | OverlayPointer cfg_error

definition overlay_of :: "nat \<Rightarrow> nat \<Rightarrow> json option \<Rightarrow> (overlay_error, jmap) result" where
  "overlay_of mode len parsed =
     ensure (mode mod 8 = 0) OverlayAccessible
      (ensure (len \<le> 1024 * 1024) OverlayTooLarge
        (case parsed of None \<Rightarrow> Inl OverlayNotJson
         | Some v \<Rightarrow> (case as_object v of None \<Rightarrow> Inl OverlayNotObject
             | Some m \<Rightarrow> res_fold (\<lambda>(p, _) _. case tokens p of Inl e \<Rightarrow> Inl (OverlayPointer e)
                 | Inr ts \<Rightarrow> ensure (ts \<noteq> []) (OverlayPointer WholeDocument) (Inr m)) m m)))"

definition materialize :: "cfg_record \<Rightarrow> jmap \<Rightarrow> (cfg_error, json) result" where
  "materialize r overlay =
     res_bind (res_fold (\<lambda>p _. ensure (bt_has overlay p) (NotProvisioned p) (Inr ())) (rcd_confidential r) ()) (\<lambda>_.
       res_bind (res_fold (\<lambda>(p, v) doc. cfg_set doc p v) overlay (rcd_effective r)) (\<lambda>doc. Inr (JObj doc)))"

section \<open>Lemmas: paths\<close>

text \<open>One step of a path, for induction over both paths and documents.\<close>

lemma lookup_in_Cons:
  "ts \<noteq> [] \<Longrightarrow> lookup_in node (t # ts) =
     (case map_of node t of None \<Rightarrow> Inr None | Some (JObj child) \<Rightarrow> lookup_in child ts | Some _ \<Rightarrow> Inl PassesThrough)"
  by (cases ts) auto

lemma set_tokens_single [simp]: "set_tokens [t] v m = Inr (bt_insert t v m)"
  by (simp add: set_tokens_def)

lemma set_tokens_Cons:
  "ts \<noteq> [] \<Longrightarrow> set_tokens (t # ts) v m =
     (case (case map_of m t of None \<Rightarrow> JObj [] | Some w \<Rightarrow> w) of
        JObj child \<Rightarrow> res_bind (set_tokens ts v child) (\<lambda>child'. Inr (bt_insert t (JObj child') m))
      | _ \<Rightarrow> Inl PassesThrough)"
  by (auto simp: set_tokens_def split: option.splits json.splits)

lemma lookup_set_same:
  "ts \<noteq> [] \<Longrightarrow> set_tokens ts v m = Inr m' \<Longrightarrow> lookup_in m' ts = Inr (Some v)"
proof (induction ts arbitrary: m m')
  case (Cons t ts)
  then show ?case
    by (cases "ts = []") (auto simp: set_tokens_Cons lookup_in_Cons split: option.splits json.splits)
qed simp

definition apart :: "string list \<Rightarrow> string list \<Rightarrow> bool" where
  "apart ts us \<longleftrightarrow> \<not> prefix ts us \<and> \<not> prefix us ts"

lemma lookup_set_other:
  "lookup_in m us = Inr (Some w) \<Longrightarrow> apart ts us \<Longrightarrow> set_tokens ts v m = Inr m' \<Longrightarrow> lookup_in m' us = Inr (Some w)"
proof (induction ts arbitrary: us m m')
  case (Cons t ts)
  obtain u us' where us: "us = u # us'" using Cons.prems(2) by (cases us) (auto simp: apart_def)
  show ?case
  proof (cases "t = u")
    case False
    have "map_of m' u = map_of m u"
      using Cons.prems(3) False by (cases "ts = []") (auto simp: set_tokens_Cons split: option.splits json.splits)
    then show ?thesis using Cons.prems(1) us by (cases us') auto
  next
    case True
    then have ap: "apart ts us'" using Cons.prems(2) us by (simp add: apart_def)
    then have ne: "ts \<noteq> []" "us' \<noteq> []" by (auto simp: apart_def)
    then obtain child where child: "map_of m u = Some (JObj child)" "lookup_in child us' = Inr (Some w)"
      using Cons.prems(1) us by (auto simp: lookup_in_Cons split: option.splits json.splits)
    then obtain child' where "set_tokens ts v child = Inr child'" "m' = bt_insert t (JObj child') m"
      using Cons.prems(3) True ne by (auto simp: set_tokens_Cons)
    then show ?thesis using Cons.IH [OF child(2) ap] us ne True by (simp add: lookup_in_Cons)
  qed
qed (simp add: apart_def)

lemma remove_tokens_Cons:
  assumes "ts \<noteq> []" and "remove_tokens (t # ts) m = Inr m'"
  shows "(map_of m t = None \<and> m' = m) \<or>
     (\<exists>child child'. map_of m t = Some (JObj child) \<and> remove_tokens ts child = Inr child' \<and>
        (m' = bt_insert t (JObj child') m \<or> m' = m \<and> child' = child))"
proof -
  consider "map_of m t = None" | child where "map_of m t = Some (JObj child)" | v where "map_of m t = Some v" "\<not> is_object v"
    using is_object_cases [of "the (map_of m t)"] by (cases "map_of m t") auto
  then show ?thesis
  proof cases
    case 1
    then show ?thesis using assms by (simp add: remove_tokens_def lookup_in_Cons)
  next
    case (2 child)
    obtain found where f: "lookup_in child ts = Inr found"
      using assms 2 by (auto simp: remove_tokens_def lookup_in_Cons)
    show ?thesis
    proof (cases found)
      case None
      then show ?thesis using assms 2 f by (simp add: remove_tokens_def lookup_in_Cons)
    next
      case (Some v)
      then obtain child' where "parent_mut (butlast ts) (bt_remove (last ts)) child = Inr child'"
          "m' = bt_insert t (JObj child') m"
        using assms 2 f by (auto simp: remove_tokens_def lookup_in_Cons)
      then show ?thesis using 2 f Some by (simp add: remove_tokens_def)
    qed
  next
    case (3 v)
    then show ?thesis using assms by (cases v) (auto simp: remove_tokens_def lookup_in_Cons is_object_def)
  qed
qed

lemma remove_tokens_single: "remove_tokens [t] m = Inr m' \<Longrightarrow> m' = bt_remove t m \<or> m' = m \<and> map_of m t = None"
  by (auto simp: remove_tokens_def split: if_splits)

lemma lookup_removed:
  "remove_tokens ts m = Inr m' \<Longrightarrow> lookup_in m' ts = Inr None"
proof (induction ts arbitrary: m m')
  case Nil
  then show ?case by (simp add: remove_tokens_def)
next
  case (Cons t ts)
  show ?case
  proof (cases "ts = []")
    case True
    then show ?thesis using remove_tokens_single [of t m m'] Cons.prems by auto
  next
    case False
    then show ?thesis
      using remove_tokens_Cons [OF False Cons.prems] Cons.IH by (auto simp: lookup_in_Cons)
  qed
qed

text \<open>Removing never makes an absent path present.\<close>

lemma lookup_absent_removed:
  "lookup_in m us = Inr None \<Longrightarrow> remove_tokens ts m = Inr m' \<Longrightarrow> lookup_in m' us = Inr None"
proof (induction us arbitrary: m m' ts)
  case (Cons u us)
  obtain t ts' where ts: "ts = t # ts'" using Cons.prems(2) by (cases ts) (auto simp: remove_tokens_def)
  show ?case
  proof (cases "ts' = []")
    case True
    then have "m' = bt_remove t m \<or> m' = m" using remove_tokens_single Cons.prems(2) ts by blast
    then show ?thesis using Cons.prems(1) by (cases "us = []") (auto simp: lookup_in_Cons)
  next
    case False
    from remove_tokens_Cons [OF False Cons.prems(2) [unfolded ts]] show ?thesis
    proof (elim disjE exE conjE)
      fix child child'
      assume c: "map_of m t = Some (JObj child)" "remove_tokens ts' child = Inr child'" "m' = bt_insert t (JObj child') m"
      show ?thesis
        using Cons.prems(1) c Cons.IH [OF _ c(2)] by (cases "us = []") (auto simp: lookup_in_Cons split: if_splits)
    qed (use Cons.prems in auto)
  qed
qed simp

section \<open>Lemmas: pointers\<close>

text \<open>The escaping of RFC 6901, which \<open>tokens\<close> undoes.\<close>

definition rfc_escape :: "string \<Rightarrow> string" where
  "rfc_escape token = concat (map (\<lambda>c. if c = CHR ''~'' then ''~0'' else if c = CHR ''/'' then ''~1'' else [c]) token)"

definition rfc_pointer :: "string list \<Rightarrow> string" where
  "rfc_pointer ts = concat (map (\<lambda>t. CHR ''/'' # rfc_escape t) ts)"

lemma rfc_escape_simps [simp]:
  "rfc_escape [] = []"
  "rfc_escape (c # cs) = (if c = CHR ''~'' then ''~0'' else if c = CHR ''/'' then ''~1'' else [c]) @ rfc_escape cs"
  by (simp_all add: rfc_escape_def)

lemma escapes_ok_escape: "escapes_ok (rfc_escape t)"
  by (induction t) auto

lemma slash_not_in_escape: "CHR ''/'' \<notin> set (rfc_escape t)"
  by (induction t) auto

lemma replace2_other: "c \<noteq> a \<Longrightarrow> replace2 a b r (c # cs) = c # replace2 a b r cs"
  by (cases cs) auto

lemma unescape_escape: "unescape (rfc_escape t) = t"
proof -
  have "replace2 (CHR ''~'') (CHR ''1'') (CHR ''/'') (rfc_escape t) =
      concat (map (\<lambda>c. if c = CHR ''~'' then ''~0'' else [c]) t)"
    by (induction t) (auto simp: replace2_other)
  moreover have "replace2 (CHR ''~'') (CHR ''0'') (CHR ''~'') (concat (map (\<lambda>c. if c = CHR ''~'' then ''~0'' else [c]) t)) = t"
    by (induction t) (auto simp: replace2_other)
  ultimately show ?thesis by (simp add: unescape_def)
qed

lemma split_pointer:
  "ts \<noteq> [] \<Longrightarrow> split_on (CHR ''/'') (tl (rfc_pointer ts)) = map rfc_escape ts"
proof (induction ts)
  case (Cons t ts)
  show ?case
  proof (cases "ts = []")
    case True
    then show ?thesis using slash_not_in_escape by (simp add: rfc_pointer_def split_on_id)
  next
    case False
    then have "tl (rfc_pointer (t # ts)) = rfc_escape t @ CHR ''/'' # tl (rfc_pointer ts)"
      by (cases ts) (simp_all add: rfc_pointer_def)
    then show ?thesis using Cons False slash_not_in_escape by (simp add: split_on_append)
  qed
qed simp

lemma res_map_ok: "(\<And>x. x \<in> set xs \<Longrightarrow> f x = Inr (g x)) \<Longrightarrow> res_map f xs = Inr (map g xs)"
  by (induction xs) auto

section \<open>Lemmas: limits\<close>

lemma depth_step:
  "d \<le> M \<Longrightarrow> d + Suc (fold max xs 0) \<le> Suc M \<longleftrightarrow> (\<forall>x \<in> set xs. Suc d + x \<le> Suc M)"
proof -
  assume d: "d \<le> M"
  then have "d + Suc (fold max xs 0) \<le> Suc M \<longleftrightarrow> fold max xs 0 \<le> M - d" by arith
  also have "\<dots> \<longleftrightarrow> (\<forall>x \<in> set xs. x \<le> M - d)" by (simp add: fold_max_le)
  also have "\<dots> \<longleftrightarrow> (\<forall>x \<in> set xs. Suc d + x \<le> Suc M)"
    using d by (intro ball_cong) arith+
  finally show ?thesis .
qed

lemma walk_spec:
  "(fst (walk v d n) \<longleftrightarrow> n + json_values v \<le> MAX_VALUES \<and> d + json_depth v \<le> Suc MAX_DEPTH)
     \<and> (fst (walk v d n) \<longrightarrow> snd (walk v d n) = n + json_values v)"
  "(fst (walk_entries m d n) \<longleftrightarrow> (m = [] \<or> n + sum_list (map (\<lambda>e. json_values (snd e)) m) \<le> MAX_VALUES)
     \<and> (\<forall>x \<in> set (map (\<lambda>e. json_depth (snd e)) m). d + x \<le> Suc MAX_DEPTH))
     \<and> (fst (walk_entries m d n) \<longrightarrow> snd (walk_entries m d n) = n + sum_list (map (\<lambda>e. json_values (snd e)) m))"
  "(fst (walk_items xs d n) \<longleftrightarrow> (xs = [] \<or> n + sum_list (map json_values xs) \<le> MAX_VALUES)
     \<and> (\<forall>x \<in> set (map json_depth xs). d + x \<le> Suc MAX_DEPTH))
     \<and> (fst (walk_items xs d n) \<longrightarrow> snd (walk_items xs d n) = n + sum_list (map json_values xs))"
proof (induction v d n and m d n and xs d n rule: walk_walk_entries_walk_items.induct)
  case (1 v d n)
  obtain a b where pos: "json_values v = Suc a" "json_depth v = Suc b"
    by (metis gr0_implies_Suc json_depth_pos json_values_pos)
  show ?case
  proof (cases "MAX_VALUES < n + 1 \<or> MAX_DEPTH < d")
    case True
    then show ?thesis using pos by auto
  next
    case False
    then have d: "d \<le> MAX_DEPTH" and n: "n + 1 \<le> MAX_VALUES" by auto
    note IH = 1 [OF refl False]
    show ?thesis
      using d n IH depth_step [OF d] by (cases v) (auto simp: Let_def)
  qed
next
  case (3 k v m d n)
  obtain ok n1 where w: "walk v d n = (ok, n1)" by fastforce
  show ?case
  proof (cases ok)
    case True
    note IH = 3(2) [OF w [symmetric] True]
    show ?thesis using 3(1) IH w True by (cases "m = []") auto
  next
    case False
    then show ?thesis using 3(1) w by auto
  qed
next
  case (5 v xs d n)
  obtain ok n1 where w: "walk v d n = (ok, n1)" by fastforce
  show ?case
  proof (cases ok)
    case True
    note IH = 5(2) [OF w [symmetric] True]
    show ?thesis using 5(1) IH w True by (cases "xs = []") auto
  next
    case False
    then show ?thesis using 5(1) w by auto
  qed
qed auto

lemma check_limits_iff:
  "check_limits m = Inr u \<longleftrightarrow> json_values (JObj m) \<le> MAX_VALUES \<and> json_depth (JObj m) \<le> MAX_DEPTH"
proof -
  have small: "(1::nat) \<le> MAX_DEPTH" "1 \<le> MAX_VALUES" by (simp_all add: MAX_DEPTH_def MAX_VALUES_def)
  have "json_depth (JObj m) \<le> MAX_DEPTH \<longleftrightarrow> (\<forall>x \<in> set (map (\<lambda>e. json_depth (snd e)) m). 2 + x \<le> Suc MAX_DEPTH)"
    using depth_step [OF small(1), of "map (\<lambda>e. json_depth (snd e)) m"] by simp
  then show ?thesis
    using walk_spec(2) [of m 2 1] small by (cases "m = []") (auto simp: check_limits_def)
qed

section \<open>Lemmas: filling and merging\<close>

lemma fill_wf: "jmap_wf t \<Longrightarrow> jmap_wf d \<Longrightarrow> jmap_wf (fill t d)"
proof (induction t d rule: fill.induct)
  case (2 t key v d)
  have d: "jmap_wf d" "json_wf v" using 2(4) by (auto simp: bt_wf_Cons)
  have sub: "jmap_wf (bt_insert key (JObj (fill e dd)) t)"
    if "map_of t key = Some (JObj e)" "v = JObj dd" for e dd
    using 2(1) [OF that(1) refl that(2)] jmap_wf_get [OF 2(3) that(1)] d(2) that(2) 2(3) by (intro jmap_wf_insert) auto
  have ins: "jmap_wf (bt_insert key v t)" using 2(3) d(2) by (rule jmap_wf_insert)
  show ?case
    unfolding fill.simps
    by (rule 2(2) [OF _ d(1)]) (use 2(3) ins sub in \<open>auto split: option.splits json.splits\<close>)
qed simp

lemma get_fill:
  "bt_wf d \<Longrightarrow> map_of (fill t d) k =
     (case map_of t k of
        None \<Rightarrow> map_of d k
      | Some (JObj e) \<Rightarrow> (case map_of d k of Some (JObj dd) \<Rightarrow> Some (JObj (fill e dd)) | _ \<Rightarrow> Some (JObj e))
      | Some v \<Rightarrow> Some v)"
proof (induction d arbitrary: t)
  case (Cons x d)
  obtain key v where x: "x = (key, v)" by fastforce
  have wf: "bt_wf d" and new: "map_of d key = None" using Cons.prems x by (auto simp: bt_wf_Cons map_of_eq_None_iff)
  show ?case
    using Cons.IH [OF wf] new by (cases "k = key") (auto simp: x split: option.splits json.splits)
qed (auto split: option.splits json.splits)

lemma get_merge:
  "bt_wf p \<Longrightarrow> map_of (cfg_merge t p) k =
     (case map_of p k of
        None \<Rightarrow> map_of t k
      | Some (JObj pp) \<Rightarrow> (case map_of t k of Some (JObj e) \<Rightarrow> Some (JObj (cfg_merge e pp)) | _ \<Rightarrow> Some (JObj pp))
      | Some v \<Rightarrow> Some v)"
proof (induction p arbitrary: t)
  case (Cons x p)
  obtain key v where x: "x = (key, v)" by fastforce
  have wf: "bt_wf p" and new: "map_of p key = None" using Cons.prems x by (auto simp: bt_wf_Cons map_of_eq_None_iff)
  show ?case
    using Cons.IH [OF wf] new by (cases "k = key") (auto simp: x split: option.splits json.splits)
qed simp

text \<open>Along a path: filling keeps what is there and adds what is missing, merging overrides.\<close>

lemma fill_keeps:
  "jmap_wf d \<Longrightarrow> lookup_in t ts = Inr (Some v) \<Longrightarrow> \<not> is_object v \<Longrightarrow> lookup_in (fill t d) ts = Inr (Some v)"
proof (induction ts arbitrary: t d)
  case (Cons k ts)
  note g = get_fill [of d t k]
  have wf: "bt_wf d" using Cons.prems(1) by simp
  show ?case
  proof (cases "ts = []")
    case True
    then show ?thesis using Cons.prems g wf by (auto simp: is_object_def split: json.splits)
  next
    case False
    then obtain e where e: "map_of t k = Some (JObj e)" "lookup_in e ts = Inr (Some v)"
      using Cons.prems(2) by (auto simp: lookup_in_Cons split: option.splits json.splits)
    have "lookup_in (fill e dd) ts = Inr (Some v)" if "map_of d k = Some (JObj dd)" for dd
      using Cons.IH [OF jmap_wf_get [OF Cons.prems(1) that] e(2) Cons.prems(3)] .
    then show ?thesis using g wf e False by (auto simp: lookup_in_Cons split: option.splits json.splits)
  qed
qed simp

lemma fill_adds:
  "jmap_wf d \<Longrightarrow> lookup_in t ts = Inr None \<Longrightarrow> lookup_in d ts = Inr (Some v) \<Longrightarrow> lookup_in (fill t d) ts = Inr (Some v)"
proof (induction ts arbitrary: t d)
  case (Cons k ts)
  note g = get_fill [of d t k]
  have wf: "bt_wf d" using Cons.prems(1) by simp
  show ?case
  proof (cases "ts = []")
    case True
    then show ?thesis using Cons.prems g wf by auto
  next
    case False
    then obtain dd where dd: "map_of d k = Some (JObj dd)" "lookup_in dd ts = Inr (Some v)"
      using Cons.prems(3) by (auto simp: lookup_in_Cons split: option.splits json.splits)
    have "lookup_in (fill e dd) ts = Inr (Some v)" if "map_of t k = Some (JObj e)" for e
      using Cons.IH [OF jmap_wf_get [OF Cons.prems(1) dd(1)] _ dd(2)] that Cons.prems(2) False by (simp add: lookup_in_Cons)
    then show ?thesis using g wf dd False Cons.prems(2) by (auto simp: lookup_in_Cons split: option.splits json.splits)
  qed
qed simp

lemma merge_wins:
  "jmap_wf p \<Longrightarrow> lookup_in p ts = Inr (Some v) \<Longrightarrow> \<not> is_object v \<Longrightarrow> lookup_in (cfg_merge t p) ts = Inr (Some v)"
proof (induction ts arbitrary: t p)
  case (Cons k ts)
  note g = get_merge [of p t k]
  have wf: "bt_wf p" using Cons.prems(1) by simp
  show ?case
  proof (cases "ts = []")
    case True
    then show ?thesis using Cons.prems g wf by (auto simp: is_object_def split: json.splits)
  next
    case False
    then obtain pp where pp: "map_of p k = Some (JObj pp)" "lookup_in pp ts = Inr (Some v)"
      using Cons.prems(2) by (auto simp: lookup_in_Cons split: option.splits json.splits)
    have "lookup_in (cfg_merge e pp) ts = Inr (Some v)" for e
      using Cons.IH [OF jmap_wf_get [OF Cons.prems(1) pp(1)] pp(2) Cons.prems(3)] .
    then show ?thesis using g wf pp False by (auto simp: lookup_in_Cons split: option.splits json.splits)
  qed
qed simp

lemma merge_keeps:
  "jmap_wf p \<Longrightarrow> lookup_in p ts = Inr None \<Longrightarrow> lookup_in t ts = Inr (Some v) \<Longrightarrow> lookup_in (cfg_merge t p) ts = Inr (Some v)"
proof (induction ts arbitrary: t p)
  case (Cons k ts)
  note g = get_merge [of p t k]
  have wf: "bt_wf p" using Cons.prems(1) by simp
  show ?case
  proof (cases "ts = []")
    case True
    then show ?thesis using Cons.prems g wf by auto
  next
    case False
    then obtain e where e: "map_of t k = Some (JObj e)" "lookup_in e ts = Inr (Some v)"
      using Cons.prems(3) by (auto simp: lookup_in_Cons split: option.splits json.splits)
    have "lookup_in (cfg_merge e pp) ts = Inr (Some v)" if "map_of p k = Some (JObj pp)" for pp
      using Cons.IH [OF jmap_wf_get [OF Cons.prems(1) that] _ e(2)] that Cons.prems(2) False by (simp add: lookup_in_Cons)
    then show ?thesis using g wf e False Cons.prems(2) by (auto simp: lookup_in_Cons split: option.splits json.splits)
  qed
qed simp

section \<open>Properties\<close>

definition demo_recipe :: configuration where
  "demo_recipe = \<lparr>cfg_defaults = Some [(''rate'', JNum (PosInt 5))], cfg_merge_doc = Some [(''net'', JObj [(''host'', JStr ''h'')])],
     cfg_reset = Some [''/rate''], cfg_confidential = Some [''/net/key'']\<rparr>"

definition demo_previous :: jmap where
  "demo_previous = [(''net'', JObj [(''key'', JStr ''secret'')]), (''rate'', JNum (PosInt 9))]"

definition plain_recipe :: configuration where
  "plain_recipe = demo_recipe\<lparr>cfg_reset := None, cfg_confidential := None\<rparr>"

lemma no_confidential_in_spec:
  assumes "no_confidential_in ps (Some doc) = Inr u" and "p \<in> set ps"
  shows "\<exists>ts. tokens p = Inr ts \<and> lookup_in doc ts = Inr None"
proof -
  have "\<exists>w. res_fold (\<lambda>p _. res_bind (tokens p) (\<lambda>ts. res_bind (lookup_in doc ts) (\<lambda>found.
      ensure (found = None) (ConfidentialValue p) (Inr ())))) ps u' = Inr w \<Longrightarrow> p \<in> set ps \<Longrightarrow>
      \<exists>ts. tokens p = Inr ts \<and> lookup_in doc ts = Inr None" for u'
    by (induction ps arbitrary: u') auto
  then show ?thesis using assms by (auto simp: no_confidential_in_def)
qed

lemma removals_spec:
  "res_fold (\<lambda>p e. cfg_remove e p) ps e = Inr e' \<Longrightarrow>
     (\<forall>p \<in> set ps. \<exists>ts. tokens p = Inr ts \<and> lookup_in e' ts = Inr None) \<and>
     (\<forall>us. lookup_in e us = Inr None \<longrightarrow> lookup_in e' us = Inr None)"
proof (induction ps arbitrary: e)
  case (Cons p ps)
  obtain e1 where e1: "cfg_remove e p = Inr e1" "res_fold (\<lambda>p e. cfg_remove e p) ps e1 = Inr e'" using Cons.prems by auto
  obtain ts where ts: "tokens p = Inr ts" "remove_tokens ts e = Inr e1" using e1(1) by (auto simp: cfg_remove_def)
  note IH = Cons.IH [OF e1(2)]
  have "lookup_in e' ts = Inr None" using IH lookup_removed [OF ts(2)] by blast
  then show ?case using IH lookup_absent_removed [OF _ ts(2)] ts(1) by auto
qed simp

text \<open>
  C26: confidentiality. A successful update leaves no value at any confidential pointer of the new
  recipe, whatever an earlier version had stored there, and the public defaults it records have none
  either; the result is within the value and depth limits.
\<close>

theorem next_hides_confidential:
  assumes "cfg_next previous c = Inr effective"
  shows "(\<forall>p \<in> set (confidential_of c). \<exists>ts. tokens p = Inr ts \<and> ts \<noteq> [] \<and> lookup_in effective ts = Inr None
      \<and> lookup_in (map_or_empty (cfg_defaults c)) ts = Inr None)
    \<and> json_values (JObj effective) \<le> MAX_VALUES \<and> json_depth (JObj effective) \<le> MAX_DEPTH"
proof -
  obtain e where removed: "res_fold (\<lambda>p e. cfg_remove e p) (confidential_of c) e = Inr effective"
    and limits: "check_limits effective = Inr ()" and valid: "validate_recipe c = Inr ()"
    using assms by (auto simp: cfg_next_def Let_def)
  have docs: "no_confidential_in (confidential_of c) (cfg_defaults c) = Inr ()"
    using valid by (auto simp: validate_recipe_def)
  have "\<exists>ts. tokens p = Inr ts \<and> ts \<noteq> [] \<and> lookup_in effective ts = Inr None
      \<and> lookup_in (map_or_empty (cfg_defaults c)) ts = Inr None" if p: "p \<in> set (confidential_of c)" for p
  proof -
    obtain ts where ts: "tokens p = Inr ts" "lookup_in effective ts = Inr None"
      using removals_spec [OF removed] p by blast
    have ne: "ts \<noteq> []" using ts(2) by auto
    have "lookup_in (map_or_empty (cfg_defaults c)) ts = Inr None"
    proof (cases "cfg_defaults c")
      case None
      then show ?thesis using ne by (cases ts rule: list.exhaust; cases "tl ts") auto
    next
      case (Some doc)
      then show ?thesis using no_confidential_in_spec [OF docs [unfolded Some] p] ts(1) by simp
    qed
    then show ?thesis using ts ne by blast
  qed
  then show ?thesis using limits by (simp add: check_limits_iff)
qed

theorem next_hides_confidential_witness:
  "cfg_next (Some demo_previous) demo_recipe = Inr [(''net'', JObj [(''host'', JStr ''h'')]), (''rate'', JNum (PosInt 5))] \<and>
   lookup_in [(''net'', JObj [(''host'', JStr ''h'')]), (''rate'', JNum (PosInt 5))] [''net'', ''key''] = Inr None"
proof -
  have n: "cfg_next (Some demo_previous) demo_recipe = Inr [(''net'', JObj [(''host'', JStr ''h'')]), (''rate'', JNum (PosInt 5))]"
    by code_simp
  have p: "''/net/key'' \<in> set (confidential_of demo_recipe)" by (simp add: demo_recipe_def)
  have t: "tokens ''/net/key'' = Inr [''net'', ''key'']" by code_simp
  show ?thesis using n conjunct1 [OF next_hides_confidential [OF n]] p t by fastforce
qed

text \<open>
  precedence. Without resets and confidential pointers, a value (other than an object) at a path
  of the merge document wins; where the merge document has nothing, the previous value is kept; where
  neither has anything, the default applies.
\<close>

theorem next_precedence:
  assumes "cfg_next (Some previous) c = Inr effective" and "resets_of c = []" and "confidential_of c = []"
    and "jmap_wf (map_or_empty (cfg_defaults c))" and "jmap_wf (map_or_empty (cfg_merge_doc c))"
    and "\<not> is_object v"
  shows "(lookup_in (map_or_empty (cfg_merge_doc c)) ts = Inr (Some v) \<longrightarrow> lookup_in effective ts = Inr (Some v))
    \<and> (lookup_in (map_or_empty (cfg_merge_doc c)) ts = Inr None \<and> lookup_in previous ts = Inr (Some v)
        \<longrightarrow> lookup_in effective ts = Inr (Some v))
    \<and> (lookup_in (map_or_empty (cfg_merge_doc c)) ts = Inr None \<and> lookup_in previous ts = Inr None
        \<and> lookup_in (map_or_empty (cfg_defaults c)) ts = Inr (Some v) \<longrightarrow> lookup_in effective ts = Inr (Some v))"
proof -
  have "effective = cfg_merge (fill previous (map_or_empty (cfg_defaults c))) (map_or_empty (cfg_merge_doc c))"
    using assms(1-3) by (auto simp: cfg_next_def Let_def)
  then show ?thesis
    using merge_wins [OF assms(5) _ assms(6)] merge_keeps [OF assms(5)] fill_keeps [OF assms(4) _ assms(6)] fill_adds [OF assms(4)]
    by metis
qed

theorem next_precedence_witness:
  "\<exists>effective. cfg_next (Some demo_previous) plain_recipe = Inr effective \<and>
     lookup_in effective [''rate''] = Inr (Some (JNum (PosInt 9)))"
proof -
  obtain effective where n: "cfg_next (Some demo_previous) plain_recipe = Inr effective"
    by (cases "cfg_next (Some demo_previous) plain_recipe") (code_simp, blast)
  have r: "resets_of plain_recipe = []" "confidential_of plain_recipe = []" by (simp_all add: plain_recipe_def demo_recipe_def)
  have wf: "jmap_wf (map_or_empty (cfg_defaults plain_recipe))" "jmap_wf (map_or_empty (cfg_merge_doc plain_recipe))"
    by code_simp+
  have v: "\<not> is_object (JNum (PosInt 9))" by (simp add: is_object_def)
  have l: "lookup_in (map_or_empty (cfg_merge_doc plain_recipe)) [''rate''] = Inr None" by code_simp
  have q: "lookup_in demo_previous [''rate''] = Inr (Some (JNum (PosInt 9)))" by code_simp
  show ?thesis using n next_precedence [OF n r wf v, of "[''rate'']"] l q by blast
qed

text \<open>
  pointers. Every non-empty list of tokens, escaped and joined as RFC 6901 prescribes, is parsed
  back to exactly those tokens unless the pointer is longer than the limit.
\<close>

theorem tokens_rfc_pointer:
  assumes "ts \<noteq> []" and "encode_utf16_count (rfc_pointer ts) \<le> MAX_POINTER_LENGTH"
  shows "tokens (rfc_pointer ts) = Inr ts"
proof -
  obtain rest where p: "rfc_pointer ts = CHR ''/'' # rest" using assms(1) by (cases ts) (simp_all add: rfc_pointer_def)
  then have "strip_prefix ''/'' (rfc_pointer ts) = Some (tl (rfc_pointer ts))" by (simp add: strip_prefix_def)
  moreover have "res_map (\<lambda>token. ensure (escapes_ok token) PointerEscape (Inr (unescape token))) (map rfc_escape ts) = Inr ts"
    by (subst res_map_ok [where g = unescape]) (auto simp: escapes_ok_escape ensure_def unescape_escape comp_def)
  ultimately show ?thesis
    using assms p split_pointer [OF assms(1)] by (auto simp: tokens_def ensure_def)
qed

theorem tokens_rfc_pointer_witness:
  "rfc_pointer [''a/b'', ''m~n''] = ''/a~1b/m~0n'' \<and> tokens ''/a~1b/m~0n'' = Inr [''a/b'', ''m~n'']"
proof -
  have p: "rfc_pointer [''a/b'', ''m~n''] = ''/a~1b/m~0n''" by code_simp
  have "encode_utf16_count (rfc_pointer [''a/b'', ''m~n'']) \<le> MAX_POINTER_LENGTH" by code_simp
  from tokens_rfc_pointer [OF _ this] p show ?thesis by simp
qed

lemma overlay_fold:
  assumes "res_fold (\<lambda>(p, v) doc. cfg_set doc p v) xs doc = Inr doc'"
    and "lookup_in doc ts = Inr (Some v)" and "\<forall>(q, _) \<in> set xs. \<forall>us. tokens q = Inr us \<longrightarrow> apart us ts"
  shows "lookup_in doc' ts = Inr (Some v)"
  using assms
proof (induction xs arbitrary: doc)
  case (Cons x xs)
  obtain q w where x: "x = (q, w)" by fastforce
  then obtain us doc1 where s: "tokens q = Inr us" "set_tokens us w doc = Inr doc1"
      "res_fold (\<lambda>(p, v) doc. cfg_set doc p v) xs doc1 = Inr doc'"
    using Cons.prems(1) by (auto simp: cfg_set_def)
  have "apart us ts" using Cons.prems(3) x s(1) by auto
  from lookup_set_other [OF Cons.prems(2) this s(2)] Cons.IH [OF s(3)] Cons.prems(3) show ?case by auto
qed simp

text \<open>
  what a component receives. Materialization succeeds only when every confidential pointer is
  provisioned, and then the document has the overlay's value at each overlay pointer that no other
  overlay pointer contains or is contained in.
\<close>

theorem materialize_overlay:
  assumes run: "materialize r overlay = Inr (JObj doc)" and p: "(p, v) \<in> set overlay" and ts: "tokens p = Inr ts"
    and wf: "bt_wf overlay"
    and alone: "\<forall>(q, _) \<in> set overlay. \<forall>us. tokens q = Inr us \<longrightarrow> q \<noteq> p \<longrightarrow> apart us ts"
  shows "lookup_in doc ts = Inr (Some v) \<and> (\<forall>q \<in> set (rcd_confidential r). bt_has overlay q)"
proof -
  obtain xs ys where o: "overlay = xs @ (p, v) # ys" using p by (metis split_list)
  have "p \<notin> fst ` set ys" using bt_wf_distinct [OF wf] by (simp add: o)
  then have other: "q \<noteq> p" if "(q, w) \<in> set ys" for q w using that by (metis fst_conv image_eqI)
  have folded: "res_fold (\<lambda>(p, v) doc. cfg_set doc p v) overlay (rcd_effective r) = Inr doc"
    using run by (auto simp: materialize_def)
  then obtain d1 d2 where d: "cfg_set d1 p v = Inr d2" "res_fold (\<lambda>(p, v) doc. cfg_set doc p v) ys d2 = Inr doc"
    unfolding o res_fold_append by auto
  have "ts \<noteq> []" "set_tokens ts v d1 = Inr d2" using d(1) ts by (auto simp: cfg_set_def)
  then have "lookup_in d2 ts = Inr (Some v)" by (rule lookup_set_same)
  moreover have "apart us ts" if "(q, w) \<in> set ys" "tokens q = Inr us" for q w us
    using alone other [OF that(1)] that unfolding o by auto
  then have "\<forall>(q, _) \<in> set ys. \<forall>us. tokens q = Inr us \<longrightarrow> apart us ts" by blast
  ultimately have "lookup_in doc ts = Inr (Some v)" by (rule overlay_fold [OF d(2)])
  moreover have "res_fold (\<lambda>p _. ensure (bt_has overlay p) (NotProvisioned p) (Inr ())) ps () = Inr u \<Longrightarrow>
      \<forall>q \<in> set ps. bt_has overlay q" for ps u
    by (induction ps) auto
  ultimately show ?thesis using run by (auto simp: materialize_def)
qed

theorem materialize_overlay_witness:
  "materialize \<lparr>rcd_deployment = [], rcd_version = [], rcd_defaults = [], rcd_effective = [(''rate'', JNum (PosInt 5))],
      rcd_confidential = [''/net/key''], rcd_sealed = False\<rparr> [(''/net/key'', JStr ''s'')] =
     Inr (JObj [(''net'', JObj [(''key'', JStr ''s'')]), (''rate'', JNum (PosInt 5))]) \<and>
   lookup_in [(''net'', JObj [(''key'', JStr ''s'')]), (''rate'', JNum (PosInt 5))] [''net'', ''key''] = Inr (Some (JStr ''s''))"
proof -
  let ?r = "\<lparr>rcd_deployment = [], rcd_version = [], rcd_defaults = [], rcd_effective = [(''rate'', JNum (PosInt 5))],
      rcd_confidential = [''/net/key''], rcd_sealed = False\<rparr>"
  have run: "materialize ?r [(''/net/key'', JStr ''s'')] =
      Inr (JObj [(''net'', JObj [(''key'', JStr ''s'')]), (''rate'', JNum (PosInt 5))])" by code_simp
  have t: "tokens ''/net/key'' = Inr [''net'', ''key'']" by code_simp
  show ?thesis using run materialize_overlay [OF run _ t, of "JStr ''s''"] by (simp add: bt_wf_def)
qed

end
