(* ===== verification/Recipes.thy ===== *)
theory Recipes
  imports Journal Configuration
begin

text \<open>
  Object identifiers and the JSON the node renders (\<open>sui_client.rs\<close>), recipes and their validation
  (\<open>recipe.rs\<close>, \<open>protocol.rs\<close>), and versions of the component catalog (\<open>catalog.rs\<close>). Formatted
  error texts are abbreviated to their constant part.
\<close>

section \<open>Identifiers\<close>

text \<open>
  \<open>hex::decode\<close> of the padded digits is compared; two digit strings decode to the same bytes when they
  agree up to the case of the letters.
\<close>

definition normalized_id :: "string \<Rightarrow> string option" where
  "normalized_id s = Option.bind (strip_prefix ''0x'' s) (\<lambda>h.
     if h = [] \<or> 64 < length h \<or> \<not> list_all is_ascii_hexdigit h then None
     else Some (map to_ascii_lowercase (replicate (64 - length h) (CHR ''0'') @ h)))"

definition same_id :: "string \<Rightarrow> string \<Rightarrow> bool" where
  "same_id a b = (case (normalized_id a, normalized_id b) of (Some x, Some y) \<Rightarrow> x = y | _ \<Rightarrow> False)"

definition split_first :: "'a list \<Rightarrow> 'a list \<Rightarrow> ('a list \<times> 'a list) option" where
  "split_first p s = map_option (\<lambda>i. (take i s, drop (i + length p) s)) (find_sub p s)"

definition same_type :: "string \<Rightarrow> string \<Rightarrow> bool" where
  "same_type a b = (case (split_first ''::'' a, split_first ''::'' b) of
     (Some (aa, at1), Some (ba, bt)) \<Rightarrow> same_id aa ba \<and> at1 = bt
   | _ \<Rightarrow> False)"

section \<open>Rendered values\<close>

text \<open>\<open>value["key"]\<close>, \<open>as_str\<close> and \<open>as_array\<close> of \<open>serde_json::Value\<close>.\<close>

definition jget :: "json \<Rightarrow> string \<Rightarrow> json" where
  "jget v k = (case v of JObj m \<Rightarrow> (case map_of m k of Some x \<Rightarrow> x | None \<Rightarrow> JNull) | _ \<Rightarrow> JNull)"

definition as_str :: "json \<Rightarrow> string option" where
  "as_str v = (case v of JStr s \<Rightarrow> Some s | _ \<Rightarrow> None)"

definition as_array :: "json \<Rightarrow> json list option" where
  "as_array v = (case v of JArr xs \<Rightarrow> Some xs | _ \<Rightarrow> None)"

definition str_or_empty :: "json \<Rightarrow> string" where
  "str_or_empty v = (case v of JStr s \<Rightarrow> s | _ \<Rightarrow> [])"

definition get_fields :: "json \<Rightarrow> json" where
  "get_fields v = (case v of JObj m \<Rightarrow> (case map_of m ''fields'' of Some x \<Rightarrow> x | None \<Rightarrow> v) | _ \<Rightarrow> v)"

definition json_number :: "json \<Rightarrow> nat option" where
  "json_number v = (case v of
     JStr s \<Rightarrow> parse_u64 s
   | JNum (PosInt n) \<Rightarrow> Some n
   | JNum (Float x) \<Rightarrow> float_u64 x
   | _ \<Rightarrow> None)"

definition supported_customer_version :: "json \<Rightarrow> bool" where
  "supported_customer_version v \<longleftrightarrow> json_number v \<in> {Some 1, Some 197, Some 199, Some 201}"

definition id_list :: "json \<Rightarrow> string list" where
  "id_list v = (case as_array v of Some xs \<Rightarrow> List.map_filter as_str xs | None \<Rightarrow> [])"

text \<open>The base 64 decoder is a parameter.\<close>

definition byte_vector :: "(string \<Rightarrow> nat list option) \<Rightarrow> json \<Rightarrow> (fault, nat list) result" where
  "byte_vector base64 v = (case v of
     JStr s \<Rightarrow> (case base64 s of Some bs \<Rightarrow> Inr bs | None \<Rightarrow> Inl (plain ''base64''))
   | JArr xs \<Rightarrow> res_map (\<lambda>x. case Option.bind (json_number x) (\<lambda>n. if n < 256 then Some n else None) of
        Some n \<Rightarrow> Inr n | None \<Rightarrow> Inl (plain ''invalid byte vector element'')) xs
   | _ \<Rightarrow> Inl (plain ''invalid byte vector''))"

definition head_entry :: "json \<Rightarrow> (string, string) btree \<Rightarrow> (fault, (string, string) btree) result" where
  "head_entry e m = (case (as_str (jget (get_fields e) ''key''), as_str (jget (get_fields e) ''value'')) of
     (Some n, Some d) \<Rightarrow> Inr (bt_insert n d m)
   | _ \<Rightarrow> Inl (plain ''undecodable head component''))"

definition parse_head :: "json \<Rightarrow> (fault, head) result" where
  "parse_head v0 =
     (let v = get_fields v0 in
      case json_number (jget v ''seq'') of None \<Rightarrow> Inl (plain ''head without a sequence'')
      | Some seq \<Rightarrow> (case json_number (jget v ''next_start_ms'') of None \<Rightarrow> Inl (plain ''head without a next start'')
        | Some start \<Rightarrow> (case as_array (jget (get_fields (jget v ''components'')) ''contents'') of
            None \<Rightarrow> Inl (plain ''undecodable head components'')
          | Some entries \<Rightarrow> res_bind (res_fold head_entry entries []) (\<lambda>m.
              Inr \<lparr>hd_seq = of_nat seq, hd_next_start = of_nat start, hd_components = m\<rparr>))))"

definition check_identity :: "string \<Rightarrow> json option \<Rightarrow> (fault, unit) result" where
  "check_identity address identity = (case identity of
     None \<Rightarrow> Inl (plain ''device has no registry identity; its owner must call device_registry::activate_device'')
   | Some v \<Rightarrow>
       ensure (jget v ''revoked'' \<noteq> JBool True)
         (plain ''device identity is revoked or deregistered; its owner must reinstate it before it reports again'')
      (ensure (same_id (str_or_empty (jget v ''signer'')) address)
         (plain ''device key was rotated away from this key; install the new key and its DeviceCap'') (Inr ())))"

section \<open>Chain data\<close>

datatype owner = OwnerAddress string | OwnerObject string | OwnerShared u64 | OwnerImmutable | OwnerOther

record chain_object =
  ob_type :: string
  ob_owner :: owner
  ob_fields :: json

record deployment_event =
  ev_deployment :: string
  ev_component :: string
  ev_version :: string
  ev_recipe_blob :: string
  ev_artifact :: string
  ev_groups :: "string list"
  ev_devices :: "string list"
  ev_creator :: string

record event_page =
  pg_events :: "(deployment_event \<times> json) list"
  pg_groups :: "string list"
  pg_end :: json
  pg_more :: bool

record membership_page =
  mp_events :: "(string \<times> string) list"
  mp_end :: json
  mp_more :: bool

record inbox =
  ib_head :: head
  ib_groups :: "string list"

section \<open>Recipes\<close>

datatype restart = RestartOnFailure | RestartNever | RestartAlways

definition restart_parse :: "string option \<Rightarrow> (fault, restart) result" where
  "restart_parse v = (case v of None \<Rightarrow> Inr RestartOnFailure
     | Some s \<Rightarrow> if s = ''on-failure'' then Inr RestartOnFailure else if s = ''never'' then Inr RestartNever
         else if s = ''always'' then Inr RestartAlways else Inl (plain ''unsupported restart policy''))"

record recipe_lifecycle =
  lc_install :: "string option"
  lc_run :: "string option"
  lc_shutdown :: "string option"
  lc_readiness :: "string option"
  lc_restart :: "string option"
  lc_validate :: "string option"

record recipe =
  re_schema :: string
  re_name :: string
  re_version :: string
  re_blob :: string
  re_artifact :: string
  re_lifecycle :: recipe_lifecycle
  re_configuration :: configuration
  re_dependencies :: "(string, component_dependency) btree option"
  re_services :: "services option"

record supervised =
  sp_run :: string
  sp_shutdown :: "string option"
  sp_readiness :: "string option"
  sp_restart :: restart

definition lifecycle_of :: "recipe_lifecycle \<Rightarrow> (fault, supervised option) result" where
  "lifecycle_of l = (case lc_run l of None \<Rightarrow> Inr None
     | Some run \<Rightarrow> res_bind (restart_parse (lc_restart l)) (\<lambda>r.
         Inr (Some \<lparr>sp_run = run, sp_shutdown = lc_shutdown l, sp_readiness = lc_readiness l, sp_restart = r\<rparr>)))"

definition RECIPE_VERSIONS :: "string list" where
  "RECIPE_VERSIONS = [''1.0'', ''1.1'', ''1.2'', ''1.3'']"

definition recipe_configured :: "recipe \<Rightarrow> bool" where
  "recipe_configured r \<longleftrightarrow>
     cfg_defaults (re_configuration r) \<noteq> None \<or> cfg_merge_doc (re_configuration r) \<noteq> None
     \<or> cfg_reset (re_configuration r) \<noteq> None \<or> cfg_confidential (re_configuration r) \<noteq> None
     \<or> lc_validate (re_lifecycle r) \<noteq> None"

definition nonempty_command :: "string option \<Rightarrow> bool" where
  "nonempty_command c = (case c of None \<Rightarrow> False | Some s \<Rightarrow> s \<noteq> [])"

definition blob_id_ok :: "string \<Rightarrow> bool" where
  "blob_id_ok s \<longleftrightarrow> s \<noteq> [] \<and> list_all (\<lambda>c. is_ascii_alphanumeric c \<or> c = CHR ''-'' \<or> c = CHR ''_'') s"

definition map_fault :: "('e \<Rightarrow> fault) \<Rightarrow> ('e, 'a) result \<Rightarrow> (fault, 'a) result" where
  "map_fault f r = (case r of Inl e \<Rightarrow> Inl (f e) | Inr x \<Rightarrow> Inr x)"

text \<open>The validation of service sections is a parameter; the SemVer crate is the one of the resolver.\<close>

definition validate_component :: "semver \<Rightarrow> (services \<Rightarrow> (fault, unit) result) \<Rightarrow> recipe \<Rightarrow> string \<Rightarrow> string \<Rightarrow> string \<Rightarrow> bool \<Rightarrow>
    (fault, dependencies) result" where
  "validate_component sv check_services r name version sha allow =
     ensure (re_schema r \<in> set RECIPE_VERSIONS) (plain ''unsupported recipe schema'')
    (ensure (re_name r = name \<and> re_version r = version) (plain ''recipe component identity differs from deployment'')
    (ensure (re_artifact r = sha) (plain ''recipe hash differs from on-chain hash'')
    (ensure (length (re_artifact r) = 64 \<and> list_all is_ascii_hexdigit (re_artifact r)) (plain ''invalid SHA-256'')
    (ensure (blob_id_ok (re_blob r)) (plain ''invalid artifact blob ID'')
    (res_bind (case re_services r of None \<Rightarrow> Inr ()
       | Some s \<Rightarrow> ensure (re_schema r = ''1.3'') (plain ''services requires recipe schema 1.3'') (check_services s)) (\<lambda>_.
     let l = re_lifecycle r in
     ensure (lc_run l \<noteq> None \<or> lc_shutdown l = None \<and> lc_readiness l = None \<and> lc_restart l = None)
       (plain ''shutdown, readiness and restart need a supervised run command'')
    (res_bind (restart_parse (lc_restart l)) (\<lambda>_.
     ensure (lc_run l = None \<or> allow)
       (plain ''recipe run commands are disabled; set apply.allow_recipe_commands only for a trusted operator'')
    (ensure (\<not> recipe_configured r \<or> re_schema r = ''1.2'' \<or> re_schema r = ''1.3'')
       (plain ''recipe configuration requires schemaVersion 1.2'')
    (ensure (\<not> recipe_configured r \<or> nonempty_command (lc_install l) \<or> nonempty_command (lc_run l))
       (plain ''recipe configuration needs an install or run command to receive it'')
    (ensure (lc_validate l = None \<or> allow)
       (plain ''recipe validate commands are disabled; set apply.allow_recipe_commands only for a trusted operator'')
    (res_bind (map_fault (\<lambda>_. plain ''configuration'') (validate_recipe (re_configuration r))) (\<lambda>_.
     ensure (lc_install l = None \<or> allow)
       (plain ''recipe install commands are disabled; set apply.allow_recipe_commands only for a trusted operator'')
    (ensure (re_dependencies r = None \<or> re_schema r \<noteq> ''1.0'')
       (plain ''recipe componentDependencies requires schemaVersion 1.1'')
      (map_fault (\<lambda>_. plain ''dependencies'') (declared sv (re_name r) (re_dependencies r)))))))))))))))))"

definition recipe_validate :: "semver \<Rightarrow> (services \<Rightarrow> (fault, unit) result) \<Rightarrow> recipe \<Rightarrow> deployment_event \<Rightarrow> bool \<Rightarrow>
    (fault, dependencies) result" where
  "recipe_validate sv check_services r e allow =
     validate_component sv check_services r (ev_component e) (ev_version e) (ev_artifact e) allow"

section \<open>Catalog versions\<close>

record cat_version =
  ver_catalog :: string
  ver_publisher :: string
  ver_name :: string
  ver_version :: string
  ver_schema :: json
  ver_os :: "string list"
  ver_arch :: "string list"
  ver_blobs :: "string list"
  ver_recipes :: "string list"
  ver_artifacts :: "string list"

definition cat_token :: "string \<Rightarrow> bool" where
  "cat_token s \<longleftrightarrow> s \<noteq> [] \<and> length s \<le> 128 \<and> list_all (\<lambda>c. is_ascii_alphanumeric c \<or> c = CHR ''-'' \<or> c = CHR ''_'') s"

definition cat_hash :: "string \<Rightarrow> bool" where
  "cat_hash s \<longleftrightarrow> length s = 64 \<and> list_all (\<lambda>c. is_ascii_digit c \<or> 97 \<le> byte c \<and> byte c \<le> 102) s"

definition platform :: "string \<Rightarrow> string \<Rightarrow> cat_version \<Rightarrow> nat option" where
  "platform os arch v = find (\<lambda>i. (ver_os v ! i = ''*'' \<or> ver_os v ! i = os) \<and> (ver_arch v ! i = ''*'' \<or> ver_arch v ! i = arch))
     [0..<length (ver_os v)]"

definition manifest_row :: "cat_version \<Rightarrow> nat \<Rightarrow> (string \<times> string) list \<Rightarrow> (fault, (string \<times> string) list) result" where
  "manifest_row v i pairs =
     ensure (ver_os v ! i \<in> {''linux'', ''macos'', ''*''} \<and> ver_arch v ! i \<in> {''x86_64'', ''aarch64'', ''arm'', ''x86'', ''*''})
       (plain ''unsupported manifest platform'')
    (ensure ((ver_os v ! i, ver_arch v ! i) \<notin> set pairs) (plain ''duplicate manifest platform'')
    (ensure (cat_token (ver_blobs v ! i) \<and> cat_hash (ver_recipes v ! i) \<and> cat_hash (ver_artifacts v ! i)) (plain ''invalid manifest blob/digest'')
      (Inr ((ver_os v ! i, ver_arch v ! i) # pairs))))"

definition version_validate :: "semver \<Rightarrow> cat_version \<Rightarrow> (fault, unit) result" where
  "version_validate sv v =
     ensure (ver_schema v = JStr ''1'' \<or> ver_schema v = JNum (PosInt 1)) (plain ''unsupported catalog schema'')
    (ensure (same_id (ver_catalog v) (ver_catalog v) \<and> same_id (ver_publisher v) (ver_publisher v)) (plain ''invalid catalog identity'')
    (ensure (ver_name v \<noteq> [] \<and> length (ver_name v) \<le> 128
        \<and> list_all (\<lambda>c. is_ascii_alphanumeric c \<or> c \<in> {CHR ''-'', CHR ''_'', CHR ''.''}) (ver_name v)) (plain ''invalid component name'')
    (ensure (length (ver_version v) \<le> 128) (plain ''invalid component version'')
    (ensure (version_parse sv (ver_version v) \<noteq> None) (plain ''semver'')
    (let n = length (ver_os v) in
     ensure (0 < n \<and> n \<le> 16 \<and> length (ver_arch v) = n \<and> length (ver_blobs v) = n \<and> length (ver_recipes v) = n \<and> length (ver_artifacts v) = n)
       (plain ''invalid manifest vectors'')
       (res_bind (res_fold (manifest_row v) [0..<n] []) (\<lambda>_. Inr ())))))))"

definition version_select :: "semver \<Rightarrow> string \<Rightarrow> string \<Rightarrow> cat_version \<Rightarrow> (fault, nat) result" where
  "version_select sv os arch v =
     res_bind (version_validate sv v) (\<lambda>_. case platform os arch v of
       Some i \<Rightarrow> Inr i | None \<Rightarrow> Inl (plain ''unsupported device platform''))"

record catalog_ref =
  cr_catalog :: string
  cr_publisher :: string
  cr_version :: string

record resolved =
  rs_event :: deployment_event
  rs_recipe :: string
  rs_catalog :: "catalog_ref option"
  rs_version :: "cat_version option"

section \<open>Lemmas\<close>

lemma same_id_sym: "same_id a b \<longleftrightarrow> same_id b a"
  by (auto simp: same_id_def split: option.splits)

lemma same_id_trans: "same_id a b \<Longrightarrow> same_id b c \<Longrightarrow> same_id a c"
  by (auto simp: same_id_def split: option.splits)

lemma same_id_refl_left: "same_id a b \<Longrightarrow> same_id a a"
  by (auto simp: same_id_def split: option.splits)

lemma map_fault_Inr [simp]: "map_fault f r = Inr x \<longleftrightarrow> r = Inr x"
  by (cases r) (auto simp: map_fault_def)

end
