(* ===== verification/ConfigStore.thy ===== *)
theory ConfigStore
  imports Configuration Deps
begin

text \<open>
  The configuration records on disk (\<open>suifleet-edge/src/configuration.rs\<close>, \<open>Store\<close>): staging a record
  before an install, committing or discarding it when the outcome is known, restoring an older one, and
  settling what an interrupted run left behind. Each component has a directory with at most one committed
  and one staged record; the outcome of every file operation is drawn from a list.
\<close>

section \<open>Definitions\<close>

record cfg_dir =
  dir_committed :: "cfg_record option"
  dir_staged :: "cfg_record option"

type_synonym cfg_store = "(string, cfg_dir) btree"

datatype store_error = UnsafeName | IoFailed | RecordUnreadable

datatype settled = Committed | Pending | Abandoned

definition take_ok :: "bool list \<Rightarrow> bool \<times> bool list" where
  "take_ok io = (case io of [] \<Rightarrow> (True, []) | x # xs \<Rightarrow> (x, xs))"

definition dir_of :: "cfg_store \<Rightarrow> string \<Rightarrow> cfg_dir" where
  "dir_of st name = (case map_of st name of None \<Rightarrow> \<lparr>dir_committed = None, dir_staged = None\<rparr> | Some d \<Rightarrow> d)"

definition cfg_committed :: "cfg_store \<Rightarrow> string \<Rightarrow> (store_error, cfg_record option) result" where
  "cfg_committed st name = ensure (valid_name name) UnsafeName (Inr (dir_committed (dir_of st name)))"

definition cfg_staged :: "cfg_store \<Rightarrow> string \<Rightarrow> (store_error, cfg_record option) result" where
  "cfg_staged st name = ensure (valid_name name) UnsafeName (Inr (dir_staged (dir_of st name)))"

text \<open>\<open>create_dir_durable\<close> and \<open>write_private\<close> each fail or succeed as a whole: the rename is last but one.\<close>

definition write_record :: "cfg_store \<Rightarrow> bool list \<Rightarrow> cfg_store \<Rightarrow> cfg_store \<times> bool list \<times> (store_error, unit) result" where
  "write_record st io st' =
     (case take_ok io of (made, io) \<Rightarrow>
        if \<not> made then (st, io, Inl IoFailed)
        else case take_ok io of (written, io) \<Rightarrow>
          if \<not> written then (st, io, Inl IoFailed)
          else case take_ok io of (synced, io) \<Rightarrow> (st', io, if synced then Inr () else Inl IoFailed))"

definition cfg_stage :: "string \<Rightarrow> cfg_record \<Rightarrow> cfg_store \<Rightarrow> bool list \<Rightarrow> cfg_store \<times> bool list \<times> (store_error, unit) result" where
  "cfg_stage name r st io =
     (if \<not> valid_name name then (st, io, Inl UnsafeName)
      else write_record st io (bt_insert name ((dir_of st name)\<lparr>dir_staged := Some r\<rparr>) st))"

definition cfg_commit :: "string \<Rightarrow> string \<Rightarrow> cfg_store \<Rightarrow> bool list \<Rightarrow> cfg_store \<times> bool list \<times> (store_error, unit) result" where
  "cfg_commit name deployment st io =
     (if \<not> valid_name name then (st, io, Inl UnsafeName)
      else case dir_staged (dir_of st name) of
        None \<Rightarrow> (st, io, Inr ())
      | Some r \<Rightarrow>
          if rcd_deployment r \<noteq> deployment then (st, io, Inr ())
          else case take_ok io of (renamed, io) \<Rightarrow>
            if \<not> renamed then (st, io, Inl IoFailed)
            else case take_ok io of (synced, io) \<Rightarrow>
              (bt_insert name \<lparr>dir_committed = Some r, dir_staged = None\<rparr> st, io, if synced then Inr () else Inl IoFailed))"

definition cfg_restore :: "string \<Rightarrow> cfg_record option \<Rightarrow> cfg_store \<Rightarrow> bool list \<Rightarrow> cfg_store \<times> bool list \<times> (store_error, unit) result" where
  "cfg_restore name r st io =
     (if \<not> valid_name name then (st, io, Inl UnsafeName)
      else if dir_committed (dir_of st name) = r then (st, io, Inr ())
      else case r of
        Some rcd \<Rightarrow> write_record st io (bt_insert name ((dir_of st name)\<lparr>dir_committed := Some rcd\<rparr>) st)
      | None \<Rightarrow>
          (case take_ok io of (removed, io) \<Rightarrow>
             if \<not> removed then (st, io, Inl IoFailed)
             else case take_ok io of (synced, io) \<Rightarrow>
               (bt_insert name ((dir_of st name)\<lparr>dir_committed := None\<rparr>) st, io, if synced then Inr () else Inl IoFailed)))"

definition cfg_discard :: "string \<Rightarrow> cfg_store \<Rightarrow> bool list \<Rightarrow> cfg_store \<times> bool list \<times> (store_error, unit) result" where
  "cfg_discard name st io =
     (if \<not> valid_name name then (st, io, Inl UnsafeName)
      else case take_ok io of (removed, io) \<Rightarrow>
        if \<not> removed then (st, io, Inl IoFailed)
        else (if bt_has st name then bt_insert name ((dir_of st name)\<lparr>dir_staged := None\<rparr>) st else st, io, Inr ()))"

definition settle_one :: "(string \<Rightarrow> string \<Rightarrow> settled) \<Rightarrow> string \<Rightarrow> cfg_store \<Rightarrow> bool list \<Rightarrow>
  cfg_store \<times> bool list \<times> (store_error, unit) result" where
  "settle_one outcome name st io =
     (if \<not> valid_name name then (st, io, Inr ())
      else case dir_staged (dir_of st name) of
        None \<Rightarrow> (st, io, Inr ())
      | Some r \<Rightarrow>
          (case outcome name (rcd_deployment r) of
             Committed \<Rightarrow> cfg_commit name (rcd_deployment r) st io
           | Pending \<Rightarrow> (st, io, Inr ())
           | Abandoned \<Rightarrow> cfg_discard name st io))"

fun settle_all :: "(string \<Rightarrow> string \<Rightarrow> settled) \<Rightarrow> string list \<Rightarrow> cfg_store \<Rightarrow> bool list \<Rightarrow>
  cfg_store \<times> bool list \<times> (store_error, unit) result" where
  "settle_all outcome [] st io = (st, io, Inr ())"
| "settle_all outcome (name # names) st io =
     (case settle_one outcome name st io of (st, io, r) \<Rightarrow>
        (case r of Inl e \<Rightarrow> (st, io, Inl e) | Inr _ \<Rightarrow> settle_all outcome names st io))"

definition cfg_settle :: "(string \<Rightarrow> string \<Rightarrow> settled) \<Rightarrow> cfg_store \<Rightarrow> bool list \<Rightarrow>
  cfg_store \<times> bool list \<times> (store_error, unit) result" where
  "cfg_settle outcome st io = settle_all outcome (bt_keys st) st io"

section \<open>Lemmas\<close>

lemma dir_of_insert [simp]: "dir_of (bt_insert n d st) k = (if k = n then d else dir_of st k)"
  by (simp add: dir_of_def)

text \<open>What settling one component does to its directory.\<close>

definition settled_dir :: "(string \<Rightarrow> string \<Rightarrow> settled) \<Rightarrow> string \<Rightarrow> cfg_dir \<Rightarrow> cfg_dir" where
  "settled_dir outcome name d = (if \<not> valid_name name then d else case dir_staged d of
     None \<Rightarrow> d
   | Some r \<Rightarrow> (case outcome name (rcd_deployment r) of
        Committed \<Rightarrow> \<lparr>dir_committed = Some r, dir_staged = None\<rparr>
      | Pending \<Rightarrow> d
      | Abandoned \<Rightarrow> d\<lparr>dir_staged := None\<rparr>))"

lemma staged_present: "dir_staged (dir_of st name) = Some r \<Longrightarrow> bt_has st name"
  by (auto simp: dir_of_def split: option.splits)

lemma settle_one_frame:
  assumes "settle_one outcome name st io = (st', io', r)" and "bt_wf st"
  shows "bt_wf st' \<and> (\<forall>k. k \<noteq> name \<longrightarrow> dir_of st' k = dir_of st k) \<and>
    (dir_of st' name = dir_of st name \<or> dir_of st' name = settled_dir outcome name (dir_of st name)) \<and>
    (r = Inr () \<longrightarrow> dir_of st' name = settled_dir outcome name (dir_of st name))"
  using assms staged_present [of st name]
  by (auto simp: settle_one_def settled_dir_def cfg_commit_def cfg_discard_def take_ok_def
      split: if_splits option.splits settled.splits list.splits)

lemma settle_all_spec:
  assumes "settle_all outcome names st io = (st', io', r)" and "bt_wf st" and "distinct names"
  shows "bt_wf st' \<and> (\<forall>k. k \<notin> set names \<longrightarrow> dir_of st' k = dir_of st k) \<and>
    (\<forall>k \<in> set names. dir_of st' k = dir_of st k \<or> dir_of st' k = settled_dir outcome k (dir_of st k)) \<and>
    (r = Inr () \<longrightarrow> (\<forall>k \<in> set names. dir_of st' k = settled_dir outcome k (dir_of st k)))"
  using assms
proof (induction names arbitrary: st io)
  case (Cons n names)
  obtain st1 io1 r1 where one: "settle_one outcome n st io = (st1, io1, r1)" by (metis prod_cases3)
  note f = settle_one_frame [OF one Cons.prems(2)]
  show ?case
  proof (cases r1)
    case (Inl e)
    then have "st' = st1" "r \<noteq> Inr ()" using Cons.prems(1) one by auto
    then show ?thesis using f Cons.prems(3) by auto
  next
    case (Inr u)
    then have rest: "settle_all outcome names st1 io1 = (st', io', r)" using Cons.prems(1) one by simp
    have "bt_wf st1" "distinct names" using f Cons.prems(3) by auto
    note IH = Cons.IH [OF rest this]
    have "dir_of st1 k = dir_of st k" if "k \<in> set names" for k using f Cons.prems(3) that by auto
    then show ?thesis using IH f Inr Cons.prems(3) by simp
  qed
qed simp

section \<open>Properties\<close>


definition demo_rcd :: cfg_record where
  "demo_rcd = \<lparr>rcd_deployment = ''d1'', rcd_version = ''1'', rcd_defaults = [], rcd_effective = [], rcd_confidential = [], rcd_sealed = False\<rparr>"


end
