(* ===== verification/Reconcile.thy ===== *)
theory Reconcile
  imports Json "HOL-Library.Multiset"
begin

text \<open>
  Desired-state reconciliation (\<open>reconcile.rs\<close>): the union of what the groups of a device want, the
  conflicts between them, the fingerprint of a desired state and the plan of steps toward it. A map of
  the code is a sorted association list.
\<close>

section \<open>Desired state\<close>

record group_desired =
  gd_group :: string
  gd_revision :: u64
  gd_components :: "(string, string) btree"

record effective =
  ef_components :: "(string, string) btree"
  ef_conflicts :: "(string, (string, string) btree) btree"

fun trim_start_0x :: "string \<Rightarrow> string" where
  "trim_start_0x (a # b # s) = (if a = CHR ''0'' \<and> b = CHR ''x'' then trim_start_0x s else a # b # s)"
| "trim_start_0x s = s"

definition to_lower :: "char \<Rightarrow> char" where
  "to_lower c = (if is_ascii_upper c then char_of (byte c + 32) else c)"

definition object_id :: "string \<Rightarrow> string" where
  "object_id v = (let hex = map to_lower (trim_start_0x v) in ''0x'' @ replicate (64 - length hex) (CHR ''0'') @ hex)"

definition name_source :: "string \<Rightarrow> string \<times> string \<Rightarrow> (string, (string, string) btree) btree \<Rightarrow> (string, (string, string) btree) btree" where
  "name_source source e named =
     bt_insert (fst e) (bt_insert source (snd e) (case map_of named (fst e) of None \<Rightarrow> [] | Some m \<Rightarrow> m)) named"

definition named_by :: "group_desired list \<Rightarrow> (string, (string, string) btree) btree" where
  "named_by groups = fold (\<lambda>g. fold (name_source (gd_group g)) (gd_components g)) groups []"

definition distinct_ids :: "(string, string) btree \<Rightarrow> string list" where
  "distinct_ids sources = remdups_adj (sort (map object_id (bt_values sources)))"

definition settle_source :: "string \<times> (string, string) btree \<Rightarrow> effective \<Rightarrow> effective" where
  "settle_source e result =
     (if length (distinct_ids (snd e)) = 1
      then result\<lparr>ef_components := bt_insert (fst e) (hd (bt_values (snd e))) (ef_components result)\<rparr>
      else result\<lparr>ef_conflicts := bt_insert (fst e) (snd e) (ef_conflicts result)\<rparr>)"

definition effective_of :: "group_desired list \<Rightarrow> effective" where
  "effective_of groups = fold settle_source (named_by groups) \<lparr>ef_components = [], ef_conflicts = []\<rparr>"

definition fingerprint :: "(json \<Rightarrow> string) \<Rightarrow> (string \<Rightarrow> string) \<Rightarrow> effective \<Rightarrow> string" where
  "fingerprint to_vec sha256 e =
     (let canonical = (\<lambda>m. JObj (map (\<lambda>(k, v). (k, JStr (object_id v))) m));
          conflicts = JObj (map (\<lambda>(name, sources). (name, JObj (bt_of (map (\<lambda>(g, d). (object_id g, JStr (object_id d))) sources)))) (ef_conflicts e)) in
      hex_encode (sha256 (to_vec (JArr [canonical (ef_components e), conflicts]))))"

section \<open>Plans\<close>

datatype history = Never | Applied | NotApplied

datatype plan_step = Apply string string | Adopt string string | Reselected string string

definition plan_one :: "(string, string) btree \<Rightarrow> (string \<Rightarrow> history) \<Rightarrow> string \<times> string \<Rightarrow> plan_step list" where
  "plan_one current hist e =
     (let name = fst e; deployment = snd e; prev = map_of current name in
      if (case prev of None \<Rightarrow> False | Some p \<Rightarrow> object_id p = object_id deployment) then []
      else case hist deployment of
        Never \<Rightarrow> [Apply name deployment]
      | NotApplied \<Rightarrow> []
      | Applied \<Rightarrow> if prev = None then [Adopt name deployment] else [Reselected name deployment])"

definition plan_steps :: "effective \<Rightarrow> (string, string) btree \<Rightarrow> (string \<Rightarrow> history) \<Rightarrow> plan_step list" where
  "plan_steps e current hist = concat (map (plan_one current hist) (ef_components e))"

definition step_holds :: "string \<Rightarrow> string \<Rightarrow> bool \<Rightarrow> bool" where
  "step_holds owner now settled \<longleftrightarrow> owner = now \<or> \<not> settled"

definition retired_names :: "(string, string) btree \<Rightarrow> effective \<Rightarrow> string list" where
  "retired_names managed e = filter (\<lambda>n. \<not> bt_has (ef_components e) n \<and> \<not> bt_has (ef_conflicts e) n) (bt_keys managed)"

section \<open>What is wanted\<close>

text \<open>The deployments the groups name for a component.\<close>

definition wanted :: "group_desired list \<Rightarrow> string \<Rightarrow> string set" where
  "wanted groups n = {d. \<exists>g \<in> set groups. map_of (gd_components g) n = Some d}"

text \<open>The map of the maps is read in two steps.\<close>

definition source_of :: "(string, (string, string) btree) btree \<Rightarrow> string \<Rightarrow> string \<Rightarrow> string option" where
  "source_of named n g = Option.bind (map_of named n) (\<lambda>m. map_of m g)"

definition sources_wf :: "(string, (string, string) btree) btree \<Rightarrow> bool" where
  "sources_wf named \<longleftrightarrow> bt_wf named \<and> (\<forall>n m. map_of named n = Some m \<longrightarrow> bt_wf m \<and> m \<noteq> [])"

lemma bt_insert_not_Nil [simp]: "bt_insert k v m \<noteq> []"
  by (cases "(k, v, m)" rule: bt_insert.cases) auto

lemma sources_wf_name: "sources_wf named \<Longrightarrow> sources_wf (name_source g e named)"
  by (auto simp: sources_wf_def name_source_def split: option.splits)

lemma source_of_name:
  "source_of (name_source g e named) n g' = (if n = fst e \<and> g' = g then Some (snd e) else source_of named n g')"
  by (auto simp: source_of_def name_source_def split: option.splits)

lemma fold_name_source:
  "distinct (map fst es) \<Longrightarrow> sources_wf named \<Longrightarrow>
    sources_wf (fold (name_source g) es named) \<and>
    (\<forall>n g'. source_of (fold (name_source g) es named) n g' = (if g' = g \<and> bt_has es n then map_of es n else source_of named n g'))"
proof (induction es arbitrary: named)
  case (Cons e es)
  note ih = Cons.IH [OF _ sources_wf_name [OF Cons.prems(2)], of g e]
  have "map_of es (fst e) = None" using Cons.prems(1) by (simp add: map_of_eq_None_iff)
  then show ?case using ih Cons.prems(1) by (cases e) (auto simp: source_of_name)
qed simp

definition desires_wf :: "group_desired list \<Rightarrow> bool" where
  "desires_wf groups \<longleftrightarrow> distinct (map gd_group groups) \<and> (\<forall>g \<in> set groups. bt_wf (gd_components g))"

lemma fold_named_by:
  "desires_wf groups \<Longrightarrow> sources_wf named \<Longrightarrow> (\<forall>x \<in> set groups. \<forall>n. source_of named n (gd_group x) = None) \<Longrightarrow>
    (let result = fold (\<lambda>g. fold (name_source (gd_group g)) (gd_components g)) groups named in
     sources_wf result \<and> (\<forall>n g d. source_of result n g = Some d \<longleftrightarrow>
       source_of named n g = Some d \<or> (\<exists>x \<in> set groups. gd_group x = g \<and> map_of (gd_components x) n = Some d)))"
proof (induction groups arbitrary: named)
  case (Cons x groups)
  let ?named = "fold (name_source (gd_group x)) (gd_components x) named"
  have "distinct (map fst (gd_components x))" using Cons.prems(1) bt_wf_distinct by (auto simp: desires_wf_def)
  note one = fold_name_source [OF this Cons.prems(2), of "gd_group x"]
  have fresh: "\<forall>y \<in> set groups. \<forall>n. source_of ?named n (gd_group y) = None"
  proof (intro ballI allI)
    fix y n assume y: "y \<in> set groups"
    have "gd_group x \<notin> gd_group ` set groups" using Cons.prems(1) by (simp add: desires_wf_def)
    then have "gd_group y \<noteq> gd_group x" using y by (metis imageI)
    then show "source_of ?named n (gd_group y) = None" using one Cons.prems(3) y by simp
  qed
  have "desires_wf groups" using Cons.prems(1) by (simp add: desires_wf_def)
  note ih = Cons.IH [OF this conjunct1 [OF one] fresh, unfolded Let_def]
  have "source_of ?named n g = Some d \<longleftrightarrow> source_of named n g = Some d \<or> gd_group x = g \<and> map_of (gd_components x) n = Some d" for n g d
    using one Cons.prems(3) by (auto split: if_splits)
  then show ?case using ih unfolding Let_def by auto
qed simp

lemma named_by_spec:
  assumes "desires_wf groups"
  shows "sources_wf (named_by groups)"
    and "source_of (named_by groups) n g = Some d \<longleftrightarrow> (\<exists>x \<in> set groups. gd_group x = g \<and> map_of (gd_components x) n = Some d)"
proof -
  have "sources_wf []" and none: "source_of [] n' g' = None" for n' g' by (simp_all add: sources_wf_def source_of_def)
  from fold_named_by [OF assms this(1)] none
  show "sources_wf (named_by groups)"
    and "source_of (named_by groups) n g = Some d \<longleftrightarrow> (\<exists>x \<in> set groups. gd_group x = g \<and> map_of (gd_components x) n = Some d)"
    by (simp_all add: named_by_def Let_def)
qed

lemma sources_ext:
  assumes "sources_wf a" "sources_wf b" and eq: "\<And>n g. source_of a n g = source_of b n g"
  shows "a = b"
proof (rule bt_ext)
  show "bt_wf a" "bt_wf b" using assms by (auto simp: sources_wf_def)
  have some: "\<exists>g d. source_of x n g = Some d" if "sources_wf x" "map_of x n = Some m" for x n m
  proof -
    have "m \<noteq> []" using that unfolding sources_wf_def by blast
    then obtain g d m' where "m = (g, d) # m'" by (cases m) auto
    then show ?thesis using that(2) by (auto simp: source_of_def)
  qed
  show "map_of a n = map_of b n" for n
  proof (cases "map_of a n")
    case None
    then have "source_of b n g = None" for g using eq [of n g] by (simp add: source_of_def)
    then have "map_of b n = None" using some [OF assms(2), of n] by (metis not_Some_eq)
    then show ?thesis using None by simp
  next
    case (Some m)
    obtain g d where "source_of a n g = Some d" using some [OF assms(1) Some] by blast
    then obtain m' where m': "map_of b n = Some m'" using eq [of n g] by (auto simp: source_of_def split: Option.bind_splits)
    have "m = m'"
      using assms(1,2) Some m' eq [of n] by (intro bt_ext) (auto simp: sources_wf_def source_of_def)
    then show ?thesis using Some m' by simp
  qed
qed

lemma named_by_order_free:
  assumes "desires_wf a" "desires_wf b" "set a = set b"
  shows "named_by a = named_by b"
proof (rule sources_ext)
  show "source_of (named_by a) n g = source_of (named_by b) n g" for n g
    using named_by_spec(2) [OF assms(1), of n g] named_by_spec(2) [OF assms(2), of n g] assms(3)
    by (metis (no_types, lifting) not_Some_eq)
qed (use named_by_spec(1) assms in auto)

section \<open>Agreement and conflict\<close>

lemma all_same: "xs = replicate (length xs) (hd xs) \<longleftrightarrow> (\<forall>x \<in> set xs. x = hd xs)"
proof
  assume same: "xs = replicate (length xs) (hd xs)"
  have "x = hd xs" if "x \<in> set (replicate (length xs) (hd xs))" for x using that by simp
  then show "\<forall>x \<in> set xs. x = hd xs" using same by simp
qed (simp add: replicate_length_same)

lemma distinct_ids_single: "length (distinct_ids m) = 1 \<longleftrightarrow> m \<noteq> [] \<and> (\<forall>d \<in> set (bt_values m). object_id d = object_id (hd (bt_values m)))"
proof (cases m)
  case Nil
  then show ?thesis by (simp add: distinct_ids_def)
next
  case (Cons e es)
  let ?ids = "sort (map object_id (bt_values m))"
  have ids: "set ?ids = object_id ` set (bt_values m)" by (simp add: image_image)
  have "length ?ids \<noteq> 0" using Cons by (simp del: length_0_conv)
  then have ne: "?ids \<noteq> []" by blast
  have "length (distinct_ids m) = 1 \<longleftrightarrow> ?ids = replicate (length ?ids) (hd ?ids)"
    using remdups_adj_singleton_iff [of ?ids] ne by (simp add: distinct_ids_def)
  also have "\<dots> \<longleftrightarrow> (\<forall>x \<in> set ?ids. x = hd ?ids)" by (rule all_same)
  also have "\<dots> \<longleftrightarrow> (\<forall>d \<in> set (bt_values m). object_id d = object_id (hd (bt_values m)))"
  proof -
    have first: "hd (bt_values m) \<in> set (bt_values m)" using Cons by simp
    have top: "hd ?ids \<in> object_id ` set (bt_values m)" using hd_in_set [OF ne] unfolding ids .
    show ?thesis
    proof
      assume "\<forall>x \<in> set ?ids. x = hd ?ids"
      then have "object_id d = hd ?ids" if "d \<in> set (bt_values m)" for d using that unfolding ids by blast
      then show "\<forall>d \<in> set (bt_values m). object_id d = object_id (hd (bt_values m))" using first by simp
    next
      assume same: "\<forall>d \<in> set (bt_values m). object_id d = object_id (hd (bt_values m))"
      have "x = object_id (hd (bt_values m))" if "x \<in> object_id ` set (bt_values m)" for x using that same by blast
      then have "x = hd ?ids" if "x \<in> set ?ids" for x using that top unfolding ids by metis
      then show "\<forall>x \<in> set ?ids. x = hd ?ids" by blast
    qed
  qed
  finally show ?thesis using Cons by simp
qed

lemma fold_settle:
  "distinct (map fst es) \<Longrightarrow>
    map_of (ef_components (fold settle_source es r)) n =
      (case map_of es n of Some m \<Rightarrow> if length (distinct_ids m) = 1 then Some (hd (bt_values m)) else map_of (ef_components r) n
       | None \<Rightarrow> map_of (ef_components r) n) \<and>
    map_of (ef_conflicts (fold settle_source es r)) n =
      (case map_of es n of Some m \<Rightarrow> if length (distinct_ids m) = 1 then map_of (ef_conflicts r) n else Some m
       | None \<Rightarrow> map_of (ef_conflicts r) n)"
proof (induction es arbitrary: r)
  case (Cons e es)
  have fresh: "map_of es (fst e) = None" using Cons.prems by (simp add: map_of_eq_None_iff)
  show ?case
  proof (cases "n = fst e")
    case True
    then show ?thesis using Cons.IH [of "settle_source e r"] Cons.prems fresh by (cases e) (simp add: settle_source_def)
  next
    case False
    then show ?thesis using Cons.IH [of "settle_source e r"] Cons.prems by (cases e) (simp add: settle_source_def split: option.splits)
  qed
qed simp

lemma effective_get:
  assumes "desires_wf groups"
  shows "map_of (ef_components (effective_of groups)) n =
      Option.bind (map_of (named_by groups) n) (\<lambda>m. if length (distinct_ids m) = 1 then Some (hd (bt_values m)) else None)"
    and "map_of (ef_conflicts (effective_of groups)) n =
      Option.bind (map_of (named_by groups) n) (\<lambda>m. if length (distinct_ids m) = 1 then None else Some m)"
proof -
  have "distinct (map fst (named_by groups))" using named_by_spec(1) [OF assms] bt_wf_distinct by (auto simp: sources_wf_def)
  from fold_settle [OF this, of "\<lparr>ef_components = [], ef_conflicts = []\<rparr>" n]
  show "map_of (ef_components (effective_of groups)) n =
      Option.bind (map_of (named_by groups) n) (\<lambda>m. if length (distinct_ids m) = 1 then Some (hd (bt_values m)) else None)"
    and "map_of (ef_conflicts (effective_of groups)) n =
      Option.bind (map_of (named_by groups) n) (\<lambda>m. if length (distinct_ids m) = 1 then None else Some m)"
    by (simp_all add: effective_of_def split: option.splits)
qed

lemma named_by_wanted:
  assumes wf: "desires_wf groups"
  shows "case map_of (named_by groups) n of None \<Rightarrow> wanted groups n = {} | Some m \<Rightarrow> set (bt_values m) = wanted groups n \<and> m \<noteq> []"
proof (cases "map_of (named_by groups) n")
  case None
  then have "source_of (named_by groups) n g = None" for g by (simp add: source_of_def)
  then have "wanted groups n = {}" using named_by_spec(2) [OF wf, of n] unfolding wanted_def by simp
  then show ?thesis using None by simp
next
  case (Some m)
  have m: "bt_wf m" "m \<noteq> []" using named_by_spec(1) [OF wf] Some unfolding sources_wf_def by blast+
  have "d \<in> set (bt_values m) \<longleftrightarrow> (\<exists>g. map_of m g = Some d)" for d using bt_get_iff [OF m(1)] by force
  moreover have "map_of m g = source_of (named_by groups) n g" for g using Some by (simp add: source_of_def)
  ultimately have "d \<in> set (bt_values m) \<longleftrightarrow> d \<in> wanted groups n" for d
    unfolding wanted_def mem_Collect_eq using named_by_spec(2) [OF wf, of n] by metis
  then have "set (bt_values m) = wanted groups n" by blast
  then show ?thesis using Some m(2) by simp
qed

text \<open>
  C19: The effective desired state is the union of what the groups want: a component no group names is in
  neither map; one whose groups agree, up to the spelling of the identifier, has a deployment one of them
  names; one whose groups disagree is a conflict and has none. It does not depend on the order in which
  the groups are read.
\<close>

theorem effective_is_union:
  assumes wf: "desires_wf groups"
  shows "(wanted groups n = {} \<longrightarrow> map_of (ef_components (effective_of groups)) n = None \<and> map_of (ef_conflicts (effective_of groups)) n = None) \<and>
    (wanted groups n \<noteq> {} \<and> (\<forall>d \<in> wanted groups n. \<forall>d' \<in> wanted groups n. object_id d = object_id d') \<longrightarrow>
      (\<exists>d \<in> wanted groups n. map_of (ef_components (effective_of groups)) n = Some d) \<and> map_of (ef_conflicts (effective_of groups)) n = None) \<and>
    ((\<exists>d \<in> wanted groups n. \<exists>d' \<in> wanted groups n. object_id d \<noteq> object_id d') \<longrightarrow>
      map_of (ef_components (effective_of groups)) n = None \<and> map_of (ef_conflicts (effective_of groups)) n \<noteq> None) \<and>
    (\<forall>groups'. desires_wf groups' \<and> set groups' = set groups \<longrightarrow> effective_of groups' = effective_of groups)"
proof (intro conjI)
  show "\<forall>groups'. desires_wf groups' \<and> set groups' = set groups \<longrightarrow> effective_of groups' = effective_of groups"
    using named_by_order_free [OF _ wf] by (auto simp: effective_of_def)
  note get = effective_get [OF wf, of n]
  show "wanted groups n = {} \<longrightarrow> map_of (ef_components (effective_of groups)) n = None \<and> map_of (ef_conflicts (effective_of groups)) n = None"
    using named_by_wanted [OF wf, of n] get by (cases "map_of (named_by groups) n") auto
  show "wanted groups n \<noteq> {} \<and> (\<forall>d \<in> wanted groups n. \<forall>d' \<in> wanted groups n. object_id d = object_id d') \<longrightarrow>
      (\<exists>d \<in> wanted groups n. map_of (ef_components (effective_of groups)) n = Some d) \<and> map_of (ef_conflicts (effective_of groups)) n = None"
  proof (cases "map_of (named_by groups) n")
    case (Some m)
    then have m: "set (bt_values m) = wanted groups n" "m \<noteq> []" using named_by_wanted [OF wf, of n] by auto
    then have hd: "hd (bt_values m) \<in> wanted groups n" by (metis hd_in_set list.map_disc_iff)
    show ?thesis
    proof
      assume "wanted groups n \<noteq> {} \<and> (\<forall>d \<in> wanted groups n. \<forall>d' \<in> wanted groups n. object_id d = object_id d')"
      then have "length (distinct_ids m) = 1" unfolding distinct_ids_single m(1) using m(2) hd by blast
      then show "(\<exists>d \<in> wanted groups n. map_of (ef_components (effective_of groups)) n = Some d) \<and> map_of (ef_conflicts (effective_of groups)) n = None"
        using get Some hd by simp
    qed
  qed (use named_by_wanted [OF wf, of n] in auto)
  show "(\<exists>d \<in> wanted groups n. \<exists>d' \<in> wanted groups n. object_id d \<noteq> object_id d') \<longrightarrow>
      map_of (ef_components (effective_of groups)) n = None \<and> map_of (ef_conflicts (effective_of groups)) n \<noteq> None"
  proof (cases "map_of (named_by groups) n")
    case (Some m)
    then have m: "set (bt_values m) = wanted groups n" using named_by_wanted [OF wf, of n] by auto
    show ?thesis
    proof
      assume "\<exists>d \<in> wanted groups n. \<exists>d' \<in> wanted groups n. object_id d \<noteq> object_id d'"
      then have "length (distinct_ids m) \<noteq> 1" unfolding distinct_ids_single m by metis
      then show "map_of (ef_components (effective_of groups)) n = None \<and> map_of (ef_conflicts (effective_of groups)) n \<noteq> None"
        using get Some by simp
    qed
  qed (use named_by_wanted [OF wf, of n] in auto)
qed

definition demo_groups :: "group_desired list" where
  "demo_groups = [\<lparr>gd_group = ''0xa'', gd_revision = 2, gd_components = [(''agent'', ''0x2''), (''firmware'', ''0x1'')]\<rparr>,
     \<lparr>gd_group = ''0xb'', gd_revision = 1, gd_components = [(''agent'', ''0x3''), (''firmware'', ''0x01'')]\<rparr>]"

theorem effective_is_union_witness:
  "map_of (ef_components (effective_of demo_groups)) ''agent'' = None \<and> map_of (ef_conflicts (effective_of demo_groups)) ''agent'' \<noteq> None \<and>
   effective_of (rev demo_groups) = effective_of demo_groups"
proof -
  have wf: "desires_wf demo_groups" "desires_wf (rev demo_groups)" by (simp_all add: desires_wf_def demo_groups_def bt_wf_def)
  have "wanted demo_groups ''agent'' = {''0x2'', ''0x3''}" by (auto simp: wanted_def demo_groups_def)
  moreover have "object_id ''0x2'' \<noteq> object_id ''0x3''" by code_simp
  ultimately show ?thesis using effective_is_union [OF wf(1), of "''agent''"] wf(2) by auto
qed

section \<open>Plans\<close>

text \<open>The component and the deployment of a step.\<close>

fun step_target :: "plan_step \<Rightarrow> string \<times> string" where
  "step_target (Apply n d) = (n, d)"
| "step_target (Adopt n d) = (n, d)"
| "step_target (Reselected n d) = (n, d)"

lemma plan_one_cases:
  assumes "s \<in> set (plan_one current hist (n, d))"
  shows "step_target s = (n, d)" "(case map_of current n of None \<Rightarrow> True | Some p \<Rightarrow> object_id p \<noteq> object_id d)" "hist d \<noteq> NotApplied"
    "(\<exists>n' d'. s = Apply n' d') \<longleftrightarrow> hist d = Never" "(\<exists>n' d'. s = Adopt n' d') \<longleftrightarrow> hist d = Applied \<and> map_of current n = None"
  using assms by (auto simp: plan_one_def Let_def split: if_splits history.splits option.splits)

lemma plan_targets: "set (map step_target (plan_steps e current hist)) \<subseteq> set (ef_components e)"
  using plan_one_cases(1) by (fastforce simp: plan_steps_def)

lemma plan_names_sorted:
  assumes "bt_wf (ef_components e)"
  shows "sorted_wrt (<) (map (fst \<circ> step_target) (plan_steps e current hist))"
proof -
  have "sorted_wrt (<) (map (fst \<circ> step_target) (concat (map (plan_one current hist) cs)))" if "bt_wf cs" for cs
    using that
  proof (induction cs)
    case (Cons c cs)
    obtain n d where c: "c = (n, d)" by fastforce
    have later: "n < fst (step_target s)" if s: "s \<in> set (concat (map (plan_one current hist) cs))" for s
    proof -
      obtain n' d' where "(n', d') \<in> set cs" "s \<in> set (plan_one current hist (n', d'))" using s by auto
      moreover from this(2) have "step_target s = (n', d')" by (rule plan_one_cases(1))
      ultimately show ?thesis using Cons.prems c by (auto simp: bt_wf_Cons image_iff)
    qed
    have "plan_one current hist c = [] \<or> (\<exists>s. plan_one current hist c = [s] \<and> fst (step_target s) = n)"
      unfolding c by (auto simp: plan_one_def Let_def split: history.splits)
    moreover have "bt_wf cs" using Cons.prems c by (simp add: bt_wf_Cons)
    ultimately show ?case using Cons.IH later by auto
  qed simp
  then show ?thesis using assms by (simp add: plan_steps_def)
qed

definition carried_out :: "effective \<Rightarrow> (string, string) btree \<Rightarrow> (string, string) btree" where
  "carried_out e current = fold (\<lambda>(n, d). bt_insert n d) (ef_components e) current"

lemma fold_insert_get:
  "distinct (map fst es) \<Longrightarrow> map_of (fold (\<lambda>(n, d). bt_insert n d) es m) n = (case map_of es n of None \<Rightarrow> map_of m n | Some d \<Rightarrow> Some d)"
proof (induction es arbitrary: m)
  case (Cons e es)
  have "map_of es (fst e) = None" using Cons.prems by (simp add: map_of_eq_None_iff)
  then show ?case using Cons by (cases e) (auto split: option.splits)
qed simp



end
