(* ===== verification/Effects.thy ===== *)
theory Effects
  imports Recipes ConfigStore Reconcile
begin

text \<open>
  The world the daemon's poll loop works in and the computations over it. The environment answers every
  call that leaves the daemon (a chain read, a download, a command, a file operation) and is a function of
  the number of calls made so far, so that two calls need not get the same answer. A computation returns
  a value, returns an error, or is cut off: the process may stop at any call. What the daemon does to the
  device and reports to the chain is kept in a log.
\<close>

section \<open>Environment\<close>

record authentic =
  au_recipe :: recipe
  au_confidential :: bool

text \<open>An authenticated dependency candidate (\<open>components.rs\<close>, \<open>Loaded\<close>).\<close>

record dep_loaded =
  ld_version_id :: string
  ld_recipe :: string
  ld_artifact :: string
  ld_blob :: string
  ld_install :: "string option"
  ld_supervised :: "supervised option"
  ld_configuration :: configuration
  ld_validate :: "string option"
  ld_confidential :: bool

record chain_view =
  cv_object :: "string \<Rightarrow> (fault, chain_object option) result"
  cv_keyed :: "string \<Rightarrow> string \<Rightarrow> string \<Rightarrow> (fault, json option) result"
  cv_deployments :: "json option \<Rightarrow> (fault, event_page) result"
  cv_discovery :: "json option \<Rightarrow> string \<Rightarrow> string \<Rightarrow> (fault, event_page) result"
  cv_memberships :: "json option \<Rightarrow> (fault, membership_page) result"
  cv_latest :: "(fault, json option) result"
  cv_time :: "(fault, u64) result"
  cv_cursor_time :: "json option \<Rightarrow> (fault, u64) result"
  cv_validate :: "(fault, unit) result"
  cv_changed :: "string list \<Rightarrow> string list \<Rightarrow> (fault, bool) result"
  cv_discovery_due :: bool
  cv_report :: "string \<Rightarrow> nat \<Rightarrow> (fault, string) result"
  cv_health :: "string \<Rightarrow> bool \<Rightarrow> string option \<Rightarrow> (fault, unit) result"
  cv_top_up :: "funding \<Rightarrow> (fault, bool) result \<times> funding"
  cv_funding :: funding

record supply_view =
  su_recipe :: "string \<Rightarrow> string \<Rightarrow> (fault, authentic) result"
  su_listing :: "string \<Rightarrow> (fault, string list) result"
  su_detail :: "string \<Rightarrow> string \<Rightarrow> bool \<times> (fault, detail \<times> dep_loaded option) result"
  su_artifact :: "string \<Rightarrow> string \<Rightarrow> (fault, unit) result"
  su_overlay :: "string \<Rightarrow> (fault, jmap) result"
  su_verdict :: "string \<Rightarrow> (fault, bool) result"
  su_file :: "(fault, unit) result"

text \<open>What a daemon start finds about a staged update of the daemon (\<open>handoff.rs\<close>, \<open>Resolution\<close>).\<close>

datatype resolution = NoHandoff | ConfirmAfterStartup string | AppliedHandoff string | FailedHandoff string string

record machine_view =
  mv_begin :: "string \<Rightarrow> (fault, unit) result"
  mv_deploy :: "string \<Rightarrow> string \<Rightarrow> (fault, unit) result"
  mv_log :: "string \<Rightarrow> (fault, unit) result"
  mv_apply :: "string \<Rightarrow> string \<Rightarrow> (fault, unit) result"
  mv_supervises :: "string \<Rightarrow> bool"
  mv_retire :: "string \<Rightarrow> (fault, unit) result"
  mv_restored :: "string \<Rightarrow> string \<Rightarrow> bool"
  mv_committed :: "string \<Rightarrow> string option"
  mv_recover :: "(fault, unit) result"
  mv_recovered :: "(string, string) btree"
  mv_configuration :: "string \<Rightarrow> (fault, cfg_record option) result"
  mv_prepare :: "(string, generation) btree \<Rightarrow> (fault, unit) result"
  mv_transition :: "(string, generation) btree \<Rightarrow> (fault, unit) result"
  mv_activation :: "(string, generation) btree \<Rightarrow> (fault, unit) result"
  mv_activate :: "(string, generation) btree \<Rightarrow> (fault, unit) result"
  mv_abort :: "(string, generation) btree \<Rightarrow> (fault, unit) result"
  mv_resume :: "(fault, unit) result"
  mv_recover_activation :: "(fault, unit) result"
  mv_collect :: "string \<Rightarrow> (fault, (fault, unit) result option) result"
  mv_firmware_pending :: "string \<Rightarrow> bool"
  mv_stage :: "string \<Rightarrow> (fault, unit) result"
  mv_finish :: "(fault, unit) result"
  mv_handoff :: "(fault, resolution) result"
  mv_confirm :: "string \<Rightarrow> (fault, unit) result"

record moment =
  mo_alive :: bool
  mo_now :: "(fault, u64) result"
  mo_instant :: int
  mo_save :: save_io
  mo_open :: open_io
  mo_io :: "bool list"
  mo_chain :: chain_view
  mo_supply :: supply_view
  mo_machine :: machine_view

type_synonym environment = "nat \<Rightarrow> moment"

section \<open>Settings\<close>

text \<open>The daemon's configuration and the constants and library functions the poll loop uses.\<close>

record settings =
  st_binding :: string
  st_device :: string
  st_cap :: string
  st_address :: string
  st_registry :: string
  st_upgrade_cap :: string
  st_types :: "string list"
  st_move_type :: "string \<Rightarrow> string"
  st_custody_type :: "(string \<Rightarrow> bool) option"
  st_address_bytes :: "string \<Rightarrow> string option"
  st_inbox :: "(fault, string) result"
  st_base64 :: "string \<Rightarrow> nat list option"
  st_budget :: bool
  st_helper :: bool
  st_allow_commands :: bool
  st_daemon_component :: "string option"
  st_defer_max :: u64
  st_poll_seconds :: u64
  st_replay :: bool
  st_sleeping :: "string list"
  st_platform :: "string \<times> string"
  st_calendar :: calendar
  st_tzdb :: string
  st_semver :: semver
  st_sizes :: json_sizes
  st_check_services :: "services \<Rightarrow> (fault, unit) result"
  st_control :: "json \<Rightarrow> (fault, control) result"
  st_recurring :: "json \<Rightarrow> (fault, recurring) result"
  st_version :: "json \<Rightarrow> (fault, cat_version) result"
  st_fingerprint :: "effective \<Rightarrow> string"
  st_request_id :: "string \<Rightarrow> string"

definition has_type :: "settings \<Rightarrow> string \<Rightarrow> bool" where
  "has_type cf name \<longleftrightarrow> name \<in> set (st_types cf)"

section \<open>World\<close>

datatype effect =
    EvAdmitted string
  | EvInstall string string
  | EvReport string nat
  | EvStaged string

record world =
  w_state :: journal_state
  w_disk :: journal_disk
  w_configs :: cfg_store
  w_retries :: "(string, int) btree"
  w_tick :: nat
  w_log :: "effect list"

datatype 'a answer = Done 'a | Failed fault | Cut

type_synonym 'a run = "world \<Rightarrow> 'a answer \<times> world"

section \<open>Computations\<close>

definition ret :: "'a \<Rightarrow> 'a run" where
  "ret x w = (Done x, w)"

definition fail :: "fault \<Rightarrow> 'a run" where
  "fail e w = (Failed e, w)"

definition bind :: "'a run \<Rightarrow> ('a \<Rightarrow> 'b run) \<Rightarrow> 'b run" where
  "bind m k w = (case m w of (a, w') \<Rightarrow>
     (case a of Done x \<Rightarrow> k x w' | Failed e \<Rightarrow> (Failed e, w') | Cut \<Rightarrow> (Cut, w')))"

text \<open>A result that is inspected instead of propagated.\<close>

definition attempt :: "'a run \<Rightarrow> (fault, 'a) result run" where
  "attempt m w = (case m w of (a, w') \<Rightarrow>
     (case a of Done x \<Rightarrow> (Done (Inr x), w') | Failed e \<Rightarrow> (Done (Inl e), w') | Cut \<Rightarrow> (Cut, w')))"

text \<open>An error with more context, or withheld because it may quote confidential content (\<open>components.rs\<close>).\<close>

definition map_fail :: "(fault \<Rightarrow> fault) \<Rightarrow> 'a run \<Rightarrow> 'a run" where
  "map_fail f m w = (case m w of (a, w') \<Rightarrow> (case a of Done x \<Rightarrow> (Done x, w') | Failed e \<Rightarrow> (Failed (f e), w') | Cut \<Rightarrow> (Cut, w')))"

definition withhold :: "bool \<Rightarrow> string \<Rightarrow> 'a run \<Rightarrow> 'a run" where
  "withhold confidential stage m = map_fail (\<lambda>e. if confidential
     then plain (''confidential recipe rejected at '' @ stage @ '' (details withheld)'') else e) m"

text \<open>A panic ends the process.\<close>

definition panic :: "'a run" where
  "panic w = (Cut, w)"

definition lift :: "(fault, 'a) result \<Rightarrow> 'a run" where
  "lift r = (case r of Inl e \<Rightarrow> fail e | Inr x \<Rightarrow> ret x)"

definition must :: "bool \<Rightarrow> fault \<Rightarrow> unit run" where
  "must c e = (if c then ret () else fail e)"

definition gets :: "(journal_state \<Rightarrow> 'a) \<Rightarrow> 'a run" where
  "gets f w = (Done (f (w_state w)), w)"

definition modify :: "(journal_state \<Rightarrow> journal_state) \<Rightarrow> unit run" where
  "modify f w = (Done (), w\<lparr>w_state := f (w_state w)\<rparr>)"

definition emit :: "effect \<Rightarrow> unit run" where
  "emit e w = (Done (), w\<lparr>w_log := w_log w @ [e]\<rparr>)"

text \<open>One call to the environment; the process may stop at it.\<close>

definition ask :: "environment \<Rightarrow> (moment \<Rightarrow> 'a) \<Rightarrow> 'a run" where
  "ask env f w = (if mo_alive (env (w_tick w)) then (Done (f (env (w_tick w))), w\<lparr>w_tick := Suc (w_tick w)\<rparr>)
     else (Cut, w\<lparr>w_tick := Suc (w_tick w)\<rparr>))"

abbreviation call :: "environment \<Rightarrow> (moment \<Rightarrow> (fault, 'a) result) \<Rightarrow> 'a run" where
  "call env f \<equiv> bind (ask env f) lift"

abbreviation ask_chain :: "environment \<Rightarrow> (chain_view \<Rightarrow> (fault, 'a) result) \<Rightarrow> 'a run" where
  "ask_chain env f \<equiv> call env (\<lambda>m. f (mo_chain m))"

abbreviation ask_supply :: "environment \<Rightarrow> (supply_view \<Rightarrow> (fault, 'a) result) \<Rightarrow> 'a run" where
  "ask_supply env f \<equiv> call env (\<lambda>m. f (mo_supply m))"

abbreviation ask_machine :: "environment \<Rightarrow> (machine_view \<Rightarrow> (fault, 'a) result) \<Rightarrow> 'a run" where
  "ask_machine env f \<equiv> call env (\<lambda>m. f (mo_machine m))"

definition store_disk :: "journal_state \<Rightarrow> save_io \<Rightarrow> bool run" where
  "store_disk s io w = (case journal_save io s (w_disk w) of (d, ok) \<Rightarrow> (Done ok, w\<lparr>w_disk := d\<rparr>))"

text \<open>\<open>Journal::save\<close>.\<close>

definition save :: "environment \<Rightarrow> unit run" where
  "save env = bind (ask env mo_save) (\<lambda>io. bind (gets id) (\<lambda>s. bind (store_disk s io) (\<lambda>ok. must ok (plain ''io''))))"

definition disk_file :: "state_file run" where
  "disk_file w = (Done (dk_file (w_disk w)), w)"

text \<open>An operation of the configuration store, with the outcomes of its file operations.\<close>

definition configs :: "environment \<Rightarrow> (cfg_store \<Rightarrow> bool list \<Rightarrow> cfg_store \<times> bool list \<times> (store_error, 'a) result) \<Rightarrow> 'a run" where
  "configs env f = bind (ask env mo_io) (\<lambda>io w. case f (w_configs w) io of (st, _, r) \<Rightarrow>
     lift (map_fault (\<lambda>_. plain ''configuration store'') r) (w\<lparr>w_configs := st\<rparr>))"

definition committed_config :: "string \<Rightarrow> cfg_record option run" where
  "committed_config name w = lift (map_fault (\<lambda>_. plain ''configuration store'') (cfg_committed (w_configs w) name)) w"

definition get_retries :: "(string, int) btree run" where
  "get_retries w = (Done (w_retries w), w)"

definition set_retries :: "((string, int) btree \<Rightarrow> (string, int) btree) \<Rightarrow> unit run" where
  "set_retries f w = (Done (), w\<lparr>w_retries := f (w_retries w)\<rparr>)"

primrec each :: "('a \<Rightarrow> unit run) \<Rightarrow> 'a list \<Rightarrow> unit run" where
  "each f [] = ret ()"
| "each f (x # xs) = bind (f x) (\<lambda>_. each f xs)"

text \<open>A loop that carries a value through the elements.\<close>

primrec carry :: "('a \<Rightarrow> 's \<Rightarrow> 's run) \<Rightarrow> 'a list \<Rightarrow> 's \<Rightarrow> 's run" where
  "carry f [] s = ret s"
| "carry f (x # xs) s = bind (f x s) (carry f xs)"

text \<open>The first element a check accepts decides.\<close>

primrec any_run :: "('a \<Rightarrow> bool run) \<Rightarrow> 'a list \<Rightarrow> bool run" where
  "any_run f [] = ret False"
| "any_run f (x # xs) = bind (f x) (\<lambda>b. if b then ret True else any_run f xs)"

section \<open>Weakest preconditions\<close>

text \<open>
  What must hold before a computation for the postconditions to hold after it: of its value, of its error,
  or of the world in which it was cut off.
\<close>

definition wp :: "'a run \<Rightarrow> ('a \<Rightarrow> world \<Rightarrow> bool) \<Rightarrow> (fault \<Rightarrow> world \<Rightarrow> bool) \<Rightarrow> (world \<Rightarrow> bool) \<Rightarrow> world \<Rightarrow> bool" where
  "wp m Q E H w = (case m w of (a, w') \<Rightarrow> (case a of Done x \<Rightarrow> Q x w' | Failed e \<Rightarrow> E e w' | Cut \<Rightarrow> H w'))"

named_theorems wp_simps \<open>weakest preconditions of the combinators\<close>

lemma wp_ret [wp_simps]: "wp (ret x) Q E H w = Q x w"
  by (simp add: wp_def ret_def)

lemma wp_fail [wp_simps]: "wp (fail e) Q E H w = E e w"
  by (simp add: wp_def fail_def)

lemma wp_bind [wp_simps]: "wp (bind m k) Q E H w = wp m (\<lambda>x. wp (k x) Q E H) E H w"
  by (simp add: wp_def bind_def split: prod.splits answer.splits)

lemma wp_attempt [wp_simps]: "wp (attempt m) Q E H w = wp m (\<lambda>x. Q (Inr x)) (\<lambda>e. Q (Inl e)) H w"
  by (simp add: wp_def attempt_def split: prod.splits answer.splits)

lemma wp_map_fail [wp_simps]: "wp (map_fail f m) Q E H w = wp m Q (\<lambda>e. E (f e)) H w"
  by (simp add: wp_def map_fail_def split: prod.splits answer.splits)

lemma wp_panic [wp_simps]: "wp panic Q E H w = H w"
  by (simp add: wp_def panic_def)

lemma wp_lift [wp_simps]: "wp (lift r) Q E H w = (case r of Inl e \<Rightarrow> E e w | Inr x \<Rightarrow> Q x w)"
  by (simp add: lift_def wp_simps split: sum.splits)

lemma wp_must [wp_simps]: "wp (must c e) Q E H w = (if c then Q () w else E e w)"
  by (simp add: must_def wp_simps)

lemma wp_gets [wp_simps]: "wp (gets f) Q E H w = Q (f (w_state w)) w"
  by (simp add: wp_def gets_def)

lemma wp_modify [wp_simps]: "wp (modify f) Q E H w = Q () (w\<lparr>w_state := f (w_state w)\<rparr>)"
  by (simp add: wp_def modify_def)

lemma wp_emit [wp_simps]: "wp (emit e) Q E H w = Q () (w\<lparr>w_log := w_log w @ [e]\<rparr>)"
  by (simp add: wp_def emit_def)

lemma wp_if [wp_simps]: "wp (if c then m else n) Q E H w = (if c then wp m Q E H w else wp n Q E H w)"
  by simp

lemma wp_mono:
  assumes "wp m Q E H w" and "\<And>x w'. Q x w' \<Longrightarrow> Q' x w'" and "\<And>e w'. E e w' \<Longrightarrow> E' e w'" and "\<And>w'. H w' \<Longrightarrow> H' w'"
  shows "wp m Q' E' H' w"
  using assms by (auto simp: wp_def split: prod.splits answer.splits)

section \<open>Values\<close>

text \<open>When a computation returns a value.\<close>

named_theorems done_simps \<open>when the combinators return\<close>

lemma done_ret [done_simps]: "ret x w = (Done y, w') \<longleftrightarrow> y = x \<and> w' = w"
  by (auto simp: ret_def)

lemma done_fail [done_simps]: "\<not> fail e w = (Done y, w')"
  by (auto simp: fail_def)

lemma done_bind [done_simps]: "bind m k w = (Done y, w') \<longleftrightarrow> (\<exists>x w1. m w = (Done x, w1) \<and> k x w1 = (Done y, w'))"
  by (auto simp: bind_def split: prod.splits answer.splits)

lemma done_attempt [done_simps]:
  "attempt m w = (Done r, w') \<longleftrightarrow> (case r of Inr x \<Rightarrow> m w = (Done x, w') | Inl e \<Rightarrow> m w = (Failed e, w'))"
  by (auto simp: attempt_def split: prod.splits answer.splits sum.splits)

lemma done_lift [done_simps]: "lift r w = (Done y, w') \<longleftrightarrow> r = Inr y \<and> w' = w"
  by (auto simp: lift_def done_simps split: sum.splits)

lemma done_must [done_simps]: "must c e w = (Done y, w') \<longleftrightarrow> c \<and> w' = w"
  by (auto simp: must_def done_simps)

lemma done_ask [done_simps]:
  "ask env f w = (Done y, w') \<longleftrightarrow> mo_alive (env (w_tick w)) \<and> y = f (env (w_tick w)) \<and> w' = w\<lparr>w_tick := Suc (w_tick w)\<rparr>"
  by (auto simp: ask_def)

section \<open>Frames\<close>

text \<open>A relation between the world before and after a computation, however it ends.\<close>

definition within_rel :: "(world \<Rightarrow> world \<Rightarrow> bool) \<Rightarrow> 'a run \<Rightarrow> bool" where
  "within_rel R m \<longleftrightarrow> (\<forall>w. R w (snd (m w)))"

text \<open>
  A step relation that composes: the rules below let the frame of a computation follow from the frames of
  its parts.
\<close>

locale read_frame =
  fixes R :: "world \<Rightarrow> world \<Rightarrow> bool"
  assumes refl: "R w w"
    and trans: "R w w' \<Longrightarrow> R w' w'' \<Longrightarrow> R w w''"
    and tick: "R w (w\<lparr>w_tick := Suc (w_tick w)\<rparr>)"
begin

lemma frame_ret: "within_rel R (ret x)"
  by (simp add: within_rel_def ret_def refl)

lemma frame_fail: "within_rel R (fail e)"
  by (simp add: within_rel_def fail_def refl)

lemma frame_lift: "within_rel R (lift r)"
  by (simp add: within_rel_def lift_def ret_def fail_def refl split: sum.splits)

lemma frame_must: "within_rel R (must c e)"
  by (simp add: must_def frame_ret frame_fail)

lemma frame_gets: "within_rel R (gets f)"
  by (simp add: within_rel_def gets_def refl)

lemma frame_ask: "within_rel R (ask env f)"
  by (simp add: within_rel_def ask_def tick)

lemma frame_bind:
  assumes "within_rel R m" and "\<And>x. within_rel R (k x)"
  shows "within_rel R (bind m k)"
  unfolding within_rel_def
proof
  fix w
  obtain a w' where m: "m w = (a, w')" by fastforce
  then have "R w w'" using assms(1) by (metis within_rel_def snd_conv)
  moreover have "R w' (snd (k x w'))" for x using assms(2) by (simp add: within_rel_def)
  ultimately show "R w (snd (bind m k w))" using m by (auto simp: bind_def intro: trans split: answer.splits)
qed

lemma frame_attempt: "within_rel R m \<Longrightarrow> within_rel R (attempt m)"
  by (auto simp: within_rel_def attempt_def split: prod.splits answer.splits) (metis snd_conv)+

lemma frame_map_fail: "within_rel R m \<Longrightarrow> within_rel R (map_fail f m)"
  by (auto simp: within_rel_def map_fail_def split: prod.splits answer.splits) (metis snd_conv)+

lemma frame_withhold: "within_rel R m \<Longrightarrow> within_rel R (withhold c stage m)"
  by (simp add: withhold_def frame_map_fail)

lemma frame_panic: "within_rel R panic"
  by (simp add: within_rel_def panic_def refl)

lemma frame_each: "(\<And>x. x \<in> set xs \<Longrightarrow> within_rel R (f x)) \<Longrightarrow> within_rel R (each f xs)"
  by (induction xs) (auto intro: frame_ret frame_bind)

lemma frame_carry: "(\<And>x s. x \<in> set xs \<Longrightarrow> within_rel R (f x s)) \<Longrightarrow> within_rel R (carry f xs s)"
  by (induction xs arbitrary: s) (auto intro: frame_ret frame_bind)

lemma frame_any: "(\<And>x. x \<in> set xs \<Longrightarrow> within_rel R (f x)) \<Longrightarrow> within_rel R (any_run f xs)"
  by (induction xs) (auto intro!: frame_ret frame_bind)

lemma frame_committed: "within_rel R (committed_config n)"
  by (simp add: within_rel_def committed_config_def lift_def ret_def fail_def refl split: sum.splits)

lemma frame_get_retries: "within_rel R get_retries"
  by (simp add: within_rel_def get_retries_def refl)

lemma frame_disk_file: "within_rel R disk_file"
  by (simp add: within_rel_def disk_file_def refl)

lemma frame_option: "(x = None \<Longrightarrow> within_rel R m) \<Longrightarrow> (\<And>y. x = Some y \<Longrightarrow> within_rel R (k y)) \<Longrightarrow> within_rel R (case x of None \<Rightarrow> m | Some y \<Rightarrow> k y)"
  by (cases x) auto

lemmas read_rules = frame_ret frame_fail frame_lift frame_must frame_gets frame_ask frame_bind frame_attempt
  frame_map_fail frame_withhold frame_panic frame_each frame_carry frame_any frame_committed frame_get_retries frame_disk_file

end

locale run_frame = read_frame +
  assumes set_configs: "R w (w\<lparr>w_configs := st\<rparr>)"
    and retries: "R w (w\<lparr>w_retries := r\<rparr>)"
begin

lemma frame_configs: "within_rel R (configs env f)"
  unfolding configs_def
  by (intro frame_bind frame_ask) (auto simp: within_rel_def lift_def ret_def fail_def set_configs split: prod.splits sum.splits)

lemma frame_set_retries: "within_rel R (set_retries f)"
  by (simp add: within_rel_def set_retries_def retries)

lemmas frame_rules = read_rules frame_configs frame_set_retries

end

text \<open>A frame of a computation gives a precondition for every postcondition it implies.\<close>

lemma within_wp:
  assumes "within_rel R m" and "\<And>w'. R w w' \<Longrightarrow> H w'" and "\<And>x w'. R w w' \<Longrightarrow> Q x w'" and "\<And>e w'. R w w' \<Longrightarrow> E e w'"
  shows "wp m Q E H w"
  using assms by (auto simp: within_rel_def wp_def split: prod.splits answer.splits) (metis snd_conv)+

section \<open>Reads\<close>

text \<open>A read leaves everything as it is but the number of calls made.\<close>

definition reads :: "world \<Rightarrow> world \<Rightarrow> bool" where
  "reads w w' \<longleftrightarrow> w_tick w \<le> w_tick w' \<and> w_state w' = w_state w \<and> w_disk w' = w_disk w \<and> w_configs w' = w_configs w
     \<and> w_retries w' = w_retries w \<and> w_log w' = w_log w"

interpretation reads: read_frame reads
  by unfold_locales (auto simp: reads_def)

text \<open>A relation weaker than reading holds of what only reads.\<close>

lemma within_rel_weaken: "within_rel R m \<Longrightarrow> (\<And>w w'. R w w' \<Longrightarrow> S w w') \<Longrightarrow> within_rel S m"
  by (simp add: within_rel_def)

section \<open>Computations that decide nothing\<close>

text \<open>
  The log and the outcomes of deployments stay as they are, and what the disk holds is either what it held or
  a state with these outcomes.
\<close>

definition file_step :: "journal_state \<Rightarrow> state_file \<Rightarrow> state_file \<Rightarrow> bool" where
  "file_step s f g \<longleftrightarrow> g = f \<or> (\<exists>t. g = Holds t \<and> js_deployments t = js_deployments s)"

definition quiet :: "world \<Rightarrow> world \<Rightarrow> bool" where
  "quiet w w' \<longleftrightarrow> w_log w' = w_log w \<and> js_deployments (w_state w') = js_deployments (w_state w)
     \<and> file_step (w_state w) (dk_file (w_disk w)) (dk_file (w_disk w'))
     \<and> file_step (w_state w) (dk_durable (w_disk w)) (dk_durable (w_disk w'))"

interpretation quiet: run_frame quiet
  by unfold_locales (auto simp: quiet_def file_step_def)

lemma quiet_modify: "(\<And>s. js_deployments (f s) = js_deployments s) \<Longrightarrow> within_rel quiet (modify f)"
  by (simp add: within_rel_def modify_def quiet_def file_step_def)

lemma quiet_save: "within_rel quiet (save env)"
proof -
  have disk: "quiet w (w\<lparr>w_disk := fst (journal_save io (w_state w) (w_disk w))\<rparr>)" for io w
    by (auto simp: journal_save_def quiet_def file_step_def split: save_io.splits)
  have "snd (bind (gets id) (\<lambda>s. bind (store_disk s io) (\<lambda>ok. must ok e)) w) = w\<lparr>w_disk := fst (journal_save io (w_state w) (w_disk w))\<rparr>" for io e w
    by (simp add: bind_def gets_def must_def ret_def fail_def store_disk_def split: prod.splits)
  with disk have "within_rel quiet (bind (gets id) (\<lambda>s. bind (store_disk s io) (\<lambda>ok. must ok e)))" for io e
    by (simp add: within_rel_def)
  then show ?thesis unfolding save_def by (rule quiet.frame_bind [OF quiet.frame_ask])
qed

lemma reads_quiet: "reads w w' \<Longrightarrow> quiet w w'"
  by (auto simp: reads_def quiet_def file_step_def)

lemmas quiet_rules = quiet.frame_rules quiet_save quiet_modify

section \<open>A concrete environment\<close>

text \<open>An environment in which every call fails but the process lives on, and settings to evaluate with.\<close>

definition down :: fault where
  "down = plain ''unavailable''"

definition down_chain :: chain_view where
  "down_chain = \<lparr>cv_object = (\<lambda>_. Inl down), cv_keyed = (\<lambda>_ _ _. Inl down), cv_deployments = (\<lambda>_. Inl down),
     cv_discovery = (\<lambda>_ _ _. Inl down), cv_memberships = (\<lambda>_. Inl down), cv_latest = Inl down, cv_time = Inl down,
     cv_cursor_time = (\<lambda>_. Inl down), cv_validate = Inl down, cv_changed = (\<lambda>_ _. Inl down), cv_discovery_due = False,
     cv_report = (\<lambda>_ _. Inl down), cv_health = (\<lambda>_ _ _. Inl down), cv_top_up = (\<lambda>f. (Inl down, f)),
     cv_funding = \<lparr>fd_blocked = None, fd_blocked_since = None, fd_balance = None, fd_last_digest = None, fd_last_mist = None,
       fd_last_ms = None, fd_draws = 0\<rparr>\<rparr>"

definition down_supply :: supply_view where
  "down_supply = \<lparr>su_recipe = (\<lambda>_ _. Inl down), su_listing = (\<lambda>_. Inl down), su_detail = (\<lambda>_ _. (False, Inl down)),
     su_artifact = (\<lambda>_ _. Inl down), su_overlay = (\<lambda>_. Inl down), su_verdict = (\<lambda>_. Inl down), su_file = Inl down\<rparr>"

definition idle_machine :: machine_view where
  "idle_machine = \<lparr>mv_begin = (\<lambda>_. Inr ()), mv_deploy = (\<lambda>_ _. Inr ()), mv_log = (\<lambda>_. Inr ()), mv_apply = (\<lambda>_ _. Inr ()),
     mv_supervises = (\<lambda>_. False), mv_retire = (\<lambda>_. Inr ()), mv_restored = (\<lambda>_ _. False), mv_committed = (\<lambda>_. None),
     mv_recover = Inr (), mv_recovered = [], mv_configuration = (\<lambda>_. Inr None), mv_prepare = (\<lambda>_. Inr ()), mv_transition = (\<lambda>_. Inr ()),
     mv_activation = (\<lambda>_. Inr ()), mv_activate = (\<lambda>_. Inr ()), mv_abort = (\<lambda>_. Inr ()), mv_resume = Inr (), mv_recover_activation = Inr (),
     mv_collect = (\<lambda>_. Inr None), mv_firmware_pending = (\<lambda>_. False), mv_stage = (\<lambda>_. Inr ()), mv_finish = Inr (),
     mv_handoff = Inr NoHandoff, mv_confirm = (\<lambda>_. Inr ())\<rparr>"

definition demo_moment :: moment where
  "demo_moment = \<lparr>mo_alive = True, mo_now = Inr 1000, mo_instant = 0, mo_save = SaveOk,
     mo_open = \<lparr>oi_directory = True, oi_lock_free = True, oi_save = SaveOk\<rparr>, mo_io = [], mo_chain = down_chain,
     mo_supply = down_supply, mo_machine = idle_machine\<rparr>"

definition demo_settings :: settings where
  "demo_settings = \<lparr>st_binding = ''demo'', st_device = ''0xd'', st_cap = ''0xc'', st_address = ''0xa'', st_registry = ''0x5'', st_upgrade_cap = ''0x6'',
     st_types = [], st_move_type = (\<lambda>n. ''0x1::'' @ n), st_custody_type = None, st_address_bytes = Some, st_inbox = Inl down,
     st_base64 = (\<lambda>_. None), st_budget = False, st_helper = False, st_allow_commands = True, st_daemon_component = None,
     st_defer_max = 60, st_poll_seconds = 10, st_replay = False, st_sleeping = [], st_platform = (''linux'', ''arm''),
     st_calendar = demo_calendar, st_tzdb = ''2025b'', st_semver = demo_semver,
     st_sizes = \<lparr>sz_outcomes = (\<lambda>m. int (length m)), sz_deferred = (\<lambda>m. int (length m))\<rparr>, st_check_services = (\<lambda>_. Inr ()),
     st_control = (\<lambda>_. Inl down), st_recurring = (\<lambda>_. Inl down), st_version = (\<lambda>_. Inl down),
     st_fingerprint = (\<lambda>e. concat (map (\<lambda>(n, d). n @ d) (ef_components e))), st_request_id = (\<lambda>d. d)\<rparr>"

definition demo_world :: world where
  "demo_world = \<lparr>w_state = default_state, w_disk = \<lparr>dk_file = Missing, dk_durable = Missing\<rparr>, w_configs = [], w_retries = [],
     w_tick = 0, w_log = []\<rparr>"

end
