(* ===== verification/ChainReads.thy ===== *)
theory ChainReads
  imports Effects
begin

text \<open>
  What the daemon reads from the chain and how it decides on it (\<open>sui_client.rs\<close>, \<open>catalog.rs\<close>): the
  operator of a device, group membership, whether a deployment targets the device, its controls and rollout
  grant, the desired state of a group, the inbox and its heads, and the resolution of a deployment against
  the catalog. An object read is one call to the environment; the cache of object versions behind
  \<open>poll_changed\<close> and RPC failover are not part of the model.
\<close>

section \<open>Objects and fields\<close>

definition optional_object :: "environment \<Rightarrow> string \<Rightarrow> chain_object option run" where
  "optional_object env i = ask_chain env (\<lambda>c. cv_object c i)"

definition get_object :: "environment \<Rightarrow> string \<Rightarrow> chain_object run" where
  "get_object env i = bind (optional_object env i) (\<lambda>x. case x of Some ob \<Rightarrow> ret ob | None \<Rightarrow> fail (plain ''object is deleted or absent''))"

definition keyed_field :: "environment \<Rightarrow> string \<Rightarrow> string \<Rightarrow> string \<Rightarrow> json option run" where
  "keyed_field env parent name key = ask_chain env (\<lambda>c. cv_keyed c parent name key)"

definition dynamic_field :: "environment \<Rightarrow> string \<Rightarrow> string \<Rightarrow> json option run" where
  "dynamic_field env parent name = keyed_field env parent name [CHR 0x00]"

definition address_bytes :: "settings \<Rightarrow> string \<Rightarrow> string run" where
  "address_bytes cf device = (case st_address_bytes cf device of Some b \<Rightarrow> ret b | None \<Rightarrow> fail (plain ''invalid device ID''))"

definition identity :: "environment \<Rightarrow> settings \<Rightarrow> string \<Rightarrow> json option run" where
  "identity env cf device =
     bind (address_bytes cf device) (\<lambda>b. keyed_field env (st_registry cf) ''device_registry::IdentityKey'' b)"

section \<open>Operator\<close>

definition lists_id :: "json \<Rightarrow> string \<Rightarrow> bool" where
  "lists_id v i = (case as_array v of Some xs \<Rightarrow> list_ex (\<lambda>x. same_id (str_or_empty x) i) xs | None \<Rightarrow> False)"

definition is_shared :: "owner \<Rightarrow> bool" where
  "is_shared ow = (case ow of OwnerShared _ \<Rightarrow> True | _ \<Rightarrow> False)"

definition fleet_ok :: "settings \<Rightarrow> string \<Rightarrow> chain_object \<Rightarrow> bool" where
  "fleet_ok cf device fleet \<longleftrightarrow>
     same_type (ob_type fleet) (st_move_type cf ''customer::Fleet'') \<and> json_number (jget (ob_fields fleet) ''version'') = Some 1
     \<and> is_shared (ob_owner fleet) \<and> lists_id (jget (ob_fields fleet) ''devices'') device"

definition customer_ok :: "settings \<Rightarrow> string \<Rightarrow> chain_object \<Rightarrow> bool" where
  "customer_ok cf fleet_id customer \<longleftrightarrow>
     same_type (ob_type customer) (st_move_type cf ''customer::Customer'') \<and> supported_customer_version (jget (ob_fields customer) ''version'')
     \<and> is_shared (ob_owner customer) \<and> same_id (str_or_empty (jget (ob_fields customer) ''registry_id'')) (st_registry cf)
     \<and> lists_id (jget (ob_fields customer) ''fleets'') fleet_id"

text \<open>A managed owner cap sits in a dynamic object field of a fleet; every link is checked.\<close>

definition custody :: "environment \<Rightarrow> settings \<Rightarrow> string \<Rightarrow> string \<Rightarrow> string \<Rightarrow> string run" where
  "custody env cf device cap parent_id = (case st_custody_type cf of
     None \<Rightarrow> fail (plain ''managed fleet type origins are missing'')
   | Some expected \<Rightarrow>
       bind (get_object env parent_id) (\<lambda>parent.
       bind (must (expected (ob_type parent)) (plain ''wrong managed custody field type'')) (\<lambda>_.
       case ob_owner parent of
         OwnerObject fleet_id \<Rightarrow>
           bind (must (same_id (str_or_empty (jget (ob_fields parent) ''value'')) cap
                  \<and> same_id (str_or_empty (jget (jget (jget (ob_fields parent) ''name'') ''name'') ''device_id'')) device)
                  (plain ''managed custody binding mismatch'')) (\<lambda>_.
           bind (get_object env fleet_id) (\<lambda>fleet.
           bind (must (fleet_ok cf device fleet) (plain ''managed fleet inventory mismatch'')) (\<lambda>_.
           bind (get_object env (str_or_empty (jget (ob_fields fleet) ''customer_id''))) (\<lambda>customer.
           bind (must (customer_ok cf fleet_id customer) (plain ''managed customer binding mismatch'')) (\<lambda>_.
           ret fleet_id)))))
       | _ \<Rightarrow> fail (plain ''custody field has no fleet owner''))))"

definition operator :: "environment \<Rightarrow> settings \<Rightarrow> string \<Rightarrow> string run" where
  "operator env cf device =
     bind (get_object env device) (\<lambda>ob.
     bind (must (same_type (ob_type ob) (st_move_type cf ''device_registry::Device'')) (plain ''wrong Device type'')) (\<lambda>_.
     bind (identity env cf device) (\<lambda>found.
     case found of None \<Rightarrow> fail (plain ''device has no registry identity'')
     | Some idy \<Rightarrow>
         let cap = str_or_empty (jget idy ''owner_cap'') in
         bind (get_object env cap) (\<lambda>oc.
         bind (must (same_type (ob_type oc) (st_move_type cf ''device_registry::DeviceOwnerCap'')
                  \<and> same_id (str_or_empty (jget (ob_fields oc) ''device_id'')) device)
                (plain ''identity names a wrong DeviceOwnerCap'')) (\<lambda>_.
         bind (case ob_owner oc of
             OwnerAddress a \<Rightarrow> ret a
           | OwnerObject parent_id \<Rightarrow> custody env cf device cap parent_id
           | _ \<Rightarrow> fail (plain ''DeviceOwnerCap has no operator owner'')) (\<lambda>ow.
         bind (must (same_id (str_or_empty (jget (ob_fields ob) ''device_address'')) (st_address cf))
                (plain ''device key does not match registered address'')) (\<lambda>_.
         ret ow)))))))"

section \<open>Targets\<close>

definition INBOX_TYPES :: "string list" where
  "INBOX_TYPES = [''fleet_inbox::DeviceInbox'', ''fleet_inbox::InboxKey'', ''fleet_inbox::HeadKey'', ''fleet_inbox::Head'',
     ''fleet_inbox::InboxCreated'', ''fleet_inbox::Announced'', ''device_group::MemberKey'', ''device_group::IndexKey'',
     ''device_group::GroupIndex'', ''device_group::GroupIndexed'']"

definition has_inbox :: "settings \<Rightarrow> bool" where
  "has_inbox cf \<longleftrightarrow> list_all (has_type cf) INBOX_TYPES"

definition group_contains :: "environment \<Rightarrow> settings \<Rightarrow> string \<Rightarrow> string \<Rightarrow> string \<Rightarrow> bool run" where
  "group_contains env cf grp admin device =
     bind (optional_object env grp) (\<lambda>found. case found of None \<Rightarrow> ret False
     | Some ob \<Rightarrow>
         if \<not> same_type (ob_type ob) (st_move_type cf ''device_group::DeviceGroup'')
            \<or> \<not> same_id (str_or_empty (jget (ob_fields ob) ''admin'')) admin then ret False
         else if list_ex (\<lambda>i. same_id i device) (id_list (jget (ob_fields ob) ''device_ids'')) then ret True
         else if \<not> has_inbox cf then ret False
         else bind (address_bytes cf device) (\<lambda>b.
              bind (keyed_field env grp ''device_group::MemberKey'' b) (\<lambda>v. ret (v = Some (JBool True)))))"

definition authorized_target :: "environment \<Rightarrow> settings \<Rightarrow> deployment_event \<Rightarrow> string \<Rightarrow> bool run" where
  "authorized_target env cf ev device =
     bind (operator env cf device) (\<lambda>ow.
       if \<not> same_id ow (ev_creator ev) then ret False
       else if list_ex (\<lambda>i. same_id i device) (ev_devices ev) then ret True
       else any_run (\<lambda>g. group_contains env cf g ow device) (ev_groups ev))"

definition desired_entry :: "json \<Rightarrow> (string, string) btree \<Rightarrow> (fault, (string, string) btree) result" where
  "desired_entry e m = (case (as_str (jget e ''key''), as_str (jget e ''value'')) of
     (Some n, Some d) \<Rightarrow> Inr (bt_insert n d m)
   | _ \<Rightarrow> Inl (plain ''undecodable desired state''))"

definition parse_desired :: "string \<Rightarrow> json option \<Rightarrow> (fault, group_desired) result" where
  "parse_desired grp found = (case found of
     None \<Rightarrow> Inr \<lparr>gd_group = grp, gd_revision = 0, gd_components = []\<rparr>
   | Some v \<Rightarrow>
       (case json_number (jget v ''revision'') of None \<Rightarrow> Inl (plain ''desired state has no revision'')
        | Some n \<Rightarrow> (case as_array (jget (jget v ''components'') ''contents'') of None \<Rightarrow> Inl (plain ''undecodable desired state'')
            | Some es \<Rightarrow> res_bind (res_fold desired_entry es []) (\<lambda>m.
                Inr \<lparr>gd_group = grp, gd_revision = of_nat n, gd_components = m\<rparr>))))"

definition read_desired :: "environment \<Rightarrow> settings \<Rightarrow> string \<Rightarrow> string \<Rightarrow> string \<Rightarrow> group_desired option run" where
  "read_desired env cf grp op device =
     bind (group_contains env cf grp op device) (\<lambda>member.
       if \<not> member then ret None
       else bind (dynamic_field env grp ''desired_state::DesiredKey'') (\<lambda>found.
            bind (lift (parse_desired grp found)) (\<lambda>g. ret (Some g))))"

section \<open>Deployments\<close>

definition has_receipt_shards :: "environment \<Rightarrow> settings \<Rightarrow> string \<Rightarrow> bool run" where
  "has_receipt_shards env cf d =
     (if \<not> has_type cf ''deployment_manager::ReceiptShardKey'' then ret False
      else bind (dynamic_field env d ''deployment_manager::ReceiptShardKey'') (\<lambda>v. ret (v \<noteq> None)))"

definition read_deployment :: "environment \<Rightarrow> settings \<Rightarrow> string \<Rightarrow> (deployment_event \<times> chain_object) option run" where
  "read_deployment env cf d =
     bind (optional_object env d) (\<lambda>found. case found of None \<Rightarrow> ret None
     | Some rcd \<Rightarrow>
         bind (must (same_type (ob_type rcd) (st_move_type cf ''deployment_manager::DeploymentRecord'')) (plain ''not a DeploymentRecord'')) (\<lambda>_.
         bind (has_receipt_shards env cf d) (\<lambda>sharded.
         bind (dynamic_field env d (if sharded then ''deployment_manager::ShardedTargetGroupsKey'' else ''deployment_manager::TargetGroupsKey'')) (\<lambda>groups.
         bind (dynamic_field env d ''deployment_manager::TargetDevicesKey'') (\<lambda>devices.
         let field = (\<lambda>name. str_or_empty (jget (ob_fields rcd) name)) in
         ret (Some (\<lparr>ev_deployment = d, ev_component = field ''component_name'', ev_version = field ''version'',
            ev_recipe_blob = field ''recipe_blob_id'', ev_artifact = field ''artifact_sha256'',
            ev_groups = (case groups of None \<Rightarrow> [] | Some v \<Rightarrow> id_list v), ev_devices = (case devices of None \<Rightarrow> [] | Some v \<Rightarrow> id_list v),
            ev_creator = field ''creator''\<rparr>, rcd)))))))"

definition default_control :: control where
  "default_control = \<lparr>ct_revision = 0, ct_state = 0, ct_not_before_ms = 0, ct_expires_ms = 0, ct_window_start_ms = 0,
     ct_window_end_ms = 0, ct_notice_ms = 0\<rparr>"

definition deployment_control :: "environment \<Rightarrow> settings \<Rightarrow> string \<Rightarrow> control run" where
  "deployment_control env cf d =
     bind (dynamic_field env d ''deployment_manager::ControlKey'') (\<lambda>found. case found of
       None \<Rightarrow> ret default_control | Some v \<Rightarrow> lift (st_control cf (get_fields v)))"

definition RECURRING_WINDOW_TYPES :: "string list" where
  "RECURRING_WINDOW_TYPES = [''deployment_manager::RecurringWindowKey'', ''deployment_manager::RecurringWindow'', ''deployment_manager::WeeklySlot'']"

definition deployment_recurring_window :: "environment \<Rightarrow> settings \<Rightarrow> string \<Rightarrow> recurring option run" where
  "deployment_recurring_window env cf d =
     (if \<not> list_all (has_type cf) RECURRING_WINDOW_TYPES then ret None
      else bind (dynamic_field env d ''deployment_manager::RecurringWindowKey'') (\<lambda>found. case found of
        None \<Rightarrow> ret None | Some v \<Rightarrow> bind (lift (st_recurring cf (get_fields v))) (\<lambda>r. ret (Some r))))"

definition SHARD_TYPES :: "string list" where
  "SHARD_TYPES = [''deployment_manager::ReceiptShardKey'', ''deployment_manager::ReceiptDirectory'', ''deployment_manager::ReceiptKey'',
     ''deployment_manager::ReceiptIndexKey'', ''deployment_manager::ShardedReceipt'', ''deployment_manager::ReceiptShard'',
     ''component_catalog::ShardedCatalogBindingKey'', ''deployment_manager::ReceiptLayoutChanged'', ''deployment_manager::ShardedTargetGroupsKey'']"

definition read_shards :: "environment \<Rightarrow> settings \<Rightarrow> string \<Rightarrow> nat run" where
  "read_shards env cf d =
     bind (must (list_all (has_type cf) SHARD_TYPES) (plain ''missing receipt shard type origins'')) (\<lambda>_.
     bind (dynamic_field env d ''deployment_manager::ReceiptsKey'') (\<lambda>found. case found of None \<Rightarrow> fail (plain ''missing v3 receipt authority'')
     | Some receipts \<Rightarrow>
         bind (must (json_number (jget receipts ''version'') = Some 4) (plain ''unsupported receipt authority version'')) (\<lambda>_.
         bind (dynamic_field env d ''deployment_manager::ReceiptShardKey'') (\<lambda>found. case found of None \<Rightarrow> fail (plain ''missing receipt directory'')
         | Some directory \<Rightarrow>
             bind (must (jget directory ''ready'' = JBool True \<and> jget directory ''retiring'' = JBool False
                   \<and> json_number (jget directory ''migrated'') = Some 16) (plain ''receipt migration or retirement in progress'')) (\<lambda>_.
             case json_number (jget directory ''original_schema'') of
               Some s \<Rightarrow> if 1 \<le> s \<and> s \<le> 3 then ret s else fail (plain ''invalid original deployment schema'')
             | None \<Rightarrow> fail (plain ''invalid original deployment schema''))))))"

definition deployment_schema :: "environment \<Rightarrow> settings \<Rightarrow> string \<Rightarrow> json \<Rightarrow> nat run" where
  "deployment_schema env cf d fs = (case json_number (jget fs ''schema_version'') of
     None \<Rightarrow> fail (plain ''unsupported DeploymentRecord schema version'')
   | Some schema \<Rightarrow>
       if \<not> (1 \<le> schema \<and> schema \<le> 4) then fail (plain ''unsupported DeploymentRecord schema version'')
       else if schema = 4 then read_shards env cf d
       else bind (has_receipt_shards env cf d) (\<lambda>sharded. if \<not> sharded then ret schema else read_shards env cf d))"

definition is_managed :: "environment \<Rightarrow> string \<Rightarrow> bool run" where
  "is_managed env d = bind (dynamic_field env d ''deployment_manager::ManagedKey'') (\<lambda>v. ret (v \<noteq> None))"

section \<open>Rollouts\<close>

definition rollout_position :: "string list \<Rightarrow> string \<Rightarrow> nat option" where
  "rollout_position members device = find (\<lambda>i. same_id (members ! i) device) [0..<length members]"

text \<open>The grant of one member, out of the vectors of a running rollout.\<close>

definition rollout_grant :: "settings \<Rightarrow> json \<Rightarrow> string \<Rightarrow> (fault, string option) result" where
  "rollout_grant cf r device =
     (let members = id_list (jget r ''members'') in
      case as_array (jget r ''admitted_at'') of None \<Rightarrow> Inl (plain ''invalid rollout grants'')
      | Some admitted \<Rightarrow> res_bind (byte_vector (st_base64 cf) (jget r ''outcomes'')) (\<lambda>outcomes.
          case as_array (jget r ''skipped'') of None \<Rightarrow> Inl (plain ''invalid rollout exclusions'')
          | Some skipped \<Rightarrow>
              ensure (members \<noteq> [] \<and> length members \<le> 512 \<and> length admitted = length members
                  \<and> length outcomes = length members \<and> length skipped = length members) (plain ''invalid rollout vector lengths'')
              (case rollout_position members device of None \<Rightarrow> Inr (Some ''outside rollout cohort snapshot'')
               | Some i \<Rightarrow> (case json_number (admitted ! i) of None \<Rightarrow> Inl (plain ''invalid rollout grant'')
                   | Some grant \<Rightarrow> ensure (outcomes ! i \<le> 2) (plain ''invalid rollout outcome'')
                       (case skipped ! i of
                          JBool skip \<Rightarrow> Inr (if grant \<noteq> 0 \<and> outcomes ! i = 0 \<and> \<not> skip then None else Some ''waiting for rollout eligibility'')
                        | _ \<Rightarrow> Inl (plain ''invalid rollout exclusion''))))))"

definition rollout_state :: "settings \<Rightarrow> json option \<Rightarrow> string \<Rightarrow> (fault, string option) result" where
  "rollout_state cf found device = (case found of None \<Rightarrow> Inl (plain ''schema-3 deployment has no rollout policy'')
     | Some v \<Rightarrow>
         let r = get_fields v in
         (case json_number (jget r ''state'') of None \<Rightarrow> Inl (plain ''invalid rollout state'')
          | Some s \<Rightarrow> ensure (s \<le> 3) (plain ''unsupported rollout state'')
              (if s = 1 then Inr (Some ''rollout paused'') else if s = 2 then Inr (Some ''rollout aborted'')
               else if s = 3 then Inr (Some ''rollout complete'') else rollout_grant cf r device)))"

definition rollout_checked :: "environment \<Rightarrow> settings \<Rightarrow> string \<Rightarrow> string \<Rightarrow> chain_object \<Rightarrow> string option run" where
  "rollout_checked env cf d device rcd =
     bind (identity env cf device) (\<lambda>idy.
     bind (lift (check_identity (st_address cf) idy)) (\<lambda>_.
     bind (operator env cf device) (\<lambda>op.
       if \<not> same_id op (str_or_empty (jget (ob_fields rcd) ''creator'')) then ret (Some ''rollout operator changed'')
       else bind (dynamic_field env d ''deployment_manager::RolloutKey'') (\<lambda>found. lift (rollout_state cf found device)))))"

definition rollout_admission :: "environment \<Rightarrow> settings \<Rightarrow> string \<Rightarrow> string \<Rightarrow> string option run" where
  "rollout_admission env cf d device =
     bind (get_object env d) (\<lambda>rcd. case json_number (jget (ob_fields rcd) ''schema_version'') of
       None \<Rightarrow> ret None
     | Some schema \<Rightarrow>
         bind (if schema = 4 then ret True else has_receipt_shards env cf d) (\<lambda>sharded.
           if sharded then
             bind (attempt (deployment_schema env cf d (ob_fields rcd))) (\<lambda>found. case found of
               Inl _ \<Rightarrow> ret (Some ''receipt authority unavailable; migration or retirement in progress'')
             | Inr s \<Rightarrow> if s \<noteq> 3 then ret None else rollout_checked env cf d device rcd)
           else if schema \<noteq> 3 then ret None else rollout_checked env cf d device rcd))"

section \<open>Capability, inbox and heads\<close>

definition validate_cap :: "environment \<Rightarrow> settings \<Rightarrow> string \<Rightarrow> string \<Rightarrow> unit run" where
  "validate_cap env cf cap device =
     bind (get_object env cap) (\<lambda>ob.
     bind (must (same_type (ob_type ob) (st_move_type cf ''device_cap::DeviceCap'')) (plain ''wrong DeviceCap type'')) (\<lambda>_.
     bind (must (case ob_owner ob of OwnerAddress a \<Rightarrow> same_id a (st_address cf) | _ \<Rightarrow> False) (plain ''DeviceCap is not owned by device key'')) (\<lambda>_.
     bind (must (same_id (str_or_empty (jget (ob_fields ob) ''device_id'')) device) (plain ''DeviceCap belongs to another device'')) (\<lambda>_.
     bind (dynamic_field env cap ''device_cap::DeviceAddressKey'') (\<lambda>binding.
     bind (must (case binding of Some (JStr s) \<Rightarrow> same_id s (st_address cf) | _ \<Rightarrow> False)
            (plain ''DeviceCap has no matching signer binding; reissue it with the upgraded contracts'')) (\<lambda>_.
     bind (identity env cf device) (\<lambda>idy. lift (check_identity (st_address cf) idy))))))))"

definition read_inbox :: "environment \<Rightarrow> settings \<Rightarrow> string \<Rightarrow> inbox option run" where
  "read_inbox env cf device =
     bind (lift (st_inbox cf)) (\<lambda>i.
     bind (optional_object env i) (\<lambda>found. case found of None \<Rightarrow> ret None
     | Some ob \<Rightarrow>
         bind (must (same_type (ob_type ob) (st_move_type cf ''fleet_inbox::DeviceInbox'') \<and> is_shared (ob_owner ob)
               \<and> same_id (str_or_empty (jget (ob_fields ob) ''device_id'')) device) (plain ''not this device's shared inbox'')) (\<lambda>_.
         bind (lift (parse_head (jget (ob_fields ob) ''head''))) (\<lambda>h.
         ret (Some \<lparr>ib_head = h, ib_groups = id_list (jget (ob_fields ob) ''groups'')\<rparr>)))))"

definition empty_head :: head where
  "empty_head = \<lparr>hd_seq = 0, hd_next_start = 0, hd_components = []\<rparr>"

definition group_head :: "environment \<Rightarrow> string \<Rightarrow> head run" where
  "group_head env grp = bind (dynamic_field env grp ''fleet_inbox::HeadKey'') (\<lambda>found. case found of
     None \<Rightarrow> ret empty_head | Some v \<Rightarrow> lift (parse_head v))"

section \<open>Catalog\<close>

definition CATALOG_TYPES :: "string list" where
  "CATALOG_TYPES = [''component_catalog::ComponentCatalog'', ''component_catalog::ComponentVersion'', ''component_catalog::CatalogCreated'',
     ''component_catalog::VersionPublished'', ''component_catalog::CatalogBindingKey'', ''component_catalog::CatalogBinding'']"

definition catalog_version_ok :: "settings \<Rightarrow> chain_object \<Rightarrow> bool" where
  "catalog_version_ok cf ob \<longleftrightarrow> same_type (ob_type ob) (st_move_type cf ''component_catalog::ComponentVersion'') \<and> ob_owner ob = OwnerImmutable"

definition resolve_plain :: "environment \<Rightarrow> deployment_event \<Rightarrow> resolved run" where
  "resolve_plain env ev =
     bind (dynamic_field env (ev_deployment ev) ''deployment_manager::RecipeDigestKey'') (\<lambda>found.
       case Option.bind found as_str of None \<Rightarrow> fail (plain ''deployment has no authenticated recipe digest'')
       | Some digest \<Rightarrow> ret \<lparr>rs_event = ev, rs_recipe = digest, rs_catalog = None, rs_version = None\<rparr>)"

definition resolve_catalog :: "environment \<Rightarrow> settings \<Rightarrow> deployment_event \<Rightarrow> resolved run" where
  "resolve_catalog env cf ev =
     bind (must (list_all (has_type cf) CATALOG_TYPES) (plain ''missing catalog type origin'')) (\<lambda>_.
     bind (has_receipt_shards env cf (ev_deployment ev)) (\<lambda>sharded.
     bind (dynamic_field env (ev_deployment ev) (if sharded then ''component_catalog::ShardedCatalogBindingKey'' else ''component_catalog::CatalogBindingKey'')) (\<lambda>found.
     case found of None \<Rightarrow> fail (plain ''missing catalog binding'')
     | Some binding \<Rightarrow> (case as_str (jget binding ''version_id'') of None \<Rightarrow> fail (plain ''invalid catalog binding'')
         | Some i \<Rightarrow>
             bind (get_object env i) (\<lambda>ob.
             bind (must (catalog_version_ok cf ob) (plain ''catalog version must have authenticated type and immutable ownership'')) (\<lambda>_.
             bind (lift (st_version cf (ob_fields ob))) (\<lambda>v.
             bind (must (ver_name v = ev_component ev \<and> ver_version v = ev_version ev) (plain ''catalog identity mismatch'')) (\<lambda>_.
             bind (lift (version_select (st_semver cf) (fst (st_platform cf)) (snd (st_platform cf)) v)) (\<lambda>n.
             ret \<lparr>rs_event = ev\<lparr>ev_recipe_blob := ver_blobs v ! n, ev_artifact := ver_artifacts v ! n\<rparr>, rs_recipe = ver_recipes v ! n,
                rs_catalog = Some \<lparr>cr_catalog = ver_catalog v, cr_publisher = ver_publisher v, cr_version = i\<rparr>, rs_version = Some v\<rparr>)))))))))"

definition catalog_resolve :: "environment \<Rightarrow> settings \<Rightarrow> deployment_event \<Rightarrow> json \<Rightarrow> resolved run" where
  "catalog_resolve env cf ev fs =
     bind (deployment_schema env cf (ev_deployment ev) fs) (\<lambda>schema.
     bind (must (1 \<le> schema \<and> schema \<le> 3) (plain ''unsupported DeploymentRecord schema version'')) (\<lambda>_.
     bind (must (jget fs ''component_name'' = JStr (ev_component ev) \<and> jget fs ''version'' = JStr (ev_version ev)) (plain ''deployment identity mismatch'')) (\<lambda>_.
     if schema = 1 \<or> schema = 3 then resolve_plain env ev else resolve_catalog env cf ev)))"

section \<open>Reads change nothing\<close>

named_theorems read_frames \<open>computations that only read\<close>

lemma reads_objects [read_frames]:
  "within_rel reads (optional_object env i)" "within_rel reads (get_object env i)" "within_rel reads (keyed_field env p n k)"
  "within_rel reads (dynamic_field env p n)" "within_rel reads (address_bytes cf device)" "within_rel reads (identity env cf device)"
  by (auto simp: optional_object_def get_object_def keyed_field_def dynamic_field_def address_bytes_def identity_def
      intro!: reads.read_rules split: option.splits)

lemma reads_custody [read_frames]: "within_rel reads (custody env cf device cap p)"
  by (auto simp: custody_def intro!: reads.read_rules read_frames split: option.splits owner.splits)

lemma reads_operator [read_frames]: "within_rel reads (operator env cf device)"
  by (auto simp: operator_def Let_def intro!: reads.read_rules read_frames split: option.splits owner.splits)

lemma reads_group [read_frames]: "within_rel reads (group_contains env cf g a device)"
  by (auto simp: group_contains_def intro!: reads.read_rules read_frames split: option.splits)

lemma reads_authorized [read_frames]: "within_rel reads (authorized_target env cf ev device)"
  by (auto simp: authorized_target_def intro!: reads.read_rules read_frames)

lemma reads_desired [read_frames]: "within_rel reads (read_desired env cf g op device)"
  by (auto simp: read_desired_def intro!: reads.read_rules read_frames)

lemma reads_shards [read_frames]: "within_rel reads (has_receipt_shards env cf d)" "within_rel reads (read_shards env cf d)"
  by (auto simp: has_receipt_shards_def read_shards_def intro!: reads.read_rules read_frames split: option.splits)

lemma reads_deployment [read_frames]: "within_rel reads (read_deployment env cf d)"
  by (auto simp: read_deployment_def Let_def intro!: reads.read_rules read_frames split: option.splits)

lemma reads_schema [read_frames]: "within_rel reads (deployment_schema env cf d fs)"
  by (auto simp: deployment_schema_def intro!: reads.read_rules read_frames split: option.splits)

lemma reads_controls [read_frames]:
  "within_rel reads (deployment_control env cf d)" "within_rel reads (deployment_recurring_window env cf d)" "within_rel reads (is_managed env d)"
  by (auto simp: deployment_control_def deployment_recurring_window_def is_managed_def intro!: reads.read_rules read_frames split: option.splits)

lemma reads_rollout [read_frames]:
  "within_rel reads (rollout_checked env cf d device rcd)" "within_rel reads (rollout_admission env cf d device)"
  by (auto simp: rollout_checked_def rollout_admission_def intro!: reads.read_rules read_frames split: option.splits sum.splits)

lemma reads_cap [read_frames]: "within_rel reads (validate_cap env cf cap device)"
  by (auto simp: validate_cap_def intro!: reads.read_rules read_frames)

lemma reads_inbox [read_frames]: "within_rel reads (read_inbox env cf device)" "within_rel reads (group_head env g)"
  by (auto simp: read_inbox_def group_head_def intro!: reads.read_rules read_frames split: option.splits)

lemma reads_resolve [read_frames]: "within_rel reads (catalog_resolve env cf ev fs)"
  by (auto simp: catalog_resolve_def resolve_plain_def resolve_catalog_def intro!: reads.read_rules read_frames split: option.splits)

section \<open>Authority\<close>

text \<open>What was on the chain at some call between two worlds.\<close>

definition saw :: "environment \<Rightarrow> world \<Rightarrow> world \<Rightarrow> string \<Rightarrow> chain_object \<Rightarrow> bool" where
  "saw env w w' i ob \<longleftrightarrow> (\<exists>t. w_tick w \<le> t \<and> t < w_tick w' \<and> cv_object (mo_chain (env t)) i = Inr (Some ob))"

definition saw_field :: "environment \<Rightarrow> world \<Rightarrow> world \<Rightarrow> string \<Rightarrow> string \<Rightarrow> string \<Rightarrow> json \<Rightarrow> bool" where
  "saw_field env w w' p n k v \<longleftrightarrow> (\<exists>t. w_tick w \<le> t \<and> t < w_tick w' \<and> cv_keyed (mo_chain (env t)) p n k = Inr (Some v))"

lemma saw_mono: "saw env w1 w2 i ob \<Longrightarrow> w_tick w \<le> w_tick w1 \<Longrightarrow> w_tick w2 \<le> w_tick w' \<Longrightarrow> saw env w w' i ob"
  by (auto simp: saw_def) (meson dual_order.strict_trans1 dual_order.trans)

lemma saw_field_mono: "saw_field env w1 w2 p n k v \<Longrightarrow> w_tick w \<le> w_tick w1 \<Longrightarrow> w_tick w2 \<le> w_tick w' \<Longrightarrow> saw_field env w w' p n k v"
  by (auto simp: saw_field_def) (meson dual_order.strict_trans1 dual_order.trans)

lemma within_tick: "within_rel reads m \<Longrightarrow> m w = (a, w') \<Longrightarrow> w_tick w \<le> w_tick w'"
  by (auto simp: within_rel_def reads_def) (metis snd_conv)

lemma optional_object_saw: "optional_object env i w = (Done (Some ob), w') \<Longrightarrow> saw env w w' i ob"
  by (auto simp: optional_object_def done_simps saw_def)

lemma get_object_saw: "get_object env i w = (Done ob, w') \<Longrightarrow> saw env w w' i ob"
  by (auto simp: get_object_def done_simps dest!: optional_object_saw split: option.splits)

lemma keyed_field_saw: "keyed_field env p n k w = (Done (Some v), w') \<Longrightarrow> saw_field env w w' p n k v"
  by (auto simp: keyed_field_def done_simps saw_field_def)

lemma identity_saw: "identity env cf device w = (Done (Some v), w') \<Longrightarrow>
    \<exists>b. st_address_bytes cf device = Some b \<and> saw_field env w w' (st_registry cf) ''device_registry::IdentityKey'' b v"
  by (auto simp: identity_def address_bytes_def done_simps dest!: keyed_field_saw split: option.splits)

text \<open>The links from a fleet to the device it holds in custody.\<close>

definition custody_chain :: "environment \<Rightarrow> settings \<Rightarrow> world \<Rightarrow> world \<Rightarrow> string \<Rightarrow> string \<Rightarrow> string \<Rightarrow> string \<Rightarrow> bool" where
  "custody_chain env cf w w' device cap parent_id fleet_id \<longleftrightarrow> (\<exists>expected parent fleet customer.
     st_custody_type cf = Some expected \<and> saw env w w' parent_id parent \<and> expected (ob_type parent) \<and> ob_owner parent = OwnerObject fleet_id
     \<and> same_id (str_or_empty (jget (ob_fields parent) ''value'')) cap
     \<and> saw env w w' fleet_id fleet \<and> fleet_ok cf device fleet
     \<and> saw env w w' (str_or_empty (jget (ob_fields fleet) ''customer_id'')) customer \<and> customer_ok cf fleet_id customer)"

lemma custody_sound:
  assumes "custody env cf device cap parent_id w = (Done ow, w')"
  shows "custody_chain env cf w w' device cap parent_id ow"
proof -
  from assms obtain expected parent w1 where e: "st_custody_type cf = Some expected" "get_object env parent_id w = (Done parent, w1)"
    by (auto simp: custody_def done_simps split: option.splits)
  with assms obtain fleet_id where fi: "ob_owner parent = OwnerObject fleet_id" by (cases "ob_owner parent") (auto simp: custody_def done_simps)
  have p: "st_custody_type cf = Some expected" "get_object env parent_id w = (Done parent, w1)"
      "expected (ob_type parent)" "ob_owner parent = OwnerObject fleet_id" "same_id (str_or_empty (jget (ob_fields parent) ''value'')) cap"
    and rest: "bind (get_object env fleet_id) (\<lambda>fleet.
           bind (must (fleet_ok cf device fleet) (plain ''managed fleet inventory mismatch'')) (\<lambda>_.
           bind (get_object env (str_or_empty (jget (ob_fields fleet) ''customer_id''))) (\<lambda>customer.
           bind (must (customer_ok cf fleet_id customer) (plain ''managed customer binding mismatch'')) (\<lambda>_.
           ret fleet_id)))) w1 = (Done ow, w')"
    using assms e fi by (simp_all add: custody_def done_simps)
  from rest obtain fleet w2 customer where f: "get_object env fleet_id w1 = (Done fleet, w2)" "fleet_ok cf device fleet"
      "get_object env (str_or_empty (jget (ob_fields fleet) ''customer_id'')) w2 = (Done customer, w')" "customer_ok cf fleet_id customer" "ow = fleet_id"
    by (auto simp: done_simps)
  have t: "w_tick w \<le> w_tick w1" "w_tick w1 \<le> w_tick w2" "w_tick w2 \<le> w_tick w'"
    using p(2) f(1,3) within_tick reads_objects(2) by blast+
  have "saw env w w' parent_id parent" "saw env w w' ow fleet" "saw env w w' (str_or_empty (jget (ob_fields fleet) ''customer_id'')) customer"
    using get_object_saw [OF p(2)] get_object_saw [OF f(1)] get_object_saw [OF f(3)] t f(5) by (auto elim!: saw_mono)
  then show ?thesis unfolding custody_chain_def using p f by blast
qed

text \<open>What makes someone the operator: the device is registered to this key, and the operator owns the cap its identity names.\<close>

definition operates :: "environment \<Rightarrow> settings \<Rightarrow> world \<Rightarrow> world \<Rightarrow> string \<Rightarrow> string \<Rightarrow> bool" where
  "operates env cf w w' device ow \<longleftrightarrow> (\<exists>ob b idy oc.
     saw env w w' device ob \<and> same_type (ob_type ob) (st_move_type cf ''device_registry::Device'')
     \<and> same_id (str_or_empty (jget (ob_fields ob) ''device_address'')) (st_address cf)
     \<and> st_address_bytes cf device = Some b \<and> saw_field env w w' (st_registry cf) ''device_registry::IdentityKey'' b idy
     \<and> saw env w w' (str_or_empty (jget idy ''owner_cap'')) oc
     \<and> same_type (ob_type oc) (st_move_type cf ''device_registry::DeviceOwnerCap'')
     \<and> same_id (str_or_empty (jget (ob_fields oc) ''device_id'')) device
     \<and> (ob_owner oc = OwnerAddress ow
        \<or> (\<exists>p. ob_owner oc = OwnerObject p \<and> custody_chain env cf w w' device (str_or_empty (jget idy ''owner_cap'')) p ow)))"

lemma custody_chain_mono:
  assumes "custody_chain env cf w1 w2 device cap p ow" and t: "w_tick w \<le> w_tick w1" "w_tick w2 \<le> w_tick w'"
  shows "custody_chain env cf w w' device cap p ow"
  using assms(1) by (auto simp: custody_chain_def dest!: saw_mono [OF _ t])

lemma operates_mono:
  assumes "operates env cf w1 w2 device ow" and t: "w_tick w \<le> w_tick w1" "w_tick w2 \<le> w_tick w'"
  shows "operates env cf w w' device ow"
  using assms(1) by (auto simp: operates_def dest!: saw_mono [OF _ t] saw_field_mono [OF _ t] custody_chain_mono [OF _ t]) blast

lemma operator_sound:
  assumes "operator env cf device w = (Done ow, w')"
  shows "operates env cf w w' device ow"
proof -
  let ?own = "\<lambda>cap oc. case ob_owner oc of OwnerAddress a \<Rightarrow> ret a | OwnerObject p \<Rightarrow> custody env cf device cap p
     | _ \<Rightarrow> fail (plain ''DeviceOwnerCap has no operator owner'')"
  from assms obtain ob w1 idy w2 oc w3 where o1: "get_object env device w = (Done ob, w1)"
      "same_type (ob_type ob) (st_move_type cf ''device_registry::Device'')" "identity env cf device w1 = (Done (Some idy), w2)"
      "get_object env (str_or_empty (jget idy ''owner_cap'')) w2 = (Done oc, w3)"
    and o2: "same_type (ob_type oc) (st_move_type cf ''device_registry::DeviceOwnerCap'')" "same_id (str_or_empty (jget (ob_fields oc) ''device_id'')) device"
      "?own (str_or_empty (jget idy ''owner_cap'')) oc w3 = (Done ow, w')"
      "same_id (str_or_empty (jget (ob_fields ob) ''device_address'')) (st_address cf)"
    by (auto simp: operator_def Let_def done_simps split: option.splits)  
  have own: "within_rel reads (?own cap oc)" for cap by (auto intro!: reads.read_rules reads_custody split: owner.splits)
  have t: "w_tick w \<le> w_tick w1" "w_tick w1 \<le> w_tick w2" "w_tick w2 \<le> w_tick w3" "w_tick w3 \<le> w_tick w'"
    using within_tick [OF reads_objects(2) o1(1)] within_tick [OF reads_objects(6) o1(3)] within_tick [OF reads_objects(2) o1(4)] within_tick [OF own o2(3)] by auto
  obtain b where b: "st_address_bytes cf device = Some b" "saw_field env w1 w2 (st_registry cf) ''device_registry::IdentityKey'' b idy"
    using identity_saw [OF o1(3)] by blast
  have "saw env w w' device ob" "saw env w w' (str_or_empty (jget idy ''owner_cap'')) oc"
      "saw_field env w w' (st_registry cf) ''device_registry::IdentityKey'' b idy"
    using saw_mono [OF get_object_saw [OF o1(1)]] saw_mono [OF get_object_saw [OF o1(4)]] saw_field_mono [OF b(2)] t by simp_all
  moreover have "ob_owner oc = OwnerAddress ow \<or> (\<exists>p. ob_owner oc = OwnerObject p \<and> custody_chain env cf w w' device (str_or_empty (jget idy ''owner_cap'')) p ow)"
    using o2(3) t by (auto simp: done_simps split: owner.splits dest!: custody_sound elim!: custody_chain_mono)
  ultimately show ?thesis unfolding operates_def using o1 o2 b by blast
qed

text \<open>Membership of a device in a group of an administrator.\<close>

definition member_of :: "environment \<Rightarrow> settings \<Rightarrow> world \<Rightarrow> world \<Rightarrow> string \<Rightarrow> string \<Rightarrow> string \<Rightarrow> bool" where
  "member_of env cf w w' grp admin device \<longleftrightarrow> (\<exists>ob.
     saw env w w' grp ob \<and> same_type (ob_type ob) (st_move_type cf ''device_group::DeviceGroup'')
     \<and> same_id (str_or_empty (jget (ob_fields ob) ''admin'')) admin
     \<and> ((\<exists>i \<in> set (id_list (jget (ob_fields ob) ''device_ids'')). same_id i device)
        \<or> (\<exists>b. st_address_bytes cf device = Some b \<and> saw_field env w w' grp ''device_group::MemberKey'' b (JBool True))))"

lemma member_of_mono:
  assumes "member_of env cf w1 w2 g a device" and t: "w_tick w \<le> w_tick w1" "w_tick w2 \<le> w_tick w'"
  shows "member_of env cf w w' g a device"
  using assms(1) by (auto simp: member_of_def dest!: saw_mono [OF _ t] saw_field_mono [OF _ t])

lemma group_contains_sound:
  assumes "group_contains env cf g admin device w = (Done True, w')"
  shows "member_of env cf w w' g admin device"
proof -
  obtain found w1 where f: "optional_object env g w = (Done found, w1)" using assms by (auto simp: group_contains_def done_simps)
  then obtain ob where ob: "found = Some ob" using assms by (cases found) (auto simp: group_contains_def done_simps)
  have t: "w_tick w \<le> w_tick w1" using within_tick [OF reads_objects(1) f] .
  note s = optional_object_saw [OF f [unfolded ob]]
  show ?thesis
  proof (cases "list_ex (\<lambda>i. same_id i device) (id_list (jget (ob_fields ob) ''device_ids''))")
    case True
    then have "w' = w1" "same_type (ob_type ob) (st_move_type cf ''device_group::DeviceGroup'')" "same_id (str_or_empty (jget (ob_fields ob) ''admin'')) admin"
      using assms f ob by (auto simp: group_contains_def done_simps split: if_splits)
    then show ?thesis unfolding member_of_def using s True by (auto simp: list_ex_iff)
  next
    case False
    then obtain b where b: "st_address_bytes cf device = Some b" "keyed_field env g ''device_group::MemberKey'' b w1 = (Done (Some (JBool True)), w')"
      and k: "same_type (ob_type ob) (st_move_type cf ''device_group::DeviceGroup'')" "same_id (str_or_empty (jget (ob_fields ob) ''admin'')) admin"
      using assms f ob by (auto simp: group_contains_def address_bytes_def done_simps split: if_splits option.splits)
    have "saw env w w' g ob" using s within_tick [OF reads_objects(3) b(2)] by (auto elim!: saw_mono)
    moreover have "saw_field env w w' g ''device_group::MemberKey'' b (JBool True)" using keyed_field_saw [OF b(2)] t by (auto elim!: saw_field_mono)
    ultimately show ?thesis unfolding member_of_def using b(1) k by blast
  qed
qed

lemma any_run_true:
  assumes "any_run f xs w = (Done True, w')" and "\<And>x. within_rel reads (f x)"
  obtains x w1 w2 where "x \<in> set xs" "f x w1 = (Done True, w2)" "w_tick w \<le> w_tick w1" "w_tick w2 \<le> w_tick w'"
proof -
  have "\<exists>x \<in> set xs. \<exists>w1 w2. f x w1 = (Done True, w2) \<and> w_tick w \<le> w_tick w1 \<and> w_tick w2 \<le> w_tick w'"
    using assms(1)
  proof (induction xs arbitrary: w)
    case Nil
    then show ?case by (simp add: done_simps)
  next
    case (Cons x xs)
    then obtain b w1 where b: "f x w = (Done b, w1)" "(if b then ret True else any_run f xs) w1 = (Done True, w')" by (auto simp: done_simps)
    show ?case
    proof (cases b)
      case True
      then show ?thesis using b by (auto simp: done_simps)
    next
      case False
      then obtain y wa wb where "y \<in> set xs" "f y wa = (Done True, wb)" "w_tick w1 \<le> w_tick wa" "w_tick wb \<le> w_tick w'"
        using Cons.IH [of w1] b by auto
      then show ?thesis using order_trans [OF within_tick [OF assms(2) b(1)]] by (meson list.set_intros(2))
    qed
  qed
  then show ?thesis using that by blast
qed

text \<open>
  C12: Nobody but the device's operator can make a deployment a target of this device. When the check
  accepts, the chain showed, during the check, the device registered to this key, an identity naming an
  owner cap of this device, and an owner of that cap (an address, or a fleet whose custody of the device is
  linked to a customer of the registry) who is the deployment's creator; and the deployment names the device
  itself, or a group that this same operator administers and that has the device as a member.
\<close>

theorem authorized_target_sound:
  assumes "authorized_target env cf ev device w = (Done True, w')"
  shows "\<exists>ow. operates env cf w w' device ow \<and> same_id ow (ev_creator ev) \<and>
    ((\<exists>i \<in> set (ev_devices ev). same_id i device) \<or> (\<exists>g \<in> set (ev_groups ev). member_of env cf w w' g ow device))"
proof -
  obtain ow w1 where o1: "operator env cf device w = (Done ow, w1)" "same_id ow (ev_creator ev)"
    and rest: "list_ex (\<lambda>i. same_id i device) (ev_devices ev) \<and> w' = w1
      \<or> any_run (\<lambda>g. group_contains env cf g ow device) (ev_groups ev) w1 = (Done True, w')"
    using assms by (auto simp: authorized_target_def done_simps split: if_splits)
  have t: "w_tick w \<le> w_tick w1" using within_tick [OF reads_operator o1(1)] .
  have any: "within_rel reads (any_run (\<lambda>g. group_contains env cf g ow device) gs)" for gs by (auto intro!: reads.read_rules reads_group)
  have t': "w_tick w1 \<le> w_tick w'" using rest within_tick [OF any] by auto
  have op: "operates env cf w w' device ow"
    using operator_sound [OF o1(1)] t' by (rule operates_mono [OF _ order_refl])
  show ?thesis
  proof (cases "list_ex (\<lambda>i. same_id i device) (ev_devices ev)")
    case True
    then show ?thesis using op o1(2) by (auto simp: list_ex_iff)
  next
    case False
    then have "any_run (\<lambda>g. group_contains env cf g ow device) (ev_groups ev) w1 = (Done True, w')" using rest by blast
    then obtain g wa wb where g: "g \<in> set (ev_groups ev)" "group_contains env cf g ow device wa = (Done True, wb)" "w_tick w1 \<le> w_tick wa" "w_tick wb \<le> w_tick w'"
      by (rule any_run_true [OF _ reads_group])
    have "member_of env cf w w' g ow device" by (rule member_of_mono [OF group_contains_sound [OF g(2)] order_trans [OF t g(3)] g(4)])
    then show ?thesis using op o1(2) g(1) by blast
  qed
qed

definition demo_objects :: "(string \<times> chain_object) list" where
  "demo_objects =
     [(''0xd'', \<lparr>ob_type = ''0x1::device_registry::Device'', ob_owner = OwnerShared 1, ob_fields = JObj [(''device_address'', JStr ''0xa'')]\<rparr>),
      (''0xe'', \<lparr>ob_type = ''0x1::device_registry::DeviceOwnerCap'', ob_owner = OwnerAddress ''0xf'', ob_fields = JObj [(''device_id'', JStr ''0xd'')]\<rparr>)]"

definition demo_fields :: "(string \<times> json) list" where
  "demo_fields = [(''device_registry::IdentityKey'', JObj [(''owner_cap'', JStr ''0xe'')])]"

definition chain_demo_env :: environment where
  "chain_demo_env t = demo_moment\<lparr>mo_chain := down_chain\<lparr>cv_object := (\<lambda>i. Inr (map_of demo_objects i)), cv_keyed := (\<lambda>p n k. Inr (map_of demo_fields n))\<rparr>\<rparr>"

definition demo_event :: deployment_event where
  "demo_event = \<lparr>ev_deployment = ''0x7'', ev_component = ''app'', ev_version = ''1.0.0'', ev_recipe_blob = [], ev_artifact = [],
     ev_groups = [], ev_devices = [''0x0d''], ev_creator = ''0x0F''\<rparr>"

theorem authorized_target_sound_witness:
  "\<exists>w'. authorized_target chain_demo_env demo_settings demo_event ''0xd'' demo_world = (Done True, w') \<and>
     (\<exists>ow. operates chain_demo_env demo_settings demo_world w' ''0xd'' ow \<and> same_id ow ''0x0F'')"
proof -
  have "fst (authorized_target chain_demo_env demo_settings demo_event ''0xd'' demo_world) = Done True" by code_simp
  then obtain w' where w': "authorized_target chain_demo_env demo_settings demo_event ''0xd'' demo_world = (Done True, w')" by (metis prod.collapse)
  then show ?thesis using authorized_target_sound [OF w'] by (auto simp: demo_event_def)
qed

end
