(* ===== verification/Executor.thy ===== *)
theory Executor
  imports ChainReads
begin

text \<open>
  Carrying out one deployment (\<open>linux_main.rs\<close>, with \<open>components.rs\<close> and \<open>services.rs\<close>):
  admission, resolution of dependencies, configuration, the journaled intent, the installs, the service
  generation and the recorded outcome. Downloads, commands and the supervisor are answered by the environment;
  artifact directories are not modelled.
\<close>

section \<open>Outcomes\<close>

definition ERROR_BOUND :: nat where
  "ERROR_BOUND = 4096"

text \<open>The last character boundary at or before a position.\<close>

fun floor_boundary :: "string \<Rightarrow> nat \<Rightarrow> nat" where
  "floor_boundary s 0 = 0"
| "floor_boundary s (Suc n) = (if Suc n < length s \<and> is_continuation (s ! Suc n) then floor_boundary s n else Suc n)"

definition bounded_text :: "string \<Rightarrow> string" where
  "bounded_text s = (if length s \<le> ERROR_BOUND then s
     else take (floor_boundary s ERROR_BOUND) s @ '' [diagnostic truncated at queue bound]'')"

definition record_result :: "(fault, unit) result \<Rightarrow> dep_outcome \<Rightarrow> dep_outcome" where
  "record_result r o1 = (case r of
     Inr _ \<Rightarrow> o1\<lparr>oc_indeterminate := False, oc_status := Some STATUS_APPLIED, oc_error := None\<rparr>
   | Inl e \<Rightarrow> o1\<lparr>oc_indeterminate := ft_kind e = Indeterminate,
        oc_status := if ft_kind e = Indeterminate then None else Some STATUS_FAILED,
        oc_error := Some (bounded_text (ft_text e))\<rparr>)"

text \<open>\<open>deployments.entry(d).or_default()\<close>, updated.\<close>

definition update_outcome :: "string \<Rightarrow> (dep_outcome \<Rightarrow> dep_outcome) \<Rightarrow> journal_state \<Rightarrow> journal_state" where
  "update_outcome d f s = s\<lparr>js_deployments := bt_insert d
     (f (case map_of (js_deployments s) d of None \<Rightarrow> default_outcome | Some o1 \<Rightarrow> o1)) (js_deployments s)\<rparr>"

definition insert_outcome :: "string \<Rightarrow> dep_outcome \<Rightarrow> journal_state \<Rightarrow> journal_state" where
  "insert_outcome d o1 s = s\<lparr>js_deployments := bt_insert d o1 (js_deployments s)\<rparr>"

definition get_status :: "string \<Rightarrow> journal_state \<Rightarrow> nat option" where
  "get_status d s = Option.bind (map_of (js_deployments s) d) oc_status"

section \<open>Admission\<close>

definition notified_at :: "string \<Rightarrow> control \<Rightarrow> recurring option \<Rightarrow> u64 \<Rightarrow> journal_state \<Rightarrow> u64" where
  "notified_at d c r now s = (case map_of (js_deferred s) d of
     Some e \<Rightarrow> if df_control e = c \<and> df_recurring e = r \<and> df_notified_ms e \<le> now then df_notified_ms e else now
   | None \<Rightarrow> now)"

definition terminal_reasons :: "string list" where
  "terminal_reasons = [''cancelled'', ''expired'', ''rollout aborted'', ''rollout complete'']"

definition next_window :: "settings \<Rightarrow> recurring option \<Rightarrow> u64 \<Rightarrow> string option \<Rightarrow> u64 option" where
  "next_window cf r now reason = (case r of None \<Rightarrow> None
     | Some rc \<Rightarrow> if reason = Some ''outside recurring maintenance window''
         then (case occurrence (st_calendar cf) rc now of Inr (opens, _) \<Rightarrow> Some opens | Inl _ \<Rightarrow> None) else None)"

definition notice :: "settings \<Rightarrow> control \<Rightarrow> recurring option \<Rightarrow> u64 \<Rightarrow> u64 \<Rightarrow> string option \<Rightarrow> deferred" where
  "notice cf c r now notified reason = \<lparr>df_control = c, df_recurring = r, df_notified_ms = notified,
     df_reason = (case reason of Some t \<Rightarrow> t | None \<Rightarrow> ''ready for admission''),
     df_terminal = (case reason of Some t \<Rightarrow> t \<in> set terminal_reasons | None \<Rightarrow> False),
     df_next_window_ms = next_window cf r now reason, df_tzdb = (if r \<noteq> None then Some (st_tzdb cf) else None)\<rparr>"

definition admit :: "environment \<Rightarrow> settings \<Rightarrow> string \<Rightarrow> bool run" where
  "admit env cf d =
     bind (gets (ensure_receipt_room (st_sizes cf) d)) (\<lambda>room.
     bind (lift room) (\<lambda>_.
     bind (gets (\<lambda>s. case map_of (js_deferred s) d of Some e \<Rightarrow> df_terminal e | None \<Rightarrow> False)) (\<lambda>over.
     if over then ret False else
     bind (optional_object env d) (\<lambda>found.
     bind (must (found \<noteq> None) (plain ''deployment deleted before admission'')) (\<lambda>_.
     bind (deployment_control env cf d) (\<lambda>c.
     bind (deployment_recurring_window env cf d) (\<lambda>r.
     bind (call env mo_now) (\<lambda>now.
     bind (gets (notified_at d c r now)) (\<lambda>notified.
     bind (lift (map_fault (\<lambda>_. plain ''unsupported deployment control'') (control_reason (st_calendar cf) c now notified r))) (\<lambda>policy.
     bind (modify (\<lambda>s. s\<lparr>js_check_window := remember (st_calendar cf) c r now (js_check_window s)\<rparr>)) (\<lambda>_.
     bind (case policy of Some t \<Rightarrow> ret (Some t) | None \<Rightarrow> rollout_admission env cf d (st_device cf)) (\<lambda>reason.
     bind (modify (\<lambda>s. s\<lparr>js_deferred := bt_insert d (notice cf c r now notified reason) (js_deferred s)\<rparr>)) (\<lambda>_.
     bind (save env) (\<lambda>_.
     ret (reason = None)))))))))))))))"

section \<open>Plans\<close>

definition MAX_LOADS :: nat where
  "MAX_LOADS = 256"

definition installed_components :: "(string, component) btree \<Rightarrow> (string, installed) btree" where
  "installed_components = map (\<lambda>(n, c). (n, \<lparr>inst_version = cp_version c, inst_dependencies = cp_dependencies c, inst_confirmed = cp_confirmed c\<rparr>))"

type_synonym loads = "(string \<times> string, dep_loaded) btree"

text \<open>
  \<open>components::plan\<close>: the result, the details loaded and whether a confidential recipe was among them, which
  decides how an error is worded.
\<close>

fun plan_loop :: "nat \<Rightarrow> environment \<Rightarrow> settings \<Rightarrow> bool \<Rightarrow> root \<Rightarrow> (string, installed) btree \<Rightarrow> pool \<Rightarrow> loads \<Rightarrow> bool \<Rightarrow>
    ((fault, plan) result \<times> loads \<times> bool) run" where
  "plan_loop 0 env cf bound rt inst pool ls confidential =
     ret (Inl (plain ''dependency resolution needed too many catalog reads''), ls, confidential)"
| "plan_loop (Suc n) env cf bound rt inst pool ls confidential =
     (case resolve (st_semver cf) rt inst pool of
        Inl e \<Rightarrow> ret (Inl (plain ''dependencies''), ls, confidential)
      | Inr (StepPlan p) \<Rightarrow> ret (Inr p, ls, confidential)
      | Inr (StepNeed (NeedListing name)) \<Rightarrow>
          bind (if bound then ask env (\<lambda>m. su_listing (mo_supply m) name) else ret (Inr [])) (\<lambda>r. case r of
            Inl e \<Rightarrow> ret (Inl e, ls, confidential)
          | Inr vs \<Rightarrow> plan_loop n env cf bound rt inst
              (bt_insert name (map (\<lambda>v. \<lparr>cand_version = v, cand_detail = None\<rparr>) vs) pool) ls confidential)
      | Inr (StepNeed (NeedDetail name version)) \<Rightarrow>
          bind (ask env (\<lambda>m. su_detail (mo_supply m) name version)) (\<lambda>r. case r of
            (secret, Inl e) \<Rightarrow> ret (Inl (fault_context (''dependency candidate '' @ name @ '' '' @ version) e), ls, confidential \<or> secret)
          | (secret, Inr (dt, ld)) \<Rightarrow> plan_loop n env cf bound rt inst (candidate_set_detail name version dt pool)
              (case ld of Some l \<Rightarrow> bt_insert (name, version) l ls | None \<Rightarrow> ls) (confidential \<or> secret)))"

section \<open>Services\<close>

definition no_services :: services where
  "no_services = \<lparr>se_version = 1, se_grants = [], se_pubsub = None, se_streams = None\<rparr>"

definition forget_previous :: "generation \<Rightarrow> generation" where
  "forget_previous g = Generation (gn_deployment g) (gn_services g) None"

definition service_candidate :: "settings \<Rightarrow> (string, generation) btree \<Rightarrow> string \<Rightarrow> string \<Rightarrow> services option \<Rightarrow> string list \<Rightarrow>
    (fault, (string, generation) btree) result" where
  "service_candidate cf current rt d svs names =
     res_bind (case svs of
       Some s \<Rightarrow> res_bind (st_check_services cf s) (\<lambda>_.
         ensure (\<forall>n \<in> set (bt_keys (se_grants s)). n \<in> set names) (plain ''grant outside deployment components'')
           (Inr (bt_insert rt (Generation d s (map_option forget_previous (map_of current rt))) (bt_remove rt current))))
     | None \<Rightarrow> (case map_of current rt of
         Some g \<Rightarrow> Inr (bt_insert rt (Generation d no_services (Some (forget_previous g))) (bt_remove rt current))
       | None \<Rightarrow> Inr current)) (\<lambda>new.
     ensure (length new \<le> 64) (plain ''too many service generations'') (Inr new))"

definition require_service_reader :: "environment \<Rightarrow> unit run" where
  "require_service_reader env =
     bind (gets js_binding) (\<lambda>b.
       if ends_with b SERVICES_READER then ret ()
       else bind (modify (\<lambda>s. s\<lparr>js_binding := b @ SERVICES_READER\<rparr>)) (\<lambda>_. save env))"

definition recovery :: "fault \<Rightarrow> fault" where
  "recovery e = \<lparr>ft_kind = RecoveryRequired, ft_text = ''service generation needs recovery on restart: '' @ ft_text e\<rparr>"

text \<open>The states whose service generations have the same JSON text are taken to be those with equal generations.\<close>

definition undo_commit :: "environment \<Rightarrow> (string, generation) btree \<Rightarrow> string option \<Rightarrow> fault \<Rightarrow> unit run" where
  "undo_commit env previous d e =
     bind (ask env (\<lambda>m. su_file (mo_supply m))) (\<lambda>readable.
     bind disk_file (\<lambda>f. case (readable, f) of
       (Inr _, Holds t) \<Rightarrow>
         if js_services t = previous \<and> (case d of None \<Rightarrow> True | Some i \<Rightarrow> get_status i t \<noteq> Some STATUS_APPLIED)
         then bind (modify (\<lambda>s. s\<lparr>js_services := previous\<rparr>)) (\<lambda>_.
              bind (case d of None \<Rightarrow> ret () | Some i \<Rightarrow> modify (update_outcome i (\<lambda>o1. o1\<lparr>oc_status := None\<rparr>))) (\<lambda>_.
              bind (map_fail recovery (ask_machine env (\<lambda>m. mv_abort m previous))) (\<lambda>_. fail e)))
         else fail (recovery e)
     | _ \<Rightarrow> fail (recovery e)))"

definition services_commit :: "environment \<Rightarrow> (string, generation) btree \<Rightarrow> string option \<Rightarrow> unit run" where
  "services_commit env new d =
     bind (ask_machine env (\<lambda>m. mv_transition m new)) (\<lambda>_.
     bind (gets js_services) (\<lambda>previous.
     bind (if new \<noteq> [] \<or> previous \<noteq> [] then require_service_reader env else ret ()) (\<lambda>_.
     bind (attempt (ask_machine env (\<lambda>m. mv_activation m new))) (\<lambda>began. case began of
       Inl e \<Rightarrow> bind (map_fail recovery (ask_machine env mv_resume)) (\<lambda>_. fail e)
     | Inr _ \<Rightarrow>
         bind (attempt (ask_machine env (\<lambda>m. mv_activate m new))) (\<lambda>activated. case activated of
           Inl e \<Rightarrow> bind (map_fail recovery (ask_machine env (\<lambda>m. mv_abort m previous))) (\<lambda>_. fail (fault_context ''service activation'' e))
         | Inr _ \<Rightarrow>
             bind (modify (\<lambda>s. s\<lparr>js_services := new\<rparr>)) (\<lambda>_.
             bind (case d of None \<Rightarrow> ret () | Some i \<Rightarrow> modify (update_outcome i (\<lambda>o1. o1\<lparr>oc_status := Some STATUS_APPLIED\<rparr>))) (\<lambda>_.
             bind (attempt (save env)) (\<lambda>saved1. case saved1 of
               Inl e \<Rightarrow> undo_commit env previous d e
             | Inr _ \<Rightarrow>
                 bind (map_fail recovery (ask_machine env mv_recover_activation)) (\<lambda>_.
                 map_fail recovery (ask_machine env mv_resume))))))))))"

section \<open>Installs\<close>

record install =
  in_component :: component
  in_name :: string
  in_blob :: string
  in_install :: "string option"
  in_supervised :: "supervised option"
  in_root :: bool
  in_configuration :: configuration
  in_validate :: "string option"
  in_confidential :: bool
  in_record :: cfg_record

definition default_record :: cfg_record where
  "default_record = \<lparr>rcd_deployment = [], rcd_version = [], rcd_defaults = [], rcd_effective = [], rcd_confidential = [], rcd_sealed = False\<rparr>"

definition install_context :: "install \<Rightarrow> fault \<Rightarrow> fault" where
  "install_context i e = (if in_root i then e else fault_context (''dependency '' @ in_name i @ '' '' @ cp_version (in_component i)) e)"

definition planned_component :: "resolved \<Rightarrow> planned \<Rightarrow> string option \<Rightarrow> string \<Rightarrow> string \<Rightarrow> component" where
  "planned_component rs p version_id recipe_sha artifact_sha = \<lparr>cp_version = pl_version p, cp_deployment = ev_deployment (rs_event rs),
     cp_catalog = map_option cr_catalog (rs_catalog rs), cp_version_id = version_id, cp_recipe = recipe_sha, cp_artifact = artifact_sha,
     cp_dependencies = pl_dependencies p, cp_confirmed = False\<rparr>"

definition build_install :: "settings \<Rightarrow> resolved \<Rightarrow> authentic \<Rightarrow> supervised option \<Rightarrow> loads \<Rightarrow> planned \<Rightarrow> install list \<Rightarrow> install list run" where
  "build_install cf rs au spv ls p acc =
     (if pl_source p = FromRoot then
        ret (acc @ [\<lparr>in_component = planned_component rs p (map_option cr_version (rs_catalog rs)) (rs_recipe rs) (ev_artifact (rs_event rs)),
          in_name = pl_name p, in_blob = re_blob (au_recipe au), in_install = lc_install (re_lifecycle (au_recipe au)), in_supervised = spv, in_root = True,
          in_configuration = re_configuration (au_recipe au), in_validate = lc_validate (re_lifecycle (au_recipe au)), in_confidential = au_confidential au,
          in_record = default_record\<rparr>])
      else case map_of ls (pl_name p, pl_version p) of None \<Rightarrow> panic
        | Some l \<Rightarrow>
            bind (must (\<not> st_helper cf \<or> ld_install l \<noteq> None \<or> ld_supervised l \<noteq> None)
              (plain ''dependency has no install command; the firmware helper applies only the deployed component'')) (\<lambda>_.
            ret (acc @ [\<lparr>in_component = planned_component rs p (Some (ld_version_id l)) (ld_recipe l) (ld_artifact l),
              in_name = pl_name p, in_blob = ld_blob l, in_install = ld_install l, in_supervised = ld_supervised l, in_root = False,
              in_configuration = ld_configuration l, in_validate = ld_validate l, in_confidential = ld_confidential l, in_record = default_record\<rparr>])))"

section \<open>Configuration\<close>

definition computed_record :: "string \<Rightarrow> install \<Rightarrow> cfg_record option \<Rightarrow> jmap \<Rightarrow> bool \<Rightarrow> (fault, cfg_record \<times> json) result" where
  "computed_record d i previous overlay sealed =
     map_fault (\<lambda>_. plain ''configuration'') (res_bind (cfg_next (map_option rcd_effective previous) (in_configuration i)) (\<lambda>effective.
       let r = \<lparr>rcd_deployment = d, rcd_version = cp_version (in_component i), rcd_defaults = map_or_empty (cfg_defaults (in_configuration i)),
          rcd_effective = effective, rcd_confidential = confidential_of (in_configuration i), rcd_sealed = sealed\<rparr> in
       res_bind (materialize r overlay) (\<lambda>doc. Inr (r, doc))))"

definition prepare_configuration :: "environment \<Rightarrow> string \<Rightarrow> install \<Rightarrow> (bool \<times> install) run" where
  "prepare_configuration env d i = map_fail (\<lambda>e. install_context i (fault_context ''configuration'' e))
     (bind (committed_config (in_name i)) (\<lambda>previous.
      bind (ask_supply env (\<lambda>s. su_overlay s (in_name i))) (\<lambda>overlay.
      let sealed = cfg_sealed previous (in_configuration i) (in_confidential i) in
      bind (withhold sealed ''configuration merge'' (lift (computed_record d i previous overlay sealed))) (\<lambda>(r, doc).
      let i' = i\<lparr>in_record := r\<rparr> in
      case in_validate i of None \<Rightarrow> ret (True, i')
      | Some command \<Rightarrow>
          bind (ask_supply env su_file) (\<lambda>_.
          bind (ask_supply env (\<lambda>s. su_verdict s (in_name i))) (\<lambda>verdict. ret (verdict, i')))))))"

fun prepare_configurations :: "environment \<Rightarrow> settings \<Rightarrow> string \<Rightarrow> install list \<Rightarrow> install list \<Rightarrow> install list option run" where
  "prepare_configurations env cf d [] acc =
     bind (gets (\<lambda>s. bt_has (js_deferrals s) d)) (\<lambda>was.
     bind (if was then bind (modify (\<lambda>s. s\<lparr>js_deferrals := bt_remove d (js_deferrals s)\<rparr>)) (\<lambda>_. save env) else ret ()) (\<lambda>_.
     ret (Some acc)))"
| "prepare_configurations env cf d (i # is) acc =
     bind (prepare_configuration env d i) (\<lambda>(checked, i').
       if checked then prepare_configurations env cf d is (acc @ [i'])
       else
         bind (call env mo_now) (\<lambda>now.
         bind (gets (\<lambda>s. case map_of (js_deferrals s) d of Some t \<Rightarrow> t | None \<Rightarrow> now)) (\<lambda>since.
         bind (modify (\<lambda>s. s\<lparr>js_deferrals := bt_insert d since (js_deferrals s)\<rparr>)) (\<lambda>_.
         if saturating_sub now since < saturating_mul (st_defer_max cf) 1000
         then bind (save env) (\<lambda>_. ret None)
         else
           bind (modify (\<lambda>s. s\<lparr>js_deferrals := bt_remove d (js_deferrals s)\<rparr>)) (\<lambda>_.
           bind (save env) (\<lambda>_.
           fail (install_context i' (plain ''configuration update still deferred by the component'')))))))) "

section \<open>Applying\<close>

definition begin_intent :: "environment \<Rightarrow> deployment_event \<Rightarrow> unit run" where
  "begin_intent env ev =
     bind (modify (\<lambda>s. (insert_outcome (ev_deployment ev) default_outcome s)
       \<lparr>js_current := bt_insert (ev_component ev) (ev_deployment ev) (js_current s), js_deferred := bt_remove (ev_deployment ev) (js_deferred s)\<rparr>)) (\<lambda>_.
     bind (save env) (\<lambda>_.
     emit (EvAdmitted (ev_deployment ev))))"

definition mark_install :: "settings \<Rightarrow> string \<Rightarrow> install \<Rightarrow> journal_state \<Rightarrow> journal_state" where
  "mark_install cf d i s =
     (update_outcome d (\<lambda>o1. o1\<lparr>oc_firmware :=
        if in_root i \<and> in_supervised i = None \<and> in_install i = None \<and> st_helper cf then Some (st_request_id cf d) else None\<rparr>) s)
     \<lparr>js_last_good := (case map_of (js_components s) (in_name i) of
         Some c \<Rightarrow> if cp_confirmed c then bt_insert (in_name i) c (js_last_good s) else js_last_good s | None \<Rightarrow> js_last_good s),
       js_components := bt_insert (in_name i) (in_component i) (js_components s),
       js_current := bt_insert (in_name i) d (js_current s)\<rparr>"

definition run_install :: "environment \<Rightarrow> settings \<Rightarrow> string \<Rightarrow> install \<Rightarrow> unit run" where
  "run_install env cf d i = (case in_supervised i of
     Some _ \<Rightarrow> bind (emit (EvInstall d (in_name i))) (\<lambda>_. ask_machine env (\<lambda>m. mv_deploy m (in_name i) d))
   | None \<Rightarrow>
       bind (ask_supply env (\<lambda>s. su_overlay s (in_name i))) (\<lambda>overlay.
       bind (withhold (rcd_sealed (in_record i)) ''configuration merge''
              (lift (map_fault (\<lambda>_. plain ''configuration'') (materialize (in_record i) overlay)))) (\<lambda>_.
       bind (ask_supply env su_file) (\<lambda>_.
       bind (ask_machine env (\<lambda>m. mv_log m (in_name i))) (\<lambda>_.
       bind (emit (EvInstall d (in_name i))) (\<lambda>_.
       bind (ask_machine env (\<lambda>m. mv_apply m (in_name i)
              (if in_root i then st_request_id cf d else st_request_id cf (d @ ''/'' @ in_name i)))) (\<lambda>_.
       bind (ask env (\<lambda>m. mv_supervises (mo_machine m) (in_name i))) (\<lambda>spv.
       if spv then map_fail (fault_context ''installed, but cannot stop the supervised version it replaces'')
                     (ask_machine env (\<lambda>m. mv_retire m (in_name i)))
       else ret ()))))))))"

definition recover_install :: "environment \<Rightarrow> install \<Rightarrow> component option \<Rightarrow> fault \<Rightarrow> unit run" where
  "recover_install env i previous e = (case previous of None \<Rightarrow> ret ()
     | Some c \<Rightarrow>
         if ft_kind e \<noteq> Recovered then ret ()
         else bind (ask env (\<lambda>m. mv_restored (mo_machine m) (in_name i) (cp_deployment c))) (\<lambda>restored.
           if \<not> restored then ret ()
           else bind (modify (\<lambda>s. s\<lparr>js_current := bt_insert (in_name i) (cp_deployment c) (js_current s),
                       js_components := bt_insert (in_name i) c (js_components s)\<rparr>)) (\<lambda>_. save env)))"

definition confirm_install :: "string \<Rightarrow> journal_state \<Rightarrow> journal_state" where
  "confirm_install n s = s\<lparr>js_components := bt_adjust n (\<lambda>c. c\<lparr>cp_confirmed := True\<rparr>) (js_components s)\<rparr>"

definition install_one :: "environment \<Rightarrow> settings \<Rightarrow> string \<Rightarrow> install \<Rightarrow> unit run" where
  "install_one env cf d i =
     bind (ask_machine env (\<lambda>m. mv_begin m (in_name i))) (\<lambda>_.
     bind (configs env (cfg_stage (in_name i) (in_record i))) (\<lambda>_.
     bind (gets (\<lambda>s. case map_of (js_components s) (in_name i) of Some c \<Rightarrow> if cp_confirmed c then Some c else None | None \<Rightarrow> None)) (\<lambda>previous.
     bind (modify (mark_install cf d i)) (\<lambda>_.
     bind (save env) (\<lambda>_.
     bind (attempt (run_install env cf d i)) (\<lambda>r. case r of
       Inl e \<Rightarrow> bind (recover_install env i previous e) (\<lambda>_.
         fail (if in_root i then e else fault_context (''dependency '' @ in_name i @ '' '' @ cp_version (in_component i) @ '' install failed'') e))
     | Inr _ \<Rightarrow>
         bind (modify (confirm_install (in_name i))) (\<lambda>_.
         bind (save env) (\<lambda>_.
         configs env (cfg_commit (in_name i) d)))))))))"

definition readmit :: "environment \<Rightarrow> settings \<Rightarrow> string \<Rightarrow> unit run" where
  "readmit env cf d = bind (attempt (admit env cf d)) (\<lambda>r.
     if r = Inr True then ret () else fail \<lparr>ft_kind = NotAdmitted, ft_text = ''not admitted''\<rparr>)"

definition check_root :: "settings \<Rightarrow> deployment_event \<Rightarrow> authentic \<Rightarrow> (dependencies \<times> supervised option) run" where
  "check_root cf ev au = withhold (au_confidential au) ''validation'' (
     bind (lift (recipe_validate (st_semver cf) (st_check_services cf) (au_recipe au) ev (st_allow_commands cf))) (\<lambda>deps.
     bind (must (re_services (au_recipe au) = None \<or> \<not> st_helper cf \<or> lc_install (re_lifecycle (au_recipe au)) \<noteq> None \<or> lc_run (re_lifecycle (au_recipe au)) \<noteq> None)
       (plain ''asynchronous firmware-only updates cannot change component services; use a component deployment'')) (\<lambda>_.
     bind (lift (lifecycle_of (re_lifecycle (au_recipe au)))) (\<lambda>spv. ret (deps, spv)))))"

text \<open>Everything before the intent: the plan, the services, the artifacts, the configurations and the second admission.\<close>

definition prepare_deployment :: "environment \<Rightarrow> settings \<Rightarrow> resolved \<Rightarrow> ((string, generation) btree \<times> install list) run" where
  "prepare_deployment env cf rs =
     (let ev = rs_event rs in
      bind (ask_supply env (\<lambda>s. su_recipe s (ev_recipe_blob ev) (rs_recipe rs))) (\<lambda>au.
      bind (check_root cf ev au) (\<lambda>(deps, spv).
      bind (gets (\<lambda>s. installed_components (js_components s))) (\<lambda>inst.
      bind (plan_loop MAX_LOADS env cf (rs_catalog rs \<noteq> None) \<lparr>root_name = ev_component ev, root_version = ev_version ev, root_dependencies = deps\<rparr>
             inst [] [] False) (\<lambda>(planned, ls, secret).
      bind (withhold (au_confidential au \<or> secret) ''dependency resolution'' (lift planned)) (\<lambda>p.
      bind (gets js_services) (\<lambda>current.
      bind (withhold (au_confidential au \<or> secret) ''service validation''
             (bind (lift (service_candidate cf current (ev_component ev) (ev_deployment ev) (re_services (au_recipe au)) (map pl_name (plan_order p)))) (\<lambda>new.
              bind (ask_machine env (\<lambda>m. mv_prepare m new)) (\<lambda>_. ret new)))) (\<lambda>new.
      bind (carry (build_install cf rs au spv ls) (filter planned_install (plan_order p)) []) (\<lambda>installs.
      bind (each (\<lambda>i. map_fail (install_context i) (ask_supply env (\<lambda>s. su_artifact s (in_blob i) (cp_artifact (in_component i))))) installs) (\<lambda>_.
      bind (prepare_configurations env cf (ev_deployment ev) installs []) (\<lambda>ready. case ready of
        None \<Rightarrow> fail \<lparr>ft_kind = NotAdmitted, ft_text = ''not admitted''\<rparr>
      | Some installs \<Rightarrow> bind (readmit env cf (ev_deployment ev)) (\<lambda>_. ret (new, installs)))))))))))))"

definition handle_deployment :: "environment \<Rightarrow> settings \<Rightarrow> resolved \<Rightarrow> unit run" where
  "handle_deployment env cf rs =
     bind (prepare_deployment env cf rs) (\<lambda>(new, installs).
     bind (begin_intent env (rs_event rs)) (\<lambda>_.
     bind (each (install_one env cf (ev_deployment (rs_event rs))) installs) (\<lambda>_.
     services_commit env new (Some (ev_deployment (rs_event rs))))))"

section \<open>Daemon updates\<close>

definition stage_handoff :: "environment \<Rightarrow> settings \<Rightarrow> resolved \<Rightarrow> unit run" where
  "stage_handoff env cf rs =
     (let ev = rs_event rs in
      bind (ask_supply env (\<lambda>s. su_recipe s (ev_recipe_blob ev) (rs_recipe rs))) (\<lambda>au.
      bind (withhold (au_confidential au) ''validation'' (
        bind (lift (recipe_validate (st_semver cf) (st_check_services cf) (au_recipe au) ev False)) (\<lambda>deps.
        let l = re_lifecycle (au_recipe au) in
        must (re_services (au_recipe au) = None \<and> deps = [] \<and> lc_install l = None \<and> lc_run l = None \<and> lc_shutdown l = None)
          (plain ''a daemon update recipe carries only the daemon binary (no lifecycle commands or dependencies)'')))) (\<lambda>_.
      bind (ask_supply env (\<lambda>s. su_artifact s (re_blob (au_recipe au)) (ev_artifact ev))) (\<lambda>_.
      bind (readmit env cf (ev_deployment ev)) (\<lambda>_.
      bind (emit (EvStaged (ev_deployment ev))) (\<lambda>_.
      ask_machine env (\<lambda>m. mv_stage m (ev_deployment ev))))))))"

definition stage_daemon_update :: "environment \<Rightarrow> settings \<Rightarrow> resolved \<Rightarrow> nat option run" where
  "stage_daemon_update env cf rs =
     (let d = ev_deployment (rs_event rs) in
      bind (ask_supply env su_file) (\<lambda>_.
      bind (attempt (stage_handoff env cf rs)) (\<lambda>staged. case staged of
        Inr _ \<Rightarrow>
          bind (modify (\<lambda>s. (update_outcome d (\<lambda>o1. o1\<lparr>oc_handoff := Some (ev_version (rs_event rs))\<rparr>) s)\<lparr>js_deferred := bt_remove d (js_deferred s)\<rparr>)) (\<lambda>_.
          bind (save env) (\<lambda>_. fail \<lparr>ft_kind = HandoffRequested, ft_text = ''daemon update staged''\<rparr>))
      | Inl e \<Rightarrow>
          if ft_kind e = NotAdmitted then ret None
          else
            bind (modify (update_outcome d (record_result (Inl e)))) (\<lambda>_.
            bind (gets (get_status d)) (\<lambda>status.
            bind (save env) (\<lambda>_. ret status))))))"

section \<open>Reports\<close>

definition due_report :: "int \<Rightarrow> (string, int) btree \<Rightarrow> string list \<Rightarrow> string \<times> dep_outcome \<Rightarrow> bool" where
  "due_report now retries attempted e = (case e of (d, o1) \<Rightarrow>
     (\<not> oc_reported o1 \<or> oc_health_pending o1) \<and> oc_status o1 \<noteq> None \<and> d \<notin> set attempted
     \<and> (case map_of retries d of None \<Rightarrow> True | Some t \<Rightarrow> t \<le> now))"

definition retry_seconds :: "settings \<Rightarrow> int" where
  "retry_seconds cf = min 60 (max 8 (uint (saturating_mul (st_poll_seconds cf) 8)))"

definition flush_report :: "environment \<Rightarrow> settings \<Rightarrow> string \<times> nat \<Rightarrow> unit run" where
  "flush_report env cf e = (case e of (d, status) \<Rightarrow>
     bind (gets (\<lambda>s. map_of (js_deployments s) d)) (\<lambda>found. case found of None \<Rightarrow> panic
     | Some o1 \<Rightarrow>
         bind (if oc_reported o1 then ret (Inr [])
               else bind (emit (EvReport d status)) (\<lambda>_. ask env (\<lambda>m. cv_report (mo_chain m) d status))) (\<lambda>result. case result of
           Inl _ \<Rightarrow> ret ()
         | Inr digest \<Rightarrow>
             bind (if oc_reported o1 then ret ()
                   else bind (modify (update_outcome d (\<lambda>o2. o2\<lparr>oc_reported := True, oc_health_pending := True\<rparr>))) (\<lambda>_. save env)) (\<lambda>_.
             bind (ask env (\<lambda>m. cv_health (mo_chain m) d (status = STATUS_APPLIED) (if oc_reported o1 then None else Some digest))) (\<lambda>health.
             case health of
               Inl _ \<Rightarrow> bind (modify (update_outcome d (\<lambda>o2. o2\<lparr>oc_health_slow := True\<rparr>))) (\<lambda>_. save env)
             | Inr _ \<Rightarrow>
                 bind (modify (update_outcome d (\<lambda>o2. o2\<lparr>oc_health_pending := False\<rparr>))) (\<lambda>_.
                 bind (set_retries (bt_remove d)) (\<lambda>_. save env)))))))"

definition flush_reports :: "environment \<Rightarrow> settings \<Rightarrow> (string \<times> nat) list \<Rightarrow> unit run" where
  "flush_reports env cf pend = each (flush_report env cf) pend"

definition default_funding :: funding where
  "default_funding = \<lparr>fd_blocked = None, fd_blocked_since = None, fd_balance = None, fd_last_digest = None, fd_last_mist = None,
     fd_last_ms = None, fd_draws = 0\<rparr>"

definition fund_reports :: "environment \<Rightarrow> unit run" where
  "fund_reports env =
     bind (gets js_funding) (\<lambda>old.
     bind (ask env (\<lambda>m. cv_top_up (mo_chain m) (case old of None \<Rightarrow> default_funding | Some f \<Rightarrow> f))) (\<lambda>(r, new). case r of
       Inl _ \<Rightarrow> ret ()
     | Inr changed \<Rightarrow> if changed \<or> old \<noteq> Some new then bind (modify (\<lambda>s. s\<lparr>js_funding := Some new\<rparr>)) (\<lambda>_. save env) else ret ()))"

definition flush_funded_reports :: "environment \<Rightarrow> settings \<Rightarrow> bool \<Rightarrow> string list \<Rightarrow> unit run" where
  "flush_funded_reports env cf validated attempted =
     bind (ask env mo_instant) (\<lambda>now.
     bind get_retries (\<lambda>retries.
     bind (gets (\<lambda>s. map (\<lambda>(d, o1). (d, the (oc_status o1))) (filter (due_report now retries attempted) (js_deployments s)))) (\<lambda>pend.
     if pend = [] then ret ()
     else
       bind (set_retries (fold (\<lambda>(d, _). bt_insert d (now + 1000000000 * retry_seconds cf)) pend)) (\<lambda>_.
       bind (if validated then ret () else bind (ask_chain env cv_validate) (\<lambda>_. validate_cap env cf (st_cap cf) (st_device cf))) (\<lambda>_.
       bind (if st_budget cf then fund_reports env else ret ()) (\<lambda>_.
       flush_reports env cf pend))))))"

section \<open>Execution\<close>

definition funding_blocked :: "settings \<Rightarrow> journal_state \<Rightarrow> bool" where
  "funding_blocked cf s \<longleftrightarrow> st_budget cf \<and> (case js_funding s of Some f \<Rightarrow> fd_blocked f \<noteq> None | None \<Rightarrow> False)"

definition failed_with :: "fault_kind \<Rightarrow> (fault, 'a) result \<Rightarrow> bool" where
  "failed_with k r = (case r of Inl e \<Rightarrow> ft_kind e = k | Inr _ \<Rightarrow> False)"

definition finish_deployment :: "environment \<Rightarrow> settings \<Rightarrow> string \<Rightarrow> (fault, unit) result \<Rightarrow> nat option run" where
  "finish_deployment env cf d r =
     (if failed_with NotAdmitted r then ret None
      else if failed_with RecoveryRequired r then bind (lift r) (\<lambda>_. ret None)
      else
        bind (modify (update_outcome d (record_result r))) (\<lambda>_.
        bind (gets (get_status d)) (\<lambda>status.
        bind (save env) (\<lambda>_.
        bind (flush_funded_reports env cf False []) (\<lambda>_.
        ret status)))))"

definition execute :: "environment \<Rightarrow> settings \<Rightarrow> deployment_event \<Rightarrow> chain_object \<Rightarrow> nat option run" where
  "execute env cf ev rcd =
     bind (must (same_type (ob_type rcd) (st_move_type cf ''deployment_manager::DeploymentRecord'')) (plain ''wrong deployment type'')) (\<lambda>_.
     bind (gets (ensure_receipt_room (st_sizes cf) (ev_deployment ev))) (\<lambda>room.
     bind (lift room) (\<lambda>_.
     bind (gets (funding_blocked cf)) (\<lambda>blocked.
     bind (must (\<not> blocked) (plain ''network funding unavailable; new deployments paused, installed applications unchanged'')) (\<lambda>_.
     bind (admit env cf (ev_deployment ev)) (\<lambda>admitted.
     if \<not> admitted then ret None
     else
       bind (attempt (catalog_resolve env cf ev (ob_fields rcd))) (\<lambda>found. case found of
         Inl e \<Rightarrow>
           bind (modify (insert_outcome (ev_deployment ev) (record_result (Inl (plain (ft_text e))) default_outcome))) (\<lambda>_.
           bind (gets (get_status (ev_deployment ev))) (\<lambda>status.
           bind (save env) (\<lambda>_. ret status)))
       | Inr rs \<Rightarrow>
           if st_daemon_component cf = Some (ev_component ev) then stage_daemon_update env cf rs
           else
             bind (ask_supply env su_file) (\<lambda>_.
             bind (attempt (handle_deployment env cf rs)) (\<lambda>r. finish_deployment env cf (ev_deployment ev) r)))))))))"

end
