(* ===== verification/Ledger.thy ===== *)
theory Ledger
  imports Executor
begin

text \<open>
  What the journal guarantees about deployments, whatever the environment answers and wherever the process
  stops: the computations that decide nothing, the invariant that ties the log to the states in memory and on
  disk, and its preservation by the execution of a deployment and by reporting.
\<close>

section \<open>Frames of the executor\<close>

named_theorems quiet_frames \<open>computations that decide nothing\<close>

lemma reads_within_quiet: "within_rel reads m \<Longrightarrow> within_rel quiet m"
  by (rule within_rel_weaken [OF _ reads_quiet])

lemmas read_quiet = read_frames [THEN reads_within_quiet]

lemma quiet_admit [quiet_frames]: "within_rel quiet (admit env cf d)"
  by (auto simp: admit_def intro!: quiet_rules read_quiet split: option.splits)

lemma quiet_readmit [quiet_frames]: "within_rel quiet (readmit env cf d)"
  by (auto simp: readmit_def intro!: quiet_rules quiet_admit)

lemma quiet_plan [quiet_frames]: "within_rel quiet (plan_loop n env cf b rt inst pool ls c)"
proof (induction n arbitrary: pool ls c)
  case (Suc n)
  then show ?case by (auto intro!: quiet_rules split: sum.splits step_result.splits need.splits prod.splits option.splits)
qed (auto intro!: quiet_rules)

lemma quiet_reader [quiet_frames]: "within_rel quiet (require_service_reader env)"
  by (auto simp: require_service_reader_def intro!: quiet_rules)

lemma quiet_build [quiet_frames]: "within_rel quiet (build_install cf rs au spv ls p acc)"
  by (auto simp: build_install_def intro!: quiet_rules split: option.splits)

lemma quiet_prepare_one [quiet_frames]: "within_rel quiet (prepare_configuration env d i)"
  by (auto simp: prepare_configuration_def Let_def intro!: quiet_rules split: option.splits prod.splits)

lemma quiet_prepare_all [quiet_frames]: "within_rel quiet (prepare_configurations env cf d is acc)"
  by (induction "is" arbitrary: acc) (auto intro!: quiet_rules quiet_frames split: prod.splits)

lemma quiet_check_root [quiet_frames]: "within_rel quiet (check_root cf ev au)"
  by (auto simp: check_root_def intro!: quiet_rules)

lemma quiet_prepare [quiet_frames]: "within_rel quiet (prepare_deployment env cf rs)"
  by (auto simp: prepare_deployment_def Let_def intro!: quiet_rules quiet_frames split: option.splits prod.splits)

lemma quiet_recover [quiet_frames]: "within_rel quiet (recover_install env i previous e)"
  by (auto simp: recover_install_def intro!: quiet_rules split: option.splits)

lemma quiet_fund [quiet_frames]: "within_rel quiet (fund_reports env)"
  by (auto simp: fund_reports_def intro!: quiet_rules split: prod.splits sum.splits)

text \<open>What a computation returns, whatever happens on the way.\<close>

definition returns :: "'a run \<Rightarrow> ('a \<Rightarrow> bool) \<Rightarrow> bool" where
  "returns m P \<longleftrightarrow> (\<forall>w x w'. m w = (Done x, w') \<longrightarrow> P x)"

lemma returns_bind: "(\<And>x. returns (k x) P) \<Longrightarrow> returns (bind m k) P"
  by (auto simp: returns_def done_simps)

lemma returns_ret: "P x \<Longrightarrow> returns (ret x) P"
  by (simp add: returns_def done_simps)

lemma returns_fail: "returns (fail e) P"
  by (simp add: returns_def done_simps)

lemma resolve_keeps_deployment: "returns (catalog_resolve env cf ev fs) (\<lambda>rs. ev_deployment (rs_event rs) = ev_deployment ev)"
  by (auto simp: catalog_resolve_def resolve_plain_def resolve_catalog_def intro!: returns_bind returns_ret returns_fail split: option.splits)

section \<open>Computations that keep every status\<close>

definition mem_le :: "journal_state \<Rightarrow> journal_state \<Rightarrow> bool" where
  "mem_le s t \<longleftrightarrow> (bt_wf (js_deployments s) \<longrightarrow> bt_wf (js_deployments t))
     \<and> (\<forall>d. bt_has (js_deployments s) d \<longrightarrow> bt_has (js_deployments t) d) \<and> (\<forall>d. get_status d t = get_status d s)"

definition file_le :: "journal_state \<Rightarrow> state_file \<Rightarrow> state_file \<Rightarrow> bool" where
  "file_le s f g \<longleftrightarrow> g = f \<or> (\<exists>t. g = Holds t \<and> mem_le s t)"

definition tame_disk :: "world \<Rightarrow> world \<Rightarrow> bool" where
  "tame_disk w w' \<longleftrightarrow> mem_le (w_state w) (w_state w') \<and> file_le (w_state w) (dk_file (w_disk w)) (dk_file (w_disk w'))
     \<and> file_le (w_state w) (dk_durable (w_disk w)) (dk_durable (w_disk w'))"

text \<open>Nothing is logged, or only installs of one deployment.\<close>

definition tame :: "world \<Rightarrow> world \<Rightarrow> bool" where
  "tame w w' \<longleftrightarrow> w_log w' = w_log w \<and> tame_disk w w'"

definition installs :: "string \<Rightarrow> world \<Rightarrow> world \<Rightarrow> bool" where
  "installs d w w' \<longleftrightarrow> (\<exists>ns. w_log w' = w_log w @ map (EvInstall d) ns) \<and> tame_disk w w'"

lemma mem_le_refl [simp]: "mem_le s s"
  by (simp add: mem_le_def)

lemma mem_le_trans: "mem_le s t \<Longrightarrow> mem_le t u \<Longrightarrow> mem_le s u"
  by (simp add: mem_le_def)

lemma tame_disk_refl: "tame_disk w w"
  by (simp add: tame_disk_def file_le_def)

lemma tame_disk_trans: "tame_disk w w' \<Longrightarrow> tame_disk w' w'' \<Longrightarrow> tame_disk w w''"
  by (auto simp: tame_disk_def file_le_def intro: mem_le_trans)

lemma tame_disk_skip: "w_state w' = w_state w \<Longrightarrow> w_disk w' = w_disk w \<Longrightarrow> tame_disk w w'"
  by (simp add: tame_disk_def file_le_def)

interpretation tame: run_frame tame
  by unfold_locales (auto simp: tame_def tame_disk_refl intro: tame_disk_trans tame_disk_skip)

interpretation ins: run_frame "installs d" for d
proof
  show "installs d w w" for w by (auto simp: installs_def tame_disk_refl intro: exI [of _ "[]"])
  show "installs d w w''" if "installs d w w'" "installs d w' w''" for w w' w''
    using that unfolding installs_def by (metis append_assoc map_append tame_disk_trans)
qed (auto simp: installs_def intro: tame_disk_skip exI [of _ "[]"])

lemma mem_le_same: "js_deployments t = js_deployments s \<Longrightarrow> mem_le s t"
  by (simp add: mem_le_def get_status_def)

lemma quiet_tame: "quiet w w' \<Longrightarrow> tame w w'"
  by (auto simp: quiet_def tame_def tame_disk_def file_step_def file_le_def intro: mem_le_same)

lemma tame_installs: "tame w w' \<Longrightarrow> installs d w w'"
  by (auto simp: tame_def installs_def intro: exI [of _ "[]"])

lemma tame_within: "within_rel quiet m \<Longrightarrow> within_rel tame m"
  by (rule within_rel_weaken [OF _ quiet_tame])

lemma installs_within: "within_rel tame m \<Longrightarrow> within_rel (installs d) m"
  by (rule within_rel_weaken [OF _ tame_installs])

lemma tame_modify: "(\<And>s. mem_le s (f s)) \<Longrightarrow> within_rel tame (modify f)"
  by (simp add: within_rel_def modify_def tame_def tame_disk_def file_le_def)

lemma mem_le_update:
  assumes "\<And>o1. oc_status (f o1) = oc_status o1"
  shows "mem_le s (update_outcome d f s)"
  using assms by (auto simp: mem_le_def update_outcome_def get_status_def default_outcome_def split: option.splits)

lemmas tame_rules = tame.frame_rules tame_within [OF quiet_save] tame_modify

lemma ins_emit: "within_rel (installs d) (emit (EvInstall d n))"
  by (auto simp: within_rel_def emit_def installs_def intro: tame_disk_skip exI [of _ "[n]"])

lemma mem_le_mark: "mem_le s (mark_install cf d i s)"
proof -
  let ?f = "\<lambda>o1. o1\<lparr>oc_firmware := if in_root i \<and> in_supervised i = None \<and> in_install i = None \<and> st_helper cf then Some (st_request_id cf d) else None\<rparr>"
  have "mem_le s (update_outcome d ?f s)" by (rule mem_le_update) simp
  moreover have "js_deployments (mark_install cf d i s) = js_deployments (update_outcome d ?f s)" by (simp add: mark_install_def)
  ultimately show ?thesis using mem_le_trans mem_le_same by metis
qed

lemma ins_run: "within_rel (installs d) (run_install env cf d i)"
  by (auto simp: run_install_def intro!: ins.frame_rules ins_emit split: option.splits)

lemma ins_install: "within_rel (installs d) (install_one env cf d i)"
proof -
  have save: "within_rel (installs d) (save env)" by (rule installs_within [OF tame_within [OF quiet_save]])
  have mark: "within_rel (installs d) (modify (mark_install cf d i))" by (rule installs_within [OF tame_modify]) (rule mem_le_mark)
  have conf: "within_rel (installs d) (modify (confirm_install n))" for n
    by (rule installs_within [OF tame_modify]) (simp add: confirm_install_def mem_le_same)
  have rec: "within_rel (installs d) (recover_install env i p e)" for p e by (rule installs_within [OF tame_within [OF quiet_recover]])
  show ?thesis unfolding install_one_def
    by (auto intro!: ins.frame_rules save mark conf rec ins_run split: sum.splits)
qed

section \<open>The invariant\<close>

definition admitted :: "effect list \<Rightarrow> string list" where
  "admitted lg = List.map_filter (\<lambda>e. case e of EvAdmitted d \<Rightarrow> Some d | _ \<Rightarrow> None) lg"

text \<open>
  A state knows every admitted deployment and holds every status that was reported; a file that holds no
  state goes with a log that has neither.
\<close>

definition good :: "effect list \<Rightarrow> journal_state \<Rightarrow> bool" where
  "good lg s \<longleftrightarrow> bt_wf (js_deployments s) \<and> (\<forall>d. EvAdmitted d \<in> set lg \<longrightarrow> bt_has (js_deployments s) d)
     \<and> (\<forall>d st. EvReport d st \<in> set lg \<longrightarrow> get_status d s = Some st)"

definition good_file :: "effect list \<Rightarrow> state_file \<Rightarrow> bool" where
  "good_file lg f = (case f of Holds s \<Rightarrow> good lg s | _ \<Rightarrow> (\<forall>d. EvAdmitted d \<notin> set lg) \<and> (\<forall>d st. EvReport d st \<notin> set lg))"

text \<open>Every install belongs to the deployment admitted last, with nothing but its other installs in between.\<close>

definition blocks :: "effect list \<Rightarrow> bool" where
  "blocks lg \<longleftrightarrow> (\<forall>pre d n post. lg = pre @ EvInstall d n # post \<longrightarrow> (\<exists>pre' ns. pre = pre' @ EvAdmitted d # map (EvInstall d) ns))"

definition ledger :: "world \<Rightarrow> bool" where
  "ledger w \<longleftrightarrow> good (w_log w) (w_state w) \<and> good_file (w_log w) (dk_file (w_disk w)) \<and> good_file (w_log w) (dk_durable (w_disk w))
     \<and> distinct (admitted (w_log w)) \<and> blocks (w_log w)"

text \<open>No report about a deployment has been made.\<close>

definition silent :: "string \<Rightarrow> world \<Rightarrow> bool" where
  "silent d w \<longleftrightarrow> (\<forall>st. EvReport d st \<notin> set (w_log w))"

text \<open>What memory says of statuses is durable.\<close>

definition file_status :: "string \<Rightarrow> state_file \<Rightarrow> nat option" where
  "file_status d f = (case f of Holds s \<Rightarrow> get_status d s | _ \<Rightarrow> None)"

definition synced :: "world \<Rightarrow> bool" where
  "synced w \<longleftrightarrow> (\<forall>d st. get_status d (w_state w) = Some st \<longrightarrow>
     file_status d (dk_file (w_disk w)) = Some st \<and> file_status d (dk_durable (w_disk w)) = Some st)"

lemma admitted_append [simp]: "admitted (xs @ ys) = admitted xs @ admitted ys"
  by (simp add: admitted_def List.map_filter_def)

lemma admitted_single [simp]: "admitted [EvAdmitted d] = [d]" "admitted [EvReport d st] = []" "admitted [EvStaged d] = []" "admitted (map (EvInstall d) ns) = []"
  by (simp_all add: admitted_def List.map_filter_def comp_def)

lemma set_admitted: "d \<in> set (admitted lg) \<longleftrightarrow> EvAdmitted d \<in> set lg"
  by (induction lg) (auto simp: admitted_def List.map_filter_def split: effect.splits)

lemma good_le: "good lg s \<Longrightarrow> mem_le s t \<Longrightarrow> good lg t"
  by (simp add: good_def mem_le_def)

lemma good_file_le: "good lg s \<Longrightarrow> good_file lg f \<Longrightarrow> file_le s f g \<Longrightarrow> good_file lg g"
  by (auto simp: file_le_def good_file_def dest: good_le)

lemma good_installs [simp]: "good (lg @ map (EvInstall d) ns) s \<longleftrightarrow> good lg s" "good_file (lg @ map (EvInstall d) ns) f \<longleftrightarrow> good_file lg f"
  by (auto simp: good_def good_file_def split: state_file.splits)

lemma blocks_other: "blocks lg \<Longrightarrow> (\<And>d n. e \<noteq> EvInstall d n) \<Longrightarrow> blocks (lg @ [e])"
proof (unfold blocks_def, intro allI impI)
  fix pre d n post
  assume b: "\<forall>pre d n post. lg = pre @ EvInstall d n # post \<longrightarrow> (\<exists>pre' ns. pre = pre' @ EvAdmitted d # map (EvInstall d) ns)"
    and e: "\<And>d n. e \<noteq> EvInstall d n" and eq: "lg @ [e] = pre @ EvInstall d n # post"
  have "post \<noteq> []" using eq e by auto
  then obtain post' x where "post = post' @ [x]" by (metis rev_exhaust)
  then have "lg = pre @ EvInstall d n # post'" using eq by simp
  then show "\<exists>pre' ns. pre = pre' @ EvAdmitted d # map (EvInstall d) ns" using b by blast
qed

lemma blocks_install:
  assumes "blocks lg" and "lg = L @ EvAdmitted d # map (EvInstall d) ns"
  shows "blocks (lg @ [EvInstall d n])"
  unfolding blocks_def
proof (intro allI impI)
  fix pre d' n' post
  assume eq: "lg @ [EvInstall d n] = pre @ EvInstall d' n' # post"
  show "\<exists>pre' ns. pre = pre' @ EvAdmitted d' # map (EvInstall d') ns"
  proof (cases "post = []")
    case True
    then have "pre = lg" "d' = d" using eq by auto
    then show ?thesis using assms(2) by blast
  next
    case False
    then obtain post' x where "post = post' @ [x]" by (metis rev_exhaust)
    then have "lg = pre @ EvInstall d' n' # post'" using eq by simp
    then show ?thesis using assms(1) unfolding blocks_def by blast
  qed
qed

lemma blocks_installs:
  assumes "blocks (L @ EvAdmitted d # map (EvInstall d) ns)"
  shows "blocks (L @ EvAdmitted d # map (EvInstall d) (ns @ ms))"
proof (induction ms rule: rev_induct)
  case Nil
  then show ?case using assms by simp
next
  case (snoc m ms)
  have "blocks ((L @ EvAdmitted d # map (EvInstall d) (ns @ ms)) @ [EvInstall d m])" by (rule blocks_install [OF snoc refl])
  then show ?case by simp
qed

lemma ledger_disk:
  assumes "ledger w" and "tame_disk w w'" and "w_log w' = w_log w @ map (EvInstall d) ns" and "blocks (w_log w')"
  shows "ledger w'"
  using assms good_file_le good_le unfolding ledger_def tame_disk_def by (metis admitted_append admitted_single(4) append_Nil2 good_installs)

lemma ledger_tame: "ledger w \<Longrightarrow> tame w w' \<Longrightarrow> ledger w'"
  using ledger_disk [of w w' undefined "[]"] by (auto simp: tame_def ledger_def)

text \<open>A world in the middle of the installs of a deployment.\<close>

definition installing :: "string \<Rightarrow> world \<Rightarrow> bool" where
  "installing d w \<longleftrightarrow> ledger w \<and> (\<exists>L ns. w_log w = L @ EvAdmitted d # map (EvInstall d) ns)"

lemma installing_installs:
  assumes "installing d w" and i: "installs d w w'"
  shows "installing d w'"
proof -
  obtain L ns ms where l: "w_log w = L @ EvAdmitted d # map (EvInstall d) ns" and m: "w_log w' = w_log w @ map (EvInstall d) ms"
    using assms unfolding installing_def installs_def by blast
  have w: "ledger w" using assms(1) by (simp add: installing_def)
  have "w_log w' = L @ EvAdmitted d # map (EvInstall d) (ns @ ms)" using l m by simp
  moreover have "blocks (w_log w')" using w l calculation by (metis blocks_installs ledger_def)
  ultimately show ?thesis using ledger_disk [OF w _ m] i unfolding installing_def installs_def by blast
qed

lemma silent_tame: "tame w w' \<Longrightarrow> silent d w' = silent d w"
  by (simp add: silent_def tame_def)

lemma silent_installs: "installs d' w w' \<Longrightarrow> silent d w' = silent d w"
  by (auto simp: silent_def installs_def)

lemma synced_disk: "synced w \<Longrightarrow> tame_disk w w' \<Longrightarrow> synced w'"
proof -
  assume s: "synced w" and t: "tame_disk w w'"
  have f: "file_status d g = Some st" if "file_le (w_state w) f g" "file_status d f = Some st" "get_status d (w_state w) = Some st" for d st f g
    using that by (auto simp: file_le_def file_status_def mem_le_def)
  show "synced w'" unfolding synced_def
  proof (intro allI impI)
    fix d st assume "get_status d (w_state w') = Some st"
    then have d: "get_status d (w_state w) = Some st" using t by (simp add: tame_disk_def mem_le_def)
    then have "file_status d (dk_file (w_disk w)) = Some st" "file_status d (dk_durable (w_disk w)) = Some st" using s by (auto simp: synced_def)
    then show "file_status d (dk_file (w_disk w')) = Some st \<and> file_status d (dk_durable (w_disk w')) = Some st"
      using t d f unfolding tame_disk_def by blast
  qed
qed

lemma fresh_silent: "ledger w \<Longrightarrow> \<not> bt_has (js_deployments (w_state w)) d \<Longrightarrow> silent d w \<and> EvAdmitted d \<notin> set (w_log w)"
  unfolding ledger_def good_def silent_def get_status_def by fastforce

end
