(* ===== verification/Decisions.thy ===== *)
theory Decisions
  imports Ledger
begin

text \<open>
  The ledger is kept by everything the executor does: saving and failing to save, committing a service
  generation with the success of its deployment, reporting, staging an update of the daemon and the execution
  of a deployment as a whole.
\<close>

section \<open>Preconditions of saving\<close>

lemma wp_ask [wp_simps]:
  "wp (ask env f) Q E H w = (if mo_alive (env (w_tick w)) then Q (f (env (w_tick w))) (w\<lparr>w_tick := Suc (w_tick w)\<rparr>)
     else H (w\<lparr>w_tick := Suc (w_tick w)\<rparr>))"
  by (simp add: wp_def ask_def)

lemma ledger_tick [simp]: "ledger (w\<lparr>w_tick := t\<rparr>) = ledger w" "silent d (w\<lparr>w_tick := t\<rparr>) = silent d w" "synced (w\<lparr>w_tick := t\<rparr>) = synced w"
    "installing d (w\<lparr>w_tick := t\<rparr>) = installing d w"
  by (simp_all add: ledger_def silent_def synced_def installing_def)

lemma wp_bind_fun: "wp (bind m k) Q E H = wp m (\<lambda>x. wp (k x) Q E H) E H"
  by (simp add: fun_eq_iff wp_bind)

text \<open>What a save leaves on disk, when it succeeds and when it fails.\<close>

definition saves :: "world \<Rightarrow> world \<Rightarrow> bool" where
  "saves w w' \<longleftrightarrow> w_state w' = w_state w \<and> w_log w' = w_log w \<and> w_disk w' = \<lparr>dk_file = Holds (w_state w), dk_durable = Holds (w_state w)\<rparr>"

definition save_fails :: "world \<Rightarrow> world \<Rightarrow> bool" where
  "save_fails w w' \<longleftrightarrow> w_state w' = w_state w \<and> w_log w' = w_log w
     \<and> (w_disk w' = w_disk w \<or> w_disk w' = (w_disk w)\<lparr>dk_file := Holds (w_state w)\<rparr>)"

lemma wp_save:
  assumes "\<And>w'. saves w w' \<Longrightarrow> Q () w'" and "\<And>w'. save_fails w w' \<Longrightarrow> E (plain ''io'') w'" and "\<And>w'. save_fails w w' \<Longrightarrow> H w'"
  shows "wp (save env) Q E H w"
proof (cases "mo_alive (env (w_tick w))")
  case True
  then have "wp (save env) Q E H w = (case mo_save (env (w_tick w)) of
       SaveOk \<Rightarrow> Q () (w\<lparr>w_tick := Suc (w_tick w), w_disk := \<lparr>dk_file = Holds (w_state w), dk_durable = Holds (w_state w)\<rparr>\<rparr>)
     | NotRenamed \<Rightarrow> E (plain ''io'') (w\<lparr>w_tick := Suc (w_tick w)\<rparr>)
     | NotSynced \<Rightarrow> E (plain ''io'') (w\<lparr>w_tick := Suc (w_tick w), w_disk := (w_disk w)\<lparr>dk_file := Holds (w_state w)\<rparr>\<rparr>))"
    by (cases "mo_save (env (w_tick w))") (simp_all add: wp_def save_def bind_def ask_def gets_def store_disk_def journal_save_def must_def ret_def fail_def)
  then show ?thesis using assms(1,2) by (simp add: saves_def save_fails_def split: save_io.splits)
next
  case False
  then show ?thesis using assms(3) by (simp add: wp_def save_def bind_def ask_def save_fails_def)
qed

lemma ledger_saves: "ledger w \<Longrightarrow> saves w w' \<Longrightarrow> ledger w' \<and> synced w'"
  by (simp add: ledger_def saves_def good_file_def synced_def file_status_def)

lemma ledger_save_fails:
  assumes "ledger w" and f: "save_fails w w'"
  shows "ledger w'"
proof -
  have "good_file (w_log w) (dk_file (w_disk w'))" "good_file (w_log w) (dk_durable (w_disk w'))"
    using assms by (auto simp: ledger_def save_fails_def good_file_def)
  then show ?thesis using assms by (simp add: ledger_def save_fails_def)
qed

lemma silent_same: "w_log w' = w_log w \<Longrightarrow> silent d w' = silent d w"
  by (simp add: silent_def)

text \<open>Saving keeps the ledger, and a save that succeeds makes every status durable.\<close>

lemma save_ledger:
  assumes "ledger w"
    and "\<And>w'. ledger w' \<Longrightarrow> synced w' \<Longrightarrow> saves w w' \<Longrightarrow> Q () w'"
    and "\<And>e w'. ledger w' \<Longrightarrow> save_fails w w' \<Longrightarrow> E e w'" and "\<And>w'. ledger w' \<Longrightarrow> save_fails w w' \<Longrightarrow> H w'"
  shows "wp (save env) Q E H w"
  by (rule wp_save) (use assms ledger_saves ledger_save_fails in blast)+

section \<open>Deciding one deployment\<close>

lemma good_update:
  assumes "good lg s" and "\<forall>st. EvReport d st \<notin> set lg"
  shows "good lg (update_outcome d f s)"
  using assms by (auto simp: good_def update_outcome_def get_status_def) 

lemma ledger_update:
  assumes "ledger w" and "silent d w"
  shows "ledger (w\<lparr>w_state := update_outcome d f (w_state w)\<rparr>)"
  using assms good_update by (simp add: ledger_def silent_def)

lemma ledger_other: "ledger w \<Longrightarrow> js_deployments (f (w_state w)) = js_deployments (w_state w) \<Longrightarrow> ledger (w\<lparr>w_state := f (w_state w)\<rparr>)"
  by (simp add: ledger_def good_def get_status_def)

text \<open>The ledger holds, nothing was logged, and statuses that were durable still are.\<close>

definition steady :: "world \<Rightarrow> world \<Rightarrow> bool" where
  "steady w w' \<longleftrightarrow> ledger w' \<and> w_log w' = w_log w \<and> (synced w \<longrightarrow> synced w')"

lemma steady_refl: "ledger w \<Longrightarrow> steady w w"
  by (simp add: steady_def)

lemma steady_tame: "steady w w1 \<Longrightarrow> tame w1 w2 \<Longrightarrow> steady w w2"
  using ledger_tame synced_disk by (auto simp: steady_def tame_def)

lemma steady_saves: "steady w w1 \<Longrightarrow> saves w1 w2 \<Longrightarrow> steady w w2"
  using ledger_saves by (auto simp: steady_def saves_def)

lemma steady_keep: "steady w w' \<Longrightarrow> ledger w' \<and> w_log w' = w_log w"
  by (simp add: steady_def)

text \<open>A computation whose effects are tame, followed by another.\<close>

lemma wp_tame:
  assumes m: "within_rel tame m" and w: "steady w0 w" and Q: "\<And>x w'. steady w0 w' \<Longrightarrow> tame w w' \<Longrightarrow> Q x w'"
    and E: "\<And>e w'. steady w0 w' \<Longrightarrow> tame w w' \<Longrightarrow> E e w'" and H: "\<And>w'. steady w0 w' \<Longrightarrow> tame w w' \<Longrightarrow> H w'"
  shows "wp m Q E H w"
proof -
  obtain a w' where a: "m w = (a, w')" by fastforce
  then have t: "tame w w'" using m by (metis within_rel_def snd_conv)
  then have "steady w0 w'" using steady_tame [OF w] by blast
  then show ?thesis using a t Q E H by (auto simp: wp_def split: answer.splits)
qed

lemma ledger_keeps: "steady w w' \<Longrightarrow> ledger w'"
  by (simp add: steady_def)

definition decide :: "string option \<Rightarrow> nat option \<Rightarrow> journal_state \<Rightarrow> journal_state" where
  "decide d st s = (case d of None \<Rightarrow> s | Some i \<Rightarrow> update_outcome i (\<lambda>o1. o1\<lparr>oc_status := st\<rparr>) s)"

lemma get_status_update: "get_status i (update_outcome d f s) =
    (if i = d then oc_status (f (case map_of (js_deployments s) d of None \<Rightarrow> default_outcome | Some o1 \<Rightarrow> o1)) else get_status i s)"
  by (simp add: update_outcome_def get_status_def)

lemma get_status_decide: "get_status i (decide d st s) = (if d = Some i then st else get_status i s)"
  by (simp add: decide_def get_status_update split: option.splits)

lemma get_status_other: "get_status i (s\<lparr>js_services := x\<rparr>) = get_status i s"
  by (simp add: get_status_def)

lemma ledger_decide:
  assumes "ledger w" and "\<And>i. d = Some i \<Longrightarrow> silent i w"
  shows "ledger (w\<lparr>w_state := decide d st (w_state w)\<rparr>)"
  using assms ledger_update by (simp add: decide_def split: option.splits)

lemma wp_bind_attempt: "wp (bind (attempt m) k) Q E H w = wp m (\<lambda>x. wp (k (Inr x)) Q E H) (\<lambda>e. wp (k (Inl e)) Q E H) H w"
  by (simp add: wp_simps)

lemma wp_disk_file: "wp disk_file Q E H w = Q (dk_file (w_disk w)) w"
  by (simp add: wp_def disk_file_def)

lemma undo_steady:
  assumes w0: "steady w0 w1" and quiet_d: "\<And>i. d = Some i \<Longrightarrow> silent i w1"
    and w2: "w_state w = decide d (Some STATUS_APPLIED) ((w_state w1)\<lparr>js_services := new\<rparr>)" "w_log w = w_log w1" "ledger w"
    and disk: "w_disk w = w_disk w1 \<or> w_disk w = (w_disk w1)\<lparr>dk_file := Holds (w_state w)\<rparr>"
  shows "wp (undo_commit env previous d e) (\<lambda>_. steady w0) (\<lambda>e' w'. ledger w' \<and> w_log w' = w_log w0 \<and> (ft_kind e' \<noteq> RecoveryRequired \<longrightarrow> steady w0 w'))
     (\<lambda>w'. ledger w' \<and> w_log w' = w_log w0) w"
proof -
  let ?u = "w\<lparr>w_tick := Suc (w_tick w), w_state := decide d None ((w_state w)\<lparr>js_services := previous\<rparr>)\<rparr>"
  have log: "w_log w = w_log w0" "ledger w1" using w0 w2(2) by (auto simp: steady_def)
  have quiet_w: "silent i w" if "d = Some i" for i using quiet_d [OF that] w2(2) by (simp add: silent_def)
  have "ledger (w\<lparr>w_state := (w_state w)\<lparr>js_services := previous\<rparr>\<rparr>)" using ledger_other [OF w2(3), of "\<lambda>s. s\<lparr>js_services := previous\<rparr>"] by simp
  from ledger_decide [OF this, of d] quiet_w have led: "ledger (w\<lparr>w_state := decide d None ((w_state w)\<lparr>js_services := previous\<rparr>)\<rparr>)" by (simp add: silent_def)
  have led_u: "ledger ?u" using led by (simp add: ledger_def)
  have sync: "synced w0 \<longrightarrow> synced ?u" if t: "dk_file (w_disk w) = Holds t" "\<And>i. d = Some i \<Longrightarrow> get_status i t \<noteq> Some STATUS_APPLIED" for t
  proof
    assume "synced w0"
    then have s1: "synced w1" using w0 by (simp add: steady_def)
    have st: "get_status i (w_state w) = get_status i (w_state w1)" if "d \<noteq> Some i" for i using that w2(1) by (simp add: get_status_decide get_status_other)
    show "synced ?u" unfolding synced_def
    proof (intro allI impI)
      fix i st1 assume "get_status i (w_state ?u) = Some st1"
      then have i: "d \<noteq> Some i" "get_status i (w_state w1) = Some st1"
        using st by (auto simp: get_status_decide get_status_other split: if_splits)
      then have f: "file_status i (dk_file (w_disk w1)) = Some st1" "file_status i (dk_durable (w_disk w1)) = Some st1" using s1 by (auto simp: synced_def)
      have "get_status i (w_state w) = Some st1" using i st by simp
      then show "file_status i (dk_file (w_disk ?u)) = Some st1 \<and> file_status i (dk_durable (w_disk ?u)) = Some st1"
        using f disk by (auto simp: file_status_def)
    qed
  qed
  have steady_u: "steady w0 ?u" if "dk_file (w_disk w) = Holds t" "\<And>i. d = Some i \<Longrightarrow> get_status i t \<noteq> Some STATUS_APPLIED" for t
    using sync [OF that] led_u log by (simp add: steady_def)
  have dec: "wp (case d of None \<Rightarrow> ret () | Some i \<Rightarrow> modify (update_outcome i (\<lambda>o1. o1\<lparr>oc_status := st\<rparr>))) Q E H v = Q () (v\<lparr>w_state := decide d st (w_state v)\<rparr>)" for Q E H v st
    by (cases d) (simp_all add: wp_simps decide_def)
  have abort: "within_rel tame (ask_machine env (\<lambda>m. mv_abort m previous))" by (intro tame.frame_rules)
  have rr: "ft_kind (recovery e') = RecoveryRequired" for e' by (simp add: recovery_def)
  show ?thesis
  proof (cases "mo_alive (env (w_tick w)) \<and> (\<exists>x t. su_file (mo_supply (env (w_tick w))) = Inr x \<and> dk_file (w_disk w) = Holds t \<and> js_services t = previous
       \<and> (case d of None \<Rightarrow> True | Some i \<Rightarrow> get_status i t \<noteq> Some STATUS_APPLIED))")
    case True
    then obtain x t where t: "su_file (mo_supply (env (w_tick w))) = Inr x" "dk_file (w_disk w) = Holds t" "js_services t = previous"
      "case d of None \<Rightarrow> True | Some i \<Rightarrow> get_status i t \<noteq> Some STATUS_APPLIED" by blast
    have su: "steady w0 ?u" by (rule steady_u [OF t(2)]) (use t(4) in simp)
    have "wp (map_fail recovery (ask_machine env (\<lambda>m. mv_abort m previous))) (\<lambda>_. wp (fail e) (\<lambda>_. steady w0) (\<lambda>e' w'. ledger w' \<and> w_log w' = w_log w0 \<and> (ft_kind e' \<noteq> RecoveryRequired \<longrightarrow> steady w0 w')) (\<lambda>w'. ledger w' \<and> w_log w' = w_log w0))
        (\<lambda>e' w'. ledger w' \<and> w_log w' = w_log w0 \<and> (ft_kind e' \<noteq> RecoveryRequired \<longrightarrow> steady w0 w')) (\<lambda>w'. ledger w' \<and> w_log w' = w_log w0) ?u"
      unfolding wp_map_fail wp_fail by (rule wp_tame [OF abort su]) (auto simp: rr dest: steady_keep)
    moreover have "wp (undo_commit env previous d e) Q E H w = wp (map_fail recovery (ask_machine env (\<lambda>m. mv_abort m previous))) (\<lambda>_. wp (fail e) Q E H) E H ?u" for Q E H
      using t True by (simp add: undo_commit_def wp_simps wp_disk_file dec)
    ultimately show ?thesis by simp
  next
    case False
    then show ?thesis unfolding undo_commit_def using w2(3) log
      by (auto simp: wp_simps wp_disk_file rr split: sum.splits state_file.splits option.splits)
  qed
qed

text \<open>
  Committing a service generation with the success of its deployment: whatever fails, the ledger holds, and
  unless a restart is asked for, a status in memory is on disk.
\<close>

lemma commit_steady:
  assumes w: "ledger w" and quiet_d: "\<And>i. d = Some i \<Longrightarrow> silent i w"
  shows "wp (services_commit env new d) (\<lambda>_. steady w) (\<lambda>e w'. ledger w' \<and> w_log w' = w_log w \<and> (ft_kind e \<noteq> RecoveryRequired \<longrightarrow> steady w w'))
     (\<lambda>w'. ledger w' \<and> w_log w' = w_log w) w"
    (is "wp _ ?Q ?E ?H w")
proof -
  have ask: "within_rel tame (ask_machine env f)" for f :: "machine_view \<Rightarrow> (fault, unit) result" by (intro tame.frame_rules)
  have rr: "ft_kind (recovery e) = RecoveryRequired" for e by (simp add: recovery_def)
  have ok: "?E e w'" "?H w'" if "steady w w'" for e w' using that by (auto dest: steady_keep)
  have rec: "wp (map_fail recovery (ask_machine env f)) Q ?E ?H v" if "steady w v" "\<And>w'. steady w w' \<Longrightarrow> Q () w'" for f Q v
    unfolding wp_map_fail by (rule wp_tame [OF ask that(1)]) (use that(2) in \<open>auto simp: rr dest: steady_keep\<close>)
  have dec: "wp (case d of None \<Rightarrow> ret () | Some i \<Rightarrow> modify (update_outcome i (\<lambda>o1. o1\<lparr>oc_status := st\<rparr>))) Q E H v = Q () (v\<lparr>w_state := decide d st (w_state v)\<rparr>)" for Q E H v st
    by (cases d) (simp_all add: wp_simps decide_def)
  have tail: "wp (bind (modify (\<lambda>s. s\<lparr>js_services := new\<rparr>)) (\<lambda>_.
             bind (case d of None \<Rightarrow> ret () | Some i \<Rightarrow> modify (update_outcome i (\<lambda>o1. o1\<lparr>oc_status := Some STATUS_APPLIED\<rparr>))) (\<lambda>_.
             bind (attempt (save env)) (\<lambda>saved1. case saved1 of
               Inl e \<Rightarrow> undo_commit env previous d e
             | Inr _ \<Rightarrow>
                 bind (map_fail recovery (ask_machine env mv_recover_activation)) (\<lambda>_.
                 map_fail recovery (ask_machine env mv_resume)))))) ?Q ?E ?H v" if v: "steady w v" for v previous
  proof -
    let ?v = "v\<lparr>w_state := decide d (Some STATUS_APPLIED) ((w_state v)\<lparr>js_services := new\<rparr>)\<rparr>"
    have sd: "silent i v" if "d = Some i" for i using quiet_d [OF that] v by (simp add: silent_def steady_def)
    have "ledger (v\<lparr>w_state := (w_state v)\<lparr>js_services := new\<rparr>\<rparr>)" using v ledger_other [of v "\<lambda>s. s\<lparr>js_services := new\<rparr>"] by (simp add: steady_def)
    from ledger_decide [OF this, of d] sd have lv: "ledger ?v" by (simp add: silent_def)
    have logv: "w_log v = w_log w" using v by (simp add: steady_def)
    have "wp (save env) (\<lambda>x. wp (bind (map_fail recovery (ask_machine env mv_recover_activation)) (\<lambda>_. map_fail recovery (ask_machine env mv_resume))) ?Q ?E ?H)
       (\<lambda>e. wp (undo_commit env previous d e) ?Q ?E ?H) ?H ?v"
    proof (rule save_ledger [OF lv])
      fix w' assume "ledger w'" "synced w'" "saves ?v w'"
      then have "steady w w'" using logv by (simp add: steady_def saves_def)
      then show "wp (bind (map_fail recovery (ask_machine env mv_recover_activation)) (\<lambda>_. map_fail recovery (ask_machine env mv_resume))) ?Q ?E ?H w'"
        unfolding wp_bind by (intro rec)
    next
      fix e w' assume l: "ledger w'" and f: "save_fails ?v w'"
      show "wp (undo_commit env previous d e) ?Q ?E ?H w'"
        by (rule undo_steady [OF v sd, where new = new]) (use l f in \<open>auto simp: save_fails_def\<close>)
    next
      fix w' assume "ledger w'" "save_fails ?v w'"
      then show "?H w'" using logv by (simp add: save_fails_def)
    qed
    then show ?thesis by (simp add: wp_simps dec)
  qed
  have reader: "within_rel tame (if c then require_service_reader env else ret ())" for c
    by (auto intro: tame_within [OF quiet_reader] tame.frame_ret)
  have act: "wp (ask_machine env f) Q Q' ?H v" if "steady w v" "\<And>w'. steady w w' \<Longrightarrow> Q () w'" "\<And>e w'. steady w w' \<Longrightarrow> Q' e w'" for f Q Q' v
    by (rule wp_tame [OF ask that(1)]) (use that in \<open>auto dest: steady_keep\<close>)
  have last: "wp (bind (map_fail recovery (ask_machine env f)) (\<lambda>_. fail e)) ?Q ?E ?H v" if "steady w v" for f :: "machine_view \<Rightarrow> (fault, unit) result" and e v
    unfolding wp_bind by (rule rec [OF that]) (simp add: wp_simps ok)
  show ?thesis unfolding services_commit_def wp_bind [of "ask_machine env (\<lambda>m. mv_transition m new)"]
  proof (rule act [OF steady_refl [OF w]], goal_cases)
    case (1 v)
    have "wp (if new \<noteq> [] \<or> js_services (w_state v) \<noteq> [] then require_service_reader env else ret ())
       (\<lambda>_. wp (bind (attempt (ask_machine env (\<lambda>m. mv_activation m new))) (\<lambda>began. case began of
       Inl e \<Rightarrow> bind (map_fail recovery (ask_machine env mv_resume)) (\<lambda>_. fail e)
     | Inr _ \<Rightarrow>
         bind (attempt (ask_machine env (\<lambda>m. mv_activate m new))) (\<lambda>activated. case activated of
           Inl e \<Rightarrow> bind (map_fail recovery (ask_machine env (\<lambda>m. mv_abort m (js_services (w_state v))))) (\<lambda>_. fail (fault_context ''service activation'' e))
         | Inr _ \<Rightarrow>
             bind (modify (\<lambda>s. s\<lparr>js_services := new\<rparr>)) (\<lambda>_.
             bind (case d of None \<Rightarrow> ret () | Some i \<Rightarrow> modify (update_outcome i (\<lambda>o1. o1\<lparr>oc_status := Some STATUS_APPLIED\<rparr>))) (\<lambda>_.
             bind (attempt (save env)) (\<lambda>saved1. case saved1 of
               Inl e \<Rightarrow> undo_commit env (js_services (w_state v)) d e
             | Inr _ \<Rightarrow>
                 bind (map_fail recovery (ask_machine env mv_recover_activation)) (\<lambda>_.
                 map_fail recovery (ask_machine env mv_resume)))))))) ?Q ?E ?H) ?E ?H v"
    proof (rule wp_tame [OF reader 1], goal_cases)
      case (1 x u)
      show ?case unfolding wp_bind_attempt sum.case by (intro act [OF 1(1)] act tail last)
    qed (simp_all add: ok)
    then show ?case unfolding wp_bind wp_gets by simp
  qed (simp add: ok)
qed

section \<open>Reports\<close>

lemma synced_save_fails: "synced w \<Longrightarrow> save_fails w w' \<Longrightarrow> synced w'"
  by (auto simp: synced_def save_fails_def file_status_def)

lemma synced_saves: "saves w w' \<Longrightarrow> synced w'"
  by (simp add: synced_def saves_def file_status_def)

lemma synced_log [simp]: "synced (w\<lparr>w_log := l\<rparr>) = synced w"
  by (simp add: synced_def)

text \<open>A status that memory holds durably may be reported.\<close>

lemma ledger_report:
  assumes l: "ledger w" and "synced w" and st: "get_status d (w_state w) = Some st"
  shows "ledger (w\<lparr>w_log := w_log w @ [EvReport d st]\<rparr>)"
proof -
  have f: "file_status d (dk_file (w_disk w)) = Some st" "file_status d (dk_durable (w_disk w)) = Some st" using assms by (auto simp: synced_def)
  have g: "good_file (w_log w @ [EvReport d st]) g" if "good_file (w_log w) g" "file_status d g = Some st" for g
    using that by (auto simp: good_file_def good_def file_status_def split: state_file.splits)
  have "good (w_log w @ [EvReport d st]) (w_state w)" using l st by (auto simp: ledger_def good_def)
  moreover have "blocks (w_log w @ [EvReport d st])" using l by (auto simp: ledger_def intro: blocks_other)
  ultimately show ?thesis using l f g by (simp add: ledger_def)
qed

definition statuses_kept :: "world \<Rightarrow> world \<Rightarrow> bool" where
  "statuses_kept w w' \<longleftrightarrow> (\<forall>i. get_status i (w_state w') = get_status i (w_state w))"

lemma tame_statuses: "tame w w' \<Longrightarrow> statuses_kept w w'"
  by (simp add: tame_def tame_disk_def mem_le_def statuses_kept_def)

lemma tame_update: "(\<And>o1. oc_status (f o1) = oc_status o1) \<Longrightarrow> within_rel tame (modify (update_outcome d f))"
  by (intro tame_modify mem_le_update)

lemma tame_after_report:
  "within_rel tame (case result of Inl _ \<Rightarrow> ret ()
     | Inr digest \<Rightarrow>
         bind (if rep then ret ()
               else bind (modify (update_outcome d (\<lambda>o2. o2\<lparr>oc_reported := True, oc_health_pending := True\<rparr>))) (\<lambda>_. save env)) (\<lambda>_.
         bind (ask env (\<lambda>m. cv_health (mo_chain m) d b (if rep then None else Some digest))) (\<lambda>health.
         case health of
           Inl _ \<Rightarrow> bind (modify (update_outcome d (\<lambda>o2. o2\<lparr>oc_health_slow := True\<rparr>))) (\<lambda>_. save env)
         | Inr _ \<Rightarrow>
             bind (modify (update_outcome d (\<lambda>o2. o2\<lparr>oc_health_pending := False\<rparr>))) (\<lambda>_.
             bind (set_retries (bt_remove d)) (\<lambda>_. save env)))))"
  by (auto intro!: tame.frame_rules tame_within [OF quiet_save] tame_update split: sum.splits)

text \<open>The ledger with every status durable.\<close>

definition settled_world :: "world \<Rightarrow> bool" where
  "settled_world w \<longleftrightarrow> ledger w \<and> synced w"

lemma settled_tame: "settled_world w \<Longrightarrow> tame w w' \<Longrightarrow> settled_world w' \<and> statuses_kept w w'"
  using ledger_tame synced_disk tame_statuses by (auto simp: settled_world_def tame_def)

lemma wp_settled:
  assumes m: "within_rel tame m" and w: "settled_world w" and Q: "\<And>x w'. settled_world w' \<Longrightarrow> statuses_kept w w' \<Longrightarrow> Q x w'"
    and E: "\<And>e w'. settled_world w' \<Longrightarrow> E e w'" and H: "\<And>w'. settled_world w' \<Longrightarrow> H w'"
  shows "wp m Q E H w"
  by (rule within_wp [OF m]) (use settled_tame [OF w] Q E H in blast)+

lemma flush_report_settled:
  assumes w: "settled_world w" and st: "get_status d (w_state w) = Some st"
    and Q: "\<And>w'. settled_world w' \<Longrightarrow> statuses_kept w w' \<Longrightarrow> Q () w'" and E: "\<And>e w'. settled_world w' \<Longrightarrow> E e w'" and H: "\<And>w'. settled_world w' \<Longrightarrow> H w'"
  shows "wp (flush_report env cf (d, st)) Q E H w"
proof -
  obtain o1 where o1: "map_of (js_deployments (w_state w)) d = Some o1" using st by (auto simp: get_status_def split: bind_splits)
  have rest: "wp (case result of Inl _ \<Rightarrow> ret ()
     | Inr digest \<Rightarrow>
         bind (if oc_reported o1 then ret ()
               else bind (modify (update_outcome d (\<lambda>o2. o2\<lparr>oc_reported := True, oc_health_pending := True\<rparr>))) (\<lambda>_. save env)) (\<lambda>_.
         bind (ask env (\<lambda>m. cv_health (mo_chain m) d (st = STATUS_APPLIED) (if oc_reported o1 then None else Some digest))) (\<lambda>health.
         case health of
           Inl _ \<Rightarrow> bind (modify (update_outcome d (\<lambda>o2. o2\<lparr>oc_health_slow := True\<rparr>))) (\<lambda>_. save env)
         | Inr _ \<Rightarrow>
             bind (modify (update_outcome d (\<lambda>o2. o2\<lparr>oc_health_pending := False\<rparr>))) (\<lambda>_.
             bind (set_retries (bt_remove d)) (\<lambda>_. save env))))) Q E H v"
    if "settled_world v" "statuses_kept w v" for result v
    by (rule wp_settled [OF tame_after_report that(1)]) (use that(2) Q E H in \<open>auto simp: statuses_kept_def\<close>)
  have self: "statuses_kept w w" by (simp add: statuses_kept_def)
  show ?thesis
  proof (cases "oc_reported o1")
    case True
    then show ?thesis using o1 rest [OF w self, of "Inr []"] by (simp add: flush_report_def wp_bind wp_gets wp_ret)
  next
    case False
    let ?v = "w\<lparr>w_log := w_log w @ [EvReport d st], w_tick := Suc (w_tick w)\<rparr>"
    have "ledger (w\<lparr>w_log := w_log w @ [EvReport d st]\<rparr>)" using w st ledger_report by (simp add: settled_world_def)
    then have "settled_world ?v" using w by (simp add: settled_world_def)
    moreover have "statuses_kept w ?v" by (simp add: statuses_kept_def)
    ultimately show ?thesis using o1 False rest [of ?v "cv_report (mo_chain (env (w_tick w))) d st"] H [of ?v] by (cases "cv_report (mo_chain (env (w_tick w))) d st") (simp_all add: flush_report_def wp_bind wp_gets wp_emit wp_ask)
  qed
qed

lemma flush_reports_settled:
  assumes "settled_world w" and "\<forall>(d, st) \<in> set pend. get_status d (w_state w) = Some st"
    and "\<And>w'. settled_world w' \<Longrightarrow> statuses_kept w w' \<Longrightarrow> Q () w'" and "\<And>e w'. settled_world w' \<Longrightarrow> E e w'" and "\<And>w'. settled_world w' \<Longrightarrow> H w'"
  shows "wp (flush_reports env cf pend) Q E H w"
  using assms(1,2,3)
proof (induction pend arbitrary: w)
  case Nil
  then show ?case by (simp add: flush_reports_def wp_simps statuses_kept_def)
next
  case (Cons p pend)
  obtain d st where p: "p = (d, st)" by fastforce
  have "wp (flush_report env cf (d, st)) (\<lambda>_. wp (flush_reports env cf pend) Q E H) E H w"
  proof (rule flush_report_settled [OF Cons.prems(1)])
    show "get_status d (w_state w) = Some st" using Cons.prems(2) p by simp
    fix w' assume w': "settled_world w'" "statuses_kept w w'"
    show "wp (flush_reports env cf pend) Q E H w'"
      by (rule Cons.IH [OF w'(1)]) (use Cons.prems w'(2) in \<open>auto simp: statuses_kept_def\<close>)
  qed (use assms in auto)
  then show ?case using p by (simp add: flush_reports_def wp_bind)
qed

lemma due_statuses:
  assumes "bt_wf (js_deployments s)"
  shows "\<forall>(d, st) \<in> set (map (\<lambda>(d, o1). (d, the (oc_status o1))) (filter (due_report now retries attempted) (js_deployments s))). get_status d s = Some st"
proof -
  have "get_status d s = Some (the (oc_status o1))" if "(d, o1) \<in> set (js_deployments s)" "due_report now retries attempted (d, o1)" for d o1
    using that bt_get_iff [OF assms, of d o1] by (auto simp: due_report_def get_status_def)
  then show ?thesis by auto
qed

lemma flush_settled:
  assumes w: "settled_world w"
    and Q: "\<And>w'. settled_world w' \<Longrightarrow> statuses_kept w w' \<Longrightarrow> Q () w'" and E: "\<And>e w'. settled_world w' \<Longrightarrow> E e w'" and H: "\<And>w'. settled_world w' \<Longrightarrow> H w'"
  shows "wp (flush_funded_reports env cf validated attempted) Q E H w"
proof (cases "mo_alive (env (w_tick w))")
  case False
  then show ?thesis using w H by (simp add: flush_funded_reports_def wp_bind wp_ask settled_world_def)
next
  case True
  let ?now = "mo_instant (env (w_tick w))" and ?w = "w\<lparr>w_tick := Suc (w_tick w)\<rparr>"
  let ?pend = "map (\<lambda>(d, o1). (d, the (oc_status o1))) (filter (due_report ?now (w_retries w) attempted) (js_deployments (w_state w)))"
  let ?v = "?w\<lparr>w_retries := fold (\<lambda>(d, _). bt_insert d (?now + 1000000000 * retry_seconds cf)) ?pend (w_retries w)\<rparr>"
  have wf: "bt_wf (js_deployments (w_state w))" using w by (simp add: settled_world_def ledger_def good_def)
  have v: "settled_world ?v" "statuses_kept w ?v" "settled_world ?w" "statuses_kept w ?w" using w by (auto simp: settled_world_def statuses_kept_def ledger_def synced_def)
  have tail: "wp (bind (if validated then ret () else bind (ask_chain env cv_validate) (\<lambda>_. validate_cap env cf (st_cap cf) (st_device cf))) (\<lambda>_.
       bind (if st_budget cf then fund_reports env else ret ()) (\<lambda>_. flush_reports env cf ?pend))) Q E H ?v"
    unfolding wp_bind [of "if _ then ret () else _"] wp_bind [of "if _ then fund_reports env else _"]
  proof (rule wp_settled [OF _ v(1)])
    show "within_rel tame (if validated then ret () else bind (ask_chain env cv_validate) (\<lambda>_. validate_cap env cf (st_cap cf) (st_device cf)))"
      by (auto intro!: tame.frame_rules tame_within [OF reads_within_quiet [OF reads_cap]])
    fix x :: unit and u assume u: "settled_world u" "statuses_kept ?v u"
    show "wp (if st_budget cf then fund_reports env else ret ()) (\<lambda>_. wp (flush_reports env cf ?pend) Q E H) E H u"
    proof (rule wp_settled [OF _ u(1)])
      show "within_rel tame (if st_budget cf then fund_reports env else ret ())" by (auto intro!: tame.frame_rules tame_within [OF quiet_fund])
      fix y :: unit and t assume t: "settled_world t" "statuses_kept u t"
      have k: "statuses_kept w t" using v(2) u(2) t(2) by (simp add: statuses_kept_def)
      have "\<forall>(d, st) \<in> set ?pend. get_status d (w_state t) = Some st" using due_statuses [OF wf, of ?now "w_retries w" attempted] k unfolding statuses_kept_def by auto
      then show "wp (flush_reports env cf ?pend) Q E H t" by (rule flush_reports_settled [OF t(1)]) (use Q E H k in \<open>auto simp: statuses_kept_def\<close>)
    qed (use E H in auto)
  qed (use E H in auto)
  show ?thesis
  proof (cases "?pend = []")
    case True
    then show ?thesis using \<open>mo_alive (env (w_tick w))\<close> Q v(3,4) by (simp add: flush_funded_reports_def wp_bind wp_ask wp_gets wp_ret wp_def [of get_retries] get_retries_def)
  next
    case False
    have eq: "wp (flush_funded_reports env cf validated attempted) Q E H w = wp (bind (if validated then ret () else bind (ask_chain env cv_validate) (\<lambda>_. validate_cap env cf (st_cap cf) (st_device cf))) (\<lambda>_.
       bind (if st_budget cf then fund_reports env else ret ()) (\<lambda>_. flush_reports env cf ?pend))) Q E H ?v"
      using True False by (simp add: flush_funded_reports_def wp_bind [of "ask env _"] wp_bind [of "gets _"] wp_bind [of get_retries] wp_bind [of "set_retries _"] wp_ask wp_gets
        wp_def [of get_retries] get_retries_def wp_def [of "set_retries _"] set_retries_def)
    then show ?thesis using tail by simp
  qed
qed

section \<open>Execution\<close>

text \<open>What holds of a deployment that has not been reported, before and after each step towards its decision.\<close>

definition undecided :: "string \<Rightarrow> world \<Rightarrow> world \<Rightarrow> bool" where
  "undecided d w w' \<longleftrightarrow> ledger w' \<and> silent d w' \<and> (synced w \<longrightarrow> synced w')"

lemma undecided_steady: "steady w w' \<Longrightarrow> silent d w \<Longrightarrow> undecided d w w'"
  by (simp add: steady_def undecided_def silent_def)

lemma undecided_trans: "undecided d w w1 \<Longrightarrow> undecided d w1 w2 \<Longrightarrow> undecided d w w2"
  by (simp add: undecided_def)

lemma undecided_tame: "ledger w \<Longrightarrow> silent d w \<Longrightarrow> tame w w' \<Longrightarrow> undecided d w w'"
  using ledger_tame synced_disk by (auto simp: undecided_def tame_def silent_def)

lemma synced_forget:
  assumes "synced w" and "\<And>i. get_status i (w_state v) = (if i = d then None else get_status i (w_state w))" and "w_disk v = w_disk w"
  shows "synced v"
  using assms by (simp add: synced_def)

lemma ledger_admitted:
  assumes l: "ledger w" and n: "EvAdmitted d \<notin> set (w_log w)" and s: "saves w w'" and h: "bt_has (js_deployments (w_state w)) d"
  shows "installing d (w'\<lparr>w_log := w_log w' @ [EvAdmitted d]\<rparr>)"
proof -
  have g: "good (w_log w @ [EvAdmitted d]) (w_state w)" using l h by (auto simp: ledger_def good_def)
  have "blocks (w_log w @ [EvAdmitted d])" using l by (auto simp: ledger_def intro: blocks_other)
  moreover have "distinct (admitted (w_log w @ [EvAdmitted d]))" using l n by (simp add: ledger_def set_admitted)
  ultimately have "ledger (w'\<lparr>w_log := w_log w' @ [EvAdmitted d]\<rparr>)" using g s by (simp add: ledger_def saves_def good_file_def)
  then show ?thesis by (auto simp: installing_def intro: exI [of _ "[]"])
qed

lemma intent_sound:
  fixes w ev
  defines "d \<equiv> ev_deployment ev"
  assumes l: "ledger w" and q: "silent d w" and n: "EvAdmitted d \<notin> set (w_log w)"
    and Q: "\<And>w'. installing d w' \<Longrightarrow> undecided d w w' \<Longrightarrow> Q () w'" and E: "\<And>e w'. undecided d w w' \<Longrightarrow> E e w'" and H: "\<And>w'. ledger w' \<Longrightarrow> H w'"
  shows "wp (begin_intent env ev) Q E H w"
proof -
  let ?f = "\<lambda>s. (insert_outcome d default_outcome s)\<lparr>js_current := bt_insert (ev_component ev) d (js_current s), js_deferred := bt_remove d (js_deferred s)\<rparr>"
  let ?v = "w\<lparr>w_state := ?f (w_state w)\<rparr>"
  have dep: "js_deployments (?f s) = js_deployments (update_outcome d (\<lambda>_. default_outcome) s)" for s by (simp add: insert_outcome_def update_outcome_def)
  have st: "get_status i (w_state ?v) = (if i = d then None else get_status i (w_state w))" for i
    using get_status_update [of i d "\<lambda>_. default_outcome" "w_state w"] dep by (simp add: get_status_def default_outcome_def)
  have v: "ledger ?v" using ledger_update [OF l q, of "\<lambda>_. default_outcome"] dep by (simp add: ledger_def good_def get_status_def)
  have has: "bt_has (js_deployments (w_state ?v)) d" by (simp add: insert_outcome_def)
  have sync: "synced w \<longrightarrow> synced ?v" using synced_forget [of w ?v d] st by simp
  have "wp (save env) (\<lambda>_. wp (emit (EvAdmitted d)) Q E H) E H ?v"
  proof (rule save_ledger [OF v])
    fix w' assume w': "ledger w'" "synced w'" "saves ?v w'"
    let ?u = "w'\<lparr>w_log := w_log w' @ [EvAdmitted d]\<rparr>"
    have "installing d ?u" by (rule ledger_admitted [OF v _ w'(3) has]) (use n in simp)
    moreover have "silent d ?u" using w'(3) q by (auto simp: saves_def silent_def)
    ultimately show "wp (emit (EvAdmitted d)) Q E H w'" using Q [of ?u] w'(2) by (simp add: wp_emit undecided_def installing_def)
  next
    fix e w' assume w': "ledger w'" "save_fails ?v w'"
    then have "synced w \<longrightarrow> synced w'" using sync synced_save_fails by blast
    then show "E e w'" using w' q by (intro E) (simp add: undecided_def silent_def save_fails_def)
  qed (use H in auto)
  then show ?thesis by (simp add: begin_intent_def wp_bind wp_modify d_def)
qed

lemma handle_sound:
  fixes rs
  defines "d \<equiv> ev_deployment (rs_event rs)"
  assumes l: "ledger w" and q: "silent d w" and n: "EvAdmitted d \<notin> set (w_log w)"
  shows "wp (handle_deployment env cf rs) (\<lambda>_. undecided d w)
     (\<lambda>e w'. ledger w' \<and> silent d w' \<and> (ft_kind e \<noteq> RecoveryRequired \<longrightarrow> undecided d w w')) ledger w" (is "wp _ ?Q ?E ?H w")
proof -
  have prep: "within_rel tame (prepare_deployment env cf rs)" by (rule tame_within [OF quiet_prepare])
  have ok: "?E e v" if "undecided d w v" for e v using that by (simp add: undecided_def)
  have ins: "within_rel (installs d) (each (install_one env cf d) xs)" for xs by (intro ins.frame_each ins_install)
  have commit: "wp (services_commit env new (Some d)) ?Q ?E ?H v" if v: "undecided d w v" for new v
  proof (rule wp_mono [OF commit_steady [of v "Some d"]])
    fix x w' assume "steady v w'" then show "undecided d w w'" using v undecided_steady undecided_trans by (meson undecided_def)
  next
    fix e :: fault and w' assume a: "ledger w' \<and> w_log w' = w_log v \<and> (ft_kind e \<noteq> RecoveryRequired \<longrightarrow> steady v w')"
    then have "ledger w'" "silent d w'" using v by (auto simp: undecided_def silent_def)
    moreover have "undecided d w w'" if "ft_kind e \<noteq> RecoveryRequired" using a that v undecided_steady undecided_trans by (meson undecided_def)
    ultimately show "?E e w'" by blast
  qed (use v in \<open>auto simp: undecided_def\<close>)
  have rest: "wp (bind (each (install_one env cf d) xs) (\<lambda>_. services_commit env new (Some d))) ?Q ?E ?H v"
    if v: "installing d v" "undecided d w v" for xs new v
  proof -
    have i: "undecided d w u" if "installs d v u" for u
    proof -
      have "installing d u" by (rule installing_installs [OF v(1) that])
      moreover have "silent d u" using v(2) silent_installs [OF that, of d] by (simp add: undecided_def)
      moreover have "synced v \<longrightarrow> synced u" using that synced_disk by (auto simp: installs_def)
      ultimately show ?thesis using v(2) by (simp add: undecided_def installing_def)
    qed
    show ?thesis unfolding wp_bind [of "each _ _"]
    proof (rule within_wp [OF ins])
      show "ledger u" if "installs d v u" for u using i [OF that] by (simp add: undecided_def)
    qed (erule commit [OF i], erule ok [OF i])
  qed
  have intent: "wp (bind (begin_intent env (rs_event rs)) (\<lambda>_. bind (each (install_one env cf d) xs) (\<lambda>_. services_commit env new (Some d)))) ?Q ?E ?H v"
    if t: "tame w v" for v xs new
  proof -
    have v: "undecided d w v" by (rule undecided_tame [OF l q t])
    have n': "EvAdmitted d \<notin> set (w_log v)" using n t by (simp add: tame_def)
    show ?thesis unfolding wp_bind [of "begin_intent _ _"]
    proof (rule intent_sound; (fold d_def)?)
      show "ledger v" "silent d v" using v by (auto simp: undecided_def)
      show "wp (bind (each (install_one env cf d) xs) (\<lambda>_. services_commit env new (Some d))) ?Q ?E ?H u" if "installing d u" "undecided d v u" for u
        by (rule rest [OF that(1) undecided_trans [OF v that(2)]])
      show "?E e u" if "undecided d v u" for e u by (rule ok [OF undecided_trans [OF v that]])
    qed (use n' in auto)
  qed
  show ?thesis unfolding handle_deployment_def wp_bind [of "prepare_deployment _ _ _"] d_def [symmetric]
  proof (rule within_wp [OF prep])
    show "ledger v" if "tame w v" for v by (rule ledger_tame [OF l that])
    show "wp (case x of (new, xs) \<Rightarrow> bind (begin_intent env (rs_event rs)) (\<lambda>_. bind (each (install_one env cf d) xs) (\<lambda>_. services_commit env new (Some d)))) ?Q ?E ?H v"
      if "tame w v" for x v by (cases x) (simp add: intent [OF that])
    show "?E e v" if "tame w v" for e v by (rule ok [OF undecided_tame [OF l q that]])
  qed
qed

text \<open>Recording an outcome, saving it and reporting.\<close>

lemma record_save:
  assumes l: "ledger w" and q: "silent d w"
    and Q: "\<And>w'. settled_world w' \<Longrightarrow> Q () w'" and E: "\<And>e w'. ledger w' \<Longrightarrow> E e w'" and H: "\<And>w'. ledger w' \<Longrightarrow> H w'"
  shows "wp (modify (update_outcome d f)) (\<lambda>_. wp (save env) Q E H) E H w"
  using ledger_update [OF l q, of f] unfolding wp_modify by (intro save_ledger) (use Q E H in \<open>auto simp: settled_world_def\<close>)

lemma settled_ledger: "settled_world w \<Longrightarrow> ledger w \<and> (synced v \<longrightarrow> synced w)"
  by (simp add: settled_world_def)

lemma finish_sound:
  assumes l: "ledger w" and q: "silent d w" and r: "\<And>e. r = Inl e \<Longrightarrow> ft_kind e \<noteq> RecoveryRequired \<Longrightarrow> synced w0 \<Longrightarrow> synced w"
  shows "wp (finish_deployment env cf d r) (\<lambda>_ w'. ledger w' \<and> (synced w0 \<longrightarrow> synced w')) (\<lambda>_. ledger) ledger w" (is "wp _ ?Q ?E ?H w")
proof -
  have flush: "wp (flush_funded_reports env cf False []) (\<lambda>_. wp (ret st) ?Q ?E ?H) ?E ?H v" if "settled_world v" for v st
    by (rule flush_settled [OF that]) (simp_all add: wp_ret settled_world_def)
  have "wp (modify (update_outcome d (record_result r))) (\<lambda>_. wp (gets (get_status d)) (\<lambda>st. wp (save env)
     (\<lambda>_. wp (flush_funded_reports env cf False []) (\<lambda>_. wp (ret st) ?Q ?E ?H) ?E ?H) ?E ?H) ?E ?H) ?E ?H w"
    unfolding wp_gets wp_modify [symmetric] using record_save [OF l q, where E = ?E and H = ?H] flush by (simp add: wp_modify)
  then have main: "wp (bind (modify (update_outcome d (record_result r))) (\<lambda>_. bind (gets (get_status d)) (\<lambda>st. bind (save env) (\<lambda>_.
       bind (flush_funded_reports env cf False []) (\<lambda>_. ret st))))) ?Q ?E ?H w" by (simp add: wp_bind_fun)
  show ?thesis
  proof (cases r)
    case (Inl e)
    then show ?thesis using main r l by (auto simp: finish_deployment_def failed_with_def wp_ret wp_bind [of "lift _"] wp_lift)
  next
    case (Inr u)
    then show ?thesis using main by (simp add: finish_deployment_def failed_with_def)
  qed
qed

text \<open>Nothing is logged but staged updates of the daemon.\<close>

definition stages :: "world \<Rightarrow> world \<Rightarrow> bool" where
  "stages w w' \<longleftrightarrow> (\<exists>ds. w_log w' = w_log w @ map EvStaged ds) \<and> tame_disk w w'"

interpretation stg: run_frame stages
proof
  show "stages w w" for w by (auto simp: stages_def tame_disk_refl)
  show "stages w w''" if "stages w w'" "stages w' w''" for w w' w''
    using that unfolding stages_def by (metis append_assoc map_append tame_disk_trans)
qed (auto simp: stages_def intro: tame_disk_skip)

lemma tame_stages: "tame w w' \<Longrightarrow> stages w w'"
  by (auto simp: tame_def stages_def)

lemma stages_within: "within_rel quiet m \<Longrightarrow> within_rel stages m"
  by (rule within_rel_weaken [OF _ tame_stages]) (rule tame_within)

lemma stg_emit: "within_rel stages (emit (EvStaged d))"
  by (auto simp: within_rel_def emit_def stages_def intro: tame_disk_skip exI [of _ "[d]"])

lemma stg_handoff: "within_rel stages (stage_handoff env cf rs)"
  by (auto simp: stage_handoff_def Let_def intro!: stg.frame_rules stg_emit stages_within [OF quiet_readmit])

lemma ledger_stages:
  assumes l: "ledger w" and s: "stages w w'"
  shows "ledger w'"
proof -
  obtain ds where log: "w_log w' = w_log w @ map EvStaged ds" and t: "tame_disk w w'" using s by (auto simp: stages_def)
  have b: "blocks (lg @ map EvStaged ds)" if "blocks lg" for lg
    using that
  proof (induction ds arbitrary: lg)
    case (Cons a ds)
    have "blocks ((lg @ [EvStaged a]) @ map EvStaged ds)" by (intro Cons.IH blocks_other Cons.prems) simp
    then show ?case by simp
  qed simp
  have a: "admitted (map EvStaged ds) = []" by (simp add: admitted_def List.map_filter_def comp_def)
  have g: "good (lg @ map EvStaged ds) s \<longleftrightarrow> good lg s" "good_file (lg @ map EvStaged ds) f \<longleftrightarrow> good_file lg f" for lg s f
    by (auto simp: good_def good_file_def split: state_file.splits)
  have "good (w_log w) (w_state w')" "good_file (w_log w) (dk_file (w_disk w'))" "good_file (w_log w) (dk_durable (w_disk w'))"
    using l t good_le good_file_le unfolding ledger_def tame_disk_def by blast+
  then show ?thesis using l log a b g by (simp add: ledger_def)
qed

lemma undecided_stages: "ledger w \<Longrightarrow> silent d w \<Longrightarrow> stages w w' \<Longrightarrow> undecided d w w'"
  using ledger_stages synced_disk by (auto simp: undecided_def stages_def silent_def)

lemma stage_daemon_sound:
  fixes rs
  defines "d \<equiv> ev_deployment (rs_event rs)"
  assumes l: "ledger w" and q: "silent d w"
  shows "wp (stage_daemon_update env cf rs) (\<lambda>_ w'. ledger w' \<and> (synced w \<longrightarrow> synced w')) (\<lambda>_. ledger) ledger w" (is "wp _ ?Q ?E ?H w")
proof -
  let ?f = "\<lambda>s. (update_outcome d (\<lambda>o1. o1\<lparr>oc_handoff := Some (ev_version (rs_event rs))\<rparr>) s)\<lparr>js_deferred := bt_remove d (js_deferred s)\<rparr>"
  have yes: "wp (bind (modify ?f) (\<lambda>_. bind (save env) (\<lambda>_. fail e))) ?Q ?E ?H v" if v: "undecided d w v" for v e
  proof -
    have "ledger (v\<lparr>w_state := ?f (w_state v)\<rparr>)" using ledger_update [of v d] v by (simp add: undecided_def ledger_def good_def get_status_def)
    from save_ledger [OF this] show ?thesis unfolding wp_bind_fun wp_modify by (simp add: wp_fail)
  qed
  have no: "wp (bind (modify (update_outcome d (record_result (Inl e)))) (\<lambda>_. bind (gets (get_status d)) (\<lambda>st. bind (save env) (\<lambda>_. ret st)))) ?Q ?E ?H v"
    if v: "undecided d w v" for v e
    using record_save [of v d, where E = ?E and H = ?H] v by (simp add: wp_bind_fun wp_modify wp_gets wp_ret undecided_def settled_world_def)
  have pre: "within_rel stages (ask_supply env su_file)" by (intro stg.frame_rules)
  have main: "wp (bind (attempt (stage_handoff env cf rs)) (\<lambda>staged. case staged of
        Inr _ \<Rightarrow> bind (modify ?f) (\<lambda>_. bind (save env) (\<lambda>_. fail \<lparr>ft_kind = HandoffRequested, ft_text = ''daemon update staged''\<rparr>))
      | Inl e \<Rightarrow> if ft_kind e = NotAdmitted then ret None
          else bind (modify (update_outcome d (record_result (Inl e)))) (\<lambda>_. bind (gets (get_status d)) (\<lambda>st. bind (save env) (\<lambda>_. ret st))))) ?Q ?E ?H v"
    if v: "undecided d w v" for v
  proof -
    have u: "undecided d w u" if "stages v u" for u using undecided_trans [OF v undecided_stages [OF _ _ that]] v by (simp add: undecided_def)
    have "wp (if ft_kind e = NotAdmitted then ret None
          else bind (modify (update_outcome d (record_result (Inl e)))) (\<lambda>_. bind (gets (get_status d)) (\<lambda>st. bind (save env) (\<lambda>_. ret st)))) ?Q ?E ?H t"
      if "undecided d w t" for e t using no [OF that] that by (simp add: wp_ret undecided_def)
    then show ?thesis unfolding wp_bind_attempt sum.case
      by (intro within_wp [OF stg_handoff]) (use u yes in \<open>auto simp: undecided_def\<close>)
  qed
  show ?thesis unfolding stage_daemon_update_def Let_def wp_bind [of "ask_supply _ _"] d_def [symmetric]
  proof (rule within_wp [OF pre])
    fix v assume "stages w v"
    then have v: "undecided d w v" by (rule undecided_stages [OF l q])
    show "ledger v" using v by (simp add: undecided_def)
    then show "?E e v" for e .
    show "wp (bind (attempt (stage_handoff env cf rs)) (\<lambda>staged. case staged of
        Inr _ \<Rightarrow> bind (modify ?f) (\<lambda>_. bind (save env) (\<lambda>_. fail \<lparr>ft_kind = HandoffRequested, ft_text = ''daemon update staged''\<rparr>))
      | Inl e \<Rightarrow> if ft_kind e = NotAdmitted then ret None
          else bind (modify (update_outcome d (record_result (Inl e)))) (\<lambda>_. bind (gets (get_status d)) (\<lambda>st. bind (save env) (\<lambda>_. ret st))))) ?Q ?E ?H v" for x
      using main [OF v] by simp
  qed
qed

lemma handle_finish:
  fixes rs
  defines "d \<equiv> ev_deployment (rs_event rs)"
  assumes l: "ledger w" and q: "silent d w" and n: "EvAdmitted d \<notin> set (w_log w)"
  shows "wp (bind (attempt (handle_deployment env cf rs)) (\<lambda>r. finish_deployment env cf d r))
     (\<lambda>_ w'. ledger w' \<and> (synced w \<longrightarrow> synced w')) (\<lambda>_. ledger) ledger w" (is "wp _ ?Q ?E ?H w")
  unfolding wp_bind_attempt d_def
proof (rule wp_mono [OF handle_sound]; (fold d_def)?)
  show "ledger w" "silent d w" "EvAdmitted d \<notin> set (w_log w)" by fact+
  fix x v assume "undecided d w v"
  then show "wp (finish_deployment env cf d (Inr x)) ?Q ?E ?H v" by (intro finish_sound) (auto simp: undecided_def)
next
  fix e :: fault and v assume "ledger v \<and> silent d v \<and> (ft_kind e \<noteq> RecoveryRequired \<longrightarrow> undecided d w v)"
  then show "wp (finish_deployment env cf d (Inl e)) ?Q ?E ?H v" by (intro finish_sound) (auto simp: undecided_def)
qed

text \<open>The part of an execution that follows the admission and the reading of the deployment's recipe.\<close>

definition perform :: "environment \<Rightarrow> settings \<Rightarrow> deployment_event \<Rightarrow> resolved \<Rightarrow> nat option run" where
  "perform env cf ev rs = (if st_daemon_component cf = Some (ev_component ev) then stage_daemon_update env cf rs
     else bind (ask_supply env su_file) (\<lambda>_.
          bind (attempt (handle_deployment env cf rs)) (\<lambda>r. finish_deployment env cf (ev_deployment ev) r)))"

definition dismiss :: "environment \<Rightarrow> deployment_event \<Rightarrow> fault \<Rightarrow> nat option run" where
  "dismiss env ev e =
     bind (modify (insert_outcome (ev_deployment ev) (record_result (Inl (plain (ft_text e))) default_outcome))) (\<lambda>_.
     bind (gets (get_status (ev_deployment ev))) (\<lambda>status.
     bind (save env) (\<lambda>_. ret status)))"

lemma execute_unfold: "execute env cf ev rcd =
     bind (must (same_type (ob_type rcd) (st_move_type cf ''deployment_manager::DeploymentRecord'')) (plain ''wrong deployment type'')) (\<lambda>_.
     bind (gets (ensure_receipt_room (st_sizes cf) (ev_deployment ev))) (\<lambda>room.
     bind (lift room) (\<lambda>_.
     bind (gets (funding_blocked cf)) (\<lambda>blocked.
     bind (must (\<not> blocked) (plain ''network funding unavailable; new deployments paused, installed applications unchanged'')) (\<lambda>_.
     bind (admit env cf (ev_deployment ev)) (\<lambda>admitted.
     if \<not> admitted then ret None
     else bind (attempt (catalog_resolve env cf ev (ob_fields rcd))) (\<lambda>found. case found of Inl e \<Rightarrow> dismiss env ev e | Inr rs \<Rightarrow> perform env cf ev rs)))))))"
  unfolding execute_def perform_def dismiss_def by (rule refl)

lemma perform_sound:
  assumes l: "ledger w" and q: "silent d w" and n: "EvAdmitted d \<notin> set (w_log w)" and d: "ev_deployment ev = d" "ev_deployment (rs_event rs) = d"
  shows "wp (perform env cf ev rs) (\<lambda>_ w'. ledger w' \<and> (synced w \<longrightarrow> synced w')) (\<lambda>_. ledger) ledger w" (is "wp _ ?Q ?E ?H w")
proof (cases "st_daemon_component cf = Some (ev_component ev)")
  case True
  then show ?thesis using stage_daemon_sound [of w rs env cf] l q d by (simp add: perform_def)
next
  case False
  have pre: "within_rel tame (ask_supply env su_file)" by (intro tame.frame_rules)
  have "wp (ask_supply env su_file) (\<lambda>_. wp (bind (attempt (handle_deployment env cf rs)) (\<lambda>r. finish_deployment env cf d r)) ?Q ?E ?H) ?E ?H w"
  proof (rule within_wp [OF pre])
    fix x v assume t: "tame w v"
    then have v: "undecided d w v" by (rule undecided_tame [OF l q])
    have "EvAdmitted d \<notin> set (w_log v)" using n t by (simp add: tame_def)
    then have "wp (bind (attempt (handle_deployment env cf rs)) (\<lambda>r. finish_deployment env cf d r)) (\<lambda>_ w'. ledger w' \<and> (synced v \<longrightarrow> synced w')) ?E ?H v"
      using handle_finish [of v rs env cf] v d by (simp add: undecided_def)
    then show "wp (bind (attempt (handle_deployment env cf rs)) (\<lambda>r. finish_deployment env cf d r)) ?Q ?E ?H v"
      by (rule wp_mono) (use v in \<open>auto simp: undecided_def\<close>)
  qed (use l ledger_tame in blast)+
  then show ?thesis using False d by (simp add: perform_def wp_bind [of "ask_supply _ _"])
qed

lemma dismiss_sound:
  assumes l: "ledger w" and q: "silent (ev_deployment ev) w"
  shows "wp (dismiss env ev e) (\<lambda>_ w'. ledger w' \<and> (synced w \<longrightarrow> synced w')) (\<lambda>_. ledger) ledger w"
proof -
  have "insert_outcome d o1 s = update_outcome d (\<lambda>_. o1) s" for d o1 s by (simp add: insert_outcome_def update_outcome_def)
  then show ?thesis using record_save [OF l q, where E = "\<lambda>_. ledger" and H = ledger] by (simp add: dismiss_def wp_bind_fun wp_modify wp_gets wp_ret settled_world_def)
qed

lemma wp_conj_returns: "wp m Q E H w \<Longrightarrow> returns m P \<Longrightarrow> wp m (\<lambda>x w'. P x \<and> Q x w') E H w"
  by (auto simp: wp_def returns_def split: prod.splits answer.splits)

text \<open>
  Executing a deployment the journal does not know keeps the ledger, however it ends, and when it returns a
  value every status in memory is as durable as before.
\<close>

lemma execute_sound:
  assumes l: "ledger w" and fresh: "\<not> bt_has (js_deployments (w_state w)) (ev_deployment ev)"
  shows "wp (execute env cf ev rcd) (\<lambda>_ w'. ledger w' \<and> (synced w \<longrightarrow> synced w')) (\<lambda>_. ledger) ledger w" (is "wp _ ?Q ?E ?H w")
proof -
  let ?d = "ev_deployment ev"
  have q: "silent ?d w" and n: "EvAdmitted ?d \<notin> set (w_log w)" using fresh_silent [OF l fresh] by auto
  have res: "within_rel tame (catalog_resolve env cf ev fs)" for fs by (rule tame_within [OF reads_within_quiet [OF reads_resolve]])
  have lift: "wp m (\<lambda>_ w'. ledger w' \<and> (synced v \<longrightarrow> synced w')) ?E ?H v \<Longrightarrow> undecided ?d w v \<Longrightarrow> wp m ?Q ?E ?H v" for m :: "nat option run" and v
    by (erule wp_mono) (auto simp: undecided_def)
  have rest: "wp (catalog_resolve env cf ev fs) (\<lambda>rs. wp (perform env cf ev rs) ?Q ?E ?H) (\<lambda>e. wp (dismiss env ev e) ?Q ?E ?H) ?H v" if t: "tame w v" for v fs
  proof -
    have "wp (catalog_resolve env cf ev fs) (\<lambda>rs. tame w) (\<lambda>e. tame w) (tame w) v" by (rule within_wp [OF res]) (use tame.trans [OF t] in auto)
    from wp_conj_returns [OF this resolve_keeps_deployment] show ?thesis
    proof (rule wp_mono)
      fix rs :: resolved and u assume a: "ev_deployment (rs_event rs) = ?d \<and> tame w u"
      then have u: "undecided ?d w u" "EvAdmitted ?d \<notin> set (w_log u)" using undecided_tame [OF l q] n by (auto simp: tame_def)
      then show "wp (perform env cf ev rs) ?Q ?E ?H u" using a by (intro lift [OF perform_sound]) (auto simp: undecided_def)
    next
      fix e u assume "tame w u"
      then have u: "undecided ?d w u" by (rule undecided_tame [OF l q])
      then show "wp (dismiss env ev e) ?Q ?E ?H u" by (intro lift [OF dismiss_sound]) (auto simp: undecided_def)
    qed (rule ledger_tame [OF l])
  qed
  have ad: "within_rel tame (admit env cf ?d)" by (rule tame_within [OF quiet_admit])
  have "wp (admit env cf ?d) (\<lambda>b. wp (if \<not> b then ret None
     else bind (attempt (catalog_resolve env cf ev fs)) (\<lambda>found. case found of Inl e \<Rightarrow> dismiss env ev e | Inr rs \<Rightarrow> perform env cf ev rs)) ?Q ?E ?H) ?E ?H w" for fs
  proof (rule within_wp [OF ad])
    fix b v assume t: "tame w v"
    show "wp (if \<not> b then ret None
       else bind (attempt (catalog_resolve env cf ev fs)) (\<lambda>found. case found of Inl e \<Rightarrow> dismiss env ev e | Inr rs \<Rightarrow> perform env cf ev rs)) ?Q ?E ?H v"
      using rest [OF t] undecided_tame [OF l q t] by (simp add: wp_ret wp_bind_attempt undecided_def)
  qed (use ledger_tame [OF l] in auto)
  then show ?thesis using l
    by (simp add: execute_unfold wp_bind [of "must _ _"] wp_bind [of "gets _"] wp_bind [of "lift _"] wp_bind [of "admit _ _ _"] wp_must wp_gets wp_lift split: sum.splits)
qed

end
