(* ===== verification/PollLoop.thy ===== *)
theory PollLoop
  imports Decisions
begin

text \<open>
  The poll loop of the daemon (\<open>linux_main.rs\<close>): what a start does with an interrupted run, one poll
  (recoveries, late firmware results, receipts, announced and discovered deployments, deferred ones and the
  desired state of the groups) and a deployment requested locally. A loop over pages of events carries the
  number of pages it may still read; a run that would need more is cut off there.
\<close>

section \<open>Configuration and late results\<close>

definition retained_deferrals :: "journal_state \<Rightarrow> (string, u64) btree" where
  "retained_deferrals s = filter (\<lambda>(d, _). (case map_of (js_deferred s) d of Some n \<Rightarrow> \<not> df_terminal n | None \<Rightarrow> False)
     \<and> \<not> bt_has (js_deployments s) d) (js_deferrals s)"

definition settled_by :: "(string \<Rightarrow> string option) \<Rightarrow> journal_state \<Rightarrow> string \<Rightarrow> string \<Rightarrow> settled" where
  "settled_by committed s name d =
     (if (case map_of (js_components s) name of Some c \<Rightarrow> cp_confirmed c \<and> cp_deployment c = d | None \<Rightarrow> False) \<or> committed name = Some d
      then Committed
      else if (case map_of (js_deployments s) d of Some o1 \<Rightarrow> oc_status o1 = None | None \<Rightarrow> False) then Pending
      else Abandoned)"

definition settle_configuration :: "environment \<Rightarrow> unit run" where
  "settle_configuration env =
     bind (gets (\<lambda>s. length (js_deferrals s))) (\<lambda>earlier.
     bind (modify (\<lambda>s. s\<lparr>js_deferrals := retained_deferrals s\<rparr>)) (\<lambda>_.
     bind (gets (\<lambda>s. length (js_deferrals s))) (\<lambda>after.
     bind (if after \<noteq> earlier then save env else ret ()) (\<lambda>_.
     bind (ask env (\<lambda>m. mv_committed (mo_machine m))) (\<lambda>committed.
     bind (gets (settled_by committed)) (\<lambda>outcome.
     configs env (cfg_settle outcome)))))))"

text \<open>The acknowledgement only removes the helper's files.\<close>

definition collect_one :: "environment \<Rightarrow> string \<times> string \<Rightarrow> unit run" where
  "collect_one env e = (case e of (d, request) \<Rightarrow>
     bind (ask_machine env (\<lambda>m. mv_collect m request)) (\<lambda>found. case found of None \<Rightarrow> ret ()
     | Some r \<Rightarrow>
         bind (modify (update_outcome d (record_result r))) (\<lambda>_.
         bind (gets (get_status d)) (\<lambda>status.
         bind (if status = Some STATUS_APPLIED then modify (confirm_components d) else ret ()) (\<lambda>_.
         save env)))))"

definition waiting_results :: "journal_state \<Rightarrow> (string \<times> string) list" where
  "waiting_results s = List.map_filter (\<lambda>(d, o1). map_option (Pair d) (oc_firmware o1)) (filter (\<lambda>(d, o1). oc_status o1 = None) (js_deployments s))"

definition collect_firmware_results :: "environment \<Rightarrow> unit run" where
  "collect_firmware_results env = bind (gets waiting_results) (each (collect_one env))"

definition settle_handoff :: "environment \<Rightarrow> string \<Rightarrow> (fault, unit) result \<Rightarrow> unit run" where
  "settle_handoff env d r =
     bind (gets (get_status d)) (\<lambda>status.
     bind (if status = None then
             bind (modify (update_outcome d (\<lambda>o1. (record_result r o1)\<lparr>oc_handoff := None\<rparr>))) (\<lambda>_. save env)
           else ret ()) (\<lambda>_.
     ask_machine env mv_finish))"

section \<open>Service generations after a recovery\<close>

definition prune_grants :: "journal_state \<Rightarrow> generation \<Rightarrow> generation" where
  "prune_grants s g = Generation (gn_deployment g)
     ((gn_services g)\<lparr>se_grants := filter (\<lambda>(n, _). bt_has (js_components s) n) (se_grants (gn_services g))\<rparr>) (gn_previous g)"

definition reconcile_generation :: "journal_state \<Rightarrow> (string, string) btree \<Rightarrow> string \<times> generation \<Rightarrow> (string \<times> generation) option" where
  "reconcile_generation s recovered e = (case e of (rt, g) \<Rightarrow>
     (case map_of (js_components s) rt of None \<Rightarrow> None
      | Some c \<Rightarrow>
          if cp_confirmed c \<and> cp_deployment c \<noteq> gn_deployment g \<and> map_of recovered rt = Some (cp_deployment c)
          then (case gn_previous g of
                  Some p \<Rightarrow> if gn_deployment p = cp_deployment c then Some (rt, prune_grants s p) else None
                | None \<Rightarrow> None)
          else Some (rt, prune_grants s g)))"

definition services_reconcile :: "(string, string) btree \<Rightarrow> journal_state \<Rightarrow> (string, generation) btree" where
  "services_reconcile recovered s = List.map_filter (reconcile_generation s recovered) (js_services s)"

definition restore_identity :: "string \<Rightarrow> string \<Rightarrow> journal_state \<Rightarrow> journal_state option" where
  "restore_identity name d s = (case map_of (js_last_good s) name of
     Some c \<Rightarrow> if cp_deployment c = d
       then Some (s\<lparr>js_current := bt_insert name d (js_current s), js_components := bt_insert name c (js_components s)\<rparr>) else None
   | None \<Rightarrow> None)"

definition startup_identity :: "string \<times> string \<Rightarrow> unit run" where
  "startup_identity e = (case e of (name, d) \<Rightarrow>
     bind (gets (restore_identity name d)) (\<lambda>found. case found of
       Some _ \<Rightarrow> modify (\<lambda>s. case restore_identity name d s of Some t \<Rightarrow> t | None \<Rightarrow> s)
     | None \<Rightarrow>
         bind (gets (\<lambda>s. case map_of (js_components s) name of Some c \<Rightarrow> cp_confirmed c \<and> cp_deployment c = d | None \<Rightarrow> False)) (\<lambda>kept.
         must kept (plain ''application recovery receipt has no retained component identity''))))"

definition startup_recovery :: "environment \<Rightarrow> (string, string) btree \<Rightarrow> unit run" where
  "startup_recovery env recovered =
     bind (ask_machine env mv_recover_activation) (\<lambda>_.
     bind (gets js_services) (\<lambda>old.
     if recovered = [] \<and> old = [] then ret ()
     else
       bind (each startup_identity recovered) (\<lambda>_.
       bind (gets (services_reconcile recovered)) (\<lambda>new.
       if new = old then save env
       else
         bind (ask_machine env (\<lambda>m. mv_prepare m old)) (\<lambda>_.
         bind (ask_machine env (\<lambda>m. mv_prepare m new)) (\<lambda>_.
         bind (require_service_reader env) (\<lambda>_.
         bind (ask_machine env (\<lambda>m. mv_activation m new)) (\<lambda>_.
         bind (attempt (ask_machine env (\<lambda>m. mv_activate m new))) (\<lambda>staged. case staged of
           Inl e \<Rightarrow> bind (ask_machine env mv_recover_activation) (\<lambda>_. fail e)
         | Inr _ \<Rightarrow>
             bind (modify (\<lambda>s. s\<lparr>js_services := new\<rparr>)) (\<lambda>_.
             bind (save env) (\<lambda>_.
             ask_machine env mv_recover_activation)))))))))))"

section \<open>Start\<close>

definition open_journal :: "environment \<Rightarrow> settings \<Rightarrow> unit run" where
  "open_journal env cf = bind (ask env mo_open) (\<lambda>io w. case journal_open io (st_binding cf) (w_disk w) of
     (d, Inl e) \<Rightarrow> (Failed e, w\<lparr>w_disk := d\<rparr>)
   | (d, Inr s) \<Rightarrow> (Done (), w\<lparr>w_disk := d, w_state := s, w_retries := []\<rparr>))"

definition may_finish :: "machine_view \<Rightarrow> string \<Rightarrow> dep_outcome \<Rightarrow> bool" where
  "may_finish m d o1 = (if oc_handoff o1 \<noteq> None then True
     else case oc_firmware o1 of Some request \<Rightarrow> mv_firmware_pending m request | None \<Rightarrow> False)"

definition settle_interrupted :: "environment \<Rightarrow> unit run" where
  "settle_interrupted env =
     bind (ask env (\<lambda>m. may_finish (mo_machine m))) (\<lambda>pend.
     bind (modify (settle_deployments pend)) (\<lambda>_. save env))"

definition restore_configs :: "environment \<Rightarrow> string \<Rightarrow> unit run" where
  "restore_configs env name =
     bind (ask_machine env (\<lambda>m. mv_configuration m name)) (\<lambda>r. configs env (cfg_restore name r))"

definition resolve_handoff :: "environment \<Rightarrow> settings \<Rightarrow> string option run" where
  "resolve_handoff env cf =
     (if st_daemon_component cf = None then ret None
      else bind (ask_machine env mv_handoff) (\<lambda>r. case r of
        NoHandoff \<Rightarrow> ret None
      | ConfirmAfterStartup d \<Rightarrow> ret (Some d)
      | AppliedHandoff d \<Rightarrow> bind (settle_handoff env d (Inr ())) (\<lambda>_. ret None)
      | FailedHandoff d reason \<Rightarrow> bind (settle_handoff env d (Inl (plain reason))) (\<lambda>_. ret None)))"

text \<open>The remaining local startup (supervisor, service runtime, sockets) is one answer of the environment.\<close>

definition startup :: "environment \<Rightarrow> settings \<Rightarrow> unit run" where
  "startup env cf =
     bind (ask_chain env cv_validate) (\<lambda>_.
     bind (open_journal env cf) (\<lambda>_.
     bind (settle_interrupted env) (\<lambda>_.
     bind (resolve_handoff env cf) (\<lambda>confirm.
     bind (ask env (\<lambda>m. mv_recovered (mo_machine m))) (\<lambda>recovered.
     bind (each (restore_configs env) (bt_keys recovered)) (\<lambda>_.
     bind (startup_recovery env recovered) (\<lambda>_.
     bind (ask_machine env mv_resume) (\<lambda>_.
     case confirm of None \<Rightarrow> ret ()
     | Some d \<Rightarrow> bind (ask_machine env (\<lambda>m. mv_confirm m d)) (\<lambda>_. settle_handoff env d (Inr ()))))))))))"

section \<open>Event scan\<close>

definition advance :: "environment \<Rightarrow> bool \<Rightarrow> json \<Rightarrow> unit run" where
  "advance env combined c =
     bind (modify (\<lambda>s. s\<lparr>js_cursor := Some c, js_discovery := if combined then Some c else js_discovery s\<rparr>)) (\<lambda>_. save env)"

definition scan_event :: "environment \<Rightarrow> settings \<Rightarrow> bool \<Rightarrow> deployment_event \<times> json \<Rightarrow> unit run" where
  "scan_event env cf combined e = (case e of (ev, c) \<Rightarrow>
     bind (gets (\<lambda>s. bt_has (js_deployments s) (ev_deployment ev))) (\<lambda>known.
     if known then advance env combined c
     else bind (authorized_target env cf ev (st_device cf)) (\<lambda>targeted.
       if \<not> targeted then advance env combined c
       else bind (optional_object env (ev_deployment ev)) (\<lambda>found. case found of
         None \<Rightarrow> bind (modify (\<lambda>s. s\<lparr>js_cursor := Some c\<rparr>)) (\<lambda>_. save env)
       | Some rcd \<Rightarrow>
           bind (is_managed env (ev_deployment ev)) (\<lambda>managed.
           if managed then advance env combined c
           else bind (execute env cf ev rcd) (\<lambda>_. advance env combined c))))))"

definition read_page :: "environment \<Rightarrow> settings \<Rightarrow> bool \<Rightarrow> event_page run" where
  "read_page env cf combined =
     (if combined then
        bind (operator env cf (st_device cf)) (\<lambda>op.
        bind (gets js_discovery) (\<lambda>c.
        bind (ask_chain env (\<lambda>v. cv_discovery v c (st_device cf) op)) (\<lambda>page.
        bind (modify (\<lambda>s. s\<lparr>js_groups := fold (\<lambda>g. bt_insert g ()) (pg_groups page) (js_groups s)\<rparr>)) (\<lambda>_.
        ret page))))
      else bind (gets js_cursor) (\<lambda>c. ask_chain env (\<lambda>v. cv_deployments v c)))"

fun scan_events :: "nat \<Rightarrow> environment \<Rightarrow> settings \<Rightarrow> unit run" where
  "scan_events 0 env cf = panic"
| "scan_events (Suc n) env cf =
     bind (gets (\<lambda>s. js_discovery s \<noteq> None)) (\<lambda>combined.
     bind (gets (\<lambda>s. if combined then js_discovery s else js_cursor s)) (\<lambda>page_start.
     bind (read_page env cf combined) (\<lambda>page.
     bind (each (scan_event env cf combined) (pg_events page)) (\<lambda>_.
     let progressed = (page_start \<noteq> Some (pg_end page)) in
     bind (if progressed then bind (modify (\<lambda>s. s\<lparr>js_cursor := Some (pg_end page)\<rparr>)) (\<lambda>_. save env) else ret ()) (\<lambda>_.
     bind (if combined then bind (modify (\<lambda>s. s\<lparr>js_discovery := js_cursor s, js_membership := js_cursor s\<rparr>)) (\<lambda>_. save env) else ret ()) (\<lambda>_.
     if \<not> pg_more page then ret ()
     else bind (must progressed (plain ''event stream claims more data without advancing'')) (\<lambda>_. scan_events n env cf)))))))"

section \<open>Announcements\<close>

text \<open>\<open>as_u64\<close>, or a decimal string.\<close>

definition creation_time :: "json \<Rightarrow> nat option" where
  "creation_time v = (case v of JNum (PosInt n) \<Rightarrow> Some n | JStr s \<Rightarrow> parse_u64 s | _ \<Rightarrow> None)"

definition announce_one :: "environment \<Rightarrow> settings \<Rightarrow> seen \<Rightarrow> string \<Rightarrow> unit run" where
  "announce_one env cf sn d =
     bind (gets (\<lambda>s. bt_has (js_deployments s) d \<or> bt_has (js_deferred s) d)) (\<lambda>known.
     if known then ret ()
     else bind (read_deployment env cf d) (\<lambda>found. case found of None \<Rightarrow> ret ()
       | Some (ev, rcd) \<Rightarrow>
           (case creation_time (jget (ob_fields rcd) ''created_at'') of
              None \<Rightarrow> fail (plain ''deployment has no creation time'')
            | Some created \<Rightarrow>
                if created < unat (sn_since sn) then ret ()
                else bind (authorized_target env cf ev (st_device cf)) (\<lambda>targeted.
                  if \<not> targeted then ret ()
                  else bind (is_managed env d) (\<lambda>managed.
                    if managed then ret () else bind (execute env cf ev rcd) (\<lambda>_. ret ()))))))"

definition first_seen :: "string \<Rightarrow> string \<Rightarrow> heads \<Rightarrow> seen" where
  "first_seen inbox_key target h = (case map_of (hs_seen h) target of
     Some sn \<Rightarrow> sn
   | None \<Rightarrow> \<lparr>sn_seq = 0, sn_since = if target = inbox_key then hs_since h else heads_baseline_of h, sn_components = []\<rparr>)"

definition announce_target :: "environment \<Rightarrow> settings \<Rightarrow> string \<Rightarrow> string \<times> head \<Rightarrow> u64 \<Rightarrow> u64 run" where
  "announce_target env cf inbox_key e next_start = (case e of (target, hd1) \<Rightarrow>
     bind (gets js_heads) (\<lambda>hs. case hs of None \<Rightarrow> panic
     | Some h \<Rightarrow>
         let sn = first_seen inbox_key target h in
         bind (each (announce_one env cf sn) (head_changed hd1 sn)) (\<lambda>_.
         bind (gets js_heads) (\<lambda>hs. case hs of None \<Rightarrow> panic
         | Some h \<Rightarrow>
             bind (modify (\<lambda>s. s\<lparr>js_heads := Some (h\<lparr>hs_seen := bt_insert target
               \<lparr>sn_seq = hd_seq hd1, sn_since = sn_since sn, sn_components = hd_components hd1\<rparr> (hs_seen h)\<rparr>)\<rparr>)) (\<lambda>_.
             bind (save env) (\<lambda>_.
             ret (if hd_next_start hd1 \<noteq> 0 \<and> (next_start = 0 \<or> hd_next_start hd1 < next_start) then hd_next_start hd1 else next_start)))))))"

definition announced :: "environment \<Rightarrow> settings \<Rightarrow> unit run" where
  "announced env cf =
     bind (lift (st_inbox cf)) (\<lambda>inbox_id.
     bind (ask_chain env cv_time) (\<lambda>now_chain.
     bind (read_inbox env cf (st_device cf)) (\<lambda>ib.
     bind (case ib of None \<Rightarrow> ret ()
           | Some b \<Rightarrow> modify (\<lambda>s. s\<lparr>js_groups := fold (\<lambda>g. bt_insert g ()) (ib_groups b) (js_groups s)\<rparr>)) (\<lambda>_.
     bind (gets js_heads) (\<lambda>hs.
     bind (must (hs \<noteq> None) (plain ''announced records have no baseline'')) (\<lambda>_.
     bind (gets (\<lambda>s. bt_keys (js_groups s))) (\<lambda>groups.
     bind (carry (\<lambda>g acc. bind (group_head env g) (\<lambda>h. ret (acc @ [(g, h)]))) groups
            (case ib of None \<Rightarrow> [] | Some b \<Rightarrow> [(inbox_id, ib_head b)])) (\<lambda>targets.
     bind (carry (announce_target env cf inbox_id) targets 0) (\<lambda>next_start.
     bind (gets js_heads) (\<lambda>hs. case hs of None \<Rightarrow> panic
     | Some h \<Rightarrow> bind (modify (\<lambda>s. s\<lparr>js_heads := Some (h\<lparr>hs_next_start := next_start, hs_polled := Some now_chain\<rparr>)\<rparr>)) (\<lambda>_.
         save env)))))))))))"

definition heads_baseline :: "nat \<Rightarrow> environment \<Rightarrow> settings \<Rightarrow> unit run" where
  "heads_baseline n env cf =
     bind (ask_chain env cv_time) (\<lambda>earlier.
     bind (attempt (scan_events n env cf)) (\<lambda>scanned.
     bind (gets js_cursor) (\<lambda>c.
     bind (case scanned of
       Inr _ \<Rightarrow> bind (attempt (ask_chain env (\<lambda>v. cv_cursor_time v c))) (\<lambda>t.
         ret (None, case t of Inr at1 \<Rightarrow> min at1 earlier | Inl _ \<Rightarrow> earlier))
     | Inl e \<Rightarrow>
         if ft_kind e = HistoryPruned then
           bind (map_fail (\<lambda>t. plain (ft_text e @ ''; announced records have no safe baseline either''))
                  (ask_chain env (\<lambda>v. cv_cursor_time v c))) (\<lambda>since.
           bind (ask_chain env cv_latest) (\<lambda>tip. ret (Some tip, since)))
         else fail e) (\<lambda>(tip, since).
     bind (modify (begin_heads since tip)) (\<lambda>_. save env)))))"

section \<open>Desired state\<close>

fun follow_memberships :: "nat \<Rightarrow> environment \<Rightarrow> settings \<Rightarrow> unit run" where
  "follow_memberships 0 env cf = panic"
| "follow_memberships (Suc n) env cf =
     bind (gets js_discovery) (\<lambda>disc. if disc \<noteq> None then ret () else
     bind (gets js_membership) (\<lambda>c.
     bind (attempt (ask_chain env (\<lambda>v. cv_memberships v c))) (\<lambda>page. case page of
       Inl e \<Rightarrow>
         if has_inbox cf \<and> ft_kind e = HistoryPruned then
           bind (ask_chain env cv_latest) (\<lambda>tip.
           bind (modify (skip_pruned_memberships tip)) (\<lambda>_. save env))
         else fail e
     | Inr p \<Rightarrow>
         bind (modify (\<lambda>s. s\<lparr>js_groups := fold (\<lambda>(g, member) gs. if same_id member (st_device cf) then bt_insert g () gs else gs)
                 (mp_events p) (js_groups s), js_membership := Some (mp_end p)\<rparr>)) (\<lambda>_.
         bind (save env) (\<lambda>_.
         if \<not> mp_more p then ret ()
         else bind (must (c \<noteq> Some (mp_end p)) (plain ''membership stream claims more data without advancing'')) (\<lambda>_.
           follow_memberships n env cf))))))"

definition outcome_of :: "journal_state \<Rightarrow> string \<Rightarrow> dep_outcome option" where
  "outcome_of s d = map_option snd (find (\<lambda>(i, _). same_id i d) (js_deployments s))"

definition history_of :: "journal_state \<Rightarrow> string \<Rightarrow> history" where
  "history_of s d = (case outcome_of s d of None \<Rightarrow> Never
     | Some o1 \<Rightarrow> if oc_status o1 = Some STATUS_APPLIED then Applied else NotApplied)"

fun reconcile_steps :: "environment \<Rightarrow> settings \<Rightarrow> string \<Rightarrow> string \<Rightarrow> plan_step list \<Rightarrow> unit run" where
  "reconcile_steps env cf op fp [] = save env"
| "reconcile_steps env cf op fp (Adopt c d # steps) =
     bind (modify (\<lambda>s. s\<lparr>js_current := bt_insert c d (js_current s), js_managed := bt_insert c d (js_managed s)\<rparr>)) (\<lambda>_.
     reconcile_steps env cf op fp steps)"
| "reconcile_steps env cf op fp (Reselected c d # steps) = reconcile_steps env cf op fp steps"
| "reconcile_steps env cf op fp (Apply c d # steps) =
     bind (read_deployment env cf d) (\<lambda>found. case found of
       None \<Rightarrow> reconcile_steps env cf op fp steps
     | Some (ev, rcd) \<Rightarrow>
         if \<not> same_id (ev_creator ev) op \<or> ev_component ev \<noteq> c then reconcile_steps env cf op fp steps
         else
           bind (modify (\<lambda>s. s\<lparr>js_step := Some \<lparr>pm_deployment = d, pm_desired = fp\<rparr>, js_managed := bt_insert c d (js_managed s)\<rparr>)) (\<lambda>_.
           bind (save env) (\<lambda>_.
           bind (execute env cf ev rcd) (\<lambda>status.
           if status \<noteq> Some STATUS_APPLIED then ret ()
           else
             bind (modify (\<lambda>s. s\<lparr>js_step := None\<rparr>)) (\<lambda>_.
             bind (save env) (\<lambda>_.
             reconcile_steps env cf op fp steps))))))"

text \<open>Whether the step journaled last still stops the plan.\<close>

definition stopped_step :: "string \<Rightarrow> journal_state \<Rightarrow> bool" where
  "stopped_step fp s = (case js_step s of None \<Rightarrow> False
     | Some m \<Rightarrow> (case outcome_of s (pm_deployment m) of None \<Rightarrow> False
         | Some o1 \<Rightarrow> oc_status o1 \<noteq> Some STATUS_APPLIED
             \<and> step_holds (pm_desired m) fp (oc_status o1 \<noteq> None \<or> oc_indeterminate o1)))"

definition reconcile_pass :: "nat \<Rightarrow> environment \<Rightarrow> settings \<Rightarrow> unit run" where
  "reconcile_pass n env cf =
     bind (follow_memberships n env cf) (\<lambda>_.
     bind (operator env cf (st_device cf)) (\<lambda>op.
     bind (gets (\<lambda>s. bt_keys (js_groups s))) (\<lambda>names.
     bind (carry (\<lambda>g acc. bind (read_desired env cf g op (st_device cf)) (\<lambda>found. ret (case found of Some x \<Rightarrow> acc @ [x] | None \<Rightarrow> acc))) names []) (\<lambda>groups.
     bind (operator env cf (st_device cf)) (\<lambda>again.
     if \<not> same_id again op then ret ()
     else
       let eff = effective_of groups; fp = st_fingerprint cf eff in
       bind (modify (\<lambda>s. s\<lparr>js_desired := Some fp,
               js_managed := filter (\<lambda>(c, _). c \<notin> set (retired_names (js_managed s) eff)) (js_managed s)\<rparr>)) (\<lambda>_.
       bind (gets (stopped_step fp)) (\<lambda>stopped.
       if stopped then save env
       else
         bind (modify (\<lambda>s. s\<lparr>js_step := None\<rparr>)) (\<lambda>_.
         bind (gets (\<lambda>s. plan_steps eff (js_current s) (history_of s))) (\<lambda>steps.
         reconcile_steps env cf op fp steps)))))))))"

section \<open>One poll\<close>

definition clock :: "moment \<Rightarrow> u64" where
  "clock m = (case mo_now m of Inr t \<Rightarrow> t | Inl _ \<Rightarrow> 0)"

definition restore_recovered :: "environment \<Rightarrow> string \<times> string \<Rightarrow> unit run" where
  "restore_recovered env e = (case e of (name, d) \<Rightarrow>
     bind (ask env (\<lambda>m. mv_restored (mo_machine m) name d)) (\<lambda>restored.
     if \<not> restored then ret ()
     else bind (restore_configs env name) (\<lambda>_.
       modify (\<lambda>s. case restore_identity name d s of Some t \<Rightarrow> t | None \<Rightarrow> s))))"

definition pending_work :: "settings \<Rightarrow> u64 \<Rightarrow> journal_state \<Rightarrow> bool" where
  "pending_work cf now s \<longleftrightarrow> \<not> js_initialized s \<or> list_ex (\<lambda>(i, n).
     \<not> (df_terminal n \<or> bt_has (js_deployments s) i) \<and>
     (case control_reason (st_calendar cf) (df_control n) now (df_notified_ms n) (df_recurring n) of
        Inr (Some reason) \<Rightarrow> reason \<noteq> df_reason n
      | Inr None \<Rightarrow> \<not> starts_with (df_reason n) ''rollout '' \<and> df_reason n \<noteq> ''waiting for rollout eligibility''
          \<and> df_reason n \<noteq> ''outside rollout cohort snapshot''
      | Inl _ \<Rightarrow> True)) (js_deferred s)"

definition watch_roots :: "settings \<Rightarrow> string option \<Rightarrow> journal_state \<Rightarrow> string list" where
  "watch_roots cf inbox_id s = [st_upgrade_cap cf, st_registry cf, st_cap cf, st_device cf]
     @ (case inbox_id of Some i \<Rightarrow> [i] | None \<Rightarrow> []) @ bt_keys (js_groups s)
     @ map fst (filter (\<lambda>(i, n). \<not> df_terminal n \<and> \<not> bt_has (js_deployments s) i) (js_deferred s)) @ st_sleeping cf"

definition deferred_one :: "environment \<Rightarrow> settings \<Rightarrow> string \<Rightarrow> unit run" where
  "deferred_one env cf d =
     bind (gets (\<lambda>s. map_of (js_deferred s) d)) (\<lambda>found. case found of None \<Rightarrow> panic
     | Some n \<Rightarrow>
         bind (gets (\<lambda>s. df_terminal n \<or> bt_has (js_deployments s) d \<or> d \<in> set (bt_values (js_managed s)))) (\<lambda>skip.
         if skip then ret ()
         else bind (read_deployment env cf d) (\<lambda>found. case found of
           None \<Rightarrow> bind (modify (\<lambda>s. s\<lparr>js_deferred := bt_remove d (js_deferred s)\<rparr>)) (\<lambda>_. save env)
         | Some (ev, rcd) \<Rightarrow>
             bind (is_managed env d) (\<lambda>managed.
             if managed then bind (modify (\<lambda>s. s\<lparr>js_deferred := bt_remove d (js_deferred s)\<rparr>)) (\<lambda>_. save env)
             else bind (authorized_target env cf ev (st_device cf)) (\<lambda>targeted.
               if targeted then bind (execute env cf ev rcd) (\<lambda>_. ret ()) else ret ())))))"

text \<open>What precedes the first save of a poll: recoveries of the supervisor and the service generations they imply.\<close>

definition poll_recovery :: "environment \<Rightarrow> settings \<Rightarrow> unit run" where
  "poll_recovery env cf =
     bind (if st_budget cf then bind (ask env (\<lambda>m. cv_funding (mo_chain m))) (\<lambda>f. modify (\<lambda>s. s\<lparr>js_funding := Some f\<rparr>)) else ret ()) (\<lambda>_.
     bind (ask_machine env mv_recover) (\<lambda>_.
     bind (ask env (\<lambda>m. mv_recovered (mo_machine m))) (\<lambda>recovered.
     bind (each (restore_recovered env) recovered) (\<lambda>_.
     bind (gets js_services) (\<lambda>old.
     bind (gets (services_reconcile recovered)) (\<lambda>new.
     bind (if new \<noteq> old then map_fail (\<lambda>e. \<lparr>ft_kind = RecoveryRequired, ft_text = ''service reconciliation failed: '' @ ft_text e\<rparr>)
                               (services_commit env new None)
           else ret ()) (\<lambda>_.
     save env)))))))"

definition begin_discovery :: "environment \<Rightarrow> settings \<Rightarrow> unit run" where
  "begin_discovery env cf =
     bind (gets js_initialized) (\<lambda>initialized.
     bind (if initialized then ret ()
           else
             bind (if st_replay cf then ret () else bind (ask_chain env cv_latest) (\<lambda>c. modify (\<lambda>s. s\<lparr>js_cursor := c\<rparr>))) (\<lambda>_.
             bind (if has_inbox cf then
                     bind (if st_replay cf then ret 0 else ask_chain env cv_time) (\<lambda>since. modify (\<lambda>s. s\<lparr>js_heads := Some (new_heads since)\<rparr>))
                   else ret ()) (\<lambda>_.
             bind (modify (\<lambda>s. s\<lparr>js_initialized := True\<rparr>)) (\<lambda>_. save env)))) (\<lambda>_.
     bind (gets (\<lambda>s. js_discovery s = None \<and> js_merge s = None)) (\<lambda>unfenced.
     if \<not> unfenced then ret ()
     else bind (ask_chain env cv_latest) (\<lambda>tip. case tip of None \<Rightarrow> fail (plain ''missing discovery fence'')
       | Some c \<Rightarrow> bind (modify (\<lambda>s. s\<lparr>js_merge := (case jget c ''checkpoint'' of JNum (PosInt n) \<Rightarrow> Some n | _ \<Rightarrow> None)\<rparr>)) (\<lambda>_. save env)))))"

definition discover :: "nat \<Rightarrow> environment \<Rightarrow> settings \<Rightarrow> unit run" where
  "discover n env cf =
     bind (gets (\<lambda>s. has_inbox cf \<and> js_heads s = None)) (\<lambda>headless.
     bind (if headless then heads_baseline n env cf else ret ()) (\<lambda>_.
     bind (if has_inbox cf then announced env cf else ret ()) (\<lambda>_.
     bind (gets (\<lambda>s. js_discovery s = None)) (\<lambda>separate.
     bind (if \<not> has_inbox cf \<or> separate then ret True else ask env (\<lambda>m. cv_discovery_due (mo_chain m))) (\<lambda>scan.
     if \<not> scan then ret ()
     else bind (attempt (scan_events n env cf)) (\<lambda>r. case r of Inr _ \<Rightarrow> ret ()
       | Inl e \<Rightarrow>
           if has_inbox cf \<and> ft_kind e = HistoryPruned then
             bind (ask_chain env cv_latest) (\<lambda>tip. bind (modify (skip_pruned_deployments tip)) (\<lambda>_. save env))
           else fail e))))))"

definition merge_discovery :: "environment \<Rightarrow> unit run" where
  "merge_discovery env =
     bind (gets (\<lambda>s. (js_discovery s, js_merge s))) (\<lambda>(disc, fence).
     if disc \<noteq> None then ret ()
     else case fence of None \<Rightarrow> fail (plain ''missing discovery merge fence'')
       | Some c \<Rightarrow> bind (modify (\<lambda>s. s\<lparr>js_discovery := Some (JObj [(''checkpoint'', JNum (PosInt c))]), js_merge := None\<rparr>)) (\<lambda>_. save env))"

definition poll :: "nat \<Rightarrow> environment \<Rightarrow> settings \<Rightarrow> unit run" where
  "poll n env cf =
     bind (poll_recovery env cf) (\<lambda>_.
     bind (if st_helper cf then collect_firmware_results env else ret ()) (\<lambda>_.
     bind (settle_configuration env) (\<lambda>_.
     bind (gets (\<lambda>s. map fst (filter (\<lambda>(_, o1). (\<not> oc_reported o1 \<or> oc_health_pending o1) \<and> oc_status o1 \<noteq> None) (js_deployments s)))) (\<lambda>prior.
     bind (flush_funded_reports env cf False []) (\<lambda>_.
     bind (if has_inbox cf then bind (lift (st_inbox cf)) (\<lambda>i. ret (Some i)) else ret None) (\<lambda>inbox_id.
     bind (gets (watch_roots cf inbox_id)) (\<lambda>roots.
     bind (ask_chain env (\<lambda>v. cv_changed v roots (st_sleeping cf))) (\<lambda>changed.
     bind (ask env clock) (\<lambda>now.
     bind (gets (pending_work cf now)) (\<lambda>work.
     if \<not> changed \<and> \<not> work then ret ()
     else
       bind (ask_chain env cv_validate) (\<lambda>_.
       bind (validate_cap env cf (st_cap cf) (st_device cf)) (\<lambda>_.
       bind (begin_discovery env cf) (\<lambda>_.
       bind (discover n env cf) (\<lambda>_.
       bind (gets (\<lambda>s. bt_keys (js_deferred s))) (\<lambda>waiting.
       bind (each (deferred_one env cf) waiting) (\<lambda>_.
       bind (reconcile_pass n env cf) (\<lambda>_.
       bind (merge_discovery env) (\<lambda>_.
       flush_funded_reports env cf True prior))))))))))))))))))"

section \<open>Local requests\<close>

definition valid_deployment_id :: "string \<Rightarrow> bool" where
  "valid_deployment_id i \<longleftrightarrow> starts_with i ''0x'' \<and> length i \<le> 66 \<and> 2 < length i \<and> list_all is_ascii_hexdigit (drop 2 i)"

definition canonical_id :: "string \<Rightarrow> string" where
  "canonical_id i = (let h = map to_ascii_lowercase (drop 2 i) in ''0x'' @ replicate (64 - length h) (CHR ''0'') @ h)"

definition local_install :: "environment \<Rightarrow> settings \<Rightarrow> string \<Rightarrow> nat option run" where
  "local_install env cf i =
     bind (must (valid_deployment_id i) (plain ''invalid deployment ID'')) (\<lambda>_.
     let d = canonical_id i in
     bind (ask_chain env cv_validate) (\<lambda>_.
     bind (validate_cap env cf (st_cap cf) (st_device cf)) (\<lambda>_.
     bind (read_deployment env cf d) (\<lambda>found. case found of None \<Rightarrow> fail (plain ''missing deployment'')
     | Some (ev, rcd) \<Rightarrow>
         bind (authorized_target env cf ev (st_device cf)) (\<lambda>targeted.
         bind (must targeted (plain ''unauthorized target'')) (\<lambda>_.
         bind (is_managed env d) (\<lambda>managed.
         bind (must (\<not> managed) (plain ''desired-state deployments belong to reconciliation'')) (\<lambda>_.
         bind (must (st_daemon_component cf \<noteq> Some (ev_component ev)) (plain ''daemon updates belong to reconciliation'')) (\<lambda>_.
         bind (gets (\<lambda>s. outcome_of s d)) (\<lambda>known. case known of
           Some o1 \<Rightarrow> ret (oc_status o1)
         | None \<Rightarrow> bind (execute env cf ev rcd) (\<lambda>status. bind (settle_configuration env) (\<lambda>_. ret status))))))))))))"

end
