(* ===== verification/PollSafety.thy ===== *)
theory PollSafety
  imports PollLoop
begin

text \<open>
  Starts, polls and local requests keep the ledger, whatever the environment answers and wherever they are
  cut off. The rules of a triple whose errors leave the ledger intact carry the proofs; a poll saves before it
  reports, and every deployment it executes is one the journal does not know.
\<close>

section \<open>Triples\<close>

text \<open>
  A computation that starts where \<open>A\<close> holds ends where \<open>B\<close> holds if it returns, and otherwise with the
  ledger intact.
\<close>

definition safe_run :: "(world \<Rightarrow> bool) \<Rightarrow> 'a run \<Rightarrow> ('a \<Rightarrow> world \<Rightarrow> bool) \<Rightarrow> bool" where
  "safe_run A m B \<longleftrightarrow> (\<forall>w. A w \<longrightarrow> wp m B (\<lambda>_. ledger) ledger w)"

lemma safe_bind:
  assumes "safe_run A m B" and "\<And>x. safe_run (B x) (k x) C"
  shows "safe_run A (bind m k) C"
  unfolding safe_run_def wp_bind
proof (intro allI impI)
  fix w assume "A w"
  then have "wp m B (\<lambda>_. ledger) ledger w" using assms(1) by (simp add: safe_run_def)
  then show "wp m (\<lambda>x. wp (k x) C (\<lambda>_. ledger) ledger) (\<lambda>_. ledger) ledger w"
    by (rule wp_mono) (use assms(2) in \<open>simp_all add: safe_run_def\<close>)
qed

lemma safe_attempt:
  assumes "safe_run A m B" and "\<And>x. safe_run (B x) (k (Inr x)) C" and "\<And>e. safe_run ledger (k (Inl e)) C"
  shows "safe_run A (bind (attempt m) k) C"
  unfolding safe_run_def wp_bind_attempt
proof (intro allI impI)
  fix w assume "A w"
  then have "wp m B (\<lambda>_. ledger) ledger w" using assms(1) by (simp add: safe_run_def)
  then show "wp m (\<lambda>x. wp (k (Inr x)) C (\<lambda>_. ledger) ledger) (\<lambda>e. wp (k (Inl e)) C (\<lambda>_. ledger) ledger) ledger w"
    by (rule wp_mono) (use assms(2,3) in \<open>simp_all add: safe_run_def\<close>)
qed

lemma safe_pre: "safe_run A m B \<Longrightarrow> (\<And>w. A' w \<Longrightarrow> A w) \<Longrightarrow> safe_run A' m B"
  by (simp add: safe_run_def)

lemma safe_post: "safe_run A m B \<Longrightarrow> (\<And>x w. B x w \<Longrightarrow> B' x w) \<Longrightarrow> safe_run A m B'"
  unfolding safe_run_def by (intro allI impI, rule wp_mono [where Q = B and E = "\<lambda>_. ledger" and H = ledger]) auto

lemma safe_map_fail: "safe_run A m B \<Longrightarrow> safe_run A (map_fail f m) B"
  by (simp add: safe_run_def wp_map_fail)

lemma safe_save: "safe_run ledger (save env) (\<lambda>_. settled_world)"
  unfolding safe_run_def using save_ledger by (metis (no_types, lifting) settled_world_def)

lemma safe_gets: "safe_run A (gets f) (\<lambda>x w. A w \<and> x = f (w_state w))"
  by (simp add: safe_run_def wp_gets)

text \<open>The contract of a condition that computations without decisions keep.\<close>

locale upheld =
  fixes I :: "world \<Rightarrow> bool"
  assumes ledger_I: "I w \<Longrightarrow> ledger w"
    and quiet_I: "I w \<Longrightarrow> quiet w w' \<Longrightarrow> I w'"
begin

lemma kept_quiet: "within_rel quiet m \<Longrightarrow> safe_run I m (\<lambda>_. I)"
  unfolding safe_run_def by (auto intro!: within_wp [of quiet m] intro: quiet_I ledger_I)

lemma kept_fail: "safe_run I (fail e) B"
  by (simp add: safe_run_def wp_fail ledger_I)

lemma kept_panic: "safe_run I panic B"
  by (simp add: safe_run_def wp_panic ledger_I)

lemma kept_ret: "safe_run I (ret x) (\<lambda>_. I)"
  by (simp add: safe_run_def wp_ret)

lemma kept_seq: "safe_run I m (\<lambda>_. I) \<Longrightarrow> (\<And>x. safe_run I (k x) C) \<Longrightarrow> safe_run I (bind m k) C"
  by (rule safe_bind)

lemma kept_each: "(\<And>x. x \<in> set xs \<Longrightarrow> safe_run I (f x) (\<lambda>_. I)) \<Longrightarrow> safe_run I (each f xs) (\<lambda>_. I)"
  by (induction xs) (auto intro: kept_ret kept_seq)

lemma kept_carry: "(\<And>x s. x \<in> set xs \<Longrightarrow> safe_run I (f x s) (\<lambda>_. I)) \<Longrightarrow> safe_run I (carry f xs s) (\<lambda>_. I)"
  by (induction xs arbitrary: s) (auto intro: kept_ret kept_seq)

end

lemma quiet_settled: "settled_world w \<Longrightarrow> quiet w w' \<Longrightarrow> settled_world w'"
  using settled_tame quiet_tame by blast

interpretation led: upheld ledger
  by unfold_locales (auto intro: ledger_tame quiet_tame)

interpretation stl: upheld settled_world
  by unfold_locales (simp add: settled_world_def, rule quiet_settled)

text \<open>What follows an error with the ledger intact and saves comes out settled.\<close>

lemma safe_settled_save: "safe_run settled_world (save env) (\<lambda>_. settled_world)"
  by (rule safe_pre [OF safe_save]) (simp add: settled_world_def)

section \<open>Fresh deployments\<close>

definition novel :: "string \<Rightarrow> world \<Rightarrow> bool" where
  "novel d w \<longleftrightarrow> settled_world w \<and> \<not> bt_has (js_deployments (w_state w)) d"

lemma safe_execute: "safe_run (novel (ev_deployment ev)) (execute env cf ev rcd) (\<lambda>_. settled_world)"
  unfolding safe_run_def novel_def
proof (intro allI impI)
  fix w assume w: "settled_world w \<and> \<not> bt_has (js_deployments (w_state w)) (ev_deployment ev)"
  then have "ledger w" by (simp add: settled_world_def)
  then have "wp (execute env cf ev rcd) (\<lambda>_ w'. ledger w' \<and> (synced w \<longrightarrow> synced w')) (\<lambda>_. ledger) ledger w" using w by (intro execute_sound) auto
  then show "wp (execute env cf ev rcd) (\<lambda>_. settled_world) (\<lambda>_. ledger) ledger w"
    by (rule wp_mono) (use w in \<open>auto simp: settled_world_def\<close>)
qed

lemma fresh_reads: "novel d w \<Longrightarrow> reads w w' \<Longrightarrow> novel d w'"
  using quiet_settled reads_quiet by (auto simp: novel_def reads_def)

lemma safe_read_fresh:
  assumes "within_rel reads m"
  shows "safe_run (novel d) m (\<lambda>_. novel d)"
  unfolding safe_run_def
proof (intro allI impI)
  fix w assume w: "novel d w"
  show "wp m (\<lambda>_. novel d) (\<lambda>_. ledger) ledger w"
    by (rule within_wp [OF assms]; drule fresh_reads [OF w]; simp add: novel_def settled_world_def)
qed

lemma safe_returns: "safe_run A m B \<Longrightarrow> returns m R \<Longrightarrow> safe_run A m (\<lambda>x w. R x \<and> B x w)"
  unfolding safe_run_def using wp_conj_returns by blast

text \<open>A read in front of the execution of a fresh deployment.\<close>

lemma fresh_seq:
  assumes "within_rel reads m" and "returns m R" and "\<And>x. R x \<Longrightarrow> safe_run (novel d) (k x) C"
  shows "safe_run (novel d) (bind m k) C"
  by (rule safe_bind [OF safe_returns [OF safe_read_fresh [OF assms(1)] assms(2)]]) (use assms(3) in \<open>auto simp: safe_run_def\<close>)

lemma returns_any: "returns m (\<lambda>_. True)"
  by (simp add: returns_def)

lemmas fresh_read = fresh_seq [OF _ returns_any]

lemma fresh_settled: "safe_run settled_world m B \<Longrightarrow> safe_run (novel d) m B"
  by (erule safe_pre) (simp add: novel_def)

lemma fresh_guard:
  assumes "\<And>s. \<not> P s \<Longrightarrow> \<not> bt_has (js_deployments s) d" and "safe_run settled_world (k True) C" and "safe_run (novel d) (k False) C"
  shows "safe_run settled_world (bind (gets P) k) C"
proof (rule safe_bind [OF safe_gets])
  show "safe_run (\<lambda>w. settled_world w \<and> x = P (w_state w)) (k x) C" for x
    by (cases x) (use assms in \<open>auto simp: safe_run_def novel_def\<close>)
qed

section \<open>The event scan\<close>

lemma stl_modify: "(\<And>s. js_deployments (f s) = js_deployments s) \<Longrightarrow> safe_run settled_world (modify f) (\<lambda>_. settled_world)"
  by (rule stl.kept_quiet) (rule quiet_modify)

lemmas stl_rules = stl.kept_seq stl.kept_ret stl.kept_fail stl.kept_panic stl.kept_each stl.kept_carry safe_settled_save stl_modify

lemma safe_advance: "safe_run settled_world (advance env combined c) (\<lambda>_. settled_world)"
  unfolding advance_def by (intro stl_rules) auto

lemma safe_scan_event: "safe_run settled_world (scan_event env cf combined e) (\<lambda>_. settled_world)"
proof (cases e)
  case (Pair ev c)
  let ?d = "ev_deployment ev"
  have go: "safe_run (novel ?d) (bind (execute env cf ev rcd) (\<lambda>_. advance env combined c)) (\<lambda>_. settled_world)" for rcd
    by (rule safe_bind [OF safe_execute safe_advance])
  have adv: "safe_run (novel ?d) (advance env combined c) (\<lambda>_. settled_world)" by (rule fresh_settled [OF safe_advance])
  have gone: "safe_run (novel ?d) (bind (modify (\<lambda>s. s\<lparr>js_cursor := Some c\<rparr>)) (\<lambda>_. save env)) (\<lambda>_. settled_world)"
    by (rule fresh_settled) (intro stl_rules; simp)
  show ?thesis unfolding scan_event_def Pair prod.case
    by (rule fresh_guard [where d = ?d]) (auto intro!: safe_advance fresh_read reads_authorized reads_objects reads_controls go adv gone split: option.splits)
qed

lemma safe_page: "safe_run settled_world (read_page env cf combined) (\<lambda>_. settled_world)"
  unfolding read_page_def by (auto intro!: stl.kept_quiet quiet_rules reads_within_quiet [OF reads_operator])

lemma safe_scan: "safe_run settled_world (scan_events n env cf) (\<lambda>_. settled_world)"
proof (induction n)
  case (Suc n)
  have q: "safe_run settled_world (gets f) (\<lambda>_. settled_world)" "safe_run settled_world (must b e) (\<lambda>_. settled_world)" for f :: "journal_state \<Rightarrow> 'b" and b e
    by (auto intro!: stl.kept_quiet quiet_rules)
  show ?case unfolding scan_events.simps Let_def
    by (auto intro!: stl_rules q safe_page safe_scan_event Suc.IH)
qed (simp add: stl.kept_panic)

section \<open>Late results and staged updates\<close>

lemma unreported_silent: "ledger w \<Longrightarrow> get_status d (w_state w) = None \<Longrightarrow> silent d w"
  by (auto simp: ledger_def good_def silent_def)

lemma quiet_configuration: "within_rel quiet (settle_configuration env)"
  unfolding settle_configuration_def by (auto intro!: quiet_rules)

lemma decided_save:
  assumes "ledger w" and "get_status d (w_state w) = None"
  shows "wp (bind (modify (update_outcome d f)) (\<lambda>_. save env)) (\<lambda>_. settled_world) (\<lambda>_. ledger) ledger w"
  unfolding wp_bind_fun by (rule record_save [OF assms(1) unreported_silent [OF assms]])

lemma safe_handoff: "safe_run settled_world (settle_handoff env d r) (\<lambda>_. settled_world)"
  unfolding settle_handoff_def
proof (rule safe_bind [OF safe_gets])
  fix st
  show "safe_run (\<lambda>w. settled_world w \<and> st = get_status d (w_state w))
     (bind (if st = None then bind (modify (update_outcome d (\<lambda>o1. (record_result r o1)\<lparr>oc_handoff := None\<rparr>))) (\<lambda>_. save env) else ret ())
       (\<lambda>_. ask_machine env mv_finish)) (\<lambda>_. settled_world)"
  proof (rule safe_bind)
    show "safe_run (\<lambda>w. settled_world w \<and> st = get_status d (w_state w))
       (if st = None then bind (modify (update_outcome d (\<lambda>o1. (record_result r o1)\<lparr>oc_handoff := None\<rparr>))) (\<lambda>_. save env) else ret ()) (\<lambda>_. settled_world)"
      unfolding safe_run_def using decided_save by (auto simp: settled_world_def [symmetric] wp_ret) (simp add: settled_world_def)
    show "safe_run settled_world (ask_machine env mv_finish) (\<lambda>_. settled_world)" by (intro stl.kept_quiet quiet_rules)
  qed
qed

text \<open>Deployments without a status, each of which is decided at most once.\<close>

definition open_results :: "(string \<times> string) list \<Rightarrow> world \<Rightarrow> bool" where
  "open_results es w \<longleftrightarrow> settled_world w \<and> (\<forall>(d, _) \<in> set es. get_status d (w_state w) = None)"

lemma get_status_confirm [simp]: "get_status i (confirm_components d s) = get_status i s" "js_deployments (confirm_components d s) = js_deployments s"
  by (simp_all add: confirm_components_def get_status_def)

lemma collect_one_open:
  assumes "distinct (map fst (e # es))"
  shows "safe_run (open_results (e # es)) (collect_one env e) (\<lambda>_. open_results es)"
proof -
  obtain d request where e: "e = (d, request)" by fastforce
  have none: "d' \<noteq> d" if "(d', x) \<in> set es" for d' x using that assms e by force
  have asked: "safe_run (open_results (e # es)) (ask_machine env (\<lambda>m. mv_collect m request)) (\<lambda>_. open_results (e # es))"
    unfolding safe_run_def
  proof (intro allI impI)
    fix w assume w: "open_results (e # es) w"
    have "within_rel reads (ask_machine env (\<lambda>m. mv_collect m request))" by (intro reads.read_rules)
    then show "wp (ask_machine env (\<lambda>m. mv_collect m request)) (\<lambda>_. open_results (e # es)) (\<lambda>_. ledger) ledger w"
    proof (rule within_wp)
      fix v assume v: "reads w v"
      have s: "settled_world v" using w quiet_settled [OF _ reads_quiet [OF v]] by (simp add: open_results_def)
      show "open_results (e # es) v" using s v w by (simp add: open_results_def reads_def)
      show "ledger v" "ledger v" using s by (simp_all add: settled_world_def)
    qed
  qed
  have rec: "safe_run (open_results (e # es)) (bind (modify (update_outcome d (record_result r))) (\<lambda>_. bind (gets (get_status d)) (\<lambda>status.
      bind (if status = Some STATUS_APPLIED then modify (confirm_components d) else ret ()) (\<lambda>_. save env)))) (\<lambda>_. open_results es)" for r
    unfolding safe_run_def
  proof (intro allI impI)
    fix w assume w: "open_results (e # es) w"
    let ?u = "update_outcome d (record_result r) (w_state w)"
    let ?s = "if get_status d ?u = Some STATUS_APPLIED then confirm_components d ?u else ?u"
    let ?v = "w\<lparr>w_state := ?s\<rparr>"
    have l: "ledger w" "get_status d (w_state w) = None" using w e by (auto simp: open_results_def settled_world_def)
    have "ledger (w\<lparr>w_state := ?u\<rparr>)" by (rule ledger_update [OF l(1) unreported_silent [OF l]])
    then have v: "ledger ?v" using ledger_other [of "w\<lparr>w_state := ?u\<rparr>" "confirm_components d"] by simp
    have st: "get_status d' ?u = None" if "(d', x) \<in> set es" for d' x
      using none [OF that] w that by (auto simp: open_results_def get_status_update)
    have "wp (save env) (\<lambda>_. open_results es) (\<lambda>_. ledger) ledger ?v"
      by (rule save_ledger [OF v]) (use st in \<open>auto simp: open_results_def settled_world_def saves_def\<close>)
    then show "wp (bind (modify (update_outcome d (record_result r))) (\<lambda>_. bind (gets (get_status d)) (\<lambda>status.
      bind (if status = Some STATUS_APPLIED then modify (confirm_components d) else ret ()) (\<lambda>_. save env)))) (\<lambda>_. open_results es) (\<lambda>_. ledger) ledger w"
      by (cases "get_status d ?u = Some STATUS_APPLIED") (simp_all add: wp_bind_fun wp_modify wp_gets wp_ret)
  qed
  have skip: "safe_run (open_results (e # es)) (ret ()) (\<lambda>_. open_results es)" by (auto simp: safe_run_def wp_ret open_results_def)
  show ?thesis unfolding collect_one_def e prod.case
    by (rule safe_bind [OF asked [unfolded e]]) (use rec skip e in \<open>auto split: option.splits\<close>)
qed

lemma collect_open: "distinct (map fst es) \<Longrightarrow> safe_run (open_results es) (each (collect_one env) es) (\<lambda>_. settled_world)"
proof (induction es)
  case Nil
  then show ?case by (simp add: safe_run_def wp_ret open_results_def)
next
  case (Cons e es)
  have "distinct (map fst es)" using Cons.prems by simp
  then show ?case unfolding each.simps by (rule safe_bind [OF collect_one_open [OF Cons.prems] Cons.IH])
qed

lemma waiting_open:
  assumes "settled_world w"
  shows "distinct (map fst (waiting_results (w_state w))) \<and> open_results (waiting_results (w_state w)) w"
proof -
  let ?m = "js_deployments (w_state w)"
  have wf: "bt_wf ?m" using assms by (simp add: settled_world_def ledger_def good_def)
  have "map fst (List.map_filter (\<lambda>(d, o1). map_option (Pair d) (f o1)) xs) = map fst (filter (\<lambda>(d, o1). f o1 \<noteq> None) xs)" for f :: "dep_outcome \<Rightarrow> string option" and xs :: "(string \<times> dep_outcome) list"
    by (induction xs) (auto simp: List.map_filter_def)
  moreover have "distinct (map fst (filter P (filter R ?m)))" for P R using wf by (simp add: bt_wf_def distinct_map_filter strict_sorted_iff)
  ultimately have "distinct (map fst (waiting_results (w_state w)))" unfolding waiting_results_def by metis
  moreover have "get_status d (w_state w) = None" if a: "(d, x) \<in> set (waiting_results (w_state w))" for d x
  proof -
    obtain o1 where "(d, o1) \<in> set ?m" "oc_status o1 = None" using a by (auto simp: waiting_results_def List.map_filter_def)
    then show ?thesis using bt_get_iff [OF wf, of d o1] by (simp add: get_status_def)
  qed
  ultimately show ?thesis using assms by (auto simp: open_results_def)
qed

lemma safe_collect: "safe_run settled_world (collect_firmware_results env) (\<lambda>_. settled_world)"
  unfolding collect_firmware_results_def safe_run_def wp_bind wp_gets
  using collect_open waiting_open unfolding safe_run_def by blast

section \<open>Announcements and discovery\<close>

lemma read_deployment_id: "returns (read_deployment env cf d) (\<lambda>r. \<forall>ev rcd. r = Some (ev, rcd) \<longrightarrow> ev_deployment ev = d)"
  unfolding read_deployment_def Let_def by (auto intro!: returns_bind returns_ret split: option.splits)

lemma fresh_ret: "safe_run (novel d) (ret x) (\<lambda>_. settled_world)"
  by (rule fresh_settled [OF stl.kept_ret])

lemma fresh_execute: "ev_deployment ev = d \<Longrightarrow> safe_run (novel d) (bind (execute env cf ev rcd) (\<lambda>_. ret ())) (\<lambda>_. settled_world)"
  using safe_bind [OF safe_execute stl.kept_ret [of "()"], of ev env cf rcd] by auto

lemma safe_announce: "safe_run settled_world (announce_one env cf sn d) (\<lambda>_. settled_world)"
  unfolding announce_one_def
proof (rule fresh_guard [where d = d])
  have go: "safe_run (novel d) (bind (authorized_target env cf ev (st_device cf)) (\<lambda>targeted. if \<not> targeted then ret ()
      else bind (is_managed env d) (\<lambda>managed. if managed then ret () else bind (execute env cf ev rcd) (\<lambda>_. ret ())))) (\<lambda>_. settled_world)"
    if "ev_deployment ev = d" for ev rcd
    using that by (auto intro!: fresh_read [OF reads_controls(3)] fresh_read [OF reads_authorized] fresh_execute fresh_ret)
  have bad: "safe_run (novel d) (fail e) (\<lambda>_. settled_world)" for e :: fault by (rule fresh_settled [OF stl.kept_fail])
  show "safe_run (novel d) (if False then ret () else bind (read_deployment env cf d) (\<lambda>found. case found of None \<Rightarrow> ret ()
       | Some (ev, rcd) \<Rightarrow>
           (case creation_time (jget (ob_fields rcd) ''created_at'') of
              None \<Rightarrow> fail (plain ''deployment has no creation time'')
            | Some created \<Rightarrow>
                if created < unat (sn_since sn) then ret ()
                else bind (authorized_target env cf ev (st_device cf)) (\<lambda>targeted.
                  if \<not> targeted then ret ()
                  else bind (is_managed env d) (\<lambda>managed.
                    if managed then ret () else bind (execute env cf ev rcd) (\<lambda>_. ret ())))))) (\<lambda>_. settled_world)"
    unfolding if_False
    by (rule fresh_seq [OF reads_deployment read_deployment_id]) (auto intro!: go bad fresh_ret split: option.splits)
qed (auto intro: stl.kept_ret)

lemma stl_gets: "safe_run settled_world (gets f) (\<lambda>_. settled_world)"
  by (intro stl.kept_quiet quiet_rules)

lemma stl_must: "safe_run settled_world (must b e) (\<lambda>_. settled_world)"
  by (intro stl.kept_quiet quiet_rules)

lemma stl_lift: "safe_run settled_world (lift r) (\<lambda>_. settled_world)"
  by (intro stl.kept_quiet quiet_rules)

lemma stl_call: "safe_run settled_world (call env f) (\<lambda>_. settled_world)"
  by (intro stl.kept_quiet quiet_rules)

lemma stl_ask: "safe_run settled_world (ask env f) (\<lambda>_. settled_world)"
  by (intro stl.kept_quiet quiet_rules)

lemma stl_reads: "within_rel reads m \<Longrightarrow> safe_run settled_world m (\<lambda>_. settled_world)"
  by (intro stl.kept_quiet reads_within_quiet)

lemmas stl_steps = stl_gets stl_must stl_lift stl_call stl_ask stl_rules

lemma safe_target: "safe_run settled_world (announce_target env cf inbox_key e next_start) (\<lambda>_. settled_world)"
  unfolding announce_target_def Let_def
  by (auto intro!: stl_steps safe_announce split: option.splits prod.splits)

lemma safe_announced: "safe_run settled_world (announced env cf) (\<lambda>_. settled_world)"
  unfolding announced_def
  by (auto intro!: stl_steps safe_target stl_reads [OF reads_inbox(1)] stl_reads [OF reads_inbox(2)] split: option.splits)

text \<open>From the ledger alone, saving last.\<close>

lemma led_modify: "(\<And>s. js_deployments (f s) = js_deployments s) \<Longrightarrow> safe_run ledger (modify f) (\<lambda>_. ledger)"
  by (rule led.kept_quiet) (rule quiet_modify)

lemma led_call: "safe_run ledger (call env f) (\<lambda>_. ledger)"
  by (intro led.kept_quiet quiet_rules)

lemma led_gets: "safe_run ledger (gets f) (\<lambda>_. ledger)"
  by (intro led.kept_quiet quiet_rules)

lemma skip_pruned_keeps [simp]:
  "js_deployments (skip_pruned_deployments tip s) = js_deployments s" "js_deployments (skip_pruned_memberships tip s) = js_deployments s"
  "js_deployments (begin_heads since pruned s) = js_deployments s"
  by (simp_all add: skip_pruned_deployments_def skip_pruned_memberships_def begin_heads_def split: option.splits)

lemma restored_save: "(\<And>s. js_deployments (f s) = js_deployments s) \<Longrightarrow> safe_run ledger (bind (modify f) (\<lambda>_. save env)) (\<lambda>_. settled_world)"
  by (rule safe_bind [OF led_modify safe_save])

lemma safe_baseline: "safe_run settled_world (heads_baseline n env cf) (\<lambda>_. settled_world)"
  unfolding heads_baseline_def
proof (rule stl.kept_seq [OF stl_call])
  fix earlier
  have tail: "safe_run ledger (bind (case scanned of
       Inr _ \<Rightarrow> bind (attempt (ask_chain env (\<lambda>v. cv_cursor_time v c))) (\<lambda>t.
         ret (None, case t of Inr at1 \<Rightarrow> min at1 earlier | Inl _ \<Rightarrow> earlier))
     | Inl e \<Rightarrow>
         if ft_kind e = HistoryPruned then
           bind (map_fail (\<lambda>t. plain (ft_text e @ ''; announced records have no safe baseline either''))
                  (ask_chain env (\<lambda>v. cv_cursor_time v c))) (\<lambda>since.
           bind (ask_chain env cv_latest) (\<lambda>tip. ret (Some tip, since)))
         else fail e) (\<lambda>(tip, since). bind (modify (begin_heads since tip)) (\<lambda>_. save env))) (\<lambda>_. settled_world)" for scanned c
    by (rule safe_bind [where B = "\<lambda>_. ledger"])
      (auto intro!: led.kept_quiet quiet_rules restored_save split: sum.splits prod.splits)
  show "safe_run settled_world (bind (attempt (scan_events n env cf)) (\<lambda>scanned. bind (gets js_cursor) (\<lambda>c.
     bind (case scanned of
       Inr _ \<Rightarrow> bind (attempt (ask_chain env (\<lambda>v. cv_cursor_time v c))) (\<lambda>t.
         ret (None, case t of Inr at1 \<Rightarrow> min at1 earlier | Inl _ \<Rightarrow> earlier))
     | Inl e \<Rightarrow>
         if ft_kind e = HistoryPruned then
           bind (map_fail (\<lambda>t. plain (ft_text e @ ''; announced records have no safe baseline either''))
                  (ask_chain env (\<lambda>v. cv_cursor_time v c))) (\<lambda>since.
           bind (ask_chain env cv_latest) (\<lambda>tip. ret (Some tip, since)))
         else fail e) (\<lambda>(tip, since). bind (modify (begin_heads since tip)) (\<lambda>_. save env))))) (\<lambda>_. settled_world)"
    by (rule safe_attempt [OF safe_post [OF safe_scan, where B' = "\<lambda>_. ledger"]]; (rule safe_bind [OF led_gets tail])?) (simp add: settled_world_def)
qed

lemma safe_memberships: "safe_run settled_world (follow_memberships n env cf) (\<lambda>_. settled_world)"
proof (induction n)
  case (Suc n)
  have a: "safe_run settled_world (attempt (ask_chain env f)) (\<lambda>_. settled_world)" for f :: "chain_view \<Rightarrow> (fault, membership_page) result"
    by (intro stl.kept_quiet quiet_rules)
  show ?case unfolding follow_memberships.simps by (auto intro!: stl_steps a Suc.IH split: sum.splits)
qed (simp add: stl.kept_panic)

lemma safe_begin: "safe_run settled_world (begin_discovery env cf) (\<lambda>_. settled_world)"
  unfolding begin_discovery_def by (auto intro!: stl_steps split: option.splits)

lemma safe_discover: "safe_run settled_world (discover n env cf) (\<lambda>_. settled_world)"
proof -
  have pruned: "safe_run ledger (if has_inbox cf \<and> ft_kind e = HistoryPruned then
       bind (ask_chain env cv_latest) (\<lambda>tip. bind (modify (skip_pruned_deployments tip)) (\<lambda>_. save env)) else fail e) (\<lambda>_. settled_world)" for e
    by (auto intro!: safe_bind [OF led_call] restored_save led.kept_fail)
  have "safe_run settled_world (bind (attempt (scan_events n env cf)) (\<lambda>r. case r of Inr _ \<Rightarrow> ret ()
       | Inl e \<Rightarrow> if has_inbox cf \<and> ft_kind e = HistoryPruned then
             bind (ask_chain env cv_latest) (\<lambda>tip. bind (modify (skip_pruned_deployments tip)) (\<lambda>_. save env)) else fail e)) (\<lambda>_. settled_world)"
    by (rule safe_attempt [OF safe_scan]) (simp_all only: sum.case pruned stl.kept_ret)
  then show ?thesis unfolding discover_def by (auto intro!: stl_steps safe_baseline safe_announced)
qed

lemma safe_merge: "safe_run settled_world (merge_discovery env) (\<lambda>_. settled_world)"
  unfolding merge_discovery_def by (auto intro!: stl_steps split: option.splits prod.splits)

lemma safe_deferred: "safe_run settled_world (deferred_one env cf d) (\<lambda>_. settled_world)"
proof -
  have drop: "safe_run (novel d) (bind (modify (\<lambda>s. s\<lparr>js_deferred := bt_remove d (js_deferred s)\<rparr>)) (\<lambda>_. save env)) (\<lambda>_. settled_world)" for d
    by (rule fresh_settled) (intro stl_rules; simp)
  have go: "safe_run (novel d) (bind (is_managed env d) (\<lambda>managed.
             if managed then bind (modify (\<lambda>s. s\<lparr>js_deferred := bt_remove d (js_deferred s)\<rparr>)) (\<lambda>_. save env)
             else bind (authorized_target env cf ev (st_device cf)) (\<lambda>targeted.
               if targeted then bind (execute env cf ev rcd) (\<lambda>_. ret ()) else ret ()))) (\<lambda>_. settled_world)"
    if "ev_deployment ev = d" for ev rcd
    using that by (auto intro!: drop fresh_read [OF reads_controls(3)] fresh_read [OF reads_authorized] fresh_execute fresh_ret)
  have rest: "safe_run (novel d) (bind (read_deployment env cf d) (\<lambda>found. case found of
           None \<Rightarrow> bind (modify (\<lambda>s. s\<lparr>js_deferred := bt_remove d (js_deferred s)\<rparr>)) (\<lambda>_. save env)
         | Some (ev, rcd) \<Rightarrow> bind (is_managed env d) (\<lambda>managed.
             if managed then bind (modify (\<lambda>s. s\<lparr>js_deferred := bt_remove d (js_deferred s)\<rparr>)) (\<lambda>_. save env)
             else bind (authorized_target env cf ev (st_device cf)) (\<lambda>targeted.
               if targeted then bind (execute env cf ev rcd) (\<lambda>_. ret ()) else ret ())))) (\<lambda>_. settled_world)"
    by (rule fresh_seq [OF reads_deployment read_deployment_id]) (auto intro!: go drop split: option.splits)
  show ?thesis unfolding deferred_one_def
  proof (rule stl.kept_seq [OF stl_gets], split option.split, intro conjI allI impI)
    fix n
    show "safe_run settled_world (bind (gets (\<lambda>s. df_terminal n \<or> bt_has (js_deployments s) d \<or> d \<in> set (bt_values (js_managed s)))) (\<lambda>skip.
         if skip then ret () else bind (read_deployment env cf d) (\<lambda>found. case found of
           None \<Rightarrow> bind (modify (\<lambda>s. s\<lparr>js_deferred := bt_remove d (js_deferred s)\<rparr>)) (\<lambda>_. save env)
         | Some (ev, rcd) \<Rightarrow> bind (is_managed env d) (\<lambda>managed.
             if managed then bind (modify (\<lambda>s. s\<lparr>js_deferred := bt_remove d (js_deferred s)\<rparr>)) (\<lambda>_. save env)
             else bind (authorized_target env cf ev (st_device cf)) (\<lambda>targeted.
               if targeted then bind (execute env cf ev rcd) (\<lambda>_. ret ()) else ret ()))))) (\<lambda>_. settled_world)"
      by (rule fresh_guard [where d = d]) (use rest in \<open>auto intro: stl.kept_ret\<close>)
  qed (rule stl.kept_panic)
qed

section \<open>What an execution adds to the journal\<close>

definition adds :: "string set \<Rightarrow> world \<Rightarrow> world \<Rightarrow> bool" where
  "adds D w w' \<longleftrightarrow> (\<forall>i. i \<notin> D \<longrightarrow> \<not> bt_has (js_deployments (w_state w)) i \<longrightarrow> \<not> bt_has (js_deployments (w_state w')) i)"

interpretation adf: run_frame "adds D" for D
  by unfold_locales (auto simp: adds_def)

lemma adds_quiet: "within_rel quiet m \<Longrightarrow> within_rel (adds D) m"
  by (erule within_rel_weaken) (simp add: quiet_def adds_def)

lemma adds_modify: "(\<And>s i. i \<notin> D \<Longrightarrow> map_of (js_deployments (f s)) i = map_of (js_deployments s) i) \<Longrightarrow> within_rel (adds D) (modify f)"
  by (auto simp: within_rel_def modify_def adds_def)

lemma adds_update: "d \<in> D \<Longrightarrow> within_rel (adds D) (modify (update_outcome d f))"
  by (auto intro!: adds_modify simp: update_outcome_def split: if_splits)

lemma adds_insert: "d \<in> D \<Longrightarrow> within_rel (adds D) (modify (insert_outcome d o1))"
  by (auto intro!: adds_modify simp: insert_outcome_def split: if_splits)

lemma adds_emit: "within_rel (adds D) (emit e)"
  by (simp add: within_rel_def emit_def adds_def)

lemmas adds_save = adds_quiet [OF quiet_save]

lemmas adds_other = adds_quiet [OF quiet_modify]

lemma adds_report: "within_rel (adds D) (flush_report env cf (d, st))"
proof -
  have rest: "within_rel (adds (insert d D)) (case found of None \<Rightarrow> panic
     | Some o1 \<Rightarrow>
         bind (if oc_reported o1 then ret (Inr [])
               else bind (emit (EvReport d st)) (\<lambda>_. ask env (\<lambda>m. cv_report (mo_chain m) d st))) (\<lambda>result. case result of
           Inl _ \<Rightarrow> ret ()
         | Inr digest \<Rightarrow>
             bind (if oc_reported o1 then ret ()
                   else bind (modify (update_outcome d (\<lambda>o2. o2\<lparr>oc_reported := True, oc_health_pending := True\<rparr>))) (\<lambda>_. save env)) (\<lambda>_.
             bind (ask env (\<lambda>m. cv_health (mo_chain m) d (st = STATUS_APPLIED) (if oc_reported o1 then None else Some digest))) (\<lambda>health.
             case health of
               Inl _ \<Rightarrow> bind (modify (update_outcome d (\<lambda>o2. o2\<lparr>oc_health_slow := True\<rparr>))) (\<lambda>_. save env)
             | Inr _ \<Rightarrow>
                 bind (modify (update_outcome d (\<lambda>o2. o2\<lparr>oc_health_pending := False\<rparr>))) (\<lambda>_.
                 bind (set_retries (bt_remove d)) (\<lambda>_. save env))))))" for found
    by (auto intro!: adf.frame_rules adds_save adds_update adds_emit split: option.splits sum.splits)
  show ?thesis unfolding within_rel_def
  proof
    fix w
    show "adds D w (snd (flush_report env cf (d, st) w))"
    proof (cases "map_of (js_deployments (w_state w)) d")
      case None
      then show ?thesis by (simp add: flush_report_def bind_def gets_def panic_def adf.refl)
    next
      case (Some o1)
      have "adds (insert d D) w (snd (flush_report env cf (d, st) w))"
        using rest [unfolded within_rel_def, of "Some o1"] Some by (simp add: flush_report_def bind_def [of "gets _"] gets_def)
      moreover have "i \<noteq> d" if "\<not> bt_has (js_deployments (w_state w)) i" for i using that Some by auto
      ultimately show ?thesis unfolding adds_def by blast
    qed
  qed
qed

lemma adds_flush: "within_rel (adds D) (flush_funded_reports env cf validated attempted)"
  unfolding flush_funded_reports_def flush_reports_def
  by (auto intro!: adf.frame_rules adds_report adds_quiet [OF quiet_fund] adds_quiet [OF reads_within_quiet [OF reads_cap]])

lemma adds_commit: "d \<in> D \<Longrightarrow> within_rel (adds D) (services_commit env new (Some d))"
proof -
  assume d: "d \<in> D"
  have sv: "within_rel (adds D) (modify (\<lambda>s. s\<lparr>js_services := x\<rparr>))" for x by (rule adds_other) simp
  show ?thesis unfolding services_commit_def undo_commit_def using d
    by (auto intro!: adf.frame_rules adds_save adds_update sv adds_quiet [OF quiet_reader] split: sum.splits state_file.splits prod.splits)
qed

lemma adds_install: "d \<in> D \<Longrightarrow> within_rel (adds D) (install_one env cf d i)"
proof -
  assume d: "d \<in> D"
  have mark: "within_rel (adds D) (modify (mark_install cf d i))"
    using d by (auto intro!: adds_modify simp: mark_install_def update_outcome_def split: if_splits)
  have run: "within_rel (adds D) (run_install env cf d i)"
    unfolding run_install_def by (auto intro!: adf.frame_rules adds_emit split: option.splits)
  have conf: "within_rel (adds D) (modify (confirm_install n))" for n by (rule adds_other) (simp add: confirm_install_def)
  show ?thesis unfolding install_one_def
    by (auto intro!: adf.frame_rules adds_save mark run conf adds_quiet [OF quiet_recover] split: sum.splits)
qed

lemma adds_intent: "ev_deployment ev \<in> D \<Longrightarrow> within_rel (adds D) (begin_intent env ev)"
  unfolding begin_intent_def
  by (auto intro!: adf.frame_rules adds_save adds_emit adds_modify simp: insert_outcome_def split: if_splits)

lemma adds_handle: "ev_deployment (rs_event rs) \<in> D \<Longrightarrow> within_rel (adds D) (handle_deployment env cf rs)"
  unfolding handle_deployment_def
  by (auto intro!: adf.frame_rules adds_quiet [OF quiet_prepare] adds_intent adds_install adds_commit split: prod.splits)

lemma adds_finish: "d \<in> D \<Longrightarrow> within_rel (adds D) (finish_deployment env cf d r)"
  unfolding finish_deployment_def by (auto intro!: adf.frame_rules adds_save adds_update adds_flush)

lemma adds_stage: "ev_deployment (rs_event rs) \<in> D \<Longrightarrow> within_rel (adds D) (stage_daemon_update env cf rs)"
  unfolding stage_daemon_update_def stage_handoff_def Let_def
  by (auto intro!: adf.frame_rules adds_save adds_update adds_emit adds_quiet [OF quiet_readmit] adds_modify
      simp: update_outcome_def split: sum.splits if_splits)

lemma frame_returns:
  assumes "within_rel (adds D) m" and "returns m P" and "\<And>x. P x \<Longrightarrow> within_rel (adds D) (k (Inr x))" and "\<And>e. within_rel (adds D) (k (Inl e))"
  shows "within_rel (adds D) (bind (attempt m) k)"
  unfolding within_rel_def
proof
  fix w
  obtain a v where m: "m w = (a, v)" by fastforce
  have v: "adds D w v" using assms(1) m by (metis within_rel_def snd_conv)
  show "adds D w (snd (bind (attempt m) k w))"
  proof (cases a)
    case (Done x)
    then have "P x" using assms(2) m by (auto simp: returns_def)
    then have "adds D v (snd (k (Inr x) v))" using assms(3) by (simp add: within_rel_def)
    then show ?thesis using Done m adf.trans [OF v] by (simp add: bind_def attempt_def)
  next
    case (Failed e)
    have "adds D v (snd (k (Inl e) v))" using assms(4) by (simp add: within_rel_def)
    then show ?thesis using Failed m adf.trans [OF v] by (simp add: bind_def attempt_def)
  next
    case Cut
    then show ?thesis using v m by (simp add: bind_def attempt_def)
  qed
qed

lemma adds_execute: "within_rel (adds {ev_deployment ev}) (execute env cf ev rcd)"
proof -
  let ?D = "{ev_deployment ev}"
  have go: "within_rel (adds ?D) (perform env cf ev rs)" if "ev_deployment (rs_event rs) = ev_deployment ev" for rs
    using that unfolding perform_def by (auto intro!: adf.frame_rules adds_stage adds_handle adds_finish)
  have no: "within_rel (adds ?D) (dismiss env ev e)" for e
    unfolding dismiss_def by (auto intro!: adf.frame_rules adds_save adds_insert)
  have "within_rel (adds ?D) (bind (attempt (catalog_resolve env cf ev fs)) (\<lambda>found. case found of Inl e \<Rightarrow> dismiss env ev e | Inr rs \<Rightarrow> perform env cf ev rs))" for fs
    by (rule frame_returns [OF adds_quiet [OF reads_within_quiet [OF reads_resolve]] resolve_keeps_deployment]) (simp_all add: go no)
  then show ?thesis unfolding execute_unfold by (auto intro!: adf.frame_rules adds_quiet [OF quiet_admit])
qed

section \<open>The desired state\<close>

definition record_name :: "chain_object \<Rightarrow> string" where
  "record_name ob = str_or_empty (jget (ob_fields ob) ''component_name'')"

text \<open>
  What the chain guarantees of objects: an object is found under a well-formed identifier only, and the
  component a deployment record names never changes.
\<close>

definition fixed_records :: "environment \<Rightarrow> (string \<Rightarrow> string) \<Rightarrow> bool" where
  "fixed_records env name \<longleftrightarrow> (\<forall>t i ob. cv_object (mo_chain (env t)) i = Inr (Some ob) \<longrightarrow> same_id i i \<and> record_name ob = name i)"

lemma read_deployment_record:
  assumes "fixed_records env name"
  shows "returns (read_deployment env cf d) (\<lambda>r. \<forall>ev rcd. r = Some (ev, rcd) \<longrightarrow> ev_deployment ev = d \<and> ev_component ev = name d \<and> same_id d d)"
  unfolding returns_def
proof (intro allI impI)
  fix w r w' ev rcd assume "read_deployment env cf d w = (Done r, w')" and r: "r = Some (ev, rcd)"
  then obtain rcd' w1 where f: "optional_object env d w = (Done (Some rcd'), w1)" "ev_deployment ev = d" "ev_component ev = record_name rcd'"
    by (auto simp: read_deployment_def done_simps record_name_def Let_def split: option.splits)
  then have "cv_object (mo_chain (env (w_tick w))) d = Inr (Some rcd')" by (auto simp: optional_object_def done_simps)
  then show "ev_deployment ev = d \<and> ev_component ev = name d \<and> same_id d d" using assms f by (auto simp: fixed_records_def)
qed

fun applied_part :: "plan_step \<Rightarrow> string" where
  "applied_part (Apply c d) = c"
| "applied_part (Adopt c d) = c"
| "applied_part (Reselected c d) = c"

definition plan_ready :: "(string \<Rightarrow> string) \<Rightarrow> plan_step list \<Rightarrow> world \<Rightarrow> bool" where
  "plan_ready name steps w \<longleftrightarrow> settled_world w \<and> (\<forall>c d. Apply c d \<in> set steps \<longrightarrow> same_id d d \<longrightarrow> name d = c \<longrightarrow> \<not> bt_has (js_deployments (w_state w)) d)"

lemma ready_quiet: "plan_ready name steps w \<Longrightarrow> quiet w w' \<Longrightarrow> plan_ready name steps w'"
  using quiet_settled [of w w'] unfolding plan_ready_def by (auto simp: quiet_def)

lemma ready_kept: "upheld (plan_ready name steps)"
  by unfold_locales (simp add: plan_ready_def settled_world_def, rule ready_quiet)

lemma ready_less: "plan_ready name (p # steps) w \<Longrightarrow> plan_ready name steps w"
  by (simp add: plan_ready_def)

lemma execute_ready:
  assumes name: "name (ev_deployment ev) = c" "same_id (ev_deployment ev) (ev_deployment ev)" and dist: "c \<notin> applied_part ` set steps"
  shows "safe_run (plan_ready name (Apply c (ev_deployment ev) # steps)) (execute env cf ev rcd) (\<lambda>_. plan_ready name steps)"
  unfolding safe_run_def
proof (intro allI impI)
  let ?d = "ev_deployment ev"
  fix w assume w: "plan_ready name (Apply c ?d # steps) w"
  then have f: "novel ?d w" using name by (simp add: plan_ready_def novel_def)
  have "wp (execute env cf ev rcd) (\<lambda>_. settled_world) (\<lambda>_. ledger) ledger w" using safe_execute [of ev env cf rcd] f by (simp add: safe_run_def)
  moreover have "adds {?d} w (snd (execute env cf ev rcd w))" using adds_execute by (simp add: within_rel_def)
  moreover have "plan_ready name steps w'" if "settled_world w'" "adds {?d} w w'" for w'
    unfolding plan_ready_def
  proof (intro conjI allI impI)
    fix c' d' assume a: "Apply c' d' \<in> set steps" "same_id d' d'" "name d' = c'"
    then have "c' \<noteq> c" using dist by force
    then have "d' \<noteq> ?d" using a(3) name(1) by auto
    moreover have "\<not> bt_has (js_deployments (w_state w)) d'" using w a by (simp add: plan_ready_def)
    ultimately show "\<not> bt_has (js_deployments (w_state w')) d'" using that(2) by (simp add: adds_def)
  qed (rule that(1))
  ultimately show "wp (execute env cf ev rcd) (\<lambda>_. plan_ready name steps) (\<lambda>_. ledger) ledger w"
    by (auto simp: wp_def split: prod.splits answer.splits)
qed

lemma ready_read:
  assumes "within_rel reads m" and "returns m R" and "\<And>x. R x \<Longrightarrow> safe_run (plan_ready name steps) (k x) C"
  shows "safe_run (plan_ready name steps) (bind m k) C"
  by (rule safe_bind [OF safe_returns [OF upheld.kept_quiet [OF ready_kept reads_within_quiet [OF assms(1)]] assms(2)]])
    (use assms(3) in \<open>auto simp: safe_run_def\<close>)

lemma safe_steps:
  assumes fixed: "fixed_records env name"
  shows "distinct (map applied_part steps) \<Longrightarrow> safe_run (plan_ready name steps) (reconcile_steps env cf op fp steps) (\<lambda>_. settled_world)"
proof (induction steps)
  case Nil
  show ?case unfolding reconcile_steps.simps by (rule safe_pre [OF safe_save]) (simp add: plan_ready_def settled_world_def)
next
  case (Cons p steps)
  have dist: "distinct (map applied_part steps)" "applied_part p \<notin> applied_part ` set steps" using Cons.prems by auto
  have IH: "safe_run (plan_ready name steps) (reconcile_steps env cf op fp steps) (\<lambda>_. settled_world)" by (rule Cons.IH [OF dist(1)])
  have less: "safe_run (plan_ready name (p # steps)) (reconcile_steps env cf op fp steps) (\<lambda>_. settled_world)" by (rule safe_pre [OF IH ready_less])
  have keep: "safe_run (plan_ready name xs) (modify f) (\<lambda>_. plan_ready name xs)" if "\<And>s. js_deployments (f s) = js_deployments s" for f xs
    by (rule upheld.kept_quiet [OF ready_kept quiet_modify]) (rule that)
  have saved_ready: "safe_run (plan_ready name xs) (save env) (\<lambda>_. plan_ready name xs)" for xs by (rule upheld.kept_quiet [OF ready_kept quiet_save])
  have stop: "safe_run (plan_ready name xs) (ret ()) (\<lambda>_. settled_world)" for xs by (simp add: safe_run_def wp_ret plan_ready_def)
  show ?case
  proof (cases p)
    case (Adopt c d)
    show ?thesis unfolding Adopt reconcile_steps.simps by (rule safe_bind [OF keep less [unfolded Adopt]]) simp
  next
    case (Reselected c d)
    show ?thesis unfolding Reselected reconcile_steps.simps by (rule less [unfolded Reselected])
  next
    case (Apply c d)
    have go: "safe_run (plan_ready name (Apply c d # steps)) (bind (execute env cf ev rcd) (\<lambda>status.
           if status \<noteq> Some STATUS_APPLIED then ret ()
           else bind (modify (\<lambda>s. s\<lparr>js_step := None\<rparr>)) (\<lambda>_. bind (save env) (\<lambda>_. reconcile_steps env cf op fp steps)))) (\<lambda>_. settled_world)"
      if "ev_deployment ev = d" "name d = c" "same_id d d" for ev rcd
    proof (rule safe_bind)
      show "safe_run (plan_ready name (Apply c d # steps)) (execute env cf ev rcd) (\<lambda>_. plan_ready name steps)"
        using execute_ready [of name ev c steps env cf rcd] that dist(2) Apply by simp
      show "safe_run (plan_ready name steps) (if status \<noteq> Some STATUS_APPLIED then ret ()
           else bind (modify (\<lambda>s. s\<lparr>js_step := None\<rparr>)) (\<lambda>_. bind (save env) (\<lambda>_. reconcile_steps env cf op fp steps))) (\<lambda>_. settled_world)" for status
        using stop by (auto intro!: safe_bind [OF keep] safe_bind [OF saved_ready IH])
    qed
    have step: "safe_run (plan_ready name (Apply c d # steps)) (bind (modify (\<lambda>s. s\<lparr>js_step := Some \<lparr>pm_deployment = d, pm_desired = fp\<rparr>, js_managed := bt_insert c d (js_managed s)\<rparr>)) (\<lambda>_.
           bind (save env) (\<lambda>_. bind (execute env cf ev rcd) (\<lambda>status. if status \<noteq> Some STATUS_APPLIED then ret ()
           else bind (modify (\<lambda>s. s\<lparr>js_step := None\<rparr>)) (\<lambda>_. bind (save env) (\<lambda>_. reconcile_steps env cf op fp steps)))))) (\<lambda>_. settled_world)"
      if "ev_deployment ev = d" "name d = c" "same_id d d" for ev rcd
      by (rule safe_bind [OF keep safe_bind [OF saved_ready go [OF that]]]) simp
    show ?thesis unfolding Apply reconcile_steps.simps
      by (rule ready_read [OF reads_deployment read_deployment_record [OF fixed]])
        (use less [unfolded Apply] step in \<open>auto split: option.splits\<close>)
  qed
qed

lemma plan_parts: "map applied_part (plan_steps e current hist) = map (fst \<circ> step_target) (plan_steps e current hist)"
proof -
  have "applied_part = fst \<circ> step_target"
  proof
    fix p show "applied_part p = (fst \<circ> step_target) p" by (cases p) auto
  qed
  then show ?thesis by simp
qed

lemma effective_wf: "bt_wf (ef_components (effective_of groups))"
proof -
  have "bt_wf (ef_components r) \<Longrightarrow> bt_wf (ef_components (fold settle_source es r))" for es r
    by (induction es arbitrary: r) (auto simp: settle_source_def)
  then show ?thesis unfolding effective_of_def by (simp add: bt_wf_def)
qed

lemma plan_distinct: "distinct (map applied_part (plan_steps (effective_of groups) current hist))"
  using plan_names_sorted [OF effective_wf] by (simp add: plan_parts strict_sorted_iff comp_def)

lemma plan_ready_start:
  assumes "settled_world w"
  shows "plan_ready name (plan_steps e current (history_of (w_state w))) w"
proof -
  have never: "hist d = Never" if "Apply c d \<in> set (plan_one current hist p)" for hist c d p
    using that by (cases "hist (snd p)") (auto simp: plan_one_def Let_def split: if_splits)
  have "\<not> bt_has (js_deployments (w_state w)) d" if a: "Apply c d \<in> set (plan_steps e current (history_of (w_state w)))" and i: "same_id d d" for c d
  proof -
    have "history_of (w_state w) d = Never" using a never unfolding plan_steps_def by auto
    then have "find (\<lambda>(i, _). same_id i d) (js_deployments (w_state w)) = None" by (auto simp: history_of_def outcome_of_def split: option.splits if_splits)
    then have "(d, o1) \<notin> set (js_deployments (w_state w))" for o1 using i by (auto simp: find_None_iff)
    then show ?thesis using map_of_SomeD by fastforce
  qed
  then show ?thesis using assms by (auto simp: plan_ready_def)
qed

lemma safe_reconcile:
  assumes "fixed_records env name"
  shows "safe_run settled_world (reconcile_pass n env cf) (\<lambda>_. settled_world)"
proof -
  have steps: "safe_run settled_world (bind (gets (\<lambda>s. plan_steps (effective_of groups) (js_current s) (history_of s))) (reconcile_steps env cf op fp)) (\<lambda>_. settled_world)"
    for groups op fp
    unfolding safe_run_def wp_bind wp_gets
    using safe_steps [OF assms plan_distinct] plan_ready_start unfolding safe_run_def by blast
  have gr: "safe_run settled_world (carry (\<lambda>g acc. bind (read_desired env cf g op (st_device cf)) (\<lambda>found. ret (case found of Some x \<Rightarrow> acc @ [x] | None \<Rightarrow> acc))) names []) (\<lambda>_. settled_world)" for op names
    by (auto intro!: stl_steps stl_reads [OF reads_desired])
  show ?thesis unfolding reconcile_pass_def Let_def
    by (auto intro!: stl.kept_seq safe_memberships stl_reads [OF reads_operator] stl_gets gr stl.kept_ret stl_modify safe_settled_save steps)
qed

section \<open>Starts, polls and requests\<close>

lemma stl_flush: "safe_run settled_world (flush_funded_reports env cf validated attempted) (\<lambda>_. settled_world)"
  unfolding safe_run_def by (auto intro!: flush_settled simp: settled_world_def)

lemma led_commit: "safe_run ledger (services_commit env new None) (\<lambda>_. ledger)"
  unfolding safe_run_def
proof (intro allI impI)
  fix w assume "ledger w"
  from commit_steady [OF this, of None env new]
  show "wp (services_commit env new None) (\<lambda>_. ledger) (\<lambda>_. ledger) ledger w" by (auto elim!: wp_mono simp: steady_def)
qed

lemma identity_keeps [simp]: "restore_identity n d s = Some t \<Longrightarrow> js_deployments t = js_deployments s"
  by (auto simp: restore_identity_def split: option.splits if_splits)

lemma quiet_identity: "within_rel quiet (modify (\<lambda>s. case restore_identity n d s of Some t \<Rightarrow> t | None \<Rightarrow> s))"
  by (rule quiet_modify) (simp split: option.splits)

lemma quiet_configs: "within_rel quiet (restore_configs env name)"
  unfolding restore_configs_def by (intro quiet_rules)

lemma quiet_recovered: "within_rel quiet (restore_recovered env e)"
  unfolding restore_recovered_def by (auto intro!: quiet.frame_rules quiet_configs quiet_identity split: prod.splits)

lemma safe_recovery: "safe_run ledger (poll_recovery env cf) (\<lambda>_. settled_world)"
proof -
  have fund: "within_rel quiet (if st_budget cf then bind (ask env (\<lambda>m. cv_funding (mo_chain m))) (\<lambda>f. modify (\<lambda>s. s\<lparr>js_funding := Some f\<rparr>)) else ret ())"
    by (auto intro!: quiet_rules)
  have com: "safe_run ledger (if b then map_fail f (services_commit env new None) else ret ()) (\<lambda>_. ledger)" for b f new
    by (auto intro: safe_map_fail led_commit led.kept_ret)
  have asks: "safe_run ledger (ask env f) (\<lambda>_. ledger)" for f :: "moment \<Rightarrow> 'b" by (intro led.kept_quiet quiet_rules)
  show ?thesis unfolding poll_recovery_def
    by (intro led.kept_seq led.kept_quiet [OF fund] led_call asks led.kept_each led.kept_quiet [OF quiet_recovered] led_gets com safe_save)
qed

lemma safe_poll:
  assumes "fixed_records env name"
  shows "safe_run ledger (poll n env cf) (\<lambda>_. settled_world)"
  unfolding poll_def
proof (rule safe_bind [OF safe_recovery], goal_cases)
  case 1
  show ?case
    by (auto intro!: stl.kept_seq safe_collect stl.kept_quiet [OF quiet_configuration] stl_gets stl_flush stl_lift stl_call stl_ask stl.kept_ret
          stl_reads [OF reads_cap] safe_begin safe_discover stl.kept_each safe_deferred safe_reconcile [OF assms] safe_merge)
qed

lemma good_bound: "good lg s \<Longrightarrow> good lg (bound_state requested s)"
  by (simp add: good_def bound_state_def get_status_def Let_def)

lemma good_read: "good_file lg f \<Longrightarrow> read_state f = Inr s \<Longrightarrow> good lg s"
  by (auto simp: good_file_def read_state_def good_def default_state_def bt_wf_def split: state_file.splits)

lemma safe_open: "safe_run ledger (open_journal env cf) (\<lambda>_. settled_world)"
  unfolding safe_run_def
proof (intro allI impI)
  fix w assume w: "ledger w"
  let ?io = "mo_open (env (w_tick w))" and ?d = "w_disk w"
  obtain d r where o1: "journal_open ?io (st_binding cf) ?d = (d, r)" by fastforce
  have fail: "ledger (w\<lparr>w_disk := d\<rparr>)" 
  proof -
    have b: "good_file (w_log w) (Holds (bound_state (st_binding cf) s))" if "read_state (dk_file ?d) = Inr s" for s
      using good_bound [OF good_read [OF _ that]] w by (simp add: ledger_def good_file_def)
    have "good_file (w_log w) (dk_file d)" "good_file (w_log w) (dk_durable d)"
      using o1 w by (auto simp: journal_open_def Let_def ledger_def journal_save_def intro!: b split: if_splits sum.splits save_io.splits)
    then show ?thesis using w by (simp add: ledger_def)
  qed
  have done1: "settled_world (w\<lparr>w_disk := d, w_state := s, w_retries := []\<rparr>)" if "r = Inr s" for s
  proof -
    have "\<exists>t. read_state (dk_file ?d) = Inr t \<and> s = bound_state (st_binding cf) t \<and> d = \<lparr>dk_file = Holds s, dk_durable = Holds s\<rparr>"
      using o1 that by (auto simp: journal_open_def Let_def journal_save_def split: if_splits sum.splits save_io.splits)
    then have "good (w_log w) s" "d = \<lparr>dk_file = Holds s, dk_durable = Holds s\<rparr>" using w good_read good_bound by (auto simp: ledger_def)
    then show ?thesis using w by (simp add: settled_world_def ledger_def good_file_def synced_def file_status_def)
  qed
  show "wp (open_journal env cf) (\<lambda>_. settled_world) (\<lambda>_. ledger) ledger w"
  proof (cases "mo_alive (env (w_tick w))")
    case True
    have "settled_world (v\<lparr>w_tick := t\<rparr>) = settled_world v" "ledger (v\<lparr>w_tick := t\<rparr>) = ledger v" for v t by (simp_all add: settled_world_def)
    then show ?thesis using True o1 fail done1
      by (cases r) (auto simp: open_journal_def wp_def bind_def ask_def settled_world_def ledger_def synced_def)
  next
    case False
    then show ?thesis using w by (simp add: open_journal_def wp_def bind_def ask_def)
  qed
qed

lemma get_status_settle: "get_status d s = Some st \<Longrightarrow> get_status d (settle_deployments pend s) = Some st"
  by (auto simp: get_status_def settle_deployments_def map_of_map_entry settle_outcome_def split: bind_splits)

lemma safe_settle: "safe_run ledger (settle_interrupted env) (\<lambda>_. settled_world)"
proof -
  have keys: "bt_keys (js_deployments (settle_deployments pend s)) = bt_keys (js_deployments s)" for pend s by (simp add: settle_deployments_def case_prod_beta)
  have has: "bt_has (js_deployments (settle_deployments pend s)) i = bt_has (js_deployments s) i" for pend s i by (simp add: settle_deployments_def map_of_map_entry)
  have wf: "bt_wf (js_deployments (settle_deployments pend s)) = bt_wf (js_deployments s)" for pend s using keys [of pend s] by (simp add: bt_wf_def)
  have good: "good lg (settle_deployments pend s)" if "good lg s" for lg pend s
    using that has wf get_status_settle by (simp add: good_def)
  have "safe_run ledger (modify (settle_deployments pend)) (\<lambda>_. ledger)" for pend
    unfolding safe_run_def wp_modify using good by (simp add: ledger_def)
  moreover have "safe_run ledger (ask env f) (\<lambda>_. ledger)" for f :: "moment \<Rightarrow> string \<Rightarrow> dep_outcome \<Rightarrow> bool" by (intro led.kept_quiet quiet_rules)
  ultimately show ?thesis unfolding settle_interrupted_def by (intro led.kept_seq safe_save)
qed

lemma safe_resolve: "safe_run settled_world (resolve_handoff env cf) (\<lambda>_. settled_world)"
  unfolding resolve_handoff_def by (auto intro!: stl_steps safe_handoff split: resolution.splits)

lemma quiet_startup_recovery: "within_rel quiet (startup_recovery env recovered)"
proof -
  have one: "within_rel quiet (startup_identity e)" for e
    unfolding startup_identity_def by (auto intro!: quiet.frame_rules quiet_identity split: prod.splits option.splits)
  have sv: "within_rel quiet (modify (\<lambda>s. s\<lparr>js_services := x\<rparr>))" for x by (rule quiet_modify) simp
  show ?thesis unfolding startup_recovery_def
    by (auto intro!: quiet.frame_rules quiet_save one sv quiet_reader split: sum.splits)
qed

lemma safe_startup: "safe_run ledger (startup env cf) (\<lambda>_. settled_world)"
proof -
  have settle: "safe_run settled_world (settle_interrupted env) (\<lambda>_. settled_world)"
    by (rule safe_pre [OF safe_settle]) (simp add: settled_world_def)
  have tail: "safe_run settled_world (case confirm of None \<Rightarrow> ret ()
     | Some d \<Rightarrow> bind (ask_machine env (\<lambda>m. mv_confirm m d)) (\<lambda>_. settle_handoff env d (Inr ()))) (\<lambda>_. settled_world)" for confirm
    by (auto intro!: stl_steps safe_handoff split: option.splits)
  show ?thesis unfolding startup_def
    by (intro led.kept_seq led_call safe_bind [OF safe_open] stl.kept_seq settle safe_resolve stl_ask stl.kept_each
        stl.kept_quiet [OF quiet_configs] stl.kept_quiet [OF quiet_startup_recovery] stl_call tail)
qed

lemma led_reads: "within_rel reads m \<Longrightarrow> safe_run ledger m (\<lambda>_. ledger)"
  by (intro led.kept_quiet reads_within_quiet)

lemma safe_local:
  assumes "fixed_records env name"
  shows "safe_run ledger (local_install env cf i) (\<lambda>_. ledger)"
proof -
  let ?d = "canonical_id i"
  have must1: "safe_run ledger (must b e) (\<lambda>_. ledger)" for b e by (intro led.kept_quiet quiet_rules)
  have run: "safe_run ledger (bind (gets (\<lambda>s. outcome_of s ?d)) (\<lambda>known. case known of
           Some o1 \<Rightarrow> ret (oc_status o1)
         | None \<Rightarrow> bind (execute env cf ev rcd) (\<lambda>status. bind (settle_configuration env) (\<lambda>_. ret status)))) (\<lambda>_. ledger)"
    if "ev_deployment ev = ?d" "same_id ?d ?d" for ev rcd
    unfolding safe_run_def
  proof (intro allI impI)
    fix w assume w: "ledger w"
    have rest: "safe_run ledger (bind (settle_configuration env) (\<lambda>_. ret status)) (\<lambda>_. ledger)" for status :: "nat option"
      by (intro led.kept_seq led.kept_quiet [OF quiet_configuration] led.kept_ret)
    have "wp (execute env cf ev rcd) (\<lambda>_. ledger) (\<lambda>_. ledger) ledger w" if "outcome_of (w_state w) ?d = None"
    proof -
      have "find (\<lambda>(k, _). same_id k ?d) (js_deployments (w_state w)) = None" using that by (simp add: outcome_of_def)
      then have "(?d, o1) \<notin> set (js_deployments (w_state w))" for o1 using \<open>same_id ?d ?d\<close> by (auto simp: find_None_iff)
      then have "\<not> bt_has (js_deployments (w_state w)) (ev_deployment ev)" using \<open>ev_deployment ev = ?d\<close> map_of_SomeD by fastforce
      from execute_sound [OF w this] show ?thesis by (rule wp_mono) auto
    qed
    then have "wp (bind (execute env cf ev rcd) (\<lambda>status. bind (settle_configuration env) (\<lambda>_. ret status))) (\<lambda>_. ledger) (\<lambda>_. ledger) ledger w"
      if "outcome_of (w_state w) ?d = None"
      unfolding wp_bind [of "execute _ _ _ _"] using that rest by (auto elim!: wp_mono simp: safe_run_def)
    then show "wp (bind (gets (\<lambda>s. outcome_of s ?d)) (\<lambda>known. case known of
           Some o1 \<Rightarrow> ret (oc_status o1)
         | None \<Rightarrow> bind (execute env cf ev rcd) (\<lambda>status. bind (settle_configuration env) (\<lambda>_. ret status)))) (\<lambda>_. ledger) (\<lambda>_. ledger) ledger w"
      unfolding wp_bind [of "gets _"] wp_gets using w by (auto simp: wp_ret split: option.splits)
  qed
  show ?thesis unfolding local_install_def Let_def
  proof (rule led.kept_seq [OF must1], rule led.kept_seq [OF led_call], rule led.kept_seq [OF led_reads [OF reads_cap]],
      rule safe_bind [OF safe_returns [OF led_reads [OF reads_deployment] read_deployment_record [OF assms]]])
    fix found
    show "safe_run (\<lambda>w. (\<forall>ev rcd. found = Some (ev, rcd) \<longrightarrow> ev_deployment ev = ?d \<and> ev_component ev = name ?d \<and> same_id ?d ?d) \<and> ledger w)
       (case found of None \<Rightarrow> fail (plain ''missing deployment'')
     | Some (ev, rcd) \<Rightarrow>
         bind (authorized_target env cf ev (st_device cf)) (\<lambda>targeted.
         bind (must targeted (plain ''unauthorized target'')) (\<lambda>_.
         bind (is_managed env ?d) (\<lambda>managed.
         bind (must (\<not> managed) (plain ''desired-state deployments belong to reconciliation'')) (\<lambda>_.
         bind (must (st_daemon_component cf \<noteq> Some (ev_component ev)) (plain ''daemon updates belong to reconciliation'')) (\<lambda>_.
         bind (gets (\<lambda>s. outcome_of s ?d)) (\<lambda>known. case known of
           Some o1 \<Rightarrow> ret (oc_status o1)
         | None \<Rightarrow> bind (execute env cf ev rcd) (\<lambda>status. bind (settle_configuration env) (\<lambda>_. ret status))))))))) (\<lambda>_. ledger)"
    proof (cases found)
      case None
      then show ?thesis by (auto intro: safe_pre [OF led.kept_fail])
    next
      case (Some p)
      obtain ev rcd where p: "p = (ev, rcd)" by fastforce
      show ?thesis
      proof (cases "ev_deployment ev = ?d \<and> same_id ?d ?d")
        case True
        have "safe_run ledger (bind (authorized_target env cf ev (st_device cf)) (\<lambda>targeted.
         bind (must targeted (plain ''unauthorized target'')) (\<lambda>_.
         bind (is_managed env ?d) (\<lambda>managed.
         bind (must (\<not> managed) (plain ''desired-state deployments belong to reconciliation'')) (\<lambda>_.
         bind (must (st_daemon_component cf \<noteq> Some (ev_component ev)) (plain ''daemon updates belong to reconciliation'')) (\<lambda>_.
         bind (gets (\<lambda>s. outcome_of s ?d)) (\<lambda>known. case known of
           Some o1 \<Rightarrow> ret (oc_status o1)
         | None \<Rightarrow> bind (execute env cf ev rcd) (\<lambda>status. bind (settle_configuration env) (\<lambda>_. ret status))))))))) (\<lambda>_. ledger)"
          by (intro led.kept_seq led_reads [OF reads_authorized] led_reads [OF reads_controls(3)] must1 run) (use True in auto)
        then show ?thesis unfolding Some p option.case prod.case by (rule safe_pre) simp
      next
        case False
        then show ?thesis unfolding Some p safe_run_def by auto
      qed
    qed
  qed
qed

end
