(* ===== verification/DaemonLife.thy ===== *)
theory DaemonLife
  imports PollSafety
begin

text \<open>
  The life of a device across starts, polls, local requests, crashes and power losses, and what holds of the
  log of its effects at every moment of it. A concrete device that carries out one deployment is evaluated
  at the end.
\<close>

section \<open>The life of a daemon\<close>

text \<open>
  Whether the process goes on after a poll: a staged daemon update and a service generation that needs
  recovery end it, any other error is retried at the next poll.
\<close>

definition goes_on :: "'a answer \<Rightarrow> bool" where
  "goes_on a = (case a of Done _ \<Rightarrow> True | Failed e \<Rightarrow> ft_kind e \<noteq> RecoveryRequired \<and> ft_kind e \<noteq> HandoffRequested | Cut \<Rightarrow> False)"

definition serves_on :: "'a answer \<Rightarrow> bool" where
  "serves_on a = (case a of Done _ \<Rightarrow> True | Failed e \<Rightarrow> ft_kind e \<noteq> RecoveryRequired | Cut \<Rightarrow> False)"

text \<open>
  The worlds a device can get into, with the process running or not: from an empty state directory, through
  starts, polls (that read any number of pages), local requests, stops, crashes at any call and power losses.
\<close>

inductive reach :: "environment \<Rightarrow> settings \<Rightarrow> bool \<Rightarrow> world \<Rightarrow> bool" for env :: environment and cf :: settings where
  reach_new: "w_state w = default_state \<Longrightarrow> w_disk w = \<lparr>dk_file = Missing, dk_durable = Missing\<rparr> \<Longrightarrow> w_log w = [] \<Longrightarrow> reach env cf False w"
| reach_start: "reach env cf False w \<Longrightarrow> startup env cf w = (a, w') \<Longrightarrow> reach env cf (a = Done ()) w'"
| reach_poll: "reach env cf True w \<Longrightarrow> poll n env cf w = (a, w') \<Longrightarrow> reach env cf (goes_on a) w'"
| reach_request: "reach env cf True w \<Longrightarrow> local_install env cf i w = (a2, w') \<Longrightarrow> reach env cf (serves_on a2) w'"
| reach_stop: "reach env cf True w \<Longrightarrow> reach env cf False w"
| reach_power: "reach env cf False w \<Longrightarrow> reach env cf False (w\<lparr>w_disk := power_loss (w_disk w)\<rparr>)"

lemma safe_ledger: "safe_run ledger m B \<Longrightarrow> (\<And>x w. B x w \<Longrightarrow> ledger w) \<Longrightarrow> ledger w \<Longrightarrow> m w = (a, w') \<Longrightarrow> ledger w'"
  unfolding safe_run_def wp_def by (cases a) fastforce+

lemma ledger_new: "w_state w = default_state \<Longrightarrow> w_disk w = \<lparr>dk_file = Missing, dk_durable = Missing\<rparr> \<Longrightarrow> w_log w = [] \<Longrightarrow> ledger w"
  by (simp add: ledger_def good_def good_file_def default_state_def bt_wf_def admitted_def blocks_def List.map_filter_def)

lemma reach_ledger:
  assumes fixed: "fixed_records env name"
  shows "reach env cf b w \<Longrightarrow> ledger w"
proof (induction rule: reach.induct)
  case (reach_start w a w')
  then show ?case using safe_ledger [OF safe_startup] by (simp add: settled_world_def)
next
  case (reach_poll w n a w')
  then show ?case using safe_ledger [OF safe_poll [OF fixed]] by (simp add: settled_world_def)
next
  case (reach_request w i a w')
  then show ?case using safe_ledger [OF safe_local [OF fixed]] by simp
next
  case (reach_power w)
  then show ?case by (simp add: ledger_def power_loss_def)
qed (auto intro: ledger_new)

section \<open>A concrete device\<close>

text \<open>
  A device that is asked locally for one deployment: every call succeeds, the record names the device and the
  recipe installs one component by a command.
\<close>

definition live_id :: string where
  "live_id = ''0x0000000000000000000000000000000000000000000000000000000000000007''"

definition live_hash :: string where
  "live_hash = ''aaaaaaaaaaaaaaaaaaaaaaaaaaaaaaaaaaaaaaaaaaaaaaaaaaaaaaaaaaaaaaaa''"

definition live_record :: chain_object where
  "live_record = \<lparr>ob_type = ''0x1::deployment_manager::DeploymentRecord'', ob_owner = OwnerShared 1,
         ob_fields = JObj [(''artifact_sha256'', JStr live_hash), (''component_name'', JStr ''app''), (''creator'', JStr ''0xf''),
           (''recipe_blob_id'', JStr ''r''), (''schema_version'', JNum (PosInt 1)), (''version'', JStr ''1.0.0'')]\<rparr>"

definition live_objects :: "(string \<times> chain_object) list" where
  "live_objects =
     [(''0xd'', \<lparr>ob_type = ''0x1::device_registry::Device'', ob_owner = OwnerShared 1, ob_fields = JObj [(''device_address'', JStr ''0xa'')]\<rparr>),
      (''0xe'', \<lparr>ob_type = ''0x1::device_registry::DeviceOwnerCap'', ob_owner = OwnerAddress ''0xf'', ob_fields = JObj [(''device_id'', JStr ''0xd'')]\<rparr>),
      (''0xc'', \<lparr>ob_type = ''0x1::device_cap::DeviceCap'', ob_owner = OwnerAddress ''0xa'', ob_fields = JObj [(''device_id'', JStr ''0xd'')]\<rparr>),
      (live_id, live_record)]"

definition live_fields :: "(string \<times> json) list" where
  "live_fields =
     [(''device_registry::IdentityKey'', JObj [(''owner_cap'', JStr ''0xe''), (''signer'', JStr ''0xa'')]),
      (''device_cap::DeviceAddressKey'', JStr ''0xa''), (''deployment_manager::TargetDevicesKey'', JArr [JStr ''0xd'']),
      (''deployment_manager::RecipeDigestKey'', JStr live_hash)]"

definition live_recipe :: recipe where
  "live_recipe = \<lparr>re_schema = ''1.0'', re_name = ''app'', re_version = ''1.0.0'', re_blob = ''b'', re_artifact = live_hash,
     re_lifecycle = \<lparr>lc_install = Some ''install'', lc_run = None, lc_shutdown = None, lc_readiness = None, lc_restart = None, lc_validate = None\<rparr>,
     re_configuration = \<lparr>cfg_defaults = None, cfg_merge_doc = None, cfg_reset = None, cfg_confidential = None\<rparr>,
     re_dependencies = None, re_services = None\<rparr>"

definition live_env :: environment where
  "live_env t = demo_moment\<lparr>
     mo_io := [True, True, True, True],
     mo_chain := down_chain\<lparr>cv_object := (\<lambda>i. Inr (map_of live_objects i)), cv_keyed := (\<lambda>p n k. Inr (map_of live_fields n)),
       cv_validate := Inr (), cv_report := (\<lambda>_ _. Inr ''digest''), cv_health := (\<lambda>_ _ _. Inr ())\<rparr>,
     mo_supply := down_supply\<lparr>su_recipe := (\<lambda>_ _. Inr \<lparr>au_recipe = live_recipe, au_confidential = False\<rparr>), su_artifact := (\<lambda>_ _. Inr ()),
       su_overlay := (\<lambda>_. Inr []), su_file := Inr ()\<rparr>\<rparr>"

definition ready_state :: journal_state where
  "ready_state = default_state\<lparr>js_binding := ''demo''\<rparr>"

definition ready_world :: world where
  "ready_world = demo_world\<lparr>w_state := ready_state, w_disk := \<lparr>dk_file = Holds ready_state, dk_durable = Holds ready_state\<rparr>, w_tick := 7\<rparr>"

text \<open>Evaluation: the definitions to unfold, and congruences that leave a continuation alone until it is applied.\<close>

lemmas basic_evals =
  ensure_def bt_remove_def bt_adjust_def byte_def is_ascii_digit_def is_ascii_lower_def is_ascii_upper_def is_ascii_alphanumeric_def
  is_continuation_def strip_prefix_def ends_with_def strip_suffix_def u64_max_def saturating_add_def saturating_mul_def saturating_sub_def
  valid_name_def planned_install_def MAX_POINTERS_def MAX_POINTER_LENGTH_def encode_utf16_count_def unescape_def tokens_def set_tokens_def cfg_set_def
  remove_tokens_def cfg_remove_def reset_def check_limits_def no_confidential_in_def validate_recipe_def cfg_next_def cfg_sealed_def materialize_def
  take_ok_def dir_of_def cfg_committed_def write_record_def cfg_stage_def cfg_commit_def cfg_restore_def cfg_discard_def settle_one_def cfg_settle_def
  parse_u64_def float_u64_def DEVICE_LOCAL_def lookup_zone_def in_range_def to_timestamp_def slot_opening_def slot_valid_def recurring_check_def
  weekday_def slot_span_def day_spans_def date_plus_def recurring_spans_def sort_spans_def occurrence_def recurring_reason_def control_reason_def
  capped_end_def window_control_def window_recurring_def windows_def window_active_def coalesce_def remember_def

lemmas journal_evals =
  fault_context_def STATUS_APPLIED_def STATUS_FAILED_def default_outcome_def default_state_def SERVICES_READER_def binding_matches_def
  journal_save_def needs_services_def bound_state_def read_state_def journal_open_def unreported_def RECEIPT_ITEMS_def RECEIPT_BYTES_def
  receipt_backlog_def ensure_receipt_room_def interrupted_def settle_outcome_def settle_deployments_def jget_def as_str_def as_array_def
  str_or_empty_def get_fields_def json_number_def supported_customer_version_def id_list_def byte_vector_def check_identity_def restart_parse_def
  lifecycle_of_def map_fault_def recipe_validate_def cat_token_def cat_hash_def platform_def manifest_row_def version_validate_def version_select_def

lemmas effect_evals =
  has_type_def ret_def fail_def bind_def attempt_def map_fail_def withhold_def panic_def lift_def must_def gets_def modify_def emit_def ask_def
  store_disk_def save_def disk_file_def configs_def committed_config_def get_retries_def set_retries_def down_def down_chain_def down_supply_def
  idle_machine_def demo_moment_def demo_world_def optional_object_def get_object_def keyed_field_def dynamic_field_def address_bytes_def identity_def
  lists_id_def is_shared_def fleet_ok_def customer_ok_def custody_def operator_def INBOX_TYPES_def has_inbox_def group_contains_def
  authorized_target_def has_receipt_shards_def read_deployment_def default_control_def deployment_control_def RECURRING_WINDOW_TYPES_def
  deployment_recurring_window_def SHARD_TYPES_def read_shards_def deployment_schema_def is_managed_def rollout_position_def rollout_grant_def
  rollout_state_def rollout_checked_def rollout_admission_def validate_cap_def CATALOG_TYPES_def catalog_version_ok_def resolve_plain_def
  resolve_catalog_def catalog_resolve_def

lemmas executor_evals =
  ERROR_BOUND_def bounded_text_def record_result_def update_outcome_def insert_outcome_def get_status_def notified_at_def terminal_reasons_def
  next_window_def notice_def admit_def installed_components_def no_services_def forget_previous_def service_candidate_def require_service_reader_def
  recovery_def undo_commit_def services_commit_def default_record_def install_context_def planned_component_def build_install_def computed_record_def
  prepare_configuration_def begin_intent_def mark_install_def run_install_def recover_install_def confirm_install_def install_one_def readmit_def
  check_root_def prepare_deployment_def handle_deployment_def stage_handoff_def stage_daemon_update_def due_report_def retry_seconds_def
  flush_report_def flush_reports_def default_funding_def fund_reports_def flush_funded_reports_def funding_blocked_def failed_with_def
  finish_deployment_def execute_def retained_deferrals_def settled_by_def settle_configuration_def settle_handoff_def prune_grants_def
  reconcile_generation_def services_reconcile_def restore_identity_def startup_identity_def startup_recovery_def open_journal_def may_finish_def
  settle_interrupted_def restore_configs_def resolve_handoff_def startup_def advance_def outcome_of_def local_install_def

lemma run_congs: "m = m' \<Longrightarrow> bind m k = bind m' k" "attempt n = attempt n" "map_fail f n = map_fail f n"
  "c = c' \<Longrightarrow> withhold c st n = withhold c' st n" "xs = xs' \<Longrightarrow> each g xs = each g xs'" "xs = xs' \<Longrightarrow> s = s' \<Longrightarrow> carry h xs s = carry h xs' s'"
  by simp_all

lemma live_lookup: "map_of live_objects live_id = Some live_record"
  "map_of live_objects ''0xd'' = Some \<lparr>ob_type = ''0x1::device_registry::Device'', ob_owner = OwnerShared 1, ob_fields = JObj [(''device_address'', JStr ''0xa'')]\<rparr>"
  "map_of live_objects ''0xe'' = Some \<lparr>ob_type = ''0x1::device_registry::DeviceOwnerCap'', ob_owner = OwnerAddress ''0xf'', ob_fields = JObj [(''device_id'', JStr ''0xd'')]\<rparr>"
  "map_of live_objects ''0xc'' = Some \<lparr>ob_type = ''0x1::device_cap::DeviceCap'', ob_owner = OwnerAddress ''0xa'', ob_fields = JObj [(''device_id'', JStr ''0xd'')]\<rparr>"
  by (simp_all add: live_objects_def live_id_def)

lemma live_keys: "map_of live_fields ''device_registry::IdentityKey'' = Some (JObj [(''owner_cap'', JStr ''0xe''), (''signer'', JStr ''0xa'')])"
  "map_of live_fields ''device_cap::DeviceAddressKey'' = Some (JStr ''0xa'')" "map_of live_fields ''deployment_manager::TargetDevicesKey'' = Some (JArr [JStr ''0xd''])"
  "map_of live_fields ''deployment_manager::RecipeDigestKey'' = Some (JStr live_hash)" "map_of live_fields ''deployment_manager::TargetGroupsKey'' = None"
  "map_of live_fields ''deployment_manager::ManagedKey'' = None" "map_of live_fields ''deployment_manager::ControlKey'' = None"
  by (simp_all add: live_fields_def)

lemma live_ids: "same_id ''0xd'' ''0xd''" "same_id ''0xa'' ''0xa''" "same_id ''0xf'' ''0xf''" "valid_deployment_id live_id" "canonical_id live_id = live_id"
  "same_type ''0x1::device_registry::Device'' ''0x1::device_registry::Device''" "same_type ''0x1::device_registry::DeviceOwnerCap'' ''0x1::device_registry::DeviceOwnerCap''"
  "same_type ''0x1::device_cap::DeviceCap'' ''0x1::device_cap::DeviceCap''" "same_type ''0x1::deployment_manager::DeploymentRecord'' ''0x1::deployment_manager::DeploymentRecord''"
  by code_simp+

lemma live_valid: "validate_component demo_semver (\<lambda>_. Inr ()) live_recipe ''app'' ''1.0.0'' live_hash True = Inr []"
  by code_simp

lemma live_recipe_fields: "re_blob live_recipe = ''b''" "re_lifecycle live_recipe = \<lparr>lc_install = Some ''install'', lc_run = None, lc_shutdown = None, lc_readiness = None, lc_restart = None, lc_validate = None\<rparr>"
  "re_services live_recipe = None" "re_configuration live_recipe = \<lparr>cfg_defaults = None, cfg_merge_doc = None, cfg_reset = None, cfg_confidential = None\<rparr>"
  by (simp_all add: live_recipe_def)

lemma live_settings:
  "st_binding demo_settings = ''demo''"
  "st_device demo_settings = ''0xd''"
  "st_cap demo_settings = ''0xc''"
  "st_address demo_settings = ''0xa''"
  "st_registry demo_settings = ''0x5''"
  "st_upgrade_cap demo_settings = ''0x6''"
  "st_types demo_settings = []"
  "st_move_type demo_settings = (\<lambda>n. ''0x1::'' @ n)"
  "st_custody_type demo_settings = None"
  "st_address_bytes demo_settings = Some"
  "st_inbox demo_settings = Inl down"
  "st_base64 demo_settings = (\<lambda>_. None)"
  "st_budget demo_settings = False"
  "st_helper demo_settings = False"
  "st_allow_commands demo_settings = True"
  "st_daemon_component demo_settings = None"
  "st_defer_max demo_settings = 60"
  "st_poll_seconds demo_settings = 10"
  "st_replay demo_settings = False"
  "st_sleeping demo_settings = []"
  "st_platform demo_settings = (''linux'', ''arm'')"
  "st_calendar demo_settings = demo_calendar"
  "st_tzdb demo_settings = ''2025b''"
  "st_semver demo_settings = demo_semver"
  "st_sizes demo_settings = \<lparr>sz_outcomes = (\<lambda>m. int (length m)), sz_deferred = (\<lambda>m. int (length m))\<rparr>"
  "st_check_services demo_settings = (\<lambda>_. Inr ())"
  "st_control demo_settings = (\<lambda>_. Inl down)"
  "st_recurring demo_settings = (\<lambda>_. Inl down)"
  "st_version demo_settings = (\<lambda>_. Inl down)"
  "st_fingerprint demo_settings = (\<lambda>e. concat (map (\<lambda>(n, d). n @ d) (ef_components e)))"
  "st_request_id demo_settings = (\<lambda>d. d)"
  by (simp_all add: demo_settings_def)

definition live_root :: root where
  "live_root = \<lparr>root_name = ''app'', root_version = ''1.0.0'', root_dependencies = []\<rparr>"

definition live_plan :: plan where
  "live_plan = \<lparr>plan_order = [\<lparr>pl_name = ''app'', pl_version = ''1.0.0'', pl_source = FromRoot, pl_dependencies = []\<rparr>], plan_omitted = []\<rparr>"

lemma live_resolve: "resolve demo_semver live_root [] [] = Inr (StepPlan live_plan)"
  by code_simp

lemma live_plan_loop: "plan_loop MAX_LOADS live_env demo_settings b \<lparr>root_name = ''app'', root_version = ''1.0.0'', root_dependencies = []\<rparr> [] [] [] False w
    = (Done (Inr \<lparr>plan_order = [\<lparr>pl_name = ''app'', pl_version = ''1.0.0'', pl_source = FromRoot, pl_dependencies = []\<rparr>], plan_omitted = []\<rparr>, [], False), w)"
proof -
  have n: "MAX_LOADS = Suc 255" by (simp add: MAX_LOADS_def)
  show ?thesis unfolding n plan_loop.simps live_settings live_resolve [unfolded live_root_def live_plan_def] by (simp add: ret_def)
qed

lemma live_start: "startup live_env demo_settings demo_world = (Done (), ready_world)"
  by (simp add: basic_evals journal_evals effect_evals executor_evals live_settings live_env_def ready_world_def ready_state_def cong: run_congs)

lemma live_request: "w_log (snd (local_install live_env demo_settings live_id ready_world)) = [EvAdmitted live_id, EvInstall live_id ''app'', EvReport live_id 1]"
  by (simp add: basic_evals journal_evals effect_evals executor_evals live_settings live_plan_loop live_env_def ready_world_def ready_state_def Let_def
      live_lookup live_record_def live_keys live_ids live_valid live_recipe_fields cong: run_congs)

definition live_name :: "string \<Rightarrow> string" where
  "live_name i = (case map_of live_objects i of Some ob \<Rightarrow> record_name ob | None \<Rightarrow> [])"

lemma live_fixed: "fixed_records live_env live_name"
proof -
  have "list_all (\<lambda>(i, _). same_id i i) live_objects" by code_simp
  then have "same_id i i" if "map_of live_objects i = Some ob" for i ob using map_of_SomeD [OF that] by (auto simp: list_all_iff)
  then show ?thesis by (auto simp: fixed_records_def live_env_def live_name_def)
qed

lemma live_reach: "\<exists>b w. reach live_env demo_settings b w \<and> w_log w = [EvAdmitted live_id, EvInstall live_id ''app'', EvReport live_id 1]"
proof -
  obtain a w where w: "local_install live_env demo_settings live_id ready_world = (a, w)" by fastforce
  have "reach live_env demo_settings False demo_world" by (rule reach_new) (simp_all add: demo_world_def)
  from reach_start [OF this live_start] have "reach live_env demo_settings True ready_world" by simp
  from reach_request [OF this w] live_request show ?thesis using w by (metis snd_conv)
qed

section \<open>What holds throughout\<close>

text \<open>
  C1: A deployment runs at most once on a device, across any sequence of starts, polls, local requests,
  crashes at any call and power losses: no deployment is admitted twice; installs are made only for the
  deployment admitted last, with nothing but its other installs in between; and from its admission on,
  the journal file and what a power loss would leave of it both have an entry for the deployment.
\<close>

theorem runs_at_most_once:
  assumes "fixed_records env name" and "reach env cf b w"
  shows "distinct (admitted (w_log w)) \<and>
    (\<forall>pre d n post. w_log w = pre @ EvInstall d n # post \<longrightarrow> (\<exists>pre' ns. pre = pre' @ EvAdmitted d # map (EvInstall d) ns)) \<and>
    (\<forall>d f. EvAdmitted d \<in> set (w_log w) \<longrightarrow> f \<in> {dk_file (w_disk w), dk_durable (w_disk w)} \<longrightarrow> (\<exists>s. f = Holds s \<and> bt_has (js_deployments s) d))"
proof -
  have l: "ledger w" by (rule reach_ledger [OF assms])
  have "\<exists>s. f = Holds s \<and> bt_has (js_deployments s) d" if "EvAdmitted d \<in> set (w_log w)" "good_file (w_log w) f" for d f
    using that by (auto simp: good_file_def good_def split: state_file.splits)
  then show ?thesis using l unfolding ledger_def blocks_def by blast
qed

theorem runs_at_most_once_witness:
  "\<exists>b w. reach live_env demo_settings b w \<and> w_log w = [EvAdmitted live_id, EvInstall live_id ''app'', EvReport live_id 1] \<and>
     admitted (w_log w) = [live_id] \<and> distinct (admitted (w_log w)) \<and> (\<exists>s. dk_durable (w_disk w) = Holds s \<and> bt_has (js_deployments s) live_id)"
proof -
  obtain b w where w: "reach live_env demo_settings b w" "w_log w = [EvAdmitted live_id, EvInstall live_id ''app'', EvReport live_id 1]" using live_reach by blast
  then have "EvAdmitted live_id \<in> set (w_log w)" "dk_durable (w_disk w) \<in> {dk_file (w_disk w), dk_durable (w_disk w)}" by simp_all
  then have "\<exists>s. dk_durable (w_disk w) = Holds s \<and> bt_has (js_deployments s) live_id" using runs_at_most_once [OF live_fixed w(1)] by blast
  moreover have "admitted (w_log w) = [live_id]" using w(2) by (simp add: admitted_def List.map_filter_def)
  ultimately show ?thesis using w runs_at_most_once [OF live_fixed w(1)] by blast
qed

text \<open>
  C2: Reports never contradict each other: across starts, polls, local requests, crashes and power losses, all
  statuses ever reported for a deployment are the same, and that status is the one in memory, in the journal
  file and in what a power loss would leave of it.
\<close>

theorem reports_agree:
  assumes "fixed_records env name" and "reach env cf b w" and r: "EvReport d st \<in> set (w_log w)"
  shows "(\<forall>st'. EvReport d st' \<in> set (w_log w) \<longrightarrow> st' = st) \<and> get_status d (w_state w) = Some st \<and>
    (\<forall>f \<in> {dk_file (w_disk w), dk_durable (w_disk w)}. \<exists>s. f = Holds s \<and> get_status d s = Some st)"
proof (intro conjI allI impI ballI)
  have l: "ledger w" by (rule reach_ledger [OF assms(1,2)])
  then show st: "get_status d (w_state w) = Some st" using r by (simp add: ledger_def good_def)
  show "st' = st" if "EvReport d st' \<in> set (w_log w)" for st' using l that st by (simp add: ledger_def good_def)
  fix f assume "f \<in> {dk_file (w_disk w), dk_durable (w_disk w)}"
  then have "good_file (w_log w) f" using l by (auto simp: ledger_def)
  then show "\<exists>s. f = Holds s \<and> get_status d s = Some st" using r by (auto simp: good_file_def good_def split: state_file.splits)
qed

theorem reports_agree_witness:
  "\<exists>b w. reach live_env demo_settings b w \<and> EvReport live_id 1 \<in> set (w_log w) \<and> get_status live_id (w_state w) = Some 1"
proof -
  obtain b w where w: "reach live_env demo_settings b w" "w_log w = [EvAdmitted live_id, EvInstall live_id ''app'', EvReport live_id 1]" using live_reach by blast
  then have r: "EvReport live_id 1 \<in> set (w_log w)" by simp
  show ?thesis using w(1) r reports_agree [OF live_fixed w(1) r] by blast
qed

end
