(* ===== verification/Spec2Isabelle.thy ===== *)
theory Spec2Isabelle
  imports Delivery StorePolicy ExportProps DaemonLife
begin

text \<open>
  A verification library for the SuiFleet edge daemon (\<open>suifleet-edge/src\<close>).

  \<^bold>\<open>The program.\<close> The daemon runs on a device. It polls a chain for deployments that an operator made
  for the device or for a group it is in, decides when one may run, resolves its dependencies, installs its
  components, and reports the outcome. Components on the device talk to each other through a local durable
  broker, read their configuration from a store, share state through shadows that synchronize with a cloud,
  and append to durable streams that are exported. All of it is meant to survive failed file operations,
  crashes and power losses. The parts below are modelled in this order; a part uses only earlier ones.

  \<^bold>\<open>Shared vocabulary.\<close> \<open>Prelude\<close>: results as sums, ordered maps (\<open>BTreeMap\<close>) as
  sorted association lists behind a locale of map laws, bytes, strings and saturating 64-bit arithmetic.
  \<open>Json\<close>: \<open>serde_json::Value\<close>.

  \<^bold>\<open>Dependencies\<close> (\<open>deps.rs\<close>, theory \<open>Deps\<close>). Requirements, the bounded backtracking search
  and the topological order. Lemmas: a plan satisfies every requirement of what it installs and of what stays
  installed, it is ordered, an order error is a cycle, and the resolution always ends. The search is bounded
  by \<open>SEARCH_LIMIT\<close> as in the code, so its fuel is the code's own counter.

  \<^bold>\<open>Local pub/sub\<close> (\<open>pubsub.rs\<close>, theories \<open>Topics\<close>, \<open>Broker\<close>, \<open>Delivery\<close>).
  Filters and policies; subscriptions with their queues in memory and on disk, where the outcome of each file
  operation comes from a list. Lemmas: matching is the MQTT specification; a fanout reaches all subscribers
  or none under any pattern of failures; a restart recovers the queues; messages stay until acknowledged;
  every run keeps the limits. The one exception, a directory sync that fails after the marker was renamed,
  is proved as a counterexample.

  \<^bold>\<open>Configuration\<close> (\<open>configuration.rs\<close>, theories \<open>Configuration\<close>, \<open>ConfigStore\<close>).
  Pointers, merges and resets; staged and committed records. Lemmas: confidential values never reach the
  plain document, and settling decides a staged record by the fate of its deployment.

  \<^bold>\<open>Shadows\<close> (\<open>shadows.rs\<close>, theories \<open>ShadowDocs\<close>, \<open>Shadows\<close>). Documents, versions,
  requests, policies and one reconciliation with the cloud. Lemmas: runs keep the store well formed, a policy
  limits the sections an update may touch, the three-way merge loses no update of either side, and the
  synchronization converges.

  \<^bold>\<open>Streams\<close> (\<open>streams.rs\<close>, theories \<open>StreamFrame\<close>, \<open>Streams\<close>, \<open>StreamLog\<close>,
  \<open>StreamRun\<close>, \<open>StreamProps\<close>, \<open>StreamStore\<close>, \<open>StorePolicy\<close>). Records framed with a CRC,
  segments in a directory of files with partial writes, retention, quotas, definitions and requests. Lemmas:
  what was acknowledged and is retained is read back after any crash (a refinement of a list of records),
  sequence numbers are never reused, the size bound holds, changed bytes are found, a failed reconfiguration
  is rolled back.

  \<^bold>\<open>Exports and signatures\<close> (\<open>streams.rs\<close>, \<open>shadows.rs\<close>, \<open>clientdevices.rs\<close>,
  theories \<open>Manifests\<close>, \<open>Exporter\<close>, \<open>ExportProps\<close>). The manifests the device key signs and
  the loops that send them. Lemmas: a signed message is accepted as one kind only, and a checkpoint moves
  only past what a destination accepted.

  \<^bold>\<open>Deployments.\<close> \<open>Admission\<close> (\<open>control.rs\<close>) and \<open>Cadence\<close> (\<open>cadence.rs\<close>): when a
  deployment may run and when the daemon looks again. \<open>Reconcile\<close> (\<open>reconcile.rs\<close>): the desired
  state of the groups and the plan towards it. \<open>Journal\<close> (\<open>state.rs\<close>, \<open>heads.rs\<close>): the state
  of the daemon, saving it and settling what an interrupted run left. \<open>Recipes\<close> (\<open>recipe.rs\<close>,
  \<open>protocol.rs\<close>, \<open>catalog.rs\<close>). \<open>ChainReads\<close> (\<open>sui_client.rs\<close>): what is read from the
  chain and what is decided on it. \<open>Executor\<close> (\<open>linux_main.rs\<close>, \<open>components.rs\<close>,
  \<open>services.rs\<close>): one deployment, from admission to the report. \<open>PollLoop\<close> (\<open>linux_main.rs\<close>):
  starts, polls and local requests.

  \<^bold>\<open>How the deployment part is stated.\<close> \<open>Effects\<close> has the world (memory, journal file, its durable
  version, configuration records, a log of effects) and a monad of computations over it that return, fail or
  are cut off. An environment answers every call that leaves the daemon, as a function of the number of calls
  made, and may stop the process at any of them. Frames (locales \<open>read_frame\<close> and \<open>run_frame\<close>) say what a
  computation cannot change; \<open>wp\<close> is its weakest precondition. \<open>Ledger\<close> has the invariant that ties
  the log to memory and to both versions of the file; \<open>Decisions\<close> shows that every operation of the
  executor keeps it, \<open>PollSafety\<close> that starts, polls and requests do; \<open>DaemonLife\<close> has the
  inductive relation of the worlds a device gets into and the two theorems over it: a deployment runs at most
  once, and reports never contradict each other. A loop over event pages takes the number of pages it may
  read, and a poll that needs more is cut off there; the theorems hold for every such number, so they cover
  every prefix of a scan that goes on for ever.

  \<^bold>\<open>What is assumed.\<close> Code outside the repository is a parameter: \<open>serde_json\<close> (its text, sizes and
  round trips of flat structures), SHA-256 (a digest of 32 bytes), SemVer matching and precedence, the time
  zone database, the random number generator, base 64, the node, Walrus, the service runtime and the
  processes of components. Where a theorem relies on one of them the law is a named hypothesis: queue
  directories of different subscribers do not collide, sequence numbers stay below \<open>2 ^ 64\<close>, objects
  are found under well-formed identifiers and the component a deployment record names does not change. A file
  that was renamed but whose directory was not synchronized may be undone by a power loss.

  \<^bold>\<open>Not modelled.\<close> The transport of chain reads (gRPC, failover, the version cache, paging), transaction
  building and signing; key storage, Seal and Walrus clients, OCI and firmware images; the process supervisor
  and its cgroups; sockets, TLS, MQTT and the gateways of client devices; telemetry, log shipping and the
  support console; parsing of the configuration file; the Windows runtime; the indexer, contracts, web
  application and scripts. They are I/O around libraries, or keep state that no modelled part reads; where a
  modelled part calls them, the environment answers.
\<close>

end
